(* ===== verification/Prelude.thy ===== *)
theory Prelude
  imports Main "HOL-Library.Word" "HOL-Library.Multiset" "HOL-Library.Signed_Division"
begin

text \<open>
  Shared vocabulary of the development: the machine types of the Go source, the
  collections of simplification rules the component theories fill, and the generic facts
  on lists and words that several components use.

  Go's \<^verbatim>\<open>int\<close> and \<^verbatim>\<open>int64\<close> are 64-bit two's complement values, \<^verbatim>\<open>int32\<close> a 32-bit one. Where
  a value is a bit field or a hash it is kept as a machine word; where it is a count, an
  index or a duration far below the width it is an \<open>int\<close> or \<open>nat\<close>, and the bound that
  excludes overflow is proved beside the definition. Go's \<^verbatim>\<open>/\<close> and \<^verbatim>\<open>%\<close> truncate towards
  zero; they are \<open>sdiv\<close> and \<open>smod\<close>.
\<close>

unbundle bit_operations_syntax

type_synonym int32 = "32 word"
type_synonym int64 = "64 word"
type_synonym uint64 = "64 word"

named_theorems lc_simps \<open>lifecycle bits of a connection state word\<close>
named_theorems pool_simps \<open>effect of the pool primitives on the pool's lists\<close>
named_theorems conn_simps \<open>effect of the connection primitives on a connection's fields\<close>
named_theorems mask_simps \<open>numeral masks of the source as bit masks\<close>

section \<open>Words\<close>

lemma signed_shift_mask:
  fixes w :: "'a::len word"
  assumes "k + n \<le> LENGTH('a)"
  shows "signed_drop_bit k w AND mask n = drop_bit k w AND mask n"
  using assms by (intro bit_word_eqI) (auto simp: bit_simps)

lemma and_mask_idem [simp]: "(w AND mask n) AND mask n = w AND mask n" for w :: "'a::len word"
  by (simp add: and.assoc)

section \<open>Lists\<close>

text \<open>\<open>swap_nth xs i j\<close> is Go's \<^verbatim>\<open>xs[i], xs[j] = xs[j], xs[i]\<close> for indices in range.\<close>

definition swap_nth :: "'a list \<Rightarrow> nat \<Rightarrow> nat \<Rightarrow> 'a list" where
  "swap_nth xs i j = xs[i := xs ! j, j := xs ! i]"

lemma length_swap_nth [simp]: "length (swap_nth xs i j) = length xs"
  by (simp add: swap_nth_def)

lemma mset_swap_nth [simp]:
  "i < length xs \<Longrightarrow> j < length xs \<Longrightarrow> mset (swap_nth xs i j) = mset xs"
  by (simp add: swap_nth_def mset_swap)

lemma set_swap_nth [simp]:
  "i < length xs \<Longrightarrow> j < length xs \<Longrightarrow> set (swap_nth xs i j) = set xs"
  by (metis mset_swap_nth set_mset_mset)

lemma take_swap_nth [simp]:
  "i < n \<Longrightarrow> j < n \<Longrightarrow> n \<le> length xs \<Longrightarrow> take n (swap_nth xs i j) = swap_nth (take n xs) i j"
  by (simp add: swap_nth_def take_update_swap)

lemma drop_swap_nth [simp]:
  "i < n \<Longrightarrow> j < n \<Longrightarrow> drop n (swap_nth xs i j) = drop n xs"
  by (simp add: swap_nth_def)

text \<open>
  \<^verbatim>\<open>rand.Shuffle(n, swap)\<close>: the Fisher--Yates shuffle, which for \<open>i\<close> from \<open>n - 1\<close> down
  to \<open>1\<close> swaps position \<open>i\<close> with a random position \<open>j \<le> i\<close>. The random source is an
  argument: \<open>rnd i\<close> is the number drawn at step \<open>i\<close>, reduced to the range \<open>[0, i]\<close>.
\<close>

fun rand_shuffle :: "(nat \<Rightarrow> nat) \<Rightarrow> nat \<Rightarrow> 'a list \<Rightarrow> 'a list" where
  "rand_shuffle rnd 0 xs = xs"
| "rand_shuffle rnd (Suc 0) xs = xs"
| "rand_shuffle rnd (Suc (Suc i)) xs =
     rand_shuffle rnd (Suc i) (swap_nth xs (Suc i) (rnd (Suc i) mod Suc (Suc i)))"

lemma length_rand_shuffle [simp]: "length (rand_shuffle rnd n xs) = length xs"
  by (induction rnd n xs rule: rand_shuffle.induct) auto

lemma mset_rand_shuffle:
  "n \<le> length xs \<Longrightarrow> mset (rand_shuffle rnd n xs) = mset xs"
proof (induction rnd n xs rule: rand_shuffle.induct)
  case (3 rnd i xs)
  have "rnd (Suc i) mod Suc (Suc i) < length xs"
    using "3.prems" by (meson less_le_trans mod_less_divisor zero_less_Suc)
  with 3 show ?case by simp
qed auto

lemma drop_rand_shuffle:
  "n \<le> m \<Longrightarrow> drop m (rand_shuffle rnd n xs) = drop m xs"
proof (induction rnd n xs rule: rand_shuffle.induct)
  case (3 rnd i xs)
  have "rnd (Suc i) mod Suc (Suc i) < m"
    using "3.prems" by (meson less_le_trans mod_less_divisor zero_less_Suc)
  with 3 show ?case by simp
qed auto

lemma mset_take_rand_shuffle:
  assumes "n \<le> m" "m \<le> length xs"
  shows "mset (take m (rand_shuffle rnd n xs)) = mset (take m xs)"
proof -
  have "mset (take m ys) + mset (drop m ys) = mset ys" for ys :: "'a list"
    by (metis append_take_drop_id mset_append)
  then have "mset (take m (rand_shuffle rnd n xs)) + mset (drop m xs) = mset (take m xs) + mset (drop m xs)"
    using assms by (metis drop_rand_shuffle le_trans mset_rand_shuffle)
  then show ?thesis by simp
qed

lemma set_rand_shuffle [simp]:
  "n \<le> length xs \<Longrightarrow> set (rand_shuffle rnd n xs) = set xs"
  by (metis mset_rand_shuffle set_mset_mset)

lemma set_take_rand_shuffle [simp]:
  "n \<le> m \<Longrightarrow> m \<le> length xs \<Longrightarrow> set (take m (rand_shuffle rnd n xs)) = set (take m xs)"
  by (metis mset_take_rand_shuffle set_mset_mset)

end
