(* ===== verification/Atomic_Cell.thy ===== *)
theory Atomic_Cell
  imports Prelude
begin

text \<open>
  Atomic words updated by compare-and-swap loops. The Go source updates
  \<^verbatim>\<open>Connection.state\<close>, \<^verbatim>\<open>drainingQuiescingRemaining\<close>, \<^verbatim>\<open>policyState\<close> and the decay counters
  with one idiom: load, compute a new value, \<^verbatim>\<open>CompareAndSwap\<close>, and start again when the swap
  fails. This theory models the idiom once, with the updates of the other goroutines as an
  explicit list of functions on the cell, and proves that such a loop is linearizable: it
  behaves as one atomic step at some point of the interleaving. The locale \<open>cas_loop\<close> is
  the interface a component interprets to carry an invariant of the cell through the loop.
\<close>

type_synonym 'm interference = "('m \<Rightarrow> 'm) list"

definition interfere :: "'m interference \<Rightarrow> 'm \<Rightarrow> 'm interference \<times> 'm" where
  "interfere env mem = (case env of [] \<Rightarrow> ([], mem) | f # fs \<Rightarrow> (fs, f mem))"

text \<open>
  \<open>cas_retry body env mem\<close>: \<open>body\<close> maps the loaded value to the result and, unless the loop
  returns without writing, the value to store.
\<close>

function cas_retry :: "('m \<Rightarrow> 'r \<times> 'm option) \<Rightarrow> 'm interference \<Rightarrow> 'm \<Rightarrow> 'r \<times> 'm" where
  "cas_retry body env mem =
     (case body mem of
        (r, None) \<Rightarrow> (r, mem)
      | (r, Some target) \<Rightarrow>
          (case env of
             [] \<Rightarrow> (r, target)
           | f # fs \<Rightarrow>
               if f mem = mem then (r, target)
               else let (env2, mem2) = interfere fs (f mem) in cas_retry body env2 mem2))"
  by pat_completeness auto
termination
  by (relation "measure (\<lambda>(body, env, mem). length env)")
    (auto simp: interfere_def split: list.splits)

declare cas_retry.simps [simp del]

lemma interfere_simps [simp]:
  "interfere [] mem = ([], mem)" "interfere (f # fs) mem = (fs, f mem)"
  by (simp_all add: interfere_def)

text \<open>The value of the cell after the first \<open>k\<close> updates of the environment.\<close>

definition env_prefix :: "'m interference \<Rightarrow> 'm \<Rightarrow> nat \<Rightarrow> 'm" where
  "env_prefix env mem k = fold (\<lambda>f m. f m) (take k env) mem"

lemma env_prefix_0 [simp]: "env_prefix env mem 0 = mem"
  by (simp add: env_prefix_def)

lemma env_prefix_Cons [simp]: "env_prefix (f # fs) mem (Suc k) = env_prefix fs (f mem) k"
  by (simp add: env_prefix_def)

lemma env_prefix_add:
  "env_prefix (drop k env) (env_prefix env mem k) j = env_prefix env mem (k + j)"
  by (simp add: env_prefix_def take_add)

lemma interfere_prefix:
  "interfere env mem = (env1, mem1) \<Longrightarrow> \<exists>k. mem1 = env_prefix env mem k \<and> env1 = drop k env"
  by (cases env) (auto intro: exI [of _ 0] exI [of _ "Suc 0"])

text \<open>With no interference a loop is its body.\<close>

lemma cas_retry_alone:
  "cas_retry body [] mem = (case body mem of (r, None) \<Rightarrow> (r, mem) | (r, Some t) \<Rightarrow> (r, t))"
  by (simp add: cas_retry.simps split: prod.splits option.splits)

lemma cas_retry_linearizable:
  "\<exists>k. cas_retry body env mem = cas_retry body [] (env_prefix env mem k)"
proof (induction body env mem rule: cas_retry.induct)
  case (1 body env mem)
  show ?case
  proof (cases "\<exists>r t f fs. body mem = (r, Some t) \<and> env = f # fs \<and> f mem \<noteq> mem")
    case False
    then have "cas_retry body env mem = cas_retry body [] (env_prefix env mem 0)"
      by (auto simp: cas_retry.simps [of body env] cas_retry.simps [of body "[]"]
          split: prod.splits option.splits list.splits)
    then show ?thesis by blast
  next
    case True
    then obtain r t f fs where b: "body mem = (r, Some t)" and e: "env = f # fs" and n: "f mem \<noteq> mem"
      by blast
    obtain env2 mem2 where i: "interfere fs (f mem) = (env2, mem2)" by fastforce
    obtain k where k: "mem2 = env_prefix fs (f mem) k" "env2 = drop k fs"
      using interfere_prefix [OF i] by blast
    obtain j where "cas_retry body env2 mem2 = cas_retry body [] (env_prefix env2 mem2 j)"
      using "1.IH" b e n i by fastforce
    moreover have "env_prefix env2 mem2 j = env_prefix env mem (Suc (k + j))"
      using k e by (simp add: env_prefix_add)
    moreover have "cas_retry body env mem = cas_retry body env2 mem2"
      using b e n i by (simp add: cas_retry.simps [of body "f # fs"])
    ultimately show ?thesis by metis
  qed
qed

section \<open>Invariants of a cell\<close>

definition env_keeps :: "('m \<Rightarrow> bool) \<Rightarrow> 'm interference \<Rightarrow> bool" where
  "env_keeps I env \<longleftrightarrow> (\<forall>f \<in> set env. \<forall>m. I m \<longrightarrow> I (f m))"

lemma env_prefix_keeps: "env_keeps I env \<Longrightarrow> I mem \<Longrightarrow> I (env_prefix env mem k)"
proof (induction env arbitrary: mem k)
  case Nil
  then show ?case by (simp add: env_prefix_def)
next
  case (Cons f fs)
  then show ?case by (cases k) (auto simp: env_keeps_def)
qed

locale cas_loop =
  fixes body :: "'m \<Rightarrow> 'r \<times> 'm option" and inv :: "'m \<Rightarrow> bool"
  assumes body_inv: "inv m \<Longrightarrow> body m = (r, Some t) \<Longrightarrow> inv t"
begin

lemma run_alone_inv: "inv m \<Longrightarrow> inv (snd (cas_retry body [] m))"
  by (auto simp: cas_retry_alone body_inv split: prod.splits option.splits)

lemma run_inv:
  assumes "inv mem" "env_keeps inv env"
  shows "inv (snd (cas_retry body env mem))"
proof -
  obtain k where "cas_retry body env mem = cas_retry body [] (env_prefix env mem k)"
    using cas_retry_linearizable [of body env mem] by blast
  then show ?thesis using assms by (simp add: run_alone_inv env_prefix_keeps)
qed

end

end
