(* ===== verification/Conn_State.thy ===== *)
theory Conn_State
  imports Atomic_Cell
begin

text \<open>
  The packed connection state of \<^verbatim>\<open>src/opensearchtransport/connection_lifecycle.go\<close>: the
  13 lifecycle bits, the two warmup managers of the lower 51 bits, the packing functions,
  and the compare-and-swap loop \<^verbatim>\<open>casLifecycle\<close> with the interference of the goroutines
  that update the same word. The lemmas show that packing and unpacking are inverse, what
  each update keeps, and which of the two errors of \<^verbatim>\<open>casLifecycle\<close> is possible when.
\<close>

type_synonym connLifecycle = int64
type_synonym warmupManager = int32
type_synonym connState = int64

section \<open>Lifecycle bits\<close>

definition lcReady :: connLifecycle where "lcReady = 0x01"
definition lcUnknown :: connLifecycle where "lcUnknown = 0x02"
definition lcActive :: connLifecycle where "lcActive = 0x04"
definition lcStandby :: connLifecycle where "lcStandby = 0x08"
definition lcNeedsWarmup :: connLifecycle where "lcNeedsWarmup = 0x0010"
definition lcOverloaded :: connLifecycle where "lcOverloaded = 0x0020"
definition lcHealthChecking :: connLifecycle where "lcHealthChecking = 0x0040"
definition lcDraining :: connLifecycle where "lcDraining = 0x0080"
definition lcNeedsHardware :: connLifecycle where "lcNeedsHardware = 0x0100"
definition lcNeedsCatUpdate :: connLifecycle where "lcNeedsCatUpdate = 0x0200"
definition lcClusterHealthProbed :: connLifecycle where "lcClusterHealthProbed = 0x0400"
definition lcClusterHealthAvailable :: connLifecycle where "lcClusterHealthAvailable = 0x0800"
definition lcViable :: connLifecycle where "lcViable = 0x1000"
definition lcDead :: connLifecycle where "lcDead = lcUnknown"

text \<open>\<^verbatim>\<open>has\<close> and \<^verbatim>\<open>hasAny\<close> of \<^verbatim>\<open>connLifecycle\<close>.\<close>

definition lc_has :: "connLifecycle \<Rightarrow> connLifecycle \<Rightarrow> bool" where
  "lc_has lc flags \<longleftrightarrow> lc AND flags = flags"

definition lc_hasAny :: "connLifecycle \<Rightarrow> connLifecycle \<Rightarrow> bool" where
  "lc_hasAny lc flags \<longleftrightarrow> lc AND flags \<noteq> 0"

lemmas lc_consts = lcReady_def lcUnknown_def lcActive_def lcStandby_def lcNeedsWarmup_def
  lcOverloaded_def lcHealthChecking_def lcDraining_def lcNeedsHardware_def lcNeedsCatUpdate_def
  lcClusterHealthProbed_def lcClusterHealthAvailable_def lcViable_def lcDead_def

text \<open>Every flag is one bit; a flag test is a bit test.\<close>

lemma flag_bits [lc_simps]:
  "lcReady = push_bit 0 1" "lcUnknown = push_bit 1 1" "lcActive = push_bit 2 1"
  "lcStandby = push_bit 3 1" "lcNeedsWarmup = push_bit 4 1" "lcOverloaded = push_bit 5 1"
  "lcHealthChecking = push_bit 6 1" "lcDraining = push_bit 7 1" "lcNeedsHardware = push_bit 8 1"
  "lcNeedsCatUpdate = push_bit 9 1" "lcClusterHealthProbed = push_bit 10 1"
  "lcClusterHealthAvailable = push_bit 11 1" "lcViable = push_bit 12 1" "lcDead = push_bit 1 1"
  by (simp_all add: lc_consts)

lemma and_single_bit:
  fixes w :: "'a::len word"
  assumes "n < LENGTH('a)"
  shows "w AND push_bit n 1 = (if bit w n then push_bit n 1 else 0)"
  using assms by (intro bit_word_eqI) (auto simp: bit_simps)

lemma bit_single: "k < 64 \<Longrightarrow> bit (push_bit k 1 :: 64 word) n \<longleftrightarrow> n = k"
  by (auto simp: bit_simps)

lemma bit_flags [lc_simps]:
  "bit lcReady n \<longleftrightarrow> n = 0" "bit lcUnknown n \<longleftrightarrow> n = 1" "bit lcActive n \<longleftrightarrow> n = 2"
  "bit lcStandby n \<longleftrightarrow> n = 3" "bit lcNeedsWarmup n \<longleftrightarrow> n = 4" "bit lcOverloaded n \<longleftrightarrow> n = 5"
  "bit lcHealthChecking n \<longleftrightarrow> n = 6" "bit lcDraining n \<longleftrightarrow> n = 7" "bit lcNeedsHardware n \<longleftrightarrow> n = 8"
  "bit lcNeedsCatUpdate n \<longleftrightarrow> n = 9" "bit lcClusterHealthProbed n \<longleftrightarrow> n = 10"
  "bit lcClusterHealthAvailable n \<longleftrightarrow> n = 11" "bit lcViable n \<longleftrightarrow> n = 12" "bit lcDead n \<longleftrightarrow> n = 1"
  unfolding flag_bits by (rule bit_single, simp)+

lemma single_bit_nonzero:
  assumes "n < LENGTH('a)"
  shows "(push_bit n 1 :: 'a::len word) \<noteq> 0"
  using assms by simp

lemma lc_has_bit: "n < 64 \<Longrightarrow> lc_has lc (push_bit n 1) = bit lc n"
  using and_single_bit [of n lc] single_bit_nonzero [of n, where 'a = 64]
  by (simp add: lc_has_def)

lemma lc_hasAny_bit: "n < 64 \<Longrightarrow> lc_hasAny lc (push_bit n 1) = bit lc n"
  using and_single_bit [of n lc] single_bit_nonzero [of n, where 'a = 64]
  by (simp add: lc_hasAny_def)

lemma lc_hasAny_or: "lc_hasAny lc (a OR b) = (lc_hasAny lc a \<or> lc_hasAny lc b)"
  by (auto simp: lc_hasAny_def bit.conj_disj_distrib or_eq_0_iff)

lemma lc_has_flags [simp]:
  "lc_has lc lcReady = bit lc 0" "lc_has lc lcUnknown = bit lc 1" "lc_has lc lcActive = bit lc 2"
  "lc_has lc lcStandby = bit lc 3" "lc_has lc lcNeedsWarmup = bit lc 4"
  "lc_has lc lcOverloaded = bit lc 5" "lc_has lc lcHealthChecking = bit lc 6"
  "lc_has lc lcDraining = bit lc 7" "lc_has lc lcNeedsHardware = bit lc 8"
  "lc_has lc lcNeedsCatUpdate = bit lc 9" "lc_has lc lcClusterHealthProbed = bit lc 10"
  "lc_has lc lcClusterHealthAvailable = bit lc 11" "lc_has lc lcViable = bit lc 12"
  "lc_has lc lcDead = bit lc 1"
  unfolding flag_bits by (simp_all only: lc_has_bit)

lemma lc_hasAny_flags [simp]:
  "lc_hasAny lc lcUnknown = bit lc 1" "lc_hasAny lc lcActive = bit lc 2"
  "lc_hasAny lc lcStandby = bit lc 3" "lc_hasAny lc lcOverloaded = bit lc 5"
  "lc_hasAny lc lcHealthChecking = bit lc 6"
  unfolding flag_bits by (simp_all only: lc_hasAny_bit)

section \<open>Warmup manager\<close>

definition packWarmupManager :: "int \<Rightarrow> int \<Rightarrow> warmupManager" where
  "packWarmupManager rounds skipCount =
     push_bit 8 (word_of_int rounds AND 0xFF) OR (word_of_int skipCount AND 0xFF)"

definition wm_rounds :: "warmupManager \<Rightarrow> int" where
  "wm_rounds wm = sint (signed_drop_bit 8 wm AND 0xFF)"

definition wm_skipCount :: "warmupManager \<Rightarrow> int" where
  "wm_skipCount wm = sint (wm AND 0xFF)"

definition wm_isZero :: "warmupManager \<Rightarrow> bool" where
  "wm_isZero wm \<longleftrightarrow> wm = 0"

definition wm_withRounds :: "warmupManager \<Rightarrow> int \<Rightarrow> warmupManager" where
  "wm_withRounds wm rounds = push_bit 8 (word_of_int rounds AND 0xFF) OR (wm AND 0xFF)"

definition wm_withSkipCount :: "warmupManager \<Rightarrow> int \<Rightarrow> warmupManager" where
  "wm_withSkipCount wm skipCount =
     push_bit 8 (signed_drop_bit 8 wm AND 0xFF) OR (word_of_int skipCount AND 0xFF)"

section \<open>Packed state word\<close>

definition newConnState :: "connLifecycle \<Rightarrow> connState" where
  "newConnState lc = push_bit 51 (lc AND 0x1FFF)"

definition packConnState :: "connLifecycle \<Rightarrow> warmupManager \<Rightarrow> warmupManager \<Rightarrow> connState" where
  "packConnState lc lcMgr rdMgr =
     push_bit 51 (lc AND 0x1FFF)
     OR push_bit 26 (scast (lcMgr AND 0x01FFFFFF))
     OR push_bit 0 (scast (rdMgr AND 0x03FFFFFF))"

definition lifecycle :: "connState \<Rightarrow> connLifecycle" where
  "lifecycle s = signed_drop_bit 51 s AND 0x1FFF"

definition lifecycleManager :: "connState \<Rightarrow> warmupManager" where
  "lifecycleManager s = ucast (signed_drop_bit 26 s AND 0x01FFFFFF)"

definition roundManager :: "connState \<Rightarrow> warmupManager" where
  "roundManager s = ucast (signed_drop_bit 0 s AND 0x03FFFFFF)"

definition withLifecycle :: "connState \<Rightarrow> connLifecycle \<Rightarrow> connState" where
  "withLifecycle s lc = push_bit 51 (lc AND 0x1FFF) OR (s AND (push_bit 51 1 - 1))"

definition withManagers :: "connState \<Rightarrow> warmupManager \<Rightarrow> warmupManager \<Rightarrow> connState" where
  "withManagers s lcMgr rdMgr = packConnState (lifecycle s) lcMgr rdMgr"

definition isWarmingUp :: "connState \<Rightarrow> bool" where
  "isWarmingUp s \<longleftrightarrow> lifecycleManager s \<noteq> 0"

definition warmupState :: "connLifecycle \<Rightarrow> int \<Rightarrow> int \<Rightarrow> connState" where
  "warmupState lc maxRounds maxSkipCount =
     (let lcMgr = packWarmupManager maxRounds maxSkipCount;
          rdMgr = packWarmupManager maxRounds maxSkipCount
      in packConnState lc lcMgr rdMgr)"

lemma masks [mask_simps]:
  "(0x1FFF :: 64 word) = mask 13" "(0x01FFFFFF :: 64 word) = mask 25"
  "(0x03FFFFFF :: 64 word) = mask 26" "(0x01FFFFFF :: 32 word) = mask 25"
  "(0x03FFFFFF :: 32 word) = mask 26" "(0xFF :: 32 word) = mask 8"
  "(push_bit 51 1 - 1 :: 64 word) = mask 51"
  by (simp_all add: mask_eq_exp_minus_1)

lemmas state_defs = lifecycle_def lifecycleManager_def roundManager_def withLifecycle_def
  packConnState_def newConnState_def

lemma lifecycle_withLifecycle [lc_simps]: "lifecycle (withLifecycle s lc) = lc AND mask 13"
  unfolding state_defs masks by (rule bit_word_eqI) (auto simp: bit_simps)

lemma lifecycleManager_withLifecycle [simp]:
  "lifecycleManager (withLifecycle s lc) = lifecycleManager s"
  unfolding state_defs masks by (rule bit_word_eqI) (auto simp: bit_simps)

lemma roundManager_withLifecycle [simp]: "roundManager (withLifecycle s lc) = roundManager s"
  unfolding state_defs masks by (rule bit_word_eqI) (auto simp: bit_simps)

lemma lifecycle_packConnState [lc_simps]: "lifecycle (packConnState lc a b) = lc AND mask 13"
  unfolding state_defs masks by (rule bit_word_eqI) (auto simp: bit_simps)

lemma lifecycleManager_packConnState [simp]:
  "lifecycleManager (packConnState lc a b) = a AND mask 25"
  unfolding state_defs masks by (rule bit_word_eqI) (auto simp: bit_simps)

lemma roundManager_packConnState [simp]: "roundManager (packConnState lc a b) = b AND mask 26"
  unfolding state_defs masks by (rule bit_word_eqI) (auto simp: bit_simps)

lemma newConnState_pack: "newConnState lc = packConnState lc 0 0"
  by (simp add: newConnState_def packConnState_def)

lemma lifecycle_newConnState [lc_simps]: "lifecycle (newConnState lc) = lc AND mask 13"
  by (simp add: newConnState_pack lifecycle_packConnState)

lemma lifecycleManager_newConnState [simp]: "lifecycleManager (newConnState lc) = 0"
  by (simp add: newConnState_pack)

lemma lifecycle_mask [simp]: "lifecycle s AND mask 13 = lifecycle s"
  by (simp add: lifecycle_def masks)

lemma lifecycle_high_bits [simp]: "13 \<le> n \<Longrightarrow> \<not> bit (lifecycle s) n"
  by (simp add: lifecycle_def masks bit_simps)

lemma lifecycleManager_mask [simp]: "lifecycleManager s AND mask 25 = lifecycleManager s"
  unfolding state_defs masks by (rule bit_word_eqI) (auto simp: bit_simps)

lemma roundManager_mask [simp]: "roundManager s AND mask 26 = roundManager s"
  unfolding state_defs masks by (rule bit_word_eqI) (auto simp: bit_simps)

lemma bit_lifecycle: "bit (lifecycle s) n \<longleftrightarrow> n < 13 \<and> bit s (n + 51)"
  by (auto simp: lifecycle_def masks bit_simps min_def add.commute)

lemma bit_lifecycleManager: "bit (lifecycleManager s) n \<longleftrightarrow> n < 25 \<and> bit s (n + 26)"
  by (auto simp: lifecycleManager_def masks bit_simps min_def add.commute)

lemma bit_roundManager: "bit (roundManager s) n \<longleftrightarrow> n < 26 \<and> bit s n"
  by (auto simp: roundManager_def masks bit_simps min_def)

lemma connState_eqI:
  assumes "lifecycle s = lifecycle t" "lifecycleManager s = lifecycleManager t"
    and "roundManager s = roundManager t"
  shows "s = t"
proof (rule bit_word_eqI)
  fix n :: nat assume n: "n < LENGTH(64)"
  consider "n < 26" | m where "n = m + 26" "m < 25" | m where "n = m + 51" "m < 13"
  proof -
    have "n < 26 \<or> (\<exists>m. n = m + 26 \<and> m < 25) \<or> (\<exists>m. n = m + 51 \<and> m < 13)"
    proof (cases "n < 26 \<or> 51 \<le> n")
      case True
      then show ?thesis using n by (auto intro: exI [of _ "n - 51"])
    next
      case False
      then show ?thesis by (auto intro!: exI [of _ "n - 26"])
    qed
    then show ?thesis using that by blast
  qed
  then show "bit s n = bit t n"
  proof cases
    case 1
    then show ?thesis using bit_roundManager [of s n] bit_roundManager [of t n] assms(3) by simp
  next
    case (2 m)
    then show ?thesis
      using bit_lifecycleManager [of s m] bit_lifecycleManager [of t m] assms(2) by simp
  next
    case (3 m)
    then show ?thesis using bit_lifecycle [of s m] bit_lifecycle [of t m] assms(1) by simp
  qed
qed

lemma pack_unpack: "packConnState (lifecycle s) (lifecycleManager s) (roundManager s) = s"
  by (rule connState_eqI) (simp_all add: lifecycle_packConnState)

lemma withLifecycle_same [simp]: "withLifecycle s (lifecycle s) = s"
  by (rule connState_eqI) (simp_all add: lifecycle_withLifecycle)

lemma withLifecycle_twice [simp]:
  "withLifecycle (withLifecycle s a) b = withLifecycle s b"
  by (rule connState_eqI) (simp_all add: lifecycle_withLifecycle)

lemma isWarmingUp_withLifecycle [simp]: "isWarmingUp (withLifecycle s lc) = isWarmingUp s"
  by (simp add: isWarmingUp_def)

section \<open>Warmup manager fields\<close>

lemma sint_low_byte: "sint ((w::32 word) AND mask 8) = uint w mod 256"
proof -
  have "uint (take_bit 8 w) = take_bit 8 (uint w)" by (simp only: unsigned_take_bit_eq)
  also have "\<dots> = uint w mod 256" by (simp add: take_bit_eq_mod [of _ "uint w"])
  finally have "take_bit 8 w = word_of_int (uint w mod 256)" by (metis word_of_int_uint)
  moreover have "signed_take_bit 31 (uint w mod 256) = uint w mod 256"
    by (rule signed_take_bit_int_eq_self) (auto intro: less_le_trans [of _ 256] order_trans [of _ 0])
  ultimately show ?thesis by (simp add: take_bit_eq_mask [symmetric] sint_sbintrunc' del: take_bit_eq_mask)
qed

lemma sint_low_byte_of_int: "sint ((word_of_int i :: 32 word) AND mask 8) = i mod 256"
  unfolding sint_low_byte by (simp add: uint_word_of_int mod_mod_cancel)

lemma wm_rounds_range [simp]: "0 \<le> wm_rounds wm" "wm_rounds wm < 256"
  by (simp_all add: wm_rounds_def masks sint_low_byte)

lemma wm_skipCount_range [simp]: "0 \<le> wm_skipCount wm" "wm_skipCount wm < 256"
  by (simp_all add: wm_skipCount_def masks sint_low_byte)

lemma drop_push_or:
  fixes a b :: "32 word"
  shows "signed_drop_bit 8 (push_bit 8 (a AND mask 8) OR (b AND mask 8)) AND mask 8 = a AND mask 8"
    and "(push_bit 8 (a AND mask 8) OR (b AND mask 8)) AND mask 8 = b AND mask 8"
  by (rule bit_word_eqI; auto simp: bit_simps)+

lemma wm_rounds_pack [simp]: "wm_rounds (packWarmupManager r k) = r mod 256"
  unfolding wm_rounds_def packWarmupManager_def masks drop_push_or sint_low_byte_of_int ..

lemma wm_skipCount_pack [simp]: "wm_skipCount (packWarmupManager r k) = k mod 256"
  unfolding wm_skipCount_def packWarmupManager_def masks drop_push_or sint_low_byte_of_int ..

lemma wm_rounds_withSkipCount [simp]: "wm_rounds (wm_withSkipCount wm k) = wm_rounds wm"
  unfolding wm_rounds_def wm_withSkipCount_def masks drop_push_or ..

lemma wm_skipCount_withSkipCount [simp]: "wm_skipCount (wm_withSkipCount wm k) = k mod 256"
  unfolding wm_skipCount_def wm_withSkipCount_def masks drop_push_or sint_low_byte_of_int ..

lemma wm_rounds_withRounds [simp]: "wm_rounds (wm_withRounds wm r) = r mod 256"
  unfolding wm_rounds_def wm_withRounds_def masks drop_push_or sint_low_byte_of_int ..

lemma wm_skipCount_withRounds [simp]: "wm_skipCount (wm_withRounds wm r) = wm_skipCount wm"
  unfolding wm_skipCount_def wm_withRounds_def masks drop_push_or ..

lemma packWarmupManager_mask [simp]:
  "packWarmupManager r k AND mask 25 = packWarmupManager r k"
  "packWarmupManager r k AND mask 26 = packWarmupManager r k"
  "wm_withSkipCount wm k AND mask 26 = wm_withSkipCount wm k"
  unfolding packWarmupManager_def wm_withSkipCount_def masks
  by (rule bit_word_eqI; auto simp: bit_simps)+

lemma packWarmupManager_zero: "packWarmupManager r k = 0 \<longleftrightarrow> r mod 256 = 0 \<and> k mod 256 = 0"
proof
  assume *: "packWarmupManager r k = 0"
  have "wm_rounds (0 :: 32 word) = 0" "wm_skipCount (0 :: 32 word) = 0"
    by (simp_all add: wm_rounds_def wm_skipCount_def)
  then show "r mod 256 = 0 \<and> k mod 256 = 0" using * wm_rounds_pack [of r k] wm_skipCount_pack [of r k] by simp
next
  assume *: "r mod 256 = 0 \<and> k mod 256 = 0"
  then have "(word_of_int r :: 32 word) AND mask 8 = 0" "(word_of_int k :: 32 word) AND mask 8 = 0"
    using sint_low_byte_of_int [of r] sint_low_byte_of_int [of k] by (metis signed_eq_0_iff)+
  then show "packWarmupManager r k = 0" unfolding packWarmupManager_def masks by simp
qed

section \<open>The compare-and-swap loop\<close>

datatype lifecycle_error = errLifecycleConflict | errLifecycleNoop

text \<open>
  \<^verbatim>\<open>c.state\<close> is an \<^verbatim>\<open>atomic.Int64\<close> that other goroutines update between two accesses of the
  loop. Their updates are an explicit list of functions: one is applied before every
  compare-and-swap and one before every reload, until the list is exhausted. The loop returns its
  result, the value of the cell and the updates that have not happened yet, so that an update
  that was overwritten is visible: it is neither in the cell nor among the remaining ones.
\<close>

function casLoop :: "connLifecycle \<Rightarrow> connLifecycle \<Rightarrow> connLifecycle \<Rightarrow> connLifecycle \<Rightarrow>
    connState interference \<Rightarrow> connState \<Rightarrow> connState \<Rightarrow>
    (lifecycle_error + unit) \<times> connState \<times> connState interference" where
  "casLoop msk initialMasked st clr env raw mem =
     (let lc = lifecycle raw in
      if lc AND msk \<noteq> initialMasked then (Inl errLifecycleConflict, mem, env)
      else let nxt = (lc OR st) AND NOT clr in
      if nxt = lc then (Inl errLifecycleNoop, mem, env)
      else let target = withLifecycle raw nxt; (env1, mem1) = interfere env mem in
      if mem1 = raw then (Inr (), target, env1)
      else let (env2, mem2) = interfere env1 mem1 in
      casLoop msk initialMasked st clr env2 mem2 mem2)"
  by pat_completeness auto
termination
  by (relation "measure (\<lambda>(msk, im, st, clr, env, raw, mem). 2 * length env + (if mem = raw then 0 else 1))")
    (auto simp: interfere_def split: list.splits if_splits)

declare casLoop.simps [simp del]

definition casLifecycle_env :: "connState interference \<Rightarrow> connState \<Rightarrow> connLifecycle \<Rightarrow> connLifecycle \<Rightarrow>
    connLifecycle \<Rightarrow> connState \<Rightarrow> (lifecycle_error + unit) \<times> connState \<times> connState interference" where
  "casLifecycle_env env current conflict st clr mem =
     (let msk = conflict OR st OR clr;
          initialMasked = lifecycle current AND msk
      in casLoop msk initialMasked st clr env current mem)"

text \<open>The loop with no concurrent update, which is what a holder of \<^verbatim>\<open>c.mu\<close> expects to run.\<close>

definition casLifecycle :: "connState \<Rightarrow> connLifecycle \<Rightarrow> connLifecycle \<Rightarrow> connLifecycle \<Rightarrow>
    (lifecycle_error + unit) \<times> connState" where
  "casLifecycle mem conflict st clr =
     (let (r, out, rest) = casLifecycle_env [] mem conflict st clr mem in (r, out))"

definition setLifecycleBit :: "connState \<Rightarrow> connLifecycle \<Rightarrow> (lifecycle_error + unit) \<times> connState" where
  "setLifecycleBit mem b = casLifecycle mem 0 b 0"

definition clearLifecycleBit :: "connState \<Rightarrow> connLifecycle \<Rightarrow> (lifecycle_error + unit) \<times> connState" where
  "clearLifecycleBit mem b = casLifecycle mem 0 0 b"

definition isReady :: "connState \<Rightarrow> bool" where
  "isReady s = (let lc = lifecycle s in lc_has lc lcActive \<or> lc_has lc lcStandby)"

definition needsCatUpdate :: "connState \<Rightarrow> bool" where
  "needsCatUpdate s = lc_has (lifecycle s) lcNeedsCatUpdate"

definition setNeedsCatUpdate :: "connState \<Rightarrow> (lifecycle_error + unit) \<times> connState" where
  "setNeedsCatUpdate s = setLifecycleBit s lcNeedsCatUpdate"

definition clearNeedsCatUpdate :: "connState \<Rightarrow> (lifecycle_error + unit) \<times> connState" where
  "clearNeedsCatUpdate s = clearLifecycleBit s lcNeedsCatUpdate"

definition hasClusterHealth :: "connState \<Rightarrow> bool" where
  "hasClusterHealth s = (let lc = lifecycle s in
     lc_has lc lcClusterHealthProbed \<and> lc_has lc lcClusterHealthAvailable)"

definition clusterHealthPending :: "connState \<Rightarrow> bool" where
  "clusterHealthPending s = (let lc = lifecycle s in
     \<not> lc_has lc lcClusterHealthProbed \<and> \<not> lc_has lc lcClusterHealthAvailable)"

definition clusterHealthUnavailable :: "connState \<Rightarrow> bool" where
  "clusterHealthUnavailable s = (let lc = lifecycle s in
     lc_has lc lcClusterHealthProbed \<and> \<not> lc_has lc lcClusterHealthAvailable)"

text \<open>Without interference the loop runs once, and never reports a conflict.\<close>

lemma casLifecycle_eq:
  "casLifecycle s conflict st clr =
     (let nxt = (lifecycle s OR st) AND NOT clr in
      if nxt = lifecycle s then (Inl errLifecycleNoop, s) else (Inr (), withLifecycle s nxt))"
  by (simp add: casLifecycle_def casLifecycle_env_def casLoop.simps [of _ _ _ _ "[]" s s] Let_def)

text \<open>\<open>updLifecycle\<close> is the state a caller that ignores the error is left with.\<close>

abbreviation updLifecycle :: "connState \<Rightarrow> connLifecycle \<Rightarrow> connLifecycle \<Rightarrow> connState" where
  "updLifecycle s st clr \<equiv> snd (casLifecycle s 0 st clr)"

lemma bit_updLifecycle [lc_simps]:
  "bit (lifecycle (snd (casLifecycle s cf st clr))) n
     \<longleftrightarrow> n < 13 \<and> (bit (lifecycle s) n \<or> bit st n) \<and> \<not> bit clr n"
proof (cases "(lifecycle s OR st) AND NOT clr = lifecycle s")
  case True
  have "bit ((lifecycle s OR st) AND NOT clr) n = bit (lifecycle s) n" by (simp only: True)
  then have "bit (lifecycle s) n \<longleftrightarrow> n < 64 \<and> (bit (lifecycle s) n \<or> bit st n) \<and> \<not> bit clr n"
    by (simp only: bit_and_iff bit_or_iff bit_not_iff) (auto simp: bit_simps dest: bit_imp_le_length)
  with True show ?thesis by (cases "n < 13") (auto simp: casLifecycle_eq Let_def)
next
  case False
  then show ?thesis by (auto simp: casLifecycle_eq Let_def lifecycle_withLifecycle bit_simps)
qed

lemma managers_updLifecycle [simp]:
  "lifecycleManager (snd (casLifecycle s cf st clr)) = lifecycleManager s"
  "roundManager (snd (casLifecycle s cf st clr)) = roundManager s"
  "isWarmingUp (snd (casLifecycle s cf st clr)) = isWarmingUp s"
  by (simp_all add: casLifecycle_eq Let_def isWarmingUp_def)

text \<open>What one run of the loop does to a cell whose other updates are \<open>env\<close>: the first \<open>k\<close> of them
  happen, then the loop ends on the value \<open>v\<close> they leave, and the others are still to come.\<close>

definition cas_outcome :: "connLifecycle \<Rightarrow> connLifecycle \<Rightarrow> connLifecycle \<Rightarrow> connLifecycle \<Rightarrow> connState \<Rightarrow>
    lifecycle_error + unit \<Rightarrow> connState \<Rightarrow> bool" where
  "cas_outcome msk im st clr v r out = (case r of
     Inr u \<Rightarrow> lifecycle v AND msk = im \<and> (lifecycle v OR st) AND NOT clr \<noteq> lifecycle v
       \<and> out = withLifecycle v ((lifecycle v OR st) AND NOT clr)
   | Inl errLifecycleConflict \<Rightarrow> lifecycle v AND msk \<noteq> im \<and> out = v
   | Inl errLifecycleNoop \<Rightarrow> lifecycle v AND msk = im \<and> (lifecycle v OR st) AND NOT clr = lifecycle v \<and> out = v)"

lemma casLoop_outcome:
  assumes "casLoop msk im st clr env raw mem = (r, out, rest)" "raw = mem"
  shows "\<exists>k. rest = drop k env \<and> cas_outcome msk im st clr (env_prefix env mem k) r out"
  using assms
proof (induction msk im st clr env raw mem rule: casLoop.induct)
  case (1 msk im st clr env raw mem)
  obtain env1 mem1 where i1: "interfere env mem = (env1, mem1)" by fastforce
  obtain env2 mem2 where i2: "interfere env1 mem1 = (env2, mem2)" by fastforce
  obtain k1 where k1: "mem1 = env_prefix env mem k1" "env1 = drop k1 env"
    using interfere_prefix [OF i1] by blast
  obtain k2 where k2: "mem2 = env_prefix env1 mem1 k2" "env2 = drop k2 env1"
    using interfere_prefix [OF i2] by blast
  have k12: "mem2 = env_prefix env mem (k1 + k2)" "env2 = drop (k1 + k2) env"
    using k1 k2 by (simp_all add: env_prefix_add add.commute)
  let ?lc = "lifecycle raw"
  consider (stop) "?lc AND msk \<noteq> im \<or> (?lc OR st) AND NOT clr = ?lc"
    | (cas) "?lc AND msk = im" "(?lc OR st) AND NOT clr \<noteq> ?lc" "mem1 = raw"
    | (again) "?lc AND msk = im" "(?lc OR st) AND NOT clr \<noteq> ?lc" "mem1 \<noteq> raw" by blast
  then show ?case
  proof cases
    case stop
    with "1.prems" show ?thesis
      by (intro exI [of _ 0])
        (auto simp: casLoop.simps [of _ _ _ _ env mem mem] cas_outcome_def Let_def split: if_splits)
  next
    case cas
    with "1.prems" i1 k1 show ?thesis
      by (intro exI [of _ k1]) (auto simp: casLoop.simps [of _ _ _ _ env mem mem] cas_outcome_def Let_def)
  next
    case again
    with "1.prems" i1 i2 have "casLoop msk im st clr env2 mem2 mem2 = (r, out, rest)"
      by (simp add: casLoop.simps [of _ _ _ _ env mem mem] Let_def)
    with "1.IH" [OF refl _ refl _ refl i1 [symmetric] refl _ i2 [symmetric] refl] again
    obtain k where "rest = drop k env2" "cas_outcome msk im st clr (env_prefix env2 mem2 k) r out" by blast
    then show ?thesis using k12 by (intro exI [of _ "k1 + k2 + k"]) (simp add: env_prefix_add add.commute)
  qed
qed

definition keeps_lifecycle :: "connState interference \<Rightarrow> bool" where
  "keeps_lifecycle env \<longleftrightarrow> (\<forall>f \<in> set env. \<forall>s. lifecycle (f s) = lifecycle s)"

lemma interfere_keeps:
  "keeps_lifecycle env \<Longrightarrow> interfere env mem = (env1, mem1) \<Longrightarrow>
     keeps_lifecycle env1 \<and> lifecycle mem1 = lifecycle mem"
  by (cases env) (auto simp: keeps_lifecycle_def)

lemma casLoop_keeps_lifecycle:
  assumes "keeps_lifecycle env" "lifecycle mem = lifecycle raw" "lifecycle raw AND msk = im"
  shows "(fst (casLoop msk im st clr env raw mem), lifecycle (fst (snd (casLoop msk im st clr env raw mem))))
       = (let nxt = (lifecycle raw OR st) AND NOT clr in
          if nxt = lifecycle raw then (Inl errLifecycleNoop, lifecycle raw) else (Inr (), nxt AND mask 13))"
  using assms
proof (induction msk im st clr env raw mem rule: casLoop.induct)
  case (1 msk im st clr env raw mem)
  obtain env1 mem1 where i1: "interfere env mem = (env1, mem1)" by fastforce
  obtain env2 mem2 where i2: "interfere env1 mem1 = (env2, mem2)" by fastforce
  have k1: "keeps_lifecycle env1" "lifecycle mem1 = lifecycle mem"
    using interfere_keeps [OF "1.prems"(1) i1] by auto
  have k2: "keeps_lifecycle env2" "lifecycle mem2 = lifecycle mem1"
    using interfere_keeps [OF k1(1) i2] by auto
  show ?case
  proof (cases "(lifecycle raw OR st) AND NOT clr = lifecycle raw \<or> mem1 = raw")
    case True
    with "1.prems" i1 show ?thesis
      by (auto simp: casLoop.simps [of _ _ _ _ env raw mem] Let_def lifecycle_withLifecycle)
  next
    case False
    with "1.prems" i1 i2
    have step: "casLoop msk im st clr env raw mem = casLoop msk im st clr env2 mem2 mem2"
      by (simp add: casLoop.simps [of _ _ _ _ env raw mem] Let_def)
    show ?thesis unfolding step
      using "1.IH" [OF refl _ refl _ refl i1 [symmetric] refl _ i2 [symmetric] refl] False "1.prems" k1 k2
      by (simp add: Let_def)
  qed
qed

section \<open>Properties\<close>

text \<open>C35. Unpacking a packed state returns the lifecycle bits and the warmup parameters that were
  packed, for every value the fields can hold, and packing the parts of a state word gives the
  word back; replacing the lifecycle keeps both warmup managers.\<close>
theorem connState_roundtrip:
  assumes "0 \<le> r" "r < 256" "0 \<le> k" "k < 256" "0 \<le> r'" "r' < 256" "0 \<le> k'" "k' < 256"
  shows "(let s = packConnState lc (packWarmupManager r k) (packWarmupManager r' k') in
      lifecycle s = lc AND 0x1FFF
      \<and> wm_rounds (lifecycleManager s) = r \<and> wm_skipCount (lifecycleManager s) = k
      \<and> wm_rounds (roundManager s) = r' \<and> wm_skipCount (roundManager s) = k')
    \<and> packConnState (lifecycle t) (lifecycleManager t) (roundManager t) = t
    \<and> lifecycle (withLifecycle t lc) = lc AND 0x1FFF
    \<and> lifecycleManager (withLifecycle t lc) = lifecycleManager t
    \<and> roundManager (withLifecycle t lc) = roundManager t"
  using assms
  by (simp add: pack_unpack lifecycle_withLifecycle lifecycle_packConnState masks del: take_bit_eq_mask)

theorem connState_roundtrip_witness:
  "wm_rounds (roundManager (packConnState (lcActive OR lcReady) (packWarmupManager 16 32)
      (packWarmupManager 7 3))) = 7
   \<and> lifecycle (packConnState (lcActive OR lcReady) (packWarmupManager 16 32)
      (packWarmupManager 7 3)) = (lcActive OR lcReady) AND 0x1FFF"
  using connState_roundtrip [of 16 32 7 3 "lcActive OR lcReady" 0] by (simp add: Let_def)

text \<open>C4. \<^verbatim>\<open>casLifecycle\<close> is atomic under any concurrent updates of the cell. It always returns, and
  it ends right after the first \<open>k\<close> of the other updates, the rest still to come: with \<open>v\<close> the
  value they left in the cell, success means that the masked bits of \<open>v\<close> are the ones the caller
  saw and the cell is \<open>v\<close> with the requested bits set and cleared and its warmup managers kept, so
  that no other update is lost; a conflict means that the masked bits of \<open>v\<close> differ, a no-op that
  the bits of \<open>v\<close> are already as requested, and either leaves \<open>v\<close> in the cell.\<close>
theorem casLifecycle_atomic:
  "let (r, out, rest) = casLifecycle_env env cur conflict st clr cur; msk = conflict OR st OR clr in
   \<exists>k. rest = drop k env \<and>
     (let v = env_prefix env cur k; nxt = (lifecycle v OR st) AND NOT clr in
      case r of
        Inr u \<Rightarrow> lifecycle v AND msk = lifecycle cur AND msk \<and> nxt \<noteq> lifecycle v
          \<and> out = withLifecycle v nxt
          \<and> lifecycleManager out = lifecycleManager v \<and> roundManager out = roundManager v
      | Inl errLifecycleConflict \<Rightarrow> lifecycle v AND msk \<noteq> lifecycle cur AND msk \<and> out = v
      | Inl errLifecycleNoop \<Rightarrow> lifecycle v AND msk = lifecycle cur AND msk \<and> nxt = lifecycle v \<and> out = v)"
proof -
  obtain r out rest where e: "casLifecycle_env env cur conflict st clr cur = (r, out, rest)"
    by (cases "casLifecycle_env env cur conflict st clr cur")
  obtain k where "rest = drop k env"
    "cas_outcome (conflict OR st OR clr) (lifecycle cur AND (conflict OR st OR clr)) st clr (env_prefix env cur k) r out"
    using casLoop_outcome [OF e [unfolded casLifecycle_env_def Let_def] refl] by blast
  then show ?thesis
    by (auto simp: e Let_def cas_outcome_def split: sum.splits lifecycle_error.splits intro!: exI [of _ k])
qed

text \<open>With another goroutine setting \<open>lcViable\<close> in between, the loop retries and both updates are in
  the cell.\<close>
theorem casLifecycle_retry_example:
  "let (r, out, rest) = casLifecycle_env [\<lambda>m. withLifecycle m (lifecycle m OR lcViable)]
       (newConnState lcActive) 0 lcReady 0 (newConnState lcActive) in
   (r, out, length rest) = (Inr (), newConnState (lcActive OR lcViable OR lcReady), 0)"
  by code_simp

text \<open>When the other goroutines leave the lifecycle bits alone, which is what the connection's
  mutex is for, \<^verbatim>\<open>casLifecycle\<close> terminates without a conflict: it reports a no-op exactly when the
  bits are already as requested and otherwise sets and clears them.\<close>
theorem casLifecycle_under_lock:
  assumes "keeps_lifecycle env"
  shows "let (r, out, rest) = casLifecycle_env env cur conflict st clr cur;
             nxt = (lifecycle cur OR st) AND NOT clr in
      if nxt = lifecycle cur then r = Inl errLifecycleNoop \<and> lifecycle out = lifecycle cur
      else r = Inr () \<and> lifecycle out = nxt AND 0x1FFF"
  using casLoop_keeps_lifecycle [OF assms refl refl, of "conflict OR st OR clr" cur st clr]
  by (auto simp: casLifecycle_env_def Let_def masks split: prod.splits if_splits)

theorem casLifecycle_under_lock_witness:
  "fst (casLifecycle_env [\<lambda>m. withManagers m 0 0] (newConnState lcActive) 0 lcReady 0
      (newConnState lcActive)) = Inr ()"
proof -
  have "keeps_lifecycle [\<lambda>m. withManagers m 0 0]"
    by (simp add: keeps_lifecycle_def withManagers_def lifecycle_packConnState)
  moreover have "(lifecycle (newConnState lcActive) OR lcReady) AND NOT 0 \<noteq> lifecycle (newConnState lcActive)"
    by code_simp
  ultimately show ?thesis
    using casLifecycle_under_lock [of "[\<lambda>m. withManagers m 0 0]" "newConnState lcActive" 0 lcReady 0]
    by (auto simp: Let_def split: prod.splits)
qed

end
