(* ===== verification/Warmup.thy ===== *)
theory Warmup
  imports Conn_State
begin

text \<open>
  Connection warmup, \<^verbatim>\<open>src/opensearchtransport/connection_warmup.go\<close>: \<^verbatim>\<open>startWarmup\<close>,
  \<^verbatim>\<open>clearWarmup\<close>, the integer smoothstep curve and \<^verbatim>\<open>tryWarmupSkip\<close>. Each of the three
  operations is a compare-and-swap loop on the state word: a body that maps the loaded word to
  the result and the word to store, run by \<open>cas_retry\<close> under an explicit interference. The
  lemmas give the whole course of a warmup, the invariant the three loops keep whatever the
  other goroutines do within it, and the conflict a warmup's end causes in \<^verbatim>\<open>casLifecycle\<close>.
\<close>

section \<open>Definitions\<close>

datatype warmupResult = warmupSkipped | warmupAccepted | warmupInactive

definition startWarmup_body :: "int \<Rightarrow> int \<Rightarrow> connState \<Rightarrow> unit \<times> connState option" where
  "startWarmup_body maxRounds maxSkipCount cs =
     (let lcMgr = packWarmupManager maxRounds maxSkipCount;
          rdMgr = packWarmupManager maxRounds maxSkipCount
      in if \<not> lc_has (lifecycle cs) lcNeedsWarmup then ((), None)
         else if isWarmingUp cs then ((), None)
         else ((), Some (packConnState (lifecycle cs) lcMgr rdMgr)))"

definition startWarmup :: "int \<Rightarrow> int \<Rightarrow> connState interference \<Rightarrow> connState \<Rightarrow> connState" where
  "startWarmup maxRounds maxSkipCount env mem =
     snd (cas_retry (startWarmup_body maxRounds maxSkipCount) env mem)"

definition clearWarmup_body :: "connState \<Rightarrow> unit \<times> connState option" where
  "clearWarmup_body cs = ((), Some (newConnState (lifecycle cs)))"

definition clearWarmup :: "connState interference \<Rightarrow> connState \<Rightarrow> connState" where
  "clearWarmup env mem = snd (cas_retry clearWarmup_body env mem)"

definition smoothstepSkip :: "int \<Rightarrow> int \<Rightarrow> int \<Rightarrow> int" where
  "smoothstepSkip maxSkip maxRounds delta =
     (if maxRounds \<le> 0 then 0
      else let r3 = maxRounds * maxRounds * maxRounds;
               num = maxSkip * (r3 - 3 * delta * delta * maxRounds + 2 * delta * delta * delta);
               result = num sdiv r3
           in if result < 0 then 0 else result)"

definition tryWarmupSkip_body :: "connState \<Rightarrow> warmupResult \<times> connState option" where
  "tryWarmupSkip_body current =
     (let lcMgr = lifecycleManager current; rdMgr = roundManager current in
      if wm_isZero lcMgr then (warmupInactive, None)
      else let remSkip = wm_skipCount rdMgr in
      if remSkip > 0 then
        (warmupSkipped, Some (withManagers current lcMgr (wm_withSkipCount rdMgr (remSkip - 1))))
      else let newRounds = wm_rounds rdMgr - 1 in
      if newRounds \<le> 0 then
        (warmupAccepted, Some (newConnState ((lifecycle current AND NOT lcNeedsWarmup) OR lcReady)))
      else let delta = wm_rounds lcMgr - newRounds;
               newSkip = smoothstepSkip (wm_skipCount lcMgr) (wm_rounds lcMgr) delta
           in (warmupAccepted, Some (withManagers current lcMgr (packWarmupManager newRounds newSkip))))"

definition tryWarmupSkip :: "connState interference \<Rightarrow> connState \<Rightarrow> warmupResult \<times> connState" where
  "tryWarmupSkip env mem = cas_retry tryWarmupSkip_body env mem"

text \<open>\<open>n\<close> successive calls of \<^verbatim>\<open>tryWarmupSkip\<close>, with their results.\<close>

fun warmup_run :: "nat \<Rightarrow> connState \<Rightarrow> warmupResult list \<times> connState" where
  "warmup_run 0 s = ([], s)"
| "warmup_run (Suc n) s =
     (let (r, s1) = tryWarmupSkip [] s; (rs, s2) = warmup_run n s1 in (r # rs, s2))"

section \<open>The smoothstep curve\<close>

lemma smooth_factor:
  fixes R d :: int
  shows "R * R * R - 3 * d * d * R + 2 * d * d * d = (R - d) * (R - d) * (R + 2 * d)"
  by algebra

lemma sdiv_nonneg: "0 \<le> a \<Longrightarrow> 0 < b \<Longrightarrow> a sdiv b = a div b" for a b :: int
  by (cases "a = 0") (simp_all add: signed_divide_int_def)

lemma smooth_poly_nonneg:
  fixes R d :: int
  assumes "0 \<le> d" "d \<le> R"
  shows "0 \<le> R * R * R - 3 * d * d * R + 2 * d * d * d"
  unfolding smooth_factor using assms by (intro mult_nonneg_nonneg) auto

lemma smoothstepSkip_eq:
  assumes "0 < R" "0 \<le> d" "d \<le> R" "0 \<le> S"
  shows "smoothstepSkip S R d = S * (R * R * R - 3 * d * d * R + 2 * d * d * d) div (R * R * R)"
proof -
  have "0 \<le> S * (R * R * R - 3 * d * d * R + 2 * d * d * d)"
    using assms smooth_poly_nonneg [of d R] by simp
  moreover have "0 < R * R * R" using assms by simp
  ultimately show ?thesis using assms
    by (simp add: smoothstepSkip_def Let_def sdiv_nonneg pos_imp_zdiv_nonneg_iff not_less)
qed

lemma smooth_poly_antimono:
  fixes R d :: int
  assumes "0 \<le> d" "d + 1 \<le> R"
  shows "R * R * R - 3 * (d + 1) * (d + 1) * R + 2 * (d + 1) * (d + 1) * (d + 1)
       \<le> R * R * R - 3 * d * d * R + 2 * d * d * d"
proof -
  have "3 * (2 * d + 1) * (d + 1) \<le> 3 * (2 * d + 1) * R"
    using assms by (intro mult_left_mono) auto
  moreover have "2 * (3 * d * d + 3 * d + 1) \<le> 3 * (2 * d + 1) * (d + 1)"
    using assms by (simp add: algebra_simps)
  ultimately show ?thesis by (simp add: algebra_simps)
qed

lemma smoothstepSkip_Suc_le:
  assumes "0 < R" "0 \<le> d" "d + 1 \<le> R" "0 \<le> S"
  shows "smoothstepSkip S R (d + 1) \<le> smoothstepSkip S R d"
proof -
  have "S * (R * R * R - 3 * (d + 1) * (d + 1) * R + 2 * (d + 1) * (d + 1) * (d + 1))
      \<le> S * (R * R * R - 3 * d * d * R + 2 * d * d * d)"
    using smooth_poly_antimono [of d R] assms by (intro mult_left_mono) auto
  then show ?thesis using assms by (simp add: smoothstepSkip_eq zdiv_mono1)
qed

lemma smoothstepSkip_start: "0 < R \<Longrightarrow> 0 \<le> S \<Longrightarrow> smoothstepSkip S R 0 = S"
  by (simp add: smoothstepSkip_eq)

lemma smoothstepSkip_end: "0 < R \<Longrightarrow> 0 \<le> S \<Longrightarrow> smoothstepSkip S R R = 0"
  by (simp add: smoothstepSkip_eq)

lemma smoothstepSkip_le: 
  assumes "0 < R" "0 \<le> S" "0 \<le> d" "d \<le> R"
  shows "smoothstepSkip S R d \<le> S"
  using assms(3,4)
proof (induction d rule: int_ge_induct)
  case base
  then show ?case using assms by (simp add: smoothstepSkip_start)
next
  case (step i)
  then show ?case using smoothstepSkip_Suc_le [of R i S] assms by simp
qed

lemma smoothstepSkip_nonneg [simp]: "0 \<le> smoothstepSkip S R d"
  by (simp add: smoothstepSkip_def Let_def)

section \<open>A warmup, call by call\<close>

definition warm_at :: "connLifecycle \<Rightarrow> int \<Rightarrow> int \<Rightarrow> int \<Rightarrow> int \<Rightarrow> connState" where
  "warm_at lc R S r k = packConnState lc (packWarmupManager R S) (packWarmupManager r k)"

lemma warmupState_warm_at: "warmupState lc R S = warm_at lc R S R S"
  by (simp add: warmupState_def warm_at_def Let_def)

lemma pack_lifecycle_mask: "packConnState (lc AND mask 13) a b = packConnState lc a b"
  by (simp add: packConnState_def masks)

lemma withSkipCount_pack: "wm_withSkipCount (packWarmupManager r k) j = packWarmupManager r j"
  unfolding wm_withSkipCount_def packWarmupManager_def masks drop_push_or ..

lemma tryWarmupSkip_alone:
  "tryWarmupSkip [] s = (case tryWarmupSkip_body s of (r, None) \<Rightarrow> (r, s) | (r, Some t) \<Rightarrow> (r, t))"
  by (simp add: tryWarmupSkip_def cas_retry_alone)


lemma warm_at_skip:
  assumes "1 \<le> R" "R \<le> 255" "0 < k" "k \<le> 255"
  shows "tryWarmupSkip [] (warm_at lc R S r k) = (warmupSkipped, warm_at lc R S r (k - 1))"
  using assms
  by (simp add: tryWarmupSkip_alone tryWarmupSkip_body_def warm_at_def Let_def wm_isZero_def
      packWarmupManager_zero withManagers_def lifecycle_packConnState pack_lifecycle_mask
      withSkipCount_pack)

lemma warm_at_accept:
  assumes "1 < r" "r \<le> R" "R \<le> 255" "0 \<le> S" "S \<le> 255"
  shows "tryWarmupSkip [] (warm_at lc R S r 0)
       = (warmupAccepted, warm_at lc R S (r - 1) (smoothstepSkip S R (R - (r - 1))))"
  using assms
  by (simp add: tryWarmupSkip_alone tryWarmupSkip_body_def warm_at_def Let_def wm_isZero_def
      packWarmupManager_zero withManagers_def lifecycle_packConnState pack_lifecycle_mask)

lemma warm_at_complete:
  assumes "1 \<le> R" "R \<le> 255"
  shows "tryWarmupSkip [] (warm_at lc R S 1 0)
       = (warmupAccepted, newConnState ((lc AND NOT lcNeedsWarmup) OR lcReady))"
proof -
  have "newConnState ((lc AND mask 13 AND NOT lcNeedsWarmup) OR lcReady)
      = newConnState ((lc AND NOT lcNeedsWarmup) OR lcReady)"
    unfolding newConnState_def masks by (rule bit_word_eqI) (auto simp: bit_simps)
  then show ?thesis using assms
    by (simp add: tryWarmupSkip_alone tryWarmupSkip_body_def warm_at_def Let_def wm_isZero_def
      packWarmupManager_zero lifecycle_packConnState ac_simps)
qed

lemma warmup_run_append:
  "warmup_run (m + n) s = (let (rs1, s1) = warmup_run m s; (rs2, s2) = warmup_run n s1 in (rs1 @ rs2, s2))"
  by (induction m arbitrary: s) (auto simp: Let_def split: prod.splits)

lemma warm_at_skips:
  assumes "1 \<le> R" "R \<le> 255" "k \<le> 255"
  shows "warmup_run k (warm_at lc R S r (int k)) = (replicate k warmupSkipped, warm_at lc R S r 0)"
  using assms(3)
proof (induction k)
  case (Suc k)
  then show ?case using assms warm_at_skip [of R "int (Suc k)" lc S r] by simp
qed simp

text \<open>
  The results of a whole warmup: round \<open>d\<close> skips as often as the curve says and then accepts
  once.
\<close>

definition warmup_trace :: "nat \<Rightarrow> nat \<Rightarrow> nat \<Rightarrow> warmupResult list" where
  "warmup_trace R S d0 =
     concat (map (\<lambda>d. replicate (nat (smoothstepSkip (int S) (int R) (int d))) warmupSkipped @ [warmupAccepted])
       [d0..<R])"

definition warm_done :: "connLifecycle \<Rightarrow> connState" where
  "warm_done lc = newConnState ((lc AND NOT lcNeedsWarmup) OR lcReady)"

lemma warmup_round:
  assumes "d < R" "R \<le> 255" "S \<le> 255"
  defines "k \<equiv> nat (smoothstepSkip (int S) (int R) (int d))"
  shows "warmup_run (Suc k) (warm_at lc (int R) (int S) (int R - int d) (smoothstepSkip (int S) (int R) (int d)))
       = (replicate k warmupSkipped @ [warmupAccepted],
          if Suc d = R then warm_done lc
          else warm_at lc (int R) (int S) (int R - int (Suc d)) (smoothstepSkip (int S) (int R) (int (Suc d))))"
proof -
  have k: "int k = smoothstepSkip (int S) (int R) (int d)" by (simp add: k_def)
  have "int k \<le> int S" unfolding k using assms by (intro smoothstepSkip_le) auto
  then have "warmup_run k (warm_at lc (int R) (int S) (int R - int d) (smoothstepSkip (int S) (int R) (int d)))
      = (replicate k warmupSkipped, warm_at lc (int R) (int S) (int R - int d) 0)"
    using warm_at_skips [of "int R" k lc "int S" "int R - int d"] assms k by simp
  moreover have "tryWarmupSkip [] (warm_at lc (int R) (int S) (int R - int d) 0)
      = (warmupAccepted, if Suc d = R then warm_done lc
          else warm_at lc (int R) (int S) (int R - int (Suc d)) (smoothstepSkip (int S) (int R) (int (Suc d))))"
  proof (cases "Suc d = R")
    case True
    then have e: "int R - int d = 1" by auto
    show ?thesis unfolding e using True assms(2) warm_at_complete [of "int R" lc "int S"]
      by (auto simp: warm_done_def)
  next
    case False
    have "int R - int (Suc d) = int R - int d - 1" "int (Suc d) = int R - (int R - int d - 1)" by auto
    then show ?thesis using False assms warm_at_accept [of "int R - int d" "int R" "int S" lc]
      by (simp add: algebra_simps)
  qed
  ultimately show ?thesis using warmup_run_append [of k 1] by (simp add: Let_def)
qed

lemma warmup_rounds:
  assumes "d < R" "R \<le> 255" "S \<le> 255"
  shows "warmup_run (length (warmup_trace R S d)) (warm_at lc (int R) (int S) (int R - int d) (smoothstepSkip (int S) (int R) (int d)))
       = (warmup_trace R S d, warm_done lc)"
  using assms
proof (induction "R - d" arbitrary: d)
  case (Suc m)
  let ?k = "nat (smoothstepSkip (int S) (int R) (int d))"
  have t: "warmup_trace R S d = (replicate ?k warmupSkipped @ [warmupAccepted]) @ warmup_trace R S (Suc d)"
    using \<open>d < R\<close> by (simp add: warmup_trace_def upt_rec [of d])
  have l: "length (warmup_trace R S d) = Suc ?k + length (warmup_trace R S (Suc d))" by (simp add: t)
  show ?case
  proof (cases "Suc d = R")
    case True
    then have "warmup_trace R S (Suc d) = []" by (simp add: warmup_trace_def)
    then show ?thesis using warmup_round [of d R S lc] Suc.prems True unfolding l t by simp
  next
    case False
    then have "warmup_run (length (warmup_trace R S (Suc d)))
        (warm_at lc (int R) (int S) (int R - int (Suc d)) (smoothstepSkip (int S) (int R) (int (Suc d))))
        = (warmup_trace R S (Suc d), warm_done lc)"
      using Suc.hyps Suc.prems by (intro Suc.hyps(1)) auto
    then show ?thesis using warmup_round [of d R S lc] Suc.prems False
      unfolding l warmup_run_append by (simp add: t del: warmup_run.simps)
  qed
qed simp

lemma warmup_trace_accepts: "count_list (warmup_trace R S d) warmupAccepted = R - d"
proof (induction "R - d" arbitrary: d)
  case (Suc m)
  then have "warmup_trace R S d = replicate (nat (smoothstepSkip (int S) (int R) (int d))) warmupSkipped
      @ [warmupAccepted] @ warmup_trace R S (Suc d)"
    by (simp add: warmup_trace_def upt_rec [of d])
  moreover have "count_list (replicate n warmupSkipped) warmupAccepted = 0" for n by (induction n) auto
  ultimately show ?case using Suc.hyps(1) [of "Suc d"] Suc.hyps(2) by simp
qed (simp add: warmup_trace_def)

lemma warmup_trace_no_inactive: "warmupInactive \<notin> set (warmup_trace R S d)"
  by (auto simp: warmup_trace_def)

text \<open>A call on a state that is not warming up changes nothing.\<close>

lemma tryWarmupSkip_inactive: "\<not> isWarmingUp s \<Longrightarrow> tryWarmupSkip [] s = (warmupInactive, s)"
  by (simp add: tryWarmupSkip_alone tryWarmupSkip_body_def isWarmingUp_def wm_isZero_def)

lemma not_warm_newConnState [simp]: "\<not> isWarmingUp (newConnState lc)"
  by (simp add: isWarmingUp_def)

section \<open>Concurrent updates\<close>

text \<open>
  The invariant of a state word: while a warmup is in progress the round manager counts down
  from the configured number of rounds.
\<close>

definition warmup_ok :: "connState \<Rightarrow> bool" where
  "warmup_ok s \<longleftrightarrow> isWarmingUp s \<longrightarrow>
     1 \<le> wm_rounds (roundManager s) \<and> wm_rounds (roundManager s) \<le> wm_rounds (lifecycleManager s)
     \<and> wm_skipCount (roundManager s) \<le> wm_skipCount (lifecycleManager s)"

lemma warmup_ok_tryWarmupSkip:
  assumes "warmup_ok s" "tryWarmupSkip_body s = (r, Some t)"
  shows "warmup_ok t"
proof (cases "wm_isZero (lifecycleManager s)")
  case True
  then show ?thesis using assms by (simp add: tryWarmupSkip_body_def)
next
  case False
  let ?R = "wm_rounds (lifecycleManager s)" and ?r = "wm_rounds (roundManager s)"
  let ?S = "wm_skipCount (lifecycleManager s)" and ?k = "wm_skipCount (roundManager s)"
  have i: "1 \<le> ?r" "?r \<le> ?R" "?k \<le> ?S"
    using assms(1) False by (auto simp: warmup_ok_def isWarmingUp_def wm_isZero_def)
  consider (skip) "?k > 0" | (comp) "\<not> ?k > 0" "?r - 1 \<le> 0" | (acc) "\<not> ?k > 0" "\<not> ?r - 1 \<le> 0" by linarith
  then show ?thesis
  proof cases
    case skip
    then have "(?k - 1) mod 256 = ?k - 1"
      using wm_skipCount_range(2) [of "roundManager s"] by (intro mod_pos_pos_trivial) linarith+
    then show ?thesis using assms False i skip
      by (auto simp: tryWarmupSkip_body_def Let_def warmup_ok_def withManagers_def)
  next
    case comp
    then show ?thesis using assms False
      by (auto simp: tryWarmupSkip_body_def Let_def warmup_ok_def)
  next
    case acc
    let ?n = "smoothstepSkip ?S ?R (?R - (?r - 1))"
    have n: "?n \<le> ?S" using acc i by (intro smoothstepSkip_le) auto
    have b: "?S < 256" "?R < 256" by simp_all
    have "(?r - 1) mod 256 = ?r - 1" using acc i b by (intro mod_pos_pos_trivial) linarith+
    moreover have "?n mod 256 = ?n" using n b by (intro mod_pos_pos_trivial) (simp, linarith)
    ultimately show ?thesis using assms False i acc n
      by (auto simp: tryWarmupSkip_body_def Let_def warmup_ok_def withManagers_def)
  qed
qed

interpretation skip_loop: cas_loop tryWarmupSkip_body warmup_ok
  by unfold_locales (rule warmup_ok_tryWarmupSkip)

interpretation clear_loop: cas_loop clearWarmup_body warmup_ok
  by unfold_locales (auto simp: clearWarmup_body_def warmup_ok_def)

lemma warmup_ok_start:
  assumes "1 \<le> R" "R \<le> 255" "0 \<le> S" "S \<le> 255"
  shows "cas_loop (startWarmup_body R S) warmup_ok"
proof
  fix m r t
  assume "startWarmup_body R S m = (r, Some t)"
  then show "warmup_ok t" using assms
    by (auto simp: startWarmup_body_def Let_def warmup_ok_def split: if_splits)
qed


text \<open>C36. A warmup of \<open>R\<close> rounds and \<open>S\<close> skips, started on a connection that needs one, runs to
  its end: in round \<open>d\<close> the connection is skipped \<open>smoothstepSkip S R d\<close> times and then accepted
  once, no call finds it inactive, exactly \<open>R\<close> calls are accepted, and the last call clears
  \<^verbatim>\<open>lcNeedsWarmup\<close> and both managers and sets \<^verbatim>\<open>lcReady\<close>; a further call changes nothing.\<close>
theorem warmup_schedule:
  assumes "1 \<le> R" "R \<le> 255" "S \<le> 255"
    and "lc_has (lifecycle s) lcNeedsWarmup" "\<not> isWarmingUp s"
  shows "warmup_run (length (warmup_trace R S 0)) (startWarmup (int R) (int S) [] s)
           = (warmup_trace R S 0, warm_done (lifecycle s))
     \<and> count_list (warmup_trace R S 0) warmupAccepted = R
     \<and> warmupInactive \<notin> set (warmup_trace R S 0)
     \<and> tryWarmupSkip [] (warm_done (lifecycle s)) = (warmupInactive, warm_done (lifecycle s))"
proof -
  have "startWarmup (int R) (int S) [] s = warm_at (lifecycle s) (int R) (int S) (int R - int 0)
      (smoothstepSkip (int S) (int R) (int 0))"
    using assms by (simp add: startWarmup_def cas_retry_alone startWarmup_body_def warm_at_def
        smoothstepSkip_start)
  then have "warmup_run (length (warmup_trace R S 0)) (startWarmup (int R) (int S) [] s)
      = (warmup_trace R S 0, warm_done (lifecycle s))"
    using warmup_rounds [of 0 R S "lifecycle s"] assms by simp
  then show ?thesis
    by (simp add: warmup_trace_accepts warmup_trace_no_inactive tryWarmupSkip_inactive warm_done_def)
qed

theorem warmup_schedule_witness:
  "warmup_run 13 (startWarmup 4 4 [] (newConnState (lcActive OR lcNeedsWarmup)))
     = (warmup_trace 4 4 0, warm_done (lcActive OR lcNeedsWarmup))"
proof -
  have "length (warmup_trace 4 4 0) = 13"
    by (simp add: warmup_trace_def smoothstepSkip_def upt_rec signed_divide_int_def)
  moreover have "lifecycle (newConnState (lcActive OR lcNeedsWarmup)) = lcActive OR lcNeedsWarmup"
    by code_simp
  moreover have "lc_has (lcActive OR lcNeedsWarmup) lcNeedsWarmup" by code_simp
  ultimately show ?thesis
    using warmup_schedule [of 4 4 "newConnState (lcActive OR lcNeedsWarmup)"] by simp
qed


text \<open>The number of skips of a round never grows from one round to the next, starts at the
  configured maximum, and stays within a byte, so that packing it into the round manager loses
  nothing; no intermediate value of the computation reaches the range of a 64-bit integer.\<close>
theorem smoothstepSkip_curve:
  assumes "1 \<le> R" "R \<le> 255" "0 \<le> S" "S \<le> 255" "0 \<le> d" "d < R"
  shows "smoothstepSkip S R 0 = S \<and> smoothstepSkip S R (d + 1) \<le> smoothstepSkip S R d
    \<and> 0 \<le> smoothstepSkip S R d \<and> smoothstepSkip S R d \<le> S
    \<and> wm_skipCount (packWarmupManager (R - d) (smoothstepSkip S R d)) = smoothstepSkip S R d
    \<and> S * (R * R * R - 3 * d * d * R + 2 * d * d * d) \<in> {0 .. 255 ^ 4}"
proof -
  have le: "smoothstepSkip S R d \<le> S" using assms by (intro smoothstepSkip_le) auto
  then have "smoothstepSkip S R d mod 256 = smoothstepSkip S R d"
    using assms by (intro mod_pos_pos_trivial) (simp, linarith)
  moreover have "(R - d) * (R - d) * (R + 2 * d) \<le> R * R * R"
  proof -
    have "0 \<le> d * d * (3 * R - 2 * d)" using assms by (intro mult_nonneg_nonneg) auto
    then show ?thesis by (simp add: algebra_simps)
  qed
  moreover have "S * (R * R * R) \<le> 255 * (255 * 255 * 255)"
    using assms by (intro mult_mono) auto
  moreover have "0 \<le> (R - d) * (R - d) * (R + 2 * d)" using assms by simp
  ultimately have "S * ((R - d) * (R - d) * (R + 2 * d)) \<in> {0 .. 255 ^ 4}"
    using assms mult_left_mono [of "(R - d) * (R - d) * (R + 2 * d)" "R * R * R" S] by simp
  then show ?thesis unfolding smooth_factor
    using assms le smoothstepSkip_Suc_le [of R d S] \<open>smoothstepSkip S R d mod 256 = _\<close>
    by (simp add: smoothstepSkip_start)
qed

theorem smoothstepSkip_curve_witness:
  "smoothstepSkip 32 16 8 = 16 \<and> smoothstepSkip 32 16 9 \<le> smoothstepSkip 32 16 8"
proof -
  have "smoothstepSkip 32 16 8 = 16" by code_simp
  then show ?thesis using smoothstepSkip_curve [of 16 32 8] by simp
qed

text \<open>The skip count of the last round is not always zero: with four rounds and eight skips the
  last round still skips once before the warmup completes.\<close>
theorem last_round_still_skips:
  "smoothstepSkip 8 4 3 = 1 \<and>
   fst (warmup_run 23 (startWarmup 4 8 [] (newConnState (lcActive OR lcNeedsWarmup))))
     = replicate 8 warmupSkipped @ [warmupAccepted] @ replicate 6 warmupSkipped @ [warmupAccepted]
       @ replicate 4 warmupSkipped @ [warmupAccepted] @ [warmupSkipped, warmupAccepted]"
  by code_simp

text \<open>Whatever the other goroutines do to the state word, as long as each of their updates keeps
  the warmup invariant (during a warmup the remaining rounds are between one and the configured
  number and the remaining skips are at most the configured ones), \<^verbatim>\<open>tryWarmupSkip\<close>,
  \<^verbatim>\<open>startWarmup\<close> and \<^verbatim>\<open>clearWarmup\<close> keep it too.\<close>
theorem warmup_invariant:
  assumes "warmup_ok s" "env_keeps warmup_ok env" "1 \<le> R" "R \<le> 255" "0 \<le> S" "S \<le> 255"
  shows "warmup_ok (snd (tryWarmupSkip env s)) \<and> warmup_ok (startWarmup R S env s)
    \<and> warmup_ok (clearWarmup env s)"
  unfolding tryWarmupSkip_def startWarmup_def clearWarmup_def
  using assms skip_loop.run_inv clear_loop.run_inv cas_loop.run_inv [OF warmup_ok_start] by blast

theorem warmup_invariant_witness:
  "warmup_ok (startWarmup 4 8 [\<lambda>s. snd (tryWarmupSkip [] s)] (newConnState lcNeedsWarmup))"
proof -
  have "env_keeps warmup_ok [\<lambda>s. snd (tryWarmupSkip [] s)]"
    by (simp add: env_keeps_def tryWarmupSkip_def skip_loop.run_alone_inv)
  moreover have "warmup_ok (newConnState lcNeedsWarmup)" by (simp add: warmup_ok_def)
  ultimately show ?thesis
    using warmup_invariant [of "newConnState lcNeedsWarmup" "[\<lambda>s. snd (tryWarmupSkip [] s)]" 4 8] by simp
qed

text \<open>\<^verbatim>\<open>casLifecycle\<close> can report a conflict although its caller holds the connection's mutex: the
  last call of a warmup changes the lifecycle bits without the lock. Here the
  transition of \<^verbatim>\<open>multiServerPool.OnFailure\<close> is refused and the connection stays active.\<close>
theorem warmup_conflicts_with_casLifecycle:
  "let s = warmupState (lcActive OR lcNeedsWarmup) 1 0;
       other = (\<lambda>m. snd (tryWarmupSkip [] m))
   in (let (r, out, rest) = casLifecycle_env [other] s 0 (lcDead OR lcNeedsWarmup OR lcNeedsHardware)
         (lcReady OR lcActive OR lcStandby OR lcOverloaded) s
       in (r, out)) = (Inl errLifecycleConflict, newConnState (lcActive OR lcReady))"
  by code_simp

end
