(* ===== verification/Rtt.thy ===== *)
theory Rtt
  imports Prelude
begin

text \<open>
  Round-trip-time measurement: the duration and bucket types of
  \<^verbatim>\<open>src/opensearchtransport/duration.go\<close> and the lock-free ring of
  \<^verbatim>\<open>src/opensearchtransport/connection_rtt.go\<close>. The ring is shown to refine a sliding window over
  the list of measurements: its median is the median of the last ones. Its cursor is a 32-bit
  signed counter, so the refinement holds for fewer than \<open>2 ^ 31\<close> measurements; a later access
  with a negative cursor is one of the panics of the model.
\<close>

section \<open>Definitions\<close>

datatype go_panic = indexOutOfRange | makesliceLenOutOfRange | integerDivideByZero

definition rttBucketFloor :: int where "rttBucketFloor = 8"
definition rttBucketUnknown :: int where "rttBucketUnknown = 2 ^ 30"
definition defaultRTTRingSize :: int where "defaultRTTRingSize = 12"

definition durationNanos_Micros :: "int \<Rightarrow> int" where
  "durationNanos_Micros n = n sdiv 1000"

definition durationNanos_IsPositive :: "int \<Rightarrow> bool" where
  "durationNanos_IsPositive n \<longleftrightarrow> n > 0"

text \<open>\<^verbatim>\<open>bits.Len\<close>: the number of bits needed to write a number.\<close>

fun bits_Len :: "nat \<Rightarrow> nat" where
  "bits_Len n = (if n = 0 then 0 else Suc (bits_Len (n div 2)))"

declare bits_Len.simps [simp del]

definition durationMicros_Bucket :: "int \<Rightarrow> int" where
  "durationMicros_Bucket m =
     (if m \<le> 0 then rttBucketUnknown
      else let bucket = int (bits_Len (nat m)) - 1
           in if bucket < rttBucketFloor then rttBucketFloor else bucket)"

definition durationMicros_Nanos :: "int \<Rightarrow> int" where
  "durationMicros_Nanos m = sint (word_of_int (m * 1000) :: 64 word)"

definition durationMicros_IsPositive :: "int \<Rightarrow> bool" where
  "durationMicros_IsPositive m \<longleftrightarrow> m > 0"

definition rttBucket_IsUnknown :: "int \<Rightarrow> bool" where
  "rttBucket_IsUnknown b \<longleftrightarrow> b = rttBucketUnknown"

definition rttBucket_Micros :: "int \<Rightarrow> int" where
  "rttBucket_Micros b = (if b \<le> 0 then 0 else sint (push_bit (nat b) 1 :: 64 word))"

definition rttBucketOf :: "int \<Rightarrow> int" where
  "rttBucketOf d = durationMicros_Bucket (durationNanos_Micros d)"

text \<open>
  The quotient is a \<^verbatim>\<open>float64\<close> in the source. Both operands are exact below \<open>2 ^ 53\<close>
  nanoseconds (104 days), and then rounding the quotient cannot move it across an integer.
\<close>

definition rttRingSizeFor :: "int \<Rightarrow> int \<Rightarrow> int" where
  "rttRingSizeFor discoverInterval resurrectInterval =
     (if discoverInterval \<le> 0 \<or> resurrectInterval \<le> 0 then defaultRTTRingSize
      else let ceiling_ratio = - ((- discoverInterval) div resurrectInterval)
           in max (2 * ceiling_ratio) 2)"

record rttRing =
  buckets :: "int list"
  cursor :: int32

definition newRTTRing :: "int \<Rightarrow> rttRing" where
  "newRTTRing size0 =
     (let size = (if size0 \<le> 0 then 1 else size0)
      in \<lparr>buckets = replicate (nat size) rttBucketUnknown, cursor = 0\<rparr>)"

definition rttRing_add :: "int \<Rightarrow> rttRing option \<Rightarrow> go_panic + rttRing option" where
  "rttRing_add d ro = (case ro of
     None \<Rightarrow> Inr None
   | Some r \<Rightarrow>
       let bucket = rttBucketOf d;
           cur = cursor r + 1;
           idx = sint (cur - 1) smod int (length (buckets r))
       in if idx < 0 \<or> int (length (buckets r)) \<le> idx then Inl indexOutOfRange
          else Inr (Some (r\<lparr>buckets := (buckets r)[nat idx := bucket], cursor := cur\<rparr>)))"

definition medianBucket :: "rttRing option \<Rightarrow> go_panic + int" where
  "medianBucket ro = (case ro of
     None \<Rightarrow> Inr rttBucketUnknown
   | Some r \<Rightarrow>
       let n = int (length (buckets r));
           cur = sint (cursor r);
           written = min cur n
       in if written = 0 then Inr rttBucketUnknown
          else if written < 0 then Inl makesliceLenOutOfRange
          else let vals = map (\<lambda>i. buckets r ! nat (((cur - 1 - int i) smod n + n) smod n)) [0..<nat written]
               in Inr (sort vals ! nat (written sdiv 2)))"

section \<open>Buckets\<close>

lemma bits_Len_0 [simp]: "bits_Len 0 = 0"
  by (simp add: bits_Len.simps)

lemma bits_Len_bounds: "0 < n \<Longrightarrow> 2 ^ (bits_Len n - 1) \<le> n \<and> n < 2 ^ bits_Len n \<and> 0 < bits_Len n"
proof (induction n rule: bits_Len.induct)
  case (1 n)
  show ?case
  proof (cases "n div 2 = 0")
    case True
    then show ?thesis using 1 by (simp add: bits_Len.simps [of n])
  next
    case False
    then have IH: "2 ^ (bits_Len (n div 2) - 1) \<le> n div 2" "n div 2 < 2 ^ bits_Len (n div 2)"
        "0 < bits_Len (n div 2)"
      using 1 by auto
    obtain k where k: "bits_Len (n div 2) = Suc k" using IH(3) gr0_implies_Suc by blast
    then have "bits_Len n = Suc (Suc k)" using 1 by (simp add: bits_Len.simps [of n])
    then show ?thesis using IH k
      by (simp add: less_eq_div_iff_mult_less_eq div_less_iff_less_mult mult.commute)
  qed
qed

lemma bits_Len_mono: "m \<le> n \<Longrightarrow> bits_Len m \<le> bits_Len n"
proof (induction m arbitrary: n rule: bits_Len.induct)
  case (1 m)
  then show ?case by (cases "m = 0") (auto simp: bits_Len.simps [of m] bits_Len.simps [of n] div_le_mono)
qed

text \<open>Evaluation on numerals.\<close>

lemmas bucket_eval = rttBucketOf_def durationNanos_Micros_def durationMicros_Bucket_def
  signed_divide_int_def bits_Len.simps [of "numeral k" for k] bits_Len.simps [of "Suc 0"]
  rttBucketFloor_def rttBucketUnknown_def

section \<open>The ring as a window on the measurements\<close>

text \<open>
  \<open>ring_repr n ds r\<close>: ring \<open>r\<close> of \<open>n\<close> slots after the measurements \<open>ds\<close>, latest first. Slot
  \<open>i mod n\<close> holds the \<open>i\<close>-th measurement until it is overwritten.
\<close>

definition ring_repr :: "nat \<Rightarrow> int list \<Rightarrow> rttRing \<Rightarrow> bool" where
  "ring_repr n ds r \<longleftrightarrow> 0 < n \<and> length (buckets r) = n \<and> length ds < 2 ^ 31
     \<and> cursor r = word_of_nat (length ds)
     \<and> (\<forall>i < min (length ds) n. buckets r ! ((length ds - 1 - i) mod n) = rttBucketOf (ds ! i))"

text \<open>What the ring promises: the upper median of the last \<open>n\<close> measurements.\<close>

definition window_median :: "nat \<Rightarrow> int list \<Rightarrow> int" where
  "window_median n ds =
     (let w = map rttBucketOf (take n ds)
      in if w = [] then rttBucketUnknown else sort w ! (length w div 2))"

lemma sint_of_nat32: "k < 2 ^ 31 \<Longrightarrow> sint (word_of_nat k :: 32 word) = int k"
  by (simp add: sint_uint unsigned_of_nat signed_take_bit_int_eq_self take_bit_nat_eq_self)

lemma smod_nat: "0 < n \<Longrightarrow> int a smod int n = int (a mod n)"
  by (cases "a = 0") (simp_all add: smod_int_alt_def zmod_int)

lemma ring_repr_new: "0 < n \<Longrightarrow> ring_repr n [] (newRTTRing (int n))"
  by (simp add: ring_repr_def newRTTRing_def)

lemma mod_window_neq:
  assumes "0 < (i::nat)" "i < n" "i \<le> m"
  shows "m mod n \<noteq> (m - i) mod n"
proof
  assume "m mod n = (m - i) mod n"
  then have "n dvd m - (m - i)" by (simp add: mod_eq_dvd_iff_nat)
  then show False using assms by (auto dest: dvd_imp_le)
qed

lemma ring_repr_add:
  assumes "ring_repr n ds r" "length ds < 2 ^ 31 - 1"
  shows "\<exists>r'. rttRing_add d (Some r) = Inr (Some r') \<and> ring_repr n (d # ds) r'"
proof -
  let ?m = "length ds"
  let ?r = "r\<lparr>buckets := (buckets r)[?m mod n := rttBucketOf d], cursor := cursor r + 1\<rparr>"
  from assms have n: "0 < n" "length (buckets r) = n" and c: "cursor r = word_of_nat ?m"
    and h: "\<And>i. i < min ?m n \<Longrightarrow> buckets r ! ((?m - 1 - i) mod n) = rttBucketOf (ds ! i)"
    by (auto simp: ring_repr_def)
  have idx: "sint (cursor r) smod int n = int (?m mod n)"
    using assms(2) n by (simp add: c sint_of_nat32 smod_nat)
  have "rttRing_add d (Some r) = Inr (Some ?r)"
    using n by (simp add: rttRing_add_def Let_def idx not_le)
  moreover have "buckets ?r ! ((length (d # ds) - 1 - i) mod n) = rttBucketOf ((d # ds) ! i)"
    if i: "i < min (length (d # ds)) n" for i
  proof (cases i)
    case 0
    then show ?thesis using n by simp
  next
    case (Suc j)
    then have "?m mod n \<noteq> (?m - i) mod n" using i by (intro mod_window_neq) auto
    then show ?thesis using h [of j] i Suc n by simp
  qed
  ultimately show ?thesis using assms n c by (auto simp: ring_repr_def)
qed

lemma ring_repr_median:
  assumes "ring_repr n ds r"
  shows "medianBucket (Some r) = Inr (window_median n ds)"
proof -
  let ?m = "length ds"
  from assms have n: "0 < n" "length (buckets r) = n" "?m < 2 ^ 31" and c: "cursor r = word_of_nat ?m"
    and h: "\<And>i. i < min ?m n \<Longrightarrow> buckets r ! ((?m - 1 - i) mod n) = rttBucketOf (ds ! i)"
    by (auto simp: ring_repr_def)
  have cur: "sint (cursor r) = int ?m" using n by (simp add: c sint_of_nat32)
  have "((int ?m - 1 - int i) smod int n + int n) smod int n = int ((?m - 1 - i) mod n)"
    if "i < min ?m n" for i
  proof -
    have "int ?m - 1 - int i = int (?m - 1 - i)" using that by simp
    then have "(int ?m - 1 - int i) smod int n + int n = int ((?m - 1 - i) mod n + n)"
      using n by (simp only: smod_nat of_nat_add)
    then show ?thesis using n by (simp only: smod_nat) simp
  qed
  then have "map (\<lambda>i. buckets r ! nat (((int ?m - 1 - int i) smod int n + int n) smod int n)) [0..<min ?m n]
      = map (\<lambda>i. rttBucketOf (ds ! i)) [0..<min ?m n]"
    using h by simp
  also have "\<dots> = map rttBucketOf (take n ds)"
    by (rule nth_equalityI) auto
  finally have v: "map (\<lambda>i. buckets r ! nat (((int ?m - 1 - int i) smod int n + int n) smod int n)) [0..<min ?m n]
      = map rttBucketOf (take n ds)" .
  have w: "min (int ?m) (int n) = int (min ?m n)" by simp
  have "int (min ?m n) sdiv 2 = int (min ?m n div 2)"
    by (cases "min ?m n = 0") (simp_all add: signed_divide_int_def zdiv_int)
  then show ?thesis unfolding medianBucket_def option.case Let_def cur n(2) w
    using v n by (auto simp: window_median_def Let_def)
qed


section \<open>Properties\<close>

text \<open>A run of \<^verbatim>\<open>add\<close> over measurements, oldest first.\<close>

fun rtt_adds :: "int list \<Rightarrow> rttRing option \<Rightarrow> go_panic + rttRing option" where
  "rtt_adds [] r = Inr r"
| "rtt_adds (d # ds) r = (case rttRing_add d r of Inl e \<Rightarrow> Inl e | Inr r' \<Rightarrow> rtt_adds ds r')"

lemma rtt_adds_repr:
  assumes "ring_repr n hist r" "length hist + length ds < 2 ^ 31"
  shows "\<exists>r'. rtt_adds ds (Some r) = Inr (Some r') \<and> ring_repr n (rev ds @ hist) r'"
  using assms
proof (induction ds arbitrary: hist r)
  case Nil
  then show ?case by simp
next
  case (Cons d ds)
  obtain r' where r': "rttRing_add d (Some r) = Inr (Some r')" "ring_repr n (d # hist) r'"
    using ring_repr_add [of n hist r d] Cons.prems by auto
  then show ?case using Cons.IH [OF r'(2)] Cons.prems(2) by auto
qed

lemma bits_Len_between: "2 ^ k \<le> n \<Longrightarrow> n < 2 ^ j \<Longrightarrow> k < bits_Len n \<and> bits_Len n \<le> j"
proof -
  assume a: "2 ^ k \<le> n" "n < 2 ^ j"
  then have b: "2 ^ (bits_Len n - 1) \<le> n" "n < 2 ^ bits_Len n" "0 < bits_Len n"
    using bits_Len_bounds [of n] less_le_trans [of 0 "2 ^ k" n] by simp_all
  have "(2::nat) ^ k < 2 ^ bits_Len n" "(2::nat) ^ (bits_Len n - 1) < 2 ^ j"
    using a b by (meson le_less_trans)+
  then have "k < bits_Len n" "bits_Len n - 1 < j" by (simp_all only: power_strict_increasing_iff)
  then show ?thesis using b(3) by simp
qed

lemma bucket_eq:
  "0 < m \<Longrightarrow> durationMicros_Bucket m = max 8 (int (bits_Len (nat m)) - 1)"
  by (auto simp: durationMicros_Bucket_def Let_def rttBucketFloor_def)

lemma rttBucketOf_known:
  assumes "d < 2 ^ 63"
  shows "rttBucketOf d \<le> rttBucketUnknown \<and> (rttBucketOf d < rttBucketUnknown \<longleftrightarrow> 1000 \<le> d)"
proof (cases "1000 \<le> d")
  case True
  then have "1 \<le> d div 1000" "d div 1000 < 2 ^ 63" using assms by auto
  then have "bits_Len (nat (d div 1000)) \<le> 63"
    using bits_Len_between [of 0 "nat (d div 1000)" 63] by (simp add: nat_less_iff)
  moreover have "d sdiv 1000 = d div 1000"
    using True by (simp add: signed_divide_int_def)
  ultimately show ?thesis using True \<open>1 \<le> d div 1000\<close>
    by (auto simp: rttBucketOf_def durationNanos_Micros_def bucket_eq rttBucketUnknown_def)
next
  case False
  have "d sdiv 1000 \<le> 0"
  proof (cases "0 \<le> d")
    case True
    then show ?thesis using False by (cases "d = 0") (simp_all add: signed_divide_int_def)
  next
    case neg: False
    then show ?thesis by (simp add: signed_divide_int_def sgn_if)
  qed
  then show ?thesis using False by (simp add: rttBucketOf_def durationNanos_Micros_def durationMicros_Bucket_def)
qed





lemma rttBucket_Micros_power: "0 < b \<Longrightarrow> b < 63 \<Longrightarrow> rttBucket_Micros b = 2 ^ nat b"
proof -
  assume b: "0 < b" "b < 63"
  have "(2::int) ^ nat b < 2 ^ 63" using b by (intro power_strict_increasing) auto
  then have "signed_take_bit 63 ((2::int) ^ nat b) = 2 ^ nat b"
    by (intro signed_take_bit_int_eq_self) (auto intro: order_trans [of _ 0])
  moreover have "(push_bit (nat b) 1 :: 64 word) = word_of_int (2 ^ nat b)"
    by (simp add: push_bit_eq_mult)
  ultimately have "sint (push_bit (nat b) 1 :: 64 word) = 2 ^ nat b"
    by (simp only: sint_sbintrunc') simp
  then show ?thesis using b by (simp add: rttBucket_Micros_def)
qed

text \<open>A measured bucket is the binary logarithm of the microseconds with a floor of 8: from
  \<open>2 ^ 8\<close> microseconds on, the bucket's lower bound and its double enclose the measurement, shorter
  ones are all in bucket 8, longer measurements never have a smaller bucket, and every
  measurement below \<open>2 ^ 63\<close> sorts before the unknown bucket.\<close>
theorem bucket_bounds:
  assumes "0 < m" "m < 2 ^ 63"
  shows "(if m < 256 then durationMicros_Bucket m = 8
          else rttBucket_Micros (durationMicros_Bucket m) \<le> m
             \<and> m < 2 ^ nat (durationMicros_Bucket m + 1)
             \<and> rttBucket_Micros (durationMicros_Bucket m) = 2 ^ nat (durationMicros_Bucket m))
    \<and> (m \<le> m' \<longrightarrow> durationMicros_Bucket m \<le> durationMicros_Bucket m')
    \<and> durationMicros_Bucket m < 63 \<and> \<not> rttBucket_IsUnknown (durationMicros_Bucket m)"
proof -
  let ?b = "bits_Len (nat m)"
  have "nat m < 2 ^ 63" using assms by (simp add: nat_less_iff)
  then have b: "0 < ?b" "?b \<le> 63" "2 ^ (?b - 1) \<le> nat m" "nat m < 2 ^ ?b"
    using bits_Len_between [of 0 "nat m" 63] bits_Len_bounds [of "nat m"] assms by auto
  have mono: "m \<le> m' \<longrightarrow> durationMicros_Bucket m \<le> durationMicros_Bucket m'"
    using assms bits_Len_mono [of "nat m" "nat m'"] nat_mono [of m m'] by (fastforce simp: bucket_eq max_def)
  have small: "durationMicros_Bucket m = 8" if "m < 256"
    using that assms bits_Len_between [of 0 "nat m" 8] by (simp add: bucket_eq nat_less_iff Suc_le_eq)
  have large: "durationMicros_Bucket m = int ?b - 1" if "\<not> m < 256"
    using that assms bits_Len_between [of 8 "nat m" 63] \<open>nat m < 2 ^ 63\<close> by (auto simp: bucket_eq le_nat_iff)
  have pow: "2 ^ (?b - 1) \<le> m" "m < 2 ^ ?b"
    using b assms by (simp_all add: le_nat_iff nat_less_iff)
  have "nat (int ?b - 1) = ?b - 1" "nat (int ?b - 1 + 1) = ?b" by simp_all
  moreover have "durationMicros_Bucket m < 63" using small large b by (cases "m < 256") auto
  moreover have "\<not> m < 256 \<Longrightarrow> 8 \<le> int ?b - 1" using bucket_eq [of m] large assms by simp
  ultimately show ?thesis using small large pow mono b
    by (auto simp: rttBucket_Micros_power rttBucket_IsUnknown_def rttBucketUnknown_def)
qed

theorem bucket_bounds_witness:
  "durationMicros_Bucket 5000 = 12 \<and> rttBucket_Micros (durationMicros_Bucket 5000) \<le> 5000"
proof -
  have "durationMicros_Bucket 5000 = 12" by (simp add: bucket_eval)
  then show ?thesis using bucket_bounds [of 5000 6000] by simp
qed

text \<open>One measurement is enough to leave the unknown bucket, whatever the size of the ring: there
  is no gate that waits until half of the ring is measured.\<close>
theorem single_measurement_known:
  assumes "0 < n" "1000 \<le> d" "d < 2 ^ 63"
  shows "\<exists>r b. rtt_adds [d] (Some (newRTTRing (int n))) = Inr (Some r)
       \<and> medianBucket (Some r) = Inr b \<and> \<not> rttBucket_IsUnknown b"
proof -
  obtain r where r: "rtt_adds [d] (Some (newRTTRing (int n))) = Inr (Some r)" "ring_repr n [d] r"
    using rtt_adds_repr [OF ring_repr_new [OF assms(1)], of "[d]"] by auto
  have "medianBucket (Some r) = Inr (rttBucketOf d)"
    using ring_repr_median [OF r(2)] assms(1) by (simp add: window_median_def take_Cons' Let_def)
  moreover have "\<not> rttBucket_IsUnknown (rttBucketOf d)"
    using rttBucketOf_known [OF assms(3)] assms(2) by (simp add: rttBucket_IsUnknown_def)
  ultimately show ?thesis using r by blast
qed

theorem single_measurement_known_witness:
  "\<exists>r b. rtt_adds [300000] (Some (newRTTRing (int 12))) = Inr (Some r)
       \<and> medianBucket (Some r) = Inr b \<and> \<not> rttBucket_IsUnknown b"
  by (rule single_measurement_known) simp_all

end
