(* ===== verification/Congestion.thy ===== *)
theory Congestion
  imports Prelude
begin

text \<open>
  Congestion control, \<^verbatim>\<open>src/opensearchtransport/pool_congestion.go\<close>, and the accessors of
  \<^verbatim>\<open>src/opensearchtransport/connection.go\<close> that read it: the per-pool window and its AIMD
  controller, the registry of a connection's pools, and the cluster-wide search window. A section
  under a mutex is one step. The lemmas bound the windows, describe a poll's effect on the whole
  registry, show that the controller recovers, and exhibit two flaws: the wait baseline that a
  rejected poll leaves behind, and the in-flight count that moves to another pool.
\<close>

section \<open>Definitions\<close>

text \<open>An \<^verbatim>\<open>int32\<close> as the integer it stands for, with the wrap-around of its arithmetic.\<close>

definition i32 :: "int \<Rightarrow> int" where
  "i32 x = sint (word_of_int x :: 32 word)"

lemma i32_id [simp]: "- (2 ^ 31) \<le> x \<Longrightarrow> x < 2 ^ 31 \<Longrightarrow> i32 x = x"
  unfolding i32_def sint_sbintrunc' by (simp add: signed_take_bit_int_eq_self)

definition waitThresholdNanos :: int where "waitThresholdNanos = 1000000"
definition defaultSyntheticCwndMultiplier :: int where "defaultSyntheticCwndMultiplier = 4"
definition defaultServerCoreCount :: int where "defaultServerCoreCount = 8"

record poolCongestion =
  pc_cwnd :: int
  pc_inFlight :: int
  pc_overloaded :: bool
  pc_maxCwnd :: int
  pc_ssthresh :: int
  pc_prevCompleted :: int
  pc_prevRejected :: int
  pc_prevWaitTimeNano :: int
  pc_hasWaitTime :: bool

definition zero_pool :: poolCongestion where
  "zero_pool = \<lparr>pc_cwnd = 0, pc_inFlight = 0, pc_overloaded = False, pc_maxCwnd = 0, pc_ssthresh = 0,
     pc_prevCompleted = 0, pc_prevRejected = 0, pc_prevWaitTimeNano = 0, pc_hasWaitTime = False\<rparr>"

record poolRegistry =
  reg_pools :: "string \<rightharpoonup> poolCongestion"
  reg_defaultPool :: poolCongestion

text \<open>A \<^verbatim>\<open>*poolCongestion\<close> obtained from a registry.\<close>

datatype pool_ptr = defaultPool_ptr | named_ptr string

definition deref :: "poolRegistry \<Rightarrow> pool_ptr \<Rightarrow> poolCongestion" where
  "deref r p = (case p of defaultPool_ptr \<Rightarrow> reg_defaultPool r
     | named_ptr name \<Rightarrow> (case reg_pools r name of Some pc \<Rightarrow> pc | None \<Rightarrow> zero_pool))"

definition modify :: "poolRegistry \<Rightarrow> pool_ptr \<Rightarrow> (poolCongestion \<Rightarrow> poolCongestion) \<Rightarrow> poolRegistry" where
  "modify r p f = (case p of defaultPool_ptr \<Rightarrow> r\<lparr>reg_defaultPool := f (reg_defaultPool r)\<rparr>
     | named_ptr name \<Rightarrow> (case reg_pools r name of
          Some pc \<Rightarrow> r\<lparr>reg_pools := (reg_pools r)(name \<mapsto> f pc)\<rparr> | None \<Rightarrow> r))"

definition registry_get :: "poolRegistry \<Rightarrow> string \<Rightarrow> pool_ptr option" where
  "registry_get r name =
     (if name = '''' then Some defaultPool_ptr
      else case reg_pools r name of None \<Rightarrow> None | Some _ \<Rightarrow> Some (named_ptr name))"

definition getOrCreate :: "poolRegistry \<Rightarrow> string \<Rightarrow> pool_ptr \<times> poolRegistry" where
  "getOrCreate r name =
     (if name = '''' then (defaultPool_ptr, r)
      else case reg_pools r name of
        Some _ \<Rightarrow> (named_ptr name, r)
      | None \<Rightarrow> (named_ptr name, r\<lparr>reg_pools := (reg_pools r)(name \<mapsto> zero_pool\<lparr>pc_cwnd := 1\<rparr>)\<rparr>))"

definition getForScoring :: "poolRegistry \<Rightarrow> string \<Rightarrow> pool_ptr" where
  "getForScoring r name =
     (if name = '''' then defaultPool_ptr
      else case reg_pools r name of None \<Rightarrow> defaultPool_ptr | Some _ \<Rightarrow> named_ptr name)"

definition registry_remove :: "poolRegistry \<Rightarrow> string \<Rightarrow> poolRegistry" where
  "registry_remove r name = r\<lparr>reg_pools := (reg_pools r)(name := None)\<rparr>"

definition setMaxCwnd :: "poolRegistry \<Rightarrow> string \<Rightarrow> int \<Rightarrow> poolRegistry" where
  "setMaxCwnd r name sz =
     (let (p, r1) = getOrCreate r name in
      modify r1 p (\<lambda>pc.
        let oldCwnd = pc_cwnd pc;
            pc = pc\<lparr>pc_maxCwnd := sz\<rparr>;
            pc = (if oldCwnd > sz then pc\<lparr>pc_cwnd := sz\<rparr> else pc)
        in pc\<lparr>pc_ssthresh := sz\<rparr>))"

definition maxCwndOrDefault :: "int \<Rightarrow> int" where
  "maxCwndOrDefault m =
     (if m > 0 then m else defaultSyntheticCwndMultiplier * defaultServerCoreCount)"

record ThreadPoolStats =
  st_Queue :: int
  st_Active :: int
  st_Rejected :: int
  st_Completed :: int
  st_TotalWaitTimeInNanos :: "int option"

text \<open>
  The wait per completed task is a \<^verbatim>\<open>float64\<close> quotient compared with the threshold. With fewer
  than \<open>2 ^ 33\<close> completions rounding cannot carry it across the threshold, and the comparison is
  the one between integers.
\<close>

definition wait_congested :: "int \<Rightarrow> int \<Rightarrow> bool" where
  "wait_congested deltaWait deltaCompleted \<longleftrightarrow> deltaWait \<ge> waitThresholdNanos * deltaCompleted"

definition congestion_signal :: "poolCongestion \<Rightarrow> ThreadPoolStats \<Rightarrow> int \<Rightarrow> bool \<times> poolCongestion" where
  "congestion_signal pc stats deltaCompleted =
     (case st_TotalWaitTimeInNanos stats of
        Some wait \<Rightarrow>
          let deltaWait = wait - pc_prevWaitTimeNano pc
          in (wait_congested deltaWait deltaCompleted,
              pc\<lparr>pc_hasWaitTime := True, pc_prevWaitTimeNano := wait\<rparr>)
      | None \<Rightarrow>
          if \<not> pc_hasWaitTime pc then
            let active = min (st_Active stats) (2 ^ 31 - 1)
            in (st_Queue stats > 0 \<and> active \<ge> maxCwndOrDefault (pc_maxCwnd pc), pc)
          else (False, pc))"

definition applyPoolAIMD :: "poolCongestion \<Rightarrow> ThreadPoolStats \<Rightarrow> poolCongestion" where
  "applyPoolAIMD pc0 stats =
     (let deltaCompleted = st_Completed stats - pc_prevCompleted pc0;
          deltaRejected = st_Rejected stats - pc_prevRejected pc0;
          pc = pc0\<lparr>pc_prevCompleted := st_Completed stats, pc_prevRejected := st_Rejected stats\<rparr>;
          cwnd = max (pc_cwnd pc) 1;
          maxCwnd = pc_maxCwnd pc;
          ssthresh = (if pc_ssthresh pc < 1 then maxCwndOrDefault maxCwnd else pc_ssthresh pc)
      in if deltaRejected > 0 then
           let newCwnd = max (cwnd sdiv 2) 1
           in pc\<lparr>pc_overloaded := True, pc_cwnd := newCwnd, pc_ssthresh := newCwnd\<rparr>
         else let pc = pc\<lparr>pc_overloaded := False\<rparr> in
         if deltaCompleted \<le> 0 then pc
         else let (congested, pc) = congestion_signal pc stats deltaCompleted in
         if congested then
           let newCwnd = max (cwnd sdiv 2) 1 in pc\<lparr>pc_cwnd := newCwnd, pc_ssthresh := newCwnd\<rparr>
         else if cwnd < ssthresh then pc\<lparr>pc_cwnd := min (i32 (cwnd * 2)) (maxCwndOrDefault maxCwnd)\<rparr>
         else pc\<lparr>pc_cwnd := min (i32 (cwnd + 1)) (maxCwndOrDefault maxCwnd)\<rparr>)"

text \<open>
  \<^verbatim>\<open>updatePoolCongestion\<close> on the registry of a connection: the map of statistics is a list of its
  entries in the order of the iteration, \<open>None\<close> for a nil map.
\<close>

definition update_pool :: "poolRegistry \<Rightarrow> string \<times> ThreadPoolStats \<Rightarrow> poolRegistry" where
  "update_pool r entry =
     (let (name, tps) = entry; (p, r1) = getOrCreate r name in modify r1 p (\<lambda>pc. applyPoolAIMD pc tps))"

definition updatePoolCongestion ::
    "poolRegistry \<Rightarrow> (string \<times> ThreadPoolStats) list option \<Rightarrow> poolRegistry" where
  "updatePoolCongestion r threadPools = (case threadPools of
     None \<Rightarrow> r
   | Some tps \<Rightarrow>
       let r1 = fold (\<lambda>e r. update_pool r e) tps r
       in r1\<lparr>reg_pools := (\<lambda>name. if name \<in> set (map fst tps) then reg_pools r1 name else None)\<rparr>)"

definition addInFlight :: "poolRegistry \<Rightarrow> string \<Rightarrow> int \<times> poolRegistry" where
  "addInFlight r poolName =
     (let p = getForScoring r poolName; n = i32 (pc_inFlight (deref r p) + 1)
      in (n, modify r p (\<lambda>pc. pc\<lparr>pc_inFlight := n\<rparr>)))"

definition releaseInFlight :: "poolRegistry \<Rightarrow> string \<Rightarrow> int \<times> poolRegistry" where
  "releaseInFlight r poolName =
     (let p = getForScoring r poolName; n = i32 (pc_inFlight (deref r p) - 1)
      in (n, modify r p (\<lambda>pc. pc\<lparr>pc_inFlight := n\<rparr>)))"

definition loadInFlight :: "poolRegistry \<Rightarrow> string \<Rightarrow> int" where
  "loadInFlight r poolName = pc_inFlight (deref r (getForScoring r poolName))"

definition loadCwnd :: "poolRegistry \<Rightarrow> int \<Rightarrow> string \<Rightarrow> bool \<Rightarrow> int" where
  "loadCwnd r allocatedProcs poolName poolInfoReady =
     (if \<not> poolInfoReady then
        let procs = (if allocatedProcs \<le> 0 then defaultServerCoreCount else allocatedProcs)
        in max (i32 (defaultSyntheticCwndMultiplier * procs)) 1
      else let cwnd = pc_cwnd (deref r (getForScoring r poolName))
           in if cwnd < 1 then 1 else cwnd)"

definition isPoolOverloaded :: "poolRegistry \<Rightarrow> string \<Rightarrow> bool" where
  "isPoolOverloaded r poolName = pc_overloaded (deref r (getForScoring r poolName))"

definition storeMaxCwnd :: "poolRegistry \<Rightarrow> string \<Rightarrow> int \<Rightarrow> poolRegistry" where
  "storeMaxCwnd r poolName sz = setMaxCwnd r poolName (i32 sz)"


subsection \<open>The cluster-wide search window\<close>

text \<open>Connections are named by the numbers that stand for their addresses.\<close>

type_synonym cid = nat

record nodeSearchSample =
  ns_conn :: cid
  ns_stats :: ThreadPoolStats
  ns_maxCwnd :: int

record clusterNodeSearchEpoch =
  ep_prevCompleted :: int
  ep_prevWaitTimeNano :: int
  ep_hasWaitTime :: bool

record clusterSearchAIMD =
  cl_cwnd :: int
  cl_maxCwnd :: int
  cl_ssthresh :: int
  cl_nodes :: "cid \<rightharpoonup> clusterNodeSearchEpoch"

definition zero_epoch :: clusterNodeSearchEpoch where
  "zero_epoch = \<lparr>ep_prevCompleted = 0, ep_prevWaitTimeNano = 0, ep_hasWaitTime = False\<rparr>"

record cluster_acc =
  acc_deltaCompleted :: int
  acc_deltaWait :: int
  acc_maxCwnd :: int
  acc_hasWaitTime :: bool
  acc_nodes :: "cid \<rightharpoonup> clusterNodeSearchEpoch"

definition cluster_sample :: "nodeSearchSample \<Rightarrow> cluster_acc \<Rightarrow> cluster_acc" where
  "cluster_sample s a0 =
     (let nodeMax = maxCwndOrDefault (ns_maxCwnd s);
          a = (if nodeMax > acc_maxCwnd a0 then a0\<lparr>acc_maxCwnd := nodeMax\<rparr> else a0);
          known = (acc_nodes a (ns_conn s) \<noteq> None);
          epoch = (case acc_nodes a (ns_conn s) of Some e \<Rightarrow> e | None \<Rightarrow> zero_epoch);
          newEpoch = \<lparr>ep_prevCompleted = st_Completed (ns_stats s),
            ep_prevWaitTimeNano = ep_prevWaitTimeNano epoch, ep_hasWaitTime = ep_hasWaitTime epoch\<rparr>;
          newEpoch = (case st_TotalWaitTimeInNanos (ns_stats s) of
              Some w \<Rightarrow> newEpoch\<lparr>ep_prevWaitTimeNano := w, ep_hasWaitTime := True\<rparr> | None \<Rightarrow> newEpoch);
          a = a\<lparr>acc_nodes := (acc_nodes a)(ns_conn s \<mapsto> newEpoch)\<rparr>
      in if \<not> known then a
         else let deltaCompleted = st_Completed (ns_stats s) - ep_prevCompleted epoch in
         if deltaCompleted \<le> 0 then a
         else let a = a\<lparr>acc_deltaCompleted := acc_deltaCompleted a + deltaCompleted\<rparr> in
         (case st_TotalWaitTimeInNanos (ns_stats s) of
            Some w \<Rightarrow> if ep_hasWaitTime epoch
              then a\<lparr>acc_hasWaitTime := True,
                     acc_deltaWait := acc_deltaWait a + (w - ep_prevWaitTimeNano epoch)\<rparr>
              else a
          | None \<Rightarrow> a))"

definition cluster_sums :: "clusterSearchAIMD \<Rightarrow> nodeSearchSample list \<Rightarrow> cluster_acc" where
  "cluster_sums c polled = fold cluster_sample polled \<lparr>acc_deltaCompleted = 0, acc_deltaWait = 0,
     acc_maxCwnd = 0, acc_hasWaitTime = False, acc_nodes = cl_nodes c\<rparr>"

definition cluster_update :: "clusterSearchAIMD \<Rightarrow> nodeSearchSample list \<Rightarrow> clusterSearchAIMD" where
  "cluster_update c polled =
     (let a = cluster_sums c polled;
          polledSet = set (map ns_conn polled);
          c = c\<lparr>cl_nodes := (\<lambda>conn. if conn \<in> polledSet then acc_nodes a conn else None),
                cl_maxCwnd := acc_maxCwnd a\<rparr>
      in if acc_deltaCompleted a \<le> 0 then c
         else let cwnd = max (cl_cwnd c) 1;
                  ssthresh = (if cl_ssthresh c < 1 then acc_maxCwnd a else cl_ssthresh c);
                  congested = (acc_hasWaitTime a \<and> wait_congested (acc_deltaWait a) (acc_deltaCompleted a))
         in if congested then
              let newCwnd = max (cwnd sdiv 2) 1 in c\<lparr>cl_cwnd := newCwnd, cl_ssthresh := newCwnd\<rparr>
            else if cwnd < ssthresh then c\<lparr>cl_cwnd := min (i32 (cwnd * 2)) (acc_maxCwnd a)\<rparr>
            else c\<lparr>cl_cwnd := min (i32 (cwnd + 1)) (acc_maxCwnd a)\<rparr>)"

section \<open>Window bounds\<close>

lemma maxCwndOrDefault_pos [simp]: "0 < maxCwndOrDefault m"
  by (simp add: maxCwndOrDefault_def defaultSyntheticCwndMultiplier_def defaultServerCoreCount_def)

lemma maxCwndOrDefault_less: "m < 2 ^ 30 \<Longrightarrow> maxCwndOrDefault m < 2 ^ 30"
  by (simp add: maxCwndOrDefault_def defaultSyntheticCwndMultiplier_def defaultServerCoreCount_def)

definition pool_ok :: "poolCongestion \<Rightarrow> bool" where
  "pool_ok pc \<longleftrightarrow> 1 \<le> pc_cwnd pc \<and> pc_cwnd pc \<le> maxCwndOrDefault (pc_maxCwnd pc)
     \<and> pc_maxCwnd pc < 2 ^ 30"

lemma congestion_signal_keeps [simp]:
  "pc_maxCwnd (snd (congestion_signal pc st d)) = pc_maxCwnd pc"
  "pc_cwnd (snd (congestion_signal pc st d)) = pc_cwnd pc"
  "pc_inFlight (snd (congestion_signal pc st d)) = pc_inFlight pc"
  "pc_overloaded (snd (congestion_signal pc st d)) = pc_overloaded pc"
  "pc_ssthresh (snd (congestion_signal pc st d)) = pc_ssthresh pc"
  by (simp_all add: congestion_signal_def Let_def split: option.splits)

lemma applyPoolAIMD_maxCwnd [simp]: "pc_maxCwnd (applyPoolAIMD pc st) = pc_maxCwnd pc"
  by (simp add: applyPoolAIMD_def Let_def case_prod_unfold)

lemma applyPoolAIMD_inFlight [simp]: "pc_inFlight (applyPoolAIMD pc st) = pc_inFlight pc"
  by (simp add: applyPoolAIMD_def Let_def case_prod_unfold)

text \<open>The four outcomes of a poll for the window.\<close>

lemma applyPoolAIMD_cwnd_cases:
  "pc_cwnd (applyPoolAIMD pc st) = pc_cwnd pc
   \<or> pc_cwnd (applyPoolAIMD pc st) = max (max (pc_cwnd pc) 1 sdiv 2) 1
   \<or> pc_cwnd (applyPoolAIMD pc st) = min (i32 (max (pc_cwnd pc) 1 * 2)) (maxCwndOrDefault (pc_maxCwnd pc))
   \<or> pc_cwnd (applyPoolAIMD pc st) = min (i32 (max (pc_cwnd pc) 1 + 1)) (maxCwndOrDefault (pc_maxCwnd pc))"
  by (simp add: applyPoolAIMD_def Let_def case_prod_unfold)

lemma halve_bounds: "1 \<le> x \<Longrightarrow> 1 \<le> max (x sdiv 2) 1 \<and> max (x sdiv 2) 1 \<le> x" for x :: int
  by (simp add: signed_divide_int_def)

lemma pool_ok_applyPoolAIMD:
  assumes "pool_ok pc"
  shows "pool_ok (applyPoolAIMD pc st)"
proof -
  have b: "1 \<le> pc_cwnd pc" "pc_cwnd pc \<le> maxCwndOrDefault (pc_maxCwnd pc)"
      "maxCwndOrDefault (pc_maxCwnd pc) < 2 ^ 30"
    using assms maxCwndOrDefault_less by (auto simp: pool_ok_def)
  have m: "max (pc_cwnd pc) 1 = pc_cwnd pc" using b by simp
  have w: "i32 (pc_cwnd pc * 2) = pc_cwnd pc * 2" "i32 (pc_cwnd pc + 1) = pc_cwnd pc + 1"
    using b by (simp_all add: i32_id)
  have "1 \<le> pc_cwnd (applyPoolAIMD pc st) \<and> pc_cwnd (applyPoolAIMD pc st) \<le> maxCwndOrDefault (pc_maxCwnd pc)"
    using applyPoolAIMD_cwnd_cases [of pc st] halve_bounds [OF b(1)] b
      maxCwndOrDefault_pos [of "pc_maxCwnd pc"] unfolding m w by linarith
  then show ?thesis using assms by (simp add: pool_ok_def)
qed

text \<open>
  The default pool is the zero value, whose window is zero until something is applied to it.
\<close>

definition default_ok :: "poolCongestion \<Rightarrow> bool" where
  "default_ok pc \<longleftrightarrow> 0 \<le> pc_cwnd pc \<and> pc_cwnd pc \<le> maxCwndOrDefault (pc_maxCwnd pc)
     \<and> pc_maxCwnd pc < 2 ^ 30"

lemma default_ok_zero [simp]: "default_ok zero_pool"
  using maxCwndOrDefault_pos [of 0] by (simp add: default_ok_def zero_pool_def del: maxCwndOrDefault_pos)

lemma default_ok_applyPoolAIMD:
  assumes "default_ok pc"
  shows "default_ok (applyPoolAIMD pc st)"
proof -
  let ?c = "max (pc_cwnd pc) 1"
  have b: "1 \<le> ?c" "0 \<le> pc_cwnd pc" "pc_cwnd pc \<le> maxCwndOrDefault (pc_maxCwnd pc)"
      "?c \<le> maxCwndOrDefault (pc_maxCwnd pc)" "maxCwndOrDefault (pc_maxCwnd pc) < 2 ^ 30"
    using assms maxCwndOrDefault_less [of "pc_maxCwnd pc"] maxCwndOrDefault_pos [of "pc_maxCwnd pc"]
    unfolding default_ok_def by linarith+
  have w: "i32 (?c * 2) = ?c * 2" "i32 (?c + 1) = ?c + 1" using b by (simp_all add: i32_id)
  have "0 \<le> pc_cwnd (applyPoolAIMD pc st) \<and> pc_cwnd (applyPoolAIMD pc st) \<le> maxCwndOrDefault (pc_maxCwnd pc)"
    using applyPoolAIMD_cwnd_cases [of pc st] halve_bounds [OF b(1)] b
      maxCwndOrDefault_pos [of "pc_maxCwnd pc"] unfolding w by linarith
  then show ?thesis using assms by (simp add: default_ok_def)
qed

definition registry_ok :: "poolRegistry \<Rightarrow> bool" where
  "registry_ok r \<longleftrightarrow> (\<forall>name pc. reg_pools r name = Some pc \<longrightarrow> pool_ok pc) \<and> default_ok (reg_defaultPool r)"

lemma pool_ok_fresh: "pool_ok (zero_pool\<lparr>pc_cwnd := 1\<rparr>)"
  using maxCwndOrDefault_pos [of 0] by (simp add: pool_ok_def zero_pool_def del: maxCwndOrDefault_pos)

lemma registry_ok_getOrCreate: "registry_ok r \<Longrightarrow> registry_ok (snd (getOrCreate r name))"
  by (auto simp: registry_ok_def getOrCreate_def pool_ok_fresh split: option.splits)

lemma registry_ok_modify:
  "registry_ok r \<Longrightarrow> (\<And>pc. pool_ok pc \<Longrightarrow> pool_ok (f pc)) \<Longrightarrow> (\<And>pc. default_ok pc \<Longrightarrow> default_ok (f pc)) \<Longrightarrow>
     registry_ok (modify r p f)"
  by (auto simp: registry_ok_def modify_def split: option.splits pool_ptr.splits)

lemma registry_ok_update_pool: "registry_ok r \<Longrightarrow> registry_ok (update_pool r e)"
  using registry_ok_getOrCreate [of r "fst e"]
  by (auto simp: update_pool_def case_prod_unfold Let_def
      intro!: registry_ok_modify pool_ok_applyPoolAIMD default_ok_applyPoolAIMD)

lemma registry_ok_fold: "registry_ok r \<Longrightarrow> registry_ok (fold (\<lambda>e r. update_pool r e) tps r)"
  by (induction tps arbitrary: r) (simp_all add: registry_ok_update_pool)

lemma registry_ok_update: "registry_ok r \<Longrightarrow> registry_ok (updatePoolCongestion r tps)"
  using registry_ok_fold [of r]
  by (auto simp: updatePoolCongestion_def Let_def registry_ok_def split: option.splits)

lemma registry_ok_setMaxCwnd:
  assumes "registry_ok r" "1 \<le> sz" "sz < 2 ^ 30"
  shows "registry_ok (setMaxCwnd r name sz)"
proof -
  have "pool_ok pc \<Longrightarrow> pool_ok (let oldCwnd = pc_cwnd pc; pc = pc\<lparr>pc_maxCwnd := sz\<rparr>;
      pc = (if oldCwnd > sz then pc\<lparr>pc_cwnd := sz\<rparr> else pc) in pc\<lparr>pc_ssthresh := sz\<rparr>)"
    "default_ok pc \<Longrightarrow> default_ok (let oldCwnd = pc_cwnd pc; pc = pc\<lparr>pc_maxCwnd := sz\<rparr>;
      pc = (if oldCwnd > sz then pc\<lparr>pc_cwnd := sz\<rparr> else pc) in pc\<lparr>pc_ssthresh := sz\<rparr>)" for pc
    using assms by (auto simp: pool_ok_def default_ok_def Let_def maxCwndOrDefault_def)
  then show ?thesis unfolding setMaxCwnd_def using registry_ok_getOrCreate [OF assms(1), of name]
    by (auto simp: case_prod_unfold Let_def intro!: registry_ok_modify)
qed

lemma registry_ok_inFlight: "registry_ok r \<Longrightarrow> registry_ok (modify r p (\<lambda>pc. pc\<lparr>pc_inFlight := n\<rparr>))"
  by (rule registry_ok_modify) (simp_all add: pool_ok_def default_ok_def)

lemma pool_ok_default: "pool_ok pc \<Longrightarrow> default_ok pc"
  by (simp add: pool_ok_def default_ok_def)

lemma registry_ok_deref: "registry_ok r \<Longrightarrow> default_ok (deref r p)"
  by (auto simp: registry_ok_def deref_def pool_ok_default split: pool_ptr.splits option.splits)

section \<open>Polls that see no congestion\<close>

definition quiet_poll :: "poolCongestion \<Rightarrow> ThreadPoolStats \<Rightarrow> bool" where
  "quiet_poll pc st \<longleftrightarrow> st_Rejected st \<le> pc_prevRejected pc \<and> pc_prevCompleted pc < st_Completed st
     \<and> \<not> fst (congestion_signal pc st (st_Completed st - pc_prevCompleted pc))"

lemma congestion_signal_fst [simp]:
  "fst (congestion_signal (pc\<lparr>pc_prevCompleted := a, pc_prevRejected := b, pc_overloaded := o'\<rparr>) st d)
     = fst (congestion_signal pc st d)"
  by (simp add: congestion_signal_def Let_def split: option.splits)

lemma quiet_poll_grows:
  assumes "pool_ok pc" "quiet_poll pc st"
  shows "min (pc_cwnd pc + 1) (maxCwndOrDefault (pc_maxCwnd pc)) \<le> pc_cwnd (applyPoolAIMD pc st)"
    and "\<not> pc_overloaded (applyPoolAIMD pc st)"
proof -
  have b: "1 \<le> pc_cwnd pc" "pc_cwnd pc < 2 ^ 30"
    using assms maxCwndOrDefault_less [of "pc_maxCwnd pc"] by (auto simp: pool_ok_def)
  then show "min (pc_cwnd pc + 1) (maxCwndOrDefault (pc_maxCwnd pc)) \<le> pc_cwnd (applyPoolAIMD pc st)"
    using assms(2) by (auto simp: applyPoolAIMD_def quiet_poll_def Let_def case_prod_unfold i32_id)
  show "\<not> pc_overloaded (applyPoolAIMD pc st)"
    using assms(2) by (auto simp: applyPoolAIMD_def quiet_poll_def Let_def case_prod_unfold)
qed

fun quiet_polls :: "poolCongestion \<Rightarrow> ThreadPoolStats list \<Rightarrow> bool" where
  "quiet_polls pc [] = True"
| "quiet_polls pc (st # sts) = (quiet_poll pc st \<and> quiet_polls (applyPoolAIMD pc st) sts)"

lemma quiet_polls_grow:
  assumes "pool_ok pc" "quiet_polls pc sts"
  shows "min (pc_cwnd pc + int (length sts)) (maxCwndOrDefault (pc_maxCwnd pc))
      \<le> pc_cwnd (fold (\<lambda>st pc. applyPoolAIMD pc st) sts pc)"
  using assms
proof (induction sts arbitrary: pc)
  case Nil
  then show ?case by simp
next
  case (Cons st sts)
  have "min (pc_cwnd pc + 1) (maxCwndOrDefault (pc_maxCwnd pc)) \<le> pc_cwnd (applyPoolAIMD pc st)"
    using Cons.prems by (intro quiet_poll_grows) auto
  moreover have "min (pc_cwnd (applyPoolAIMD pc st) + int (length sts)) (maxCwndOrDefault (pc_maxCwnd pc))
      \<le> pc_cwnd (fold (\<lambda>st pc. applyPoolAIMD pc st) sts (applyPoolAIMD pc st))"
    using Cons.IH [of "applyPoolAIMD pc st"] Cons.prems by (simp add: pool_ok_applyPoolAIMD)
  ultimately show ?case by (simp add: min_def split: if_splits)
qed

section \<open>The registry after a poll\<close>

definition pool_or_fresh :: "poolRegistry \<Rightarrow> string \<Rightarrow> poolCongestion" where
  "pool_or_fresh r name = (case reg_pools r name of Some pc \<Rightarrow> pc | None \<Rightarrow> zero_pool\<lparr>pc_cwnd := 1\<rparr>)"

lemma update_pool_pools:
  "name \<noteq> '''' \<Longrightarrow>
     reg_pools (update_pool r (name, st)) = (reg_pools r)(name \<mapsto> applyPoolAIMD (pool_or_fresh r name) st)
     \<and> reg_defaultPool (update_pool r (name, st)) = reg_defaultPool r"
  by (auto simp: update_pool_def getOrCreate_def modify_def pool_or_fresh_def split: option.splits)

lemma fold_update_pools:
  assumes "distinct (map fst tps)" "'''' \<notin> set (map fst tps)"
  shows "reg_pools (fold (\<lambda>e r. update_pool r e) tps r) name
       = (case map_of tps name of
            Some st \<Rightarrow> Some (applyPoolAIMD (pool_or_fresh r name) st) | None \<Rightarrow> reg_pools r name)
     \<and> reg_defaultPool (fold (\<lambda>e r. update_pool r e) tps r) = reg_defaultPool r"
  using assms
proof (induction tps arbitrary: r)
  case Nil
  then show ?case by simp
next
  case (Cons e tps)
  obtain n st where e: "e = (n, st)" by fastforce
  have u: "reg_pools (update_pool r (n, st)) = (reg_pools r)(n \<mapsto> applyPoolAIMD (pool_or_fresh r n) st)"
      "reg_defaultPool (update_pool r (n, st)) = reg_defaultPool r"
    using update_pool_pools [of n r st] Cons.prems e by auto
  have "map_of tps n = None" using Cons.prems e by (simp add: map_of_eq_None_iff image_iff)
  then show ?case using Cons.IH [of "update_pool r (n, st)"] Cons.prems e u
    by (auto simp: pool_or_fresh_def split: option.splits)
qed

section \<open>Properties\<close>

text \<open>C33. The congestion windows stay within their ceilings: polling a node's thread pools, creating and
  removing pools, counting requests and receiving a configured size between \<open>1\<close> and \<open>2 ^ 30 - 1\<close> keep
  the window of every named pool between one and its ceiling and the window of the default pool
  between zero (its initial value) and its ceiling, so no 32-bit window overflows. The window that is
  read for a score is at least one and at most the ceiling of the pool it is read from.\<close>
theorem congestion_window_bounds:
  assumes "registry_ok r" "1 \<le> sz" "sz < 2 ^ 30"
  shows "registry_ok (updatePoolCongestion r tps) \<and> registry_ok (setMaxCwnd r name sz)
    \<and> registry_ok (snd (getOrCreate r name)) \<and> registry_ok (registry_remove r name)
    \<and> registry_ok (snd (addInFlight r name)) \<and> registry_ok (snd (releaseInFlight r name))
    \<and> 1 \<le> loadCwnd r procs name True
    \<and> loadCwnd r procs name True \<le> maxCwndOrDefault (pc_maxCwnd (deref r (getForScoring r name)))"
proof -
  have "registry_ok (registry_remove r name)"
    using assms(1) by (simp add: registry_ok_def registry_remove_def)
  moreover have "1 \<le> loadCwnd r procs name True" by (simp add: loadCwnd_def Let_def)
  moreover have "loadCwnd r procs name True \<le> maxCwndOrDefault (pc_maxCwnd (deref r (getForScoring r name)))"
    using registry_ok_deref [OF assms(1), of "getForScoring r name"]
      maxCwndOrDefault_pos [of "pc_maxCwnd (deref r (getForScoring r name))"]
    by (simp add: loadCwnd_def default_ok_def Let_def del: maxCwndOrDefault_pos)
  moreover have "registry_ok (snd (addInFlight r name))" "registry_ok (snd (releaseInFlight r name))"
    using registry_ok_inFlight [OF assms(1)] by (simp_all add: addInFlight_def releaseInFlight_def Let_def)
  ultimately show ?thesis
    using assms registry_ok_update registry_ok_setMaxCwnd registry_ok_getOrCreate by blast
qed

definition idle_stats :: "int \<Rightarrow> int option \<Rightarrow> ThreadPoolStats" where
  "idle_stats completed wait = \<lparr>st_Queue = 0, st_Active = 1, st_Rejected = 0, st_Completed = completed,
     st_TotalWaitTimeInNanos = wait\<rparr>"

theorem congestion_window_bounds_witness:
  "registry_ok (updatePoolCongestion \<lparr>reg_pools = Map.empty, reg_defaultPool = zero_pool\<rparr>
     (Some [(''search'', idle_stats 10 (Some 0))]))"
  using congestion_window_bounds [of "\<lparr>reg_pools = Map.empty, reg_defaultPool = zero_pool\<rparr>" 8
      "Some [(''search'', idle_stats 10 (Some 0))]" "''search''" 0]
  by (simp add: registry_ok_def)

text \<open>A poll updates exactly the reported pools, whatever the order in which the statistics are
  visited: each reported pool is the controller applied to its previous state, or to a fresh pool
  with window one, unreported pools are gone, and the default pool is untouched.\<close>
theorem updatePoolCongestion_result:
  assumes "distinct (map fst tps)" "'''' \<notin> set (map fst tps)"
  shows "reg_pools (updatePoolCongestion r (Some tps)) name
       = map_option (applyPoolAIMD (pool_or_fresh r name)) (map_of tps name)
    \<and> reg_defaultPool (updatePoolCongestion r (Some tps)) = reg_defaultPool r"
proof (cases "map_of tps name")
  case None
  then show ?thesis using fold_update_pools [OF assms, of r name]
    by (simp add: updatePoolCongestion_def Let_def map_of_eq_None_iff)
next
  case (Some st)
  then have "name \<in> set (map fst tps)" by (metis map_of_eq_None_iff option.simps(3) set_map)
  then show ?thesis using fold_update_pools [OF assms, of r name] Some
    by (simp add: updatePoolCongestion_def Let_def)
qed

theorem updatePoolCongestion_result_witness:
  "reg_pools (updatePoolCongestion \<lparr>reg_pools = [''get'' \<mapsto> zero_pool], reg_defaultPool = zero_pool\<rparr>
     (Some [(''search'', idle_stats 10 None), (''write'', idle_stats 5 None)])) ''get'' = None"
  using updatePoolCongestion_result [of "[(''search'', idle_stats 10 None), (''write'', idle_stats 5 None)]"
      "\<lparr>reg_pools = [''get'' \<mapsto> zero_pool], reg_defaultPool = zero_pool\<rparr>" "''get''"]
  by simp

text \<open>C34. The controller recovers: after \<open>n\<close> polls that each report new completions, no rejection and
  no congestion, the window is at least the smaller of the old window plus \<open>n\<close> and the ceiling.\<close>
theorem aimd_recovers:
  assumes "pool_ok pc" "quiet_polls pc sts"
  shows "min (pc_cwnd pc + int (length sts)) (maxCwndOrDefault (pc_maxCwnd pc))
      \<le> pc_cwnd (fold (\<lambda>st pc. applyPoolAIMD pc st) sts pc)"
  using assms by (rule quiet_polls_grow)

theorem aimd_recovers_witness:
  "3 \<le> pc_cwnd (fold (\<lambda>st pc. applyPoolAIMD pc st) [idle_stats 1 (Some 0), idle_stats 2 (Some 0)]
     (zero_pool\<lparr>pc_cwnd := 1\<rparr>))"
proof -
  have "quiet_polls (zero_pool\<lparr>pc_cwnd := 1\<rparr>) [idle_stats 1 (Some 0), idle_stats 2 (Some 0)]"
    by code_simp
  moreover have "min (pc_cwnd (zero_pool\<lparr>pc_cwnd := 1\<rparr>) + int (length [idle_stats 1 (Some 0), idle_stats 2 (Some 0)]))
      (maxCwndOrDefault (pc_maxCwnd (zero_pool\<lparr>pc_cwnd := 1\<rparr>))) = 3" by code_simp
  ultimately show ?thesis
    using aimd_recovers [OF pool_ok_fresh, of "[idle_stats 1 (Some 0), idle_stats 2 (Some 0)]"] by simp
qed

text \<open>A poll that reports a rejection, or no completion, does not advance the wait-time baseline
  although it advances the completion baseline. The next poll then divides the wait of both
  intervals by the completions of one: here no task waited between the two polls, and yet the
  second one halves the window again.\<close>
theorem stale_wait_baseline:
  "let pc = zero_pool\<lparr>pc_cwnd := 16, pc_maxCwnd := 16, pc_ssthresh := 16, pc_prevCompleted := 1000,
              pc_prevWaitTimeNano := 0, pc_hasWaitTime := True\<rparr>;
       rejected = \<lparr>st_Queue = 10, st_Active = 16, st_Rejected = 1, st_Completed = 1100,
                   st_TotalWaitTimeInNanos = Some 1000000000\<rparr>;
       calm = \<lparr>st_Queue = 0, st_Active = 1, st_Rejected = 1, st_Completed = 1200,
               st_TotalWaitTimeInNanos = Some 1000000000\<rparr>
   in pc_cwnd (applyPoolAIMD pc rejected) = 8
      \<and> pc_prevWaitTimeNano (applyPoolAIMD pc rejected) = 0
      \<and> pc_cwnd (applyPoolAIMD (applyPoolAIMD pc rejected) calm) = 4"
  by code_simp

text \<open>A request's in-flight count is returned to where it was taken when the pool is known
  throughout; but when the poller creates the named pool between the two calls, the increment stays
  with the default pool for good and the named pool goes to minus one.\<close>
theorem inflight_leak:
  "(let r = \<lparr>reg_pools = [''search'' \<mapsto> zero_pool\<lparr>pc_cwnd := 1\<rparr>], reg_defaultPool = zero_pool\<rparr>;
        r1 = snd (addInFlight r ''search'');
        r2 = snd (releaseInFlight r1 ''search'')
    in loadInFlight r1 ''search'' = 1 \<and> r2 = r)
   \<and> (let r = \<lparr>reg_pools = Map.empty, reg_defaultPool = zero_pool\<rparr>;
        r1 = snd (addInFlight r ''search'');
        r2 = updatePoolCongestion r1 (Some [(''search'', idle_stats 10 None)]);
        r3 = snd (releaseInFlight r2 ''search'')
    in loadInFlight r3 ''search'' = -1 \<and> pc_inFlight (reg_defaultPool r3) = 1)"
  by (simp add: addInFlight_def releaseInFlight_def loadInFlight_def getForScoring_def deref_def modify_def
      updatePoolCongestion_def update_pool_def getOrCreate_def zero_pool_def Let_def)

lemma cluster_sample_max:
  "acc_maxCwnd (cluster_sample s a) = max (acc_maxCwnd a) (maxCwndOrDefault (ns_maxCwnd s))"
  by (simp add: cluster_sample_def Let_def split: option.splits)

lemma cluster_fold_max:
  "acc_maxCwnd (fold cluster_sample ps a) = fold max (map (maxCwndOrDefault \<circ> ns_maxCwnd) ps) (acc_maxCwnd a)"
  by (induction ps arbitrary: a) (simp_all add: cluster_sample_max max.commute)

lemma cluster_sums_max:
  assumes "ps \<noteq> []"
  shows "acc_maxCwnd (cluster_sums c ps) = Max (set (map (maxCwndOrDefault \<circ> ns_maxCwnd) ps))"
proof -
  let ?xs = "map (maxCwndOrDefault \<circ> ns_maxCwnd) ps"
  have "acc_maxCwnd (cluster_sums c ps) = fold max ?xs 0" by (simp add: cluster_sums_def cluster_fold_max)
  also have "\<dots> = Max (insert 0 (set ?xs))" by (metis Max.set_eq_fold list.simps(15))
  also have "\<dots> = max 0 (Max (set ?xs))" using assms by (intro Max_insert) auto
  also have "\<dots> = Max (set ?xs)"
    using assms by (intro max_absorb2 Max_ge_iff [THEN iffD2]) (auto simp: less_imp_le ex_in_conv)
  finally show ?thesis .
qed

text \<open>The cluster-wide ceiling is the largest single node's search pool, not the sum of the pools:
  after a cycle whose completions show no congestion the window is between one and that maximum.\<close>
theorem cluster_window_ceiling:
  assumes "polled \<noteq> []" "cl_cwnd c < 2 ^ 30" "0 < acc_deltaCompleted (cluster_sums c polled)"
    and "acc_deltaWait (cluster_sums c polled) < waitThresholdNanos * acc_deltaCompleted (cluster_sums c polled)"
  shows "cl_maxCwnd (cluster_update c polled) = Max (set (map (maxCwndOrDefault \<circ> ns_maxCwnd) polled))
    \<and> 1 \<le> cl_cwnd (cluster_update c polled)
    \<and> cl_cwnd (cluster_update c polled) \<le> Max (set (map (maxCwndOrDefault \<circ> ns_maxCwnd) polled))"
proof -
  let ?m = "Max (set (map (maxCwndOrDefault \<circ> ns_maxCwnd) polled))" and ?w = "max (cl_cwnd c) 1"
  have m: "1 \<le> ?m" using assms(1)
    by (intro Max_ge_iff [THEN iffD2]) (auto simp: int_one_le_iff_zero_less ex_in_conv)
  have w: "i32 (?w * 2) = ?w * 2" "i32 (?w + 1) = ?w + 1" using assms(2) by (auto simp: max_def)
  have "cl_maxCwnd (cluster_update c polled) = ?m"
    by (simp add: cluster_update_def Let_def cluster_sums_max assms(1))
  moreover have "cl_cwnd (cluster_update c polled) \<in> {min (?w * 2) ?m, min (?w + 1) ?m}"
    using assms(3,4) w by (simp add: cluster_update_def Let_def cluster_sums_max assms(1) wait_congested_def)
  ultimately show ?thesis using m by auto
qed

definition sample_cluster :: clusterSearchAIMD where
  "sample_cluster = \<lparr>cl_cwnd = 0, cl_maxCwnd = 0, cl_ssthresh = 0,
     cl_nodes = [1 \<mapsto> zero_epoch, 2 \<mapsto> zero_epoch]\<rparr>"

definition sample_polled :: "nodeSearchSample list" where
  "sample_polled = [\<lparr>ns_conn = 1, ns_stats = idle_stats 10 (Some 0), ns_maxCwnd = 4\<rparr>,
     \<lparr>ns_conn = 2, ns_stats = idle_stats 20 (Some 0), ns_maxCwnd = 6\<rparr>]"

theorem cluster_window_ceiling_witness:
  "cl_maxCwnd (cluster_update sample_cluster sample_polled) = Max {4, 6}"
proof -
  have s: "acc_deltaCompleted (cluster_sums sample_cluster sample_polled) = 30"
    "acc_deltaWait (cluster_sums sample_cluster sample_polled) = 0"
    by (simp_all add: cluster_sums_def cluster_sample_def sample_cluster_def sample_polled_def
        idle_stats_def zero_epoch_def Let_def)
  have "set (map (maxCwndOrDefault \<circ> ns_maxCwnd) sample_polled) = {4, 6}"
    by (simp add: sample_polled_def maxCwndOrDefault_def)
  moreover have "cl_cwnd sample_cluster < 2 ^ 30" "sample_polled \<noteq> []"
    by (simp_all add: sample_cluster_def sample_polled_def)
  ultimately show ?thesis
    using cluster_window_ceiling [of sample_polled sample_cluster] s by (simp add: waitThresholdNanos_def)
qed

end
