(* ===== verification/Connection.thy ===== *)
theory Connection
  imports Warmup Rtt Congestion "HOL-Library.Char_ord" "HOL-Library.List_Lexorder"
begin

text \<open>
  Connections, \<^verbatim>\<open>src/opensearchtransport/connection.go\<close>, with the role sets of
  \<^verbatim>\<open>src/opensearchtransport/discovery.go\<close>: the fields a pool, a policy or the scheduler of
  resurrections reads or writes, the marking operations, the draining countdown and the
  round-trip-time accessors. Operations of a holder of the connection's mutex are functions on the
  record; the current time is an argument. The collection \<open>conn_simps\<close> says what each
  operation keeps.
\<close>

section \<open>Definitions\<close>

subsection \<open>Roles\<close>

type_synonym roleSet = "string set"

definition RoleData :: string where "RoleData = ''data''"
definition RoleIngest :: string where "RoleIngest = ''ingest''"
definition RoleWarm :: string where "RoleWarm = ''warm''"
definition RoleSearch :: string where "RoleSearch = ''search''"
definition RoleML :: string where "RoleML = ''ml''"
definition RoleClusterManager :: string where "RoleClusterManager = ''cluster_manager''"
definition RoleMaster :: string where "RoleMaster = ''master''"

definition workRoles :: "string list" where
  "workRoles = [RoleData, RoleIngest, RoleWarm, RoleSearch, RoleML]"

definition newRoleSet :: "string list \<Rightarrow> roleSet" where
  "newRoleSet roles = fold (\<lambda>role rs.
     let rs = insert role rs in if role = RoleMaster then insert RoleClusterManager rs else rs) roles {}"

definition role_has :: "roleSet \<Rightarrow> string \<Rightarrow> bool" where
  "role_has rs roleName \<longleftrightarrow> roleName \<in> rs"

definition toSlice :: "roleSet \<Rightarrow> string list" where
  "toSlice rs = sorted_list_of_set {role \<in> rs. \<not> (role = RoleClusterManager \<and> RoleMaster \<in> rs)}"

definition isDedicatedClusterManager :: "roleSet \<Rightarrow> bool" where
  "isDedicatedClusterManager rs =
     (if \<not> role_has rs RoleClusterManager then False else \<not> list_ex (role_has rs) workRoles)"

subsection \<open>Connections\<close>

record connection =
  URL :: string
  conn_ID :: string
  Name :: string
  Roles :: roleSet
  version :: string
  weight :: int
  allocatedProcessors :: int
  rtt :: "rttRing option"
  pools :: poolRegistry
  failures :: int
  state :: connState
  deadSinceNano :: int
  overloadedAtNano :: int
  drainingQuiescingRemaining :: int
  checkStartedAt :: "int option"
  seed :: bool

text \<open>A \<^verbatim>\<open>time.Time\<close> is \<open>None\<close> for the zero time and otherwise its Unix nanoseconds.\<close>

definition timeToNano :: "int option \<Rightarrow> int" where
  "timeToNano t = (case t of None \<Rightarrow> 0 | Some n \<Rightarrow> n)"

definition nanoToTime :: "int \<Rightarrow> int option" where
  "nanoToTime n = (if n = 0 then None else Some n)"

definition loadDeadSince :: "connection \<Rightarrow> int option" where
  "loadDeadSince c = nanoToTime (deadSinceNano c)"

definition storeDeadSince :: "int option \<Rightarrow> connection \<Rightarrow> connection" where
  "storeDeadSince t c = c\<lparr>deadSinceNano := timeToNano t\<rparr>"

definition deadSinceIsZero :: "connection \<Rightarrow> bool" where
  "deadSinceIsZero c \<longleftrightarrow> deadSinceNano c = 0"

definition loadOverloadedAt :: "connection \<Rightarrow> int option" where
  "loadOverloadedAt c = nanoToTime (overloadedAtNano c)"

definition storeOverloadedAt :: "int option \<Rightarrow> connection \<Rightarrow> connection" where
  "storeOverloadedAt t c = c\<lparr>overloadedAtNano := timeToNano t\<rparr>"

definition effectiveWeight :: "connection \<Rightarrow> nat" where
  "effectiveWeight c = (if weight c \<le> 0 then 1 else nat (weight c))"

definition loadAllocatedProcessors :: "connection \<Rightarrow> int" where
  "loadAllocatedProcessors c = allocatedProcessors c"

definition storeAllocatedProcessors :: "int \<Rightarrow> connection \<Rightarrow> connection" where
  "storeAllocatedProcessors v c = c\<lparr>allocatedProcessors := i32 v\<rparr>"

definition decrementDrainingQuiescing_body :: "int \<Rightarrow> int \<times> int option" where
  "decrementDrainingQuiescing_body current =
     (if current \<le> 0 then (0, None) else (current - 1, Some (current - 1)))"

definition decrementDrainingQuiescing :: "int interference \<Rightarrow> connection \<Rightarrow> int \<times> connection" where
  "decrementDrainingQuiescing env c =
     (let (r, v) = cas_retry decrementDrainingQuiescing_body env (drainingQuiescingRemaining c)
      in (r, c\<lparr>drainingQuiescingRemaining := v\<rparr>))"

text \<open>
  The lifecycle updates of a holder of the connection's mutex, which ignores the no-op error.
\<close>

definition upd_lc :: "connLifecycle \<Rightarrow> connLifecycle \<Rightarrow> connection \<Rightarrow> connection" where
  "upd_lc st clr c = c\<lparr>state := snd (casLifecycle (state c) 0 st clr)\<rparr>"

definition lc_of :: "connection \<Rightarrow> connLifecycle" where
  "lc_of c = lifecycle (state c)"

definition markAsDead :: "int \<Rightarrow> connection \<Rightarrow> connection" where
  "markAsDead now c =
     (let c = (if deadSinceIsZero c then storeDeadSince (Some now) c else c)
      in c\<lparr>failures := failures c + 1\<rparr>)"

definition markAsReady :: "connection \<Rightarrow> connection" where
  "markAsReady c = upd_lc lcViable 0 (storeDeadSince None c)"

definition markAsHealthy :: "connection \<Rightarrow> connection" where
  "markAsHealthy c = upd_lc lcViable 0 ((storeDeadSince None c)\<lparr>failures := 0\<rparr>)"

definition availableForRouting :: "connection \<Rightarrow> bool" where
  "availableForRouting c = (if seed c then True else lc_has (lc_of c) lcViable)"

definition RTTBucket :: "connection \<Rightarrow> go_panic + int" where
  "RTTBucket c = (case rtt c of
     None \<Rightarrow> Inr (-1)
   | Some r \<Rightarrow> (case medianBucket (Some r) of
       Inl e \<Rightarrow> Inl e
     | Inr bucket \<Rightarrow> Inr (if rttBucket_IsUnknown bucket then -1 else bucket)))"

definition RTTMedian :: "connection \<Rightarrow> go_panic + int" where
  "RTTMedian c = (case rtt c of
     None \<Rightarrow> Inr (-1)
   | Some r \<Rightarrow> (case medianBucket (Some r) of
       Inl e \<Rightarrow> Inl e
     | Inr bucket \<Rightarrow> Inr (if rttBucket_IsUnknown bucket then -1
         else durationMicros_Nanos (rttBucket_Micros bucket))))"

definition startWarmup_conn :: "int \<Rightarrow> int \<Rightarrow> connection \<Rightarrow> connection" where
  "startWarmup_conn rounds skip c = c\<lparr>state := startWarmup rounds skip [] (state c)\<rparr>"

definition clearWarmup_conn :: "connection \<Rightarrow> connection" where
  "clearWarmup_conn c = c\<lparr>state := clearWarmup [] (state c)\<rparr>"

definition tryWarmupSkip_conn :: "connection \<Rightarrow> warmupResult \<times> connection" where
  "tryWarmupSkip_conn c = (let (r, s) = tryWarmupSkip [] (state c) in (r, c\<lparr>state := s\<rparr>))"

section \<open>Roles\<close>

lemma fold_roles:
  "fold (\<lambda>role rs. let rs = insert role rs in if role = RoleMaster then insert RoleClusterManager rs else rs)
     roles R = R \<union> set roles \<union> (if RoleMaster \<in> set roles then {RoleClusterManager} else {})"
  by (induction roles arbitrary: R) (auto simp: Let_def)

lemma newRoleSet_eq:
  "newRoleSet roles = set roles \<union> (if RoleMaster \<in> set roles then {RoleClusterManager} else {})"
  by (simp add: newRoleSet_def fold_roles)

section \<open>Effects on the fields\<close>

lemma upd_lc_fields [conn_simps]:
  "URL (upd_lc st clr c) = URL c" "Roles (upd_lc st clr c) = Roles c" "weight (upd_lc st clr c) = weight c"
  "seed (upd_lc st clr c) = seed c" "rtt (upd_lc st clr c) = rtt c" "failures (upd_lc st clr c) = failures c"
  "deadSinceNano (upd_lc st clr c) = deadSinceNano c"
  "drainingQuiescingRemaining (upd_lc st clr c) = drainingQuiescingRemaining c"
  "isWarmingUp (state (upd_lc st clr c)) = isWarmingUp (state c)"
  by (simp_all add: upd_lc_def)

lemma bit_upd_lc [conn_simps]:
  "bit (lc_of (upd_lc st clr c)) n \<longleftrightarrow> n < 13 \<and> (bit (lc_of c) n \<or> bit st n) \<and> \<not> bit clr n"
  by (simp add: lc_of_def upd_lc_def bit_updLifecycle)

lemma store_fields [conn_simps]:
  "state (storeDeadSince t c) = state c" "lc_of (storeDeadSince t c) = lc_of c"
  "state (storeOverloadedAt t c) = state c" "lc_of (storeOverloadedAt t c) = lc_of c"
  "deadSinceNano (storeDeadSince t c) = timeToNano t" "deadSinceNano (storeOverloadedAt t c) = deadSinceNano c"
  "seed (storeDeadSince t c) = seed c" "seed (storeOverloadedAt t c) = seed c"
  "Roles (storeDeadSince t c) = Roles c" "Roles (storeOverloadedAt t c) = Roles c"
  "weight (storeDeadSince t c) = weight c" "weight (storeOverloadedAt t c) = weight c"
  by (simp_all add: storeDeadSince_def storeOverloadedAt_def lc_of_def)

lemma markAsDead_fields [conn_simps]:
  "lc_of (markAsDead now c) = lc_of c" "state (markAsDead now c) = state c"
  "deadSinceNano (markAsDead now c) = (if deadSinceNano c = 0 then now else deadSinceNano c)"
  "failures (markAsDead now c) = failures c + 1"
  by (simp_all add: markAsDead_def storeDeadSince_def deadSinceIsZero_def lc_of_def timeToNano_def Let_def)

text \<open>Warmup changes only the warmup managers, and at its end the two readiness bits.\<close>

lemma lc_of_startWarmup [conn_simps]: "lc_of (startWarmup_conn r k c) = lc_of c"
  by (simp add: lc_of_def startWarmup_conn_def startWarmup_def cas_retry_alone startWarmup_body_def
      lifecycle_packConnState Let_def)

lemma lc_of_clearWarmup [conn_simps]: "lc_of (clearWarmup_conn c) = lc_of c"
  by (simp add: lc_of_def clearWarmup_conn_def clearWarmup_def cas_retry_alone clearWarmup_body_def
      lifecycle_newConnState)

lemma not_warming_clearWarmup [simp]: "\<not> isWarmingUp (state (clearWarmup_conn c))"
  by (simp add: clearWarmup_conn_def clearWarmup_def cas_retry_alone clearWarmup_body_def)

lemma bit_lc_of_tryWarmupSkip:
  assumes "n \<noteq> 0" "n \<noteq> 4"
  shows "bit (lc_of (snd (tryWarmupSkip_conn c))) n = bit (lc_of c) n"
proof -
  have "bit ((lifecycle s AND NOT lcNeedsWarmup OR lcReady) AND mask 13) n = bit (lifecycle s) n" for s
    using assms by (cases "n < 13") (auto simp: bit_simps bit_flags)
  then show ?thesis
    by (simp add: lc_of_def tryWarmupSkip_conn_def tryWarmupSkip_alone tryWarmupSkip_body_def Let_def
        withManagers_def lifecycle_packConnState lifecycle_newConnState case_prod_unfold)
qed

lemma warmup_fields [conn_simps]:
  "seed (startWarmup_conn r k c) = seed c" "Roles (startWarmup_conn r k c) = Roles c"
  "weight (startWarmup_conn r k c) = weight c" "deadSinceNano (startWarmup_conn r k c) = deadSinceNano c"
  "seed (clearWarmup_conn c) = seed c" "Roles (clearWarmup_conn c) = Roles c"
  "weight (clearWarmup_conn c) = weight c" "deadSinceNano (clearWarmup_conn c) = deadSinceNano c"
  "seed (snd (tryWarmupSkip_conn c)) = seed c" "Roles (snd (tryWarmupSkip_conn c)) = Roles c"
  "weight (snd (tryWarmupSkip_conn c)) = weight c" "deadSinceNano (snd (tryWarmupSkip_conn c)) = deadSinceNano c"
  by (simp_all add: startWarmup_conn_def clearWarmup_conn_def tryWarmupSkip_conn_def case_prod_unfold Let_def)

section \<open>Properties\<close>

interpretation quiesce_loop: cas_loop decrementDrainingQuiescing_body "\<lambda>n. 0 \<le> n"
  by unfold_locales (auto simp: decrementDrainingQuiescing_body_def split: if_splits)

text \<open>The draining countdown never goes below zero, whatever concurrent updates that respect the
  bound do, and one call takes effect at one point of the interleaving: there it lowers a positive
  count by one and returns the rest, and returns zero without a write otherwise.\<close>
theorem draining_countdown:
  assumes "0 \<le> drainingQuiescingRemaining c" "env_keeps (\<lambda>n. 0 \<le> n) env"
  shows "0 \<le> drainingQuiescingRemaining (snd (decrementDrainingQuiescing env c))
    \<and> (\<exists>k. let v = env_prefix env (drainingQuiescingRemaining c) k in
         decrementDrainingQuiescing env c
           = (if 0 < v then (v - 1, c\<lparr>drainingQuiescingRemaining := v - 1\<rparr>)
              else (0, c\<lparr>drainingQuiescingRemaining := v\<rparr>)))"
proof
  show "0 \<le> drainingQuiescingRemaining (snd (decrementDrainingQuiescing env c))"
    using quiesce_loop.run_inv [OF assms]
    by (simp add: decrementDrainingQuiescing_def case_prod_unfold Let_def)
  obtain k where "cas_retry decrementDrainingQuiescing_body env (drainingQuiescingRemaining c)
      = cas_retry decrementDrainingQuiescing_body [] (env_prefix env (drainingQuiescingRemaining c) k)"
    using cas_retry_linearizable [of decrementDrainingQuiescing_body env] by blast
  then show "\<exists>k. let v = env_prefix env (drainingQuiescingRemaining c) k in
      decrementDrainingQuiescing env c
        = (if 0 < v then (v - 1, c\<lparr>drainingQuiescingRemaining := v - 1\<rparr>)
           else (0, c\<lparr>drainingQuiescingRemaining := v\<rparr>))"
    by (auto simp: decrementDrainingQuiescing_def cas_retry_alone decrementDrainingQuiescing_body_def
        Let_def intro!: exI [of _ k])
qed

definition blank_connection :: connection where
  "blank_connection = \<lparr>URL = ''http://node:9200'', conn_ID = ''n1'', Name = ''node'', Roles = {}, version = [], weight = 1,
     allocatedProcessors = 0, rtt = None,
     pools = \<lparr>reg_pools = Map.empty, reg_defaultPool = zero_pool\<rparr>, failures = 0,
     state = newConnState lcActive, deadSinceNano = 0, overloadedAtNano = 0,
     drainingQuiescingRemaining = 0, checkStartedAt = None, seed = False\<rparr>"

theorem draining_countdown_witness:
  "0 \<le> drainingQuiescingRemaining (snd (decrementDrainingQuiescing [\<lambda>n. max 0 (n - 1)]
     (blank_connection\<lparr>drainingQuiescingRemaining := 3\<rparr>)))"
proof -
  have "env_keeps (\<lambda>n. 0 \<le> n) [\<lambda>n :: int. max 0 (n - 1)]" by (simp add: env_keeps_def)
  then show ?thesis
    using draining_countdown [of "blank_connection\<lparr>drainingQuiescingRemaining := 3\<rparr>"] by simp
qed

text \<open>The roles of a node survive the round trip through the role set, sorted and without
  repetition, unless the node reports both the deprecated and the current name of the
  cluster-manager role; and a node is a dedicated cluster manager exactly when it has one of these
  two names and none of the work roles.\<close>
theorem roles_roundtrip:
  assumes "\<not> (RoleMaster \<in> set roles \<and> RoleClusterManager \<in> set roles)"
  shows "toSlice (newRoleSet roles) = sorted_list_of_set (set roles)
    \<and> isDedicatedClusterManager (newRoleSet roles)
        = ((RoleMaster \<in> set roles \<or> RoleClusterManager \<in> set roles) \<and> set roles \<inter> set workRoles = {})"
proof -
  have ne: "RoleMaster \<noteq> RoleClusterManager" "RoleClusterManager \<notin> set workRoles"
    by (simp_all add: RoleMaster_def RoleClusterManager_def workRoles_def RoleData_def RoleIngest_def
        RoleWarm_def RoleSearch_def RoleML_def)
  have "{role \<in> newRoleSet roles. \<not> (role = RoleClusterManager \<and> RoleMaster \<in> newRoleSet roles)} = set roles"
    using assms ne by (auto simp: newRoleSet_eq)
  moreover have "isDedicatedClusterManager (newRoleSet roles)
      = ((RoleMaster \<in> set roles \<or> RoleClusterManager \<in> set roles) \<and> set roles \<inter> set workRoles = {})"
    using ne by (auto simp: isDedicatedClusterManager_def role_has_def newRoleSet_eq list_ex_iff)
  ultimately show ?thesis by (simp add: toSlice_def)
qed

theorem roles_roundtrip_witness:
  "toSlice (newRoleSet [RoleMaster, RoleIngest]) = sorted_list_of_set {RoleMaster, RoleIngest}
   \<and> \<not> isDedicatedClusterManager (newRoleSet [RoleMaster, RoleIngest])"
proof -
  have "RoleClusterManager \<noteq> RoleMaster" "RoleClusterManager \<noteq> RoleIngest" "RoleIngest \<in> set workRoles"
    by (simp_all add: RoleMaster_def RoleClusterManager_def RoleIngest_def workRoles_def)
  then show ?thesis using roles_roundtrip [of "[RoleMaster, RoleIngest]"] by auto
qed

end
