(* ===== verification/Pool.thy ===== *)
theory Pool
  imports Connection
begin

text \<open>
  The multi-server pool, \<^verbatim>\<open>src/opensearchtransport/pool_multi_server.go\<close> and the primitives of
  \<^verbatim>\<open>pool_standby.go\<close> and \<^verbatim>\<open>pool_resurrect.go\<close> it is built from. Connections live in a heap that
  pools share; a pool holds their addresses. A section under the pool's mutex is one function on the
  pair of the heap and the pool; a \<^verbatim>\<open>go\<close> statement appends to \<open>spawned\<close>; the clock, the
  random source and the standard library's sort are arguments. The counters of a pool that select a
  connection are natural numbers: they would wrap only after \<open>2 ^ 63\<close> selections. The lemmas in
  \<open>pool_simps\<close> give the effect of each primitive on the two lists and on the active partition.
\<close>

section \<open>State\<close>

datatype pool_error = ErrNoConnections

text \<open>The selection strategies: none (the pool's own counter) and \<^verbatim>\<open>poolRoundRobin\<close>.\<close>

datatype poolSelector = nil_selector | poolRoundRobin nat

text \<open>Signals of a selector for the size of the active partition.\<close>

definition capShrink :: int where "capShrink = -1"
definition capRemain :: int where "capRemain = 0"
definition capGrow :: int where "capGrow = 1"

text \<open>Goroutines a pool operation starts; each runs later as an atomic section of its own.\<close>

datatype task = rttProbe cid | standbyPromotion | capEnforcement | asyncPromote | resurrectLoop cid

record multiServerPool =
  ready :: "cid list"
  dead :: "cid list"
  activeCount :: nat
  members :: "cid set"
  activeListCap :: int
  warmupRounds :: int
  warmupSkipCount :: int
  hasHealthCheck :: bool
  selector :: poolSelector
  nextReady :: nat
  standbyPromotionChecks :: nat
  activeListCapConfig :: "int option"
  poolRequests :: int
  poolSuccesses :: int
  poolFailures :: int
  poolWarmupSkips :: int
  poolWarmupAccepts :: int
  spawned :: "task list"

text \<open>The heap of connections, which pools share, and one pool.\<close>

record world =
  heap :: "cid \<Rightarrow> connection"
  pool :: multiServerPool

definition upd_conn :: "cid \<Rightarrow> (connection \<Rightarrow> connection) \<Rightarrow> world \<Rightarrow> world" where
  "upd_conn c f w = w\<lparr>heap := (heap w)(c := f (heap w c))\<rparr>"

definition upd_pool :: "(multiServerPool \<Rightarrow> multiServerPool) \<Rightarrow> world \<Rightarrow> world" where
  "upd_pool f w = w\<lparr>pool := f (pool w)\<rparr>"

definition spawn :: "task \<Rightarrow> multiServerPool \<Rightarrow> multiServerPool" where
  "spawn t p = p\<lparr>spawned := spawned p @ [t]\<rparr>"

section \<open>List primitives\<close>

text \<open>
  The compaction loop of \<^verbatim>\<open>removeFromReadyWithLock\<close>: \<open>out\<close> is the part already written,
  \<open>removed\<close> the entries dropped below \<^verbatim>\<open>activeCount\<close>.
\<close>

fun compact_ready :: "cid \<Rightarrow> nat \<Rightarrow> nat \<Rightarrow> cid list \<Rightarrow> cid list \<Rightarrow> nat \<Rightarrow> cid list \<times> nat" where
  "compact_ready c ac readIdx [] out removed = (out, removed)"
| "compact_ready c ac readIdx (x # xs) out removed =
     (if x = c
      then compact_ready c ac (readIdx + 1) xs out (if readIdx < ac then removed + 1 else removed)
      else compact_ready c ac (readIdx + 1) xs (out @ [x]) removed)"

definition removeFromReady :: "cid \<Rightarrow> multiServerPool \<Rightarrow> multiServerPool" where
  "removeFromReady c p =
     (let (out, activeRemoved) = compact_ready c (activeCount p) 0 (ready p) [] 0
      in if length out = length (ready p) then p
         else p\<lparr>ready := out, activeCount := activeCount p - activeRemoved\<rparr>)"

definition removeFromDead :: "cid \<Rightarrow> multiServerPool \<Rightarrow> multiServerPool" where
  "removeFromDead c p =
     (case find (\<lambda>i. dead p ! i = c) (rev [0..<length (dead p)]) of
        None \<Rightarrow> p
      | Some idx \<Rightarrow>
          let last = length (dead p) - 1;
              d = (if idx \<noteq> last then (dead p)[idx := dead p ! last] else dead p)
          in p\<lparr>dead := take last d\<rparr>)"

definition needs_rtt_probe :: "world \<Rightarrow> cid \<Rightarrow> bool" where
  "needs_rtt_probe w c \<longleftrightarrow> (case rtt (heap w c) of None \<Rightarrow> False
     | Some r \<Rightarrow> (case medianBucket (Some r) of Inl _ \<Rightarrow> False | Inr b \<Rightarrow> rttBucket_IsUnknown b)
        \<and> hasHealthCheck (pool w))"

fun insert_active :: "nat \<Rightarrow> cid \<Rightarrow> multiServerPool \<Rightarrow> multiServerPool" where
  "insert_active 0 c p = p"
| "insert_active (Suc k) c p =
     (let tailIdx = length (ready p);
          rd = swap_nth (ready p @ [c]) tailIdx (activeCount p)
      in insert_active k c (p\<lparr>ready := rd, activeCount := activeCount p + 1\<rparr>))"

definition appendToReadyActive :: "cid \<Rightarrow> world \<Rightarrow> world" where
  "appendToReadyActive c w =
     (let w = (if needs_rtt_probe w c then upd_pool (spawn (rttProbe c)) w else w)
      in upd_pool (insert_active (effectiveWeight (heap w c)) c) w)"

definition appendToReadyStandby :: "cid \<Rightarrow> world \<Rightarrow> world" where
  "appendToReadyStandby c w =
     (let w = (if needs_rtt_probe w c then upd_pool (spawn (rttProbe c)) w else w)
      in upd_pool (\<lambda>p. p\<lparr>ready := ready p @ replicate (effectiveWeight (heap w c)) c\<rparr>) w)"

definition appendToDead :: "int \<Rightarrow> cid \<Rightarrow> world \<Rightarrow> world" where
  "appendToDead now c w =
     (let w = upd_conn c (\<lambda>x. if deadSinceIsZero x then storeDeadSince (Some now) x else x) w;
          w = upd_conn c (\<lambda>x. if \<not> lc_has (lc_of x) lcUnknown then upd_lc lcUnknown 0 x else x) w
      in upd_pool (\<lambda>p. p\<lparr>dead := dead p @ [c]\<rparr>) w)"

definition shuffleActive :: "(nat \<Rightarrow> nat) \<Rightarrow> multiServerPool \<Rightarrow> multiServerPool" where
  "shuffleActive rnd p =
     (if activeCount p \<le> 1 then p else p\<lparr>ready := rand_shuffle rnd (activeCount p) (ready p)\<rparr>)"

section \<open>Selection of an active connection\<close>

definition poolRoundRobin_selectNext :: "nat \<Rightarrow> cid list \<Rightarrow> nat \<Rightarrow> (pool_error + cid \<times> int \<times> int) \<times> nat" where
  "poolRoundRobin_selectNext counter rd ac =
     (Inr (rd ! (counter mod ac), capRemain, capRemain), counter + 1)"

definition getNextActiveConn :: "multiServerPool \<Rightarrow> (cid option \<times> bool) \<times> multiServerPool" where
  "getNextActiveConn p = (case selector p of
     poolRoundRobin counter \<Rightarrow>
       let (res, counter) = poolRoundRobin_selectNext counter (ready p) (activeCount p);
           p = p\<lparr>selector := poolRoundRobin counter\<rparr> in
       (case res of
          Inl _ \<Rightarrow> ((None, False), p)
        | Inr (conn, activeCap, _) \<Rightarrow>
            if activeCap = capGrow then ((Some conn, False), spawn standbyPromotion p)
            else if activeCap = capShrink then ((Some conn, True), p)
            else ((Some conn, False), p))
   | nil_selector \<Rightarrow>
       ((Some (ready p ! (nextReady p mod activeCount p)), False), p\<lparr>nextReady := nextReady p + 1\<rparr>))"

section \<open>Standby promotion\<close>

definition deferredStandbyPromotion :: "world \<Rightarrow> world" where
  "deferredStandbyPromotion w =
     (let p = pool w in
      if activeCount p \<ge> length (ready p) then w
      else let c = ready p ! activeCount p;
               w = upd_conn c (upd_lc lcActive (lcStandby OR lcNeedsWarmup)) w;
               p = p\<lparr>activeCount := activeCount p + 1\<rparr>;
               p = (if activeListCap p > 0 \<and> int (activeCount p) > activeListCap p
                    then p\<lparr>activeListCap := int (activeCount p)\<rparr> else p)
           in w\<lparr>pool := p\<rparr>)"

definition tryStandby :: "world \<Rightarrow> cid option \<times> world" where
  "tryStandby w =
     (let p = pool w in
      if activeCount p \<ge> length (ready p) then (None, w)
      else let c = ready p ! activeCount p;
               w = upd_conn c (upd_lc lcActive (lcStandby OR lcNeedsWarmup)) w
           in (Some c, upd_pool (\<lambda>p. p\<lparr>activeCount := activeCount p + 1\<rparr>) w))"

definition getWarmupParams :: "multiServerPool \<Rightarrow> int \<times> int" where
  "getWarmupParams p =
     (let rounds = (if warmupRounds p \<le> 0 then 16 else warmupRounds p);
          skipCount = (if warmupSkipCount p \<le> 0 then 32 else warmupSkipCount p)
      in (rounds, skipCount))"

definition standby_index :: "cid \<Rightarrow> multiServerPool \<Rightarrow> nat option" where
  "standby_index c p = find (\<lambda>i. ready p ! i = c) (rev [activeCount p..<length (ready p)])"

definition promoteStandby :: "(nat \<Rightarrow> nat) \<Rightarrow> cid \<Rightarrow> world \<Rightarrow> bool \<times> world" where
  "promoteStandby rnd c w =
     (case standby_index c (pool w) of
        None \<Rightarrow> (False, w)
      | Some idx \<Rightarrow>
          let w = upd_pool (\<lambda>p. if idx \<noteq> activeCount p
                      then p\<lparr>ready := swap_nth (ready p) idx (activeCount p)\<rparr> else p) w;
              w = upd_conn c (upd_lc lcActive lcStandby) w;
              (rounds, skip) = getWarmupParams (pool w);
              w = upd_conn c (startWarmup_conn rounds skip) w;
              w = upd_pool (\<lambda>p. p\<lparr>activeCount := activeCount p + 1\<rparr>) w
          in (True, upd_pool (shuffleActive rnd) w))"

section \<open>Cap enforcement\<close>

text \<open>The loop that moves the warming connections of the active partition to its front.\<close>

fun partition_warm :: "(cid \<Rightarrow> bool) \<Rightarrow> nat \<Rightarrow> nat \<Rightarrow> nat \<Rightarrow> cid list \<Rightarrow> nat \<times> cid list" where
  "partition_warm warming i 0 warmCount rd = (warmCount, rd)"
| "partition_warm warming i (Suc n) warmCount rd =
     (if warming (rd ! i)
      then partition_warm warming (i + 1) n (warmCount + 1)
             (if i \<noteq> warmCount then swap_nth rd i warmCount else rd)
      else partition_warm warming (i + 1) n warmCount rd)"

definition demote_to_standby :: "connection \<Rightarrow> connection" where
  "demote_to_standby c = clearWarmup_conn (upd_lc (lcStandby OR lcNeedsWarmup) lcActive c)"

definition enforceActiveCap :: "(nat \<Rightarrow> nat) \<Rightarrow> world \<Rightarrow> world" where
  "enforceActiveCap rnd w =
     (let p = pool w; ac = activeCount p; cap = activeListCap p;
          warming = (\<lambda>c. isWarmingUp (state (heap w c))) in
      if cap \<le> 0 \<or> int ac \<le> cap then w
      else let nonWarmCount = length (filter (\<lambda>c. \<not> warming c) (take ac (ready p))) in
      if int nonWarmCount \<le> cap then w
      else let (warmCount, rd) = partition_warm warming 0 ac 0 (ready p);
               newActiveCount = warmCount + nat cap;
               w = fold (\<lambda>i w. upd_conn (rd ! i) demote_to_standby w) [newActiveCount..<ac] w
           in upd_pool (\<lambda>p. shuffleActive rnd (p\<lparr>ready := rd, activeCount := newActiveCount\<rparr>)) w)"

section \<open>Resurrection and reports\<close>

definition resurrect :: "(nat \<Rightarrow> nat) \<Rightarrow> cid \<Rightarrow> world \<Rightarrow> world" where
  "resurrect rnd c w =
     (let w = upd_conn c (storeOverloadedAt None) w;
          w = upd_conn c markAsReady w;
          w = upd_pool (removeFromDead c) w;
          p = pool w in
      if activeListCap p \<le> 0 \<or> int (activeCount p) < activeListCap p then
        let w = upd_conn c (upd_lc lcActive (lcUnknown OR lcStandby)) w;
            (rounds, skip) = getWarmupParams p;
            w = upd_conn c (startWarmup_conn rounds skip) w;
            w = appendToReadyActive c w
        in upd_pool (shuffleActive rnd) w
      else
        let w = upd_conn c (upd_lc lcStandby (lcUnknown OR lcActive)) w
        in appendToReadyStandby c w)"

definition shouldSkipDraining :: "connection \<Rightarrow> bool" where
  "shouldSkipDraining c \<longleftrightarrow> drainingQuiescingRemaining c > 0"

definition shouldSkipOverloaded :: "connection \<Rightarrow> bool" where
  "shouldSkipOverloaded c \<longleftrightarrow> lc_has (lc_of c) lcOverloaded"

definition OnSuccess :: "(nat \<Rightarrow> nat) \<Rightarrow> cid \<Rightarrow> world \<Rightarrow> world" where
  "OnSuccess rnd c w =
     (if deadSinceIsZero (heap w c) then w
      else if shouldSkipDraining (heap w c) then w
      else if shouldSkipOverloaded (heap w c) then w
      else let w = upd_conn c markAsHealthy w;
               w = resurrect rnd c w
           in upd_pool (\<lambda>p. p\<lparr>poolSuccesses := poolSuccesses p + 1\<rparr>) w)"

definition scheduleResurrect :: "int \<Rightarrow> cid \<Rightarrow> world \<Rightarrow> world" where
  "scheduleResurrect now c w =
     (if checkStartedAt (heap w c) \<noteq> None then w
      else let w = upd_conn c (\<lambda>x. upd_lc lcHealthChecking 0 (x\<lparr>checkStartedAt := Some now\<rparr>)) w
           in upd_pool (spawn (resurrectLoop c)) w)"

text \<open>
  \<^verbatim>\<open>OnFailure\<close>. \<open>srt\<close> is \<^verbatim>\<open>slices.SortFunc\<close> on the dead list, which orders by descending failure
  count and leaves the order of equal counts open. The section under the pool's lock returns
  \<open>None\<close> when the function returns early, and otherwise whether there is a standby connection; the
  resurrection is scheduled and the standby promotion started after the unlock.
\<close>

definition OnFailure_locked :: "((cid \<Rightarrow> int) \<Rightarrow> cid list \<Rightarrow> cid list) \<Rightarrow> int \<Rightarrow> cid \<Rightarrow> world \<Rightarrow>
    bool option \<times> world" where
  "OnFailure_locked srt now c w =
     (if lc_has (lc_of (heap w c)) lcUnknown then (None, w)
      else case casLifecycle (state (heap w c)) 0 (lcDead OR lcNeedsWarmup OR lcNeedsHardware)
                  (lcReady OR lcActive OR lcStandby OR lcOverloaded) of
        (Inl _, _) \<Rightarrow> (None, w)
      | (Inr _, s) \<Rightarrow>
          let w = upd_conn c (\<lambda>x. x\<lparr>state := s\<rparr>) w;
              w = upd_conn c (storeOverloadedAt None) w;
              w = upd_conn c (markAsDead now) w;
              w = upd_pool (removeFromReady c) w;
              w = appendToDead now c w;
              w = upd_pool (\<lambda>p. p\<lparr>poolFailures := poolFailures p + 1\<rparr>) w;
              w = upd_pool (\<lambda>p. p\<lparr>dead := srt (\<lambda>x. - failures (heap w x)) (dead p)\<rparr>) w;
              hasStandby = (length (ready (pool w)) > activeCount (pool w))
          in (Some hasStandby, w))"

definition OnFailure :: "((cid \<Rightarrow> int) \<Rightarrow> cid list \<Rightarrow> cid list) \<Rightarrow> int \<Rightarrow> cid \<Rightarrow> world \<Rightarrow> world" where
  "OnFailure srt now c w =
     (case OnFailure_locked srt now c w of
        (None, w) \<Rightarrow> w
      | (Some hasStandby, w) \<Rightarrow>
          let w = scheduleResurrect now c w
          in if hasStandby then upd_pool (spawn asyncPromote) w else w)"

section \<open>Primitives on the lists\<close>

lemma upd_conn_simps [pool_simps]:
  "pool (upd_conn c f w) = pool w" "heap (upd_conn c f w) = (heap w)(c := f (heap w c))"
  by (simp_all add: upd_conn_def)

lemma upd_pool_simps [pool_simps]: "pool (upd_pool f w) = f (pool w)" "heap (upd_pool f w) = heap w"
  by (simp_all add: upd_pool_def)

lemma spawn_simps [pool_simps]:
  "ready (spawn t p) = ready p" "dead (spawn t p) = dead p" "activeCount (spawn t p) = activeCount p"
  "members (spawn t p) = members p" "activeListCap (spawn t p) = activeListCap p"
  by (simp_all add: spawn_def)

lemma compact_ready_eq:
  "compact_ready c ac i xs out r
     = (out @ filter (\<lambda>x. x \<noteq> c) xs, r + count_list (take (ac - i) xs) c)"
proof (induction xs arbitrary: i out r)
  case (Cons x xs)
  have "take (ac - i) (x # xs) = (if i < ac then x # take (ac - (i + 1)) xs else [])"
    by (cases "i < ac") (auto simp: Suc_diff_Suc [symmetric])
  then show ?case using Cons by simp
qed simp

lemma length_filter_ne: "length (filter (\<lambda>x. x \<noteq> c) xs) = length xs \<longleftrightarrow> c \<notin> set xs"
  by (induction xs) (auto simp: le_imp_less_Suc less_imp_neq)

text \<open>Removing a connection keeps the partition of the remaining ones.\<close>

lemma removeFromReady_simps [pool_simps]:
  "ready (removeFromReady c p) = filter (\<lambda>x. x \<noteq> c) (ready p)"
  "activeCount (removeFromReady c p)
     = activeCount p - count_list (take (activeCount p) (ready p)) c"
  "dead (removeFromReady c p) = dead p" "members (removeFromReady c p) = members p"
  "activeListCap (removeFromReady c p) = activeListCap p"
proof -
  have "c \<notin> set (ready p) \<Longrightarrow> count_list (take (activeCount p) (ready p)) c = 0"
    by (simp add: count_list_0_iff) (meson in_set_takeD)
  then show "ready (removeFromReady c p) = filter (\<lambda>x. x \<noteq> c) (ready p)"
    "activeCount (removeFromReady c p) = activeCount p - count_list (take (activeCount p) (ready p)) c"
    "dead (removeFromReady c p) = dead p" "members (removeFromReady c p) = members p"
    "activeListCap (removeFromReady c p) = activeListCap p"
    by (auto simp: removeFromReady_def compact_ready_eq length_filter_ne Let_def
        intro!: filter_True [symmetric])
qed

lemma length_filter_count: "length (filter (\<lambda>x. x \<noteq> c) xs) = length xs - count_list xs c"
  by (induction xs) (auto simp: Suc_diff_le count_le_length)

lemma take_drop_removeFromReady:
  assumes "activeCount p \<le> length (ready p)"
  shows "take (activeCount (removeFromReady c p)) (ready (removeFromReady c p))
       = filter (\<lambda>x. x \<noteq> c) (take (activeCount p) (ready p))"
    and "drop (activeCount (removeFromReady c p)) (ready (removeFromReady c p))
       = filter (\<lambda>x. x \<noteq> c) (drop (activeCount p) (ready p))"
    and "activeCount (removeFromReady c p) \<le> length (ready (removeFromReady c p))"
proof -
  let ?a = "filter (\<lambda>x. x \<noteq> c) (take (activeCount p) (ready p))"
  have s: "filter (\<lambda>x. x \<noteq> c) (ready p) = ?a @ filter (\<lambda>x. x \<noteq> c) (drop (activeCount p) (ready p))"
    by (metis append_take_drop_id filter_append)
  have l: "length ?a = activeCount p - count_list (take (activeCount p) (ready p)) c"
    using assms by (simp add: length_filter_count min_def)
  show "take (activeCount (removeFromReady c p)) (ready (removeFromReady c p)) = ?a"
    "drop (activeCount (removeFromReady c p)) (ready (removeFromReady c p))
       = filter (\<lambda>x. x \<noteq> c) (drop (activeCount p) (ready p))"
    "activeCount (removeFromReady c p) \<le> length (ready (removeFromReady c p))"
    unfolding removeFromReady_simps l [symmetric] s by simp_all
qed

lemma find_rev_upt_Some:
  "find P (rev [m..<n]) = Some i \<Longrightarrow> m \<le> i \<and> i < n \<and> P i"
  by (auto simp: find_Some_iff rev_nth)

lemma find_rev_upt_None: "find P (rev [m..<n]) = None \<longleftrightarrow> (\<forall>i. m \<le> i \<and> i < n \<longrightarrow> \<not> P i)"
  by (auto simp: find_None_iff)

lemma mset_swap_last_remove:
  assumes "i < length xs"
  shows "mset (take (length xs - 1) (if i \<noteq> length xs - 1 then xs[i := xs ! (length xs - 1)] else xs))
       = mset xs - {#xs ! i#}"
proof -
  obtain ys y where xs: "xs = ys @ [y]" using assms by (cases xs rule: rev_cases) auto
  show ?thesis
  proof (cases "i = length ys")
    case True
    then show ?thesis by (simp add: xs)
  next
    case False
    then have "i < length ys" using assms xs by simp
    then show ?thesis using False
      by (simp add: xs list_update_append nth_append mset_update)
  qed
qed

lemma removeFromDead_mset: "mset (dead (removeFromDead c p)) = mset (dead p) - {#c#}"
proof (cases "find (\<lambda>i. dead p ! i = c) (rev [0..<length (dead p)])")
  case None
  then have "c \<notin> set (dead p)" by (auto simp: find_rev_upt_None in_set_conv_nth)
  then show ?thesis using None by (simp add: removeFromDead_def diff_single_trivial)
next
  case (Some i)
  then have "i < length (dead p)" "dead p ! i = c" using find_rev_upt_Some by fastforce+
  then show ?thesis using Some mset_swap_last_remove [of i "dead p"]
    by (auto simp: removeFromDead_def Let_def split: if_splits)
qed

lemma removeFromDead_simps [pool_simps]:
  "ready (removeFromDead c p) = ready p" "activeCount (removeFromDead c p) = activeCount p"
  "members (removeFromDead c p) = members p" "activeListCap (removeFromDead c p) = activeListCap p"
  "warmupRounds (removeFromDead c p) = warmupRounds p" "warmupSkipCount (removeFromDead c p) = warmupSkipCount p"
  "hasHealthCheck (removeFromDead c p) = hasHealthCheck p"
  by (simp_all add: removeFromDead_def Let_def split: option.splits)

lemma set_removeFromDead:
  "set (dead p) - {c} \<subseteq> set (dead (removeFromDead c p))" "set (dead (removeFromDead c p)) \<subseteq> set (dead p)"
  "distinct (dead p) \<Longrightarrow> set (dead (removeFromDead c p)) = set (dead p) - {c}"
  "distinct (dead p) \<Longrightarrow> distinct (dead (removeFromDead c p))"
proof -
  have e: "mset (dead (removeFromDead c p)) = mset (remove1 c (dead p))" by (simp add: removeFromDead_mset)
  then have m: "set (dead (removeFromDead c p)) = set (remove1 c (dead p))" by (rule mset_eq_setD)
  show "set (dead p) - {c} \<subseteq> set (dead (removeFromDead c p))" unfolding m
    using in_set_remove1 [of _ c] by blast
  show "set (dead (removeFromDead c p)) \<subseteq> set (dead p)" unfolding m by (rule set_remove1_subset)
  assume "distinct (dead p)"
  then show "set (dead (removeFromDead c p)) = set (dead p) - {c}" "distinct (dead (removeFromDead c p))"
    using mset_eq_imp_distinct_iff [OF e] unfolding m by simp_all
qed

lemma swap_into_active:
  assumes "ac \<le> length rd"
  shows "swap_nth (rd @ [c]) (length rd) ac = take ac rd @ c # drop (Suc ac) rd @ (if ac < length rd then [rd ! ac] else [])"
proof (cases "ac = length rd")
  case True
  then show ?thesis by (simp add: swap_nth_def list_update_append)
next
  case False
  then have "ac < length rd" using assms by simp
  then show ?thesis
    by (simp add: swap_nth_def list_update_append nth_append upd_conv_take_nth_drop)
qed

lemma insert_active_simps [pool_simps]:
  "dead (insert_active k c p) = dead p" "members (insert_active k c p) = members p"
  "activeListCap (insert_active k c p) = activeListCap p"
  "activeCount (insert_active k c p) = activeCount p + k"
  "length (ready (insert_active k c p)) = length (ready p) + k"
  by (induction k arbitrary: p) (simp_all add: Let_def)

lemma insert_active_parts:
  "activeCount p \<le> length (ready p) \<Longrightarrow>
     mset (take (activeCount p + k) (ready (insert_active k c p)))
       = mset (take (activeCount p) (ready p)) + replicate_mset k c
     \<and> mset (drop (activeCount p + k) (ready (insert_active k c p))) = mset (drop (activeCount p) (ready p))"
proof (induction k arbitrary: p)
  case (Suc k)
  let ?ac = "activeCount p" and ?rd = "ready p"
  let ?p = "p\<lparr>ready := swap_nth (?rd @ [c]) (length ?rd) ?ac, activeCount := ?ac + 1\<rparr>"
  have s: "swap_nth (?rd @ [c]) (length ?rd) ?ac
      = take ?ac ?rd @ c # drop (Suc ?ac) ?rd @ (if ?ac < length ?rd then [?rd ! ?ac] else [])"
    by (rule swap_into_active [OF Suc.prems])
  have le: "activeCount ?p \<le> length (ready ?p)" using Suc.prems by simp
  have t: "mset (take (Suc ?ac) (ready ?p)) = mset (take ?ac ?rd) + {#c#}"
    using Suc.prems by (simp add: s)
  have "drop ?ac ?rd = (if ?ac < length ?rd then [?rd ! ?ac] else []) @ drop (Suc ?ac) ?rd"
    by (simp add: Cons_nth_drop_Suc)
  then have "mset (drop (Suc ?ac) (ready ?p)) = mset (drop ?ac ?rd)" using Suc.prems by (simp add: s)
  then show ?case using Suc.IH [OF le] t by simp
qed simp

lemma set_parts: "activeCount p \<le> length (ready p) \<Longrightarrow>
  set (ready p) = set (take (activeCount p) (ready p)) \<union> set (drop (activeCount p) (ready p))"
  by (metis append_take_drop_id set_append)

lemma set_insert_active:
  assumes "activeCount p \<le> length (ready p)" "0 < k"
  shows "set (ready (insert_active k c p)) = insert c (set (ready p))"
proof -
  let ?q = "insert_active k c p"
  have t: "set (take (activeCount p + k) (ready ?q)) = insert c (set (take (activeCount p) (ready p)))"
    using arg_cong [OF insert_active_parts [OF assms(1), of k c, THEN conjunct1], of set_mset] assms(2) by auto
  have d: "set (drop (activeCount p + k) (ready ?q)) = set (drop (activeCount p) (ready p))"
    using arg_cong [OF insert_active_parts [OF assms(1), of k c, THEN conjunct2], of set_mset] by simp
  have "set (ready ?q) = set (take (activeCount p + k) (ready ?q)) \<union> set (drop (activeCount p + k) (ready ?q))"
    by (metis append_take_drop_id set_append)
  then show ?thesis unfolding t d set_parts [OF assms(1)] by simp
qed

lemma shuffleActive_simps [pool_simps]:
  "dead (shuffleActive rnd p) = dead p" "members (shuffleActive rnd p) = members p"
  "activeListCap (shuffleActive rnd p) = activeListCap p" "activeCount (shuffleActive rnd p) = activeCount p"
  "length (ready (shuffleActive rnd p)) = length (ready p)"
  by (simp_all add: shuffleActive_def)

lemma shuffleActive_sets:
  assumes "activeCount p \<le> length (ready p)"
  shows "set (ready (shuffleActive rnd p)) = set (ready p)"
    and "mset (ready (shuffleActive rnd p)) = mset (ready p)"
    and "mset (take (activeCount p) (ready (shuffleActive rnd p))) = mset (take (activeCount p) (ready p))"
    and "drop (activeCount p) (ready (shuffleActive rnd p)) = drop (activeCount p) (ready p)"
  using assms by (simp_all add: shuffleActive_def mset_rand_shuffle mset_take_rand_shuffle drop_rand_shuffle)

end
