(* ===== verification/Pool_Inv.thy ===== *)
theory Pool_Inv
  imports Pool
begin

text \<open>
  The invariant of a pool that owns its connections, and its preservation by the operations under the
  pool's mutex. Every member is in exactly one of the two lists; the ready list holds the members
  that are up and the dead list those that are down, once each; the active partition is a prefix of
  the ready list. Interfering pools are the subject of the theorems in the root theory.
\<close>

section \<open>The invariant\<close>

text \<open>
  A connection is up when it has a position and no dead mark, and down when it is marked dead and
  has no position.
\<close>

definition conn_up :: "connection \<Rightarrow> bool" where
  "conn_up c \<longleftrightarrow> deadSinceNano c = 0 \<and> \<not> lc_has (lc_of c) lcUnknown
     \<and> (lc_has (lc_of c) lcActive \<or> lc_has (lc_of c) lcStandby)"

definition conn_down :: "connection \<Rightarrow> bool" where
  "conn_down c \<longleftrightarrow> deadSinceNano c \<noteq> 0 \<and> lc_has (lc_of c) lcUnknown
     \<and> \<not> lc_has (lc_of c) lcActive \<and> \<not> lc_has (lc_of c) lcStandby"

definition pool_inv :: "world \<Rightarrow> bool" where
  "pool_inv w \<longleftrightarrow> (let p = pool w in
     activeCount p \<le> length (ready p) \<and> distinct (dead p) \<and> set (ready p) \<inter> set (dead p) = {}
     \<and> set (ready p) \<union> set (dead p) = members p
     \<and> (\<forall>c \<in> set (ready p). conn_up (heap w c)) \<and> (\<forall>c \<in> set (dead p). conn_down (heap w c)))"

lemma up_not_down: "conn_up c \<Longrightarrow> \<not> conn_down c"
  by (simp add: conn_up_def conn_down_def)

text \<open>The invariant as a partition of the members into up and down ones.\<close>

lemma pool_invI:
  assumes "activeCount (pool w) \<le> length (ready (pool w))" "distinct (dead (pool w))"
    and "set (ready (pool w)) = {c \<in> members (pool w). conn_up (heap w c)}"
    and "set (dead (pool w)) = {c \<in> members (pool w). conn_down (heap w c)}"
    and "\<And>c. c \<in> members (pool w) \<Longrightarrow> conn_up (heap w c) \<or> conn_down (heap w c)"
  shows "pool_inv w"
  using assms up_not_down by (auto simp: pool_inv_def Let_def)

lemma pool_invD:
  assumes "pool_inv w"
  shows "activeCount (pool w) \<le> length (ready (pool w))" "distinct (dead (pool w))"
    and "set (ready (pool w)) = {c \<in> members (pool w). conn_up (heap w c)}"
    and "set (dead (pool w)) = {c \<in> members (pool w). conn_down (heap w c)}"
    and "\<And>c. c \<in> members (pool w) \<Longrightarrow> conn_up (heap w c) \<or> conn_down (heap w c)"
  using assms up_not_down unfolding pool_inv_def Let_def by (simp, simp, blast, blast, blast)

lemma pool_inv_heap:
  assumes "pool_inv w" "pool w' = pool w"
    and "\<And>c. c \<in> members (pool w) \<Longrightarrow> conn_up (heap w c) \<Longrightarrow> conn_up (heap w' c)"
    and "\<And>c. c \<in> members (pool w) \<Longrightarrow> conn_down (heap w c) \<Longrightarrow> conn_down (heap w' c)"
  shows "pool_inv w'"
  using assms unfolding pool_inv_def Let_def by (metis UnCI)

lemma pool_inv_lists:
  assumes "pool_inv w" "heap w' = heap w" "activeCount (pool w') \<le> length (ready (pool w'))"
    and "mset (dead (pool w')) = mset (dead (pool w))" "set (ready (pool w')) = set (ready (pool w))"
    and "members (pool w') = members (pool w)"
  shows "pool_inv w'"
  using assms mset_eq_imp_distinct_iff [OF assms(4)] mset_eq_setD [OF assms(4)]
  by (simp add: pool_inv_def Let_def)

section \<open>Effects of the operations\<close>

lemmas mode_simps = conn_up_def conn_down_def upd_lc_fields bit_upd_lc bit_flags bit_or_iff
  store_fields warmup_fields markAsDead_fields lc_of_startWarmup lc_of_clearWarmup

lemma up_promoted [simp]:
  "conn_up c \<Longrightarrow> conn_up (upd_lc lcActive (lcStandby OR lcNeedsWarmup) c)"
  "conn_up c \<Longrightarrow> conn_up (upd_lc lcActive lcStandby c)"
  by (auto simp: mode_simps)

lemma mode_startWarmup [simp]:
  "conn_up (startWarmup_conn r k c) = conn_up c" "conn_down (startWarmup_conn r k c) = conn_down c"
  "conn_up (clearWarmup_conn c) = conn_up c" "conn_down (clearWarmup_conn c) = conn_down c"
  by (simp_all add: conn_up_def conn_down_def conn_simps)

lemma mode_tryWarmupSkip [simp]:
  "conn_up (snd (tryWarmupSkip_conn c)) = conn_up c" "conn_down (snd (tryWarmupSkip_conn c)) = conn_down c"
  by (simp_all add: conn_up_def conn_down_def conn_simps bit_lc_of_tryWarmupSkip)

lemma mode_fields [simp]:
  "conn_up (c\<lparr>checkStartedAt := t\<rparr>) = conn_up c" "conn_down (c\<lparr>checkStartedAt := t\<rparr>) = conn_down c"
  "conn_up (c\<lparr>failures := n\<rparr>) = conn_up c" "conn_down (c\<lparr>failures := n\<rparr>) = conn_down c"
  "conn_up (c\<lparr>rtt := r\<rparr>) = conn_up c" "conn_down (c\<lparr>rtt := r\<rparr>) = conn_down c"
  "conn_up (c\<lparr>drainingQuiescingRemaining := d\<rparr>) = conn_up c"
  "conn_down (c\<lparr>drainingQuiescingRemaining := d\<rparr>) = conn_down c"
  "conn_up (storeOverloadedAt t c) = conn_up c" "conn_down (storeOverloadedAt t c) = conn_down c"
  by (simp_all add: conn_up_def conn_down_def conn_simps lc_of_def)

lemma mode_flags [simp]:
  "conn_up (upd_lc lcHealthChecking 0 c) = conn_up c" "conn_down (upd_lc lcHealthChecking 0 c) = conn_down c"
  "conn_up (upd_lc 0 lcHealthChecking c) = conn_up c" "conn_down (upd_lc 0 lcHealthChecking c) = conn_down c"
  "conn_up (upd_lc 0 lcNeedsWarmup c) = conn_up c" "conn_down (upd_lc 0 lcNeedsWarmup c) = conn_down c"
  "conn_up (upd_lc 0 lcOverloaded c) = conn_up c" "conn_down (upd_lc 0 lcOverloaded c) = conn_down c"
  "conn_up (upd_lc lcOverloaded 0 c) = conn_up c" "conn_down (upd_lc lcOverloaded 0 c) = conn_down c"
  by (auto simp: mode_simps)

lemma up_demoted [simp]: "conn_up c \<Longrightarrow> conn_up (demote_to_standby c)"
  by (auto simp: demote_to_standby_def mode_simps)

lemma effectiveWeight_pos [simp]: "0 < effectiveWeight c"
  by (simp add: effectiveWeight_def)

text \<open>Resurrection puts the connection, now up, into the ready list and takes it off the dead list.\<close>

lemma resurrect_effect:
  assumes "activeCount (pool w) \<le> length (ready (pool w))"
  shows "set (ready (pool (resurrect rnd c w))) = insert c (set (ready (pool w)))"
    and "dead (pool (resurrect rnd c w)) = dead (removeFromDead c (pool w))"
    and "members (pool (resurrect rnd c w)) = members (pool w)"
    and "activeCount (pool (resurrect rnd c w)) \<le> length (ready (pool (resurrect rnd c w)))"
    and "x \<noteq> c \<Longrightarrow> heap (resurrect rnd c w) x = heap w x"
    and "conn_up (heap (resurrect rnd c w) c)"
  using assms
  by (auto simp: resurrect_def Let_def case_prod_unfold pool_simps appendToReadyActive_def
      appendToReadyStandby_def shuffleActive_sets set_insert_active markAsReady_def
      conn_simps mode_simps timeToNano_def)

lemma pool_inv_resurrect:
  assumes "pool_inv w" "c \<in> members (pool w)" "pool w' = pool w"
    and "\<And>x. x \<noteq> c \<Longrightarrow> heap w' x = heap w x"
  shows "pool_inv (resurrect rnd c w')"
proof -
  note i = pool_invD [OF assms(1)]
  have ac: "activeCount (pool w') \<le> length (ready (pool w'))" using i(1) assms(3) by simp
  note r = resurrect_effect [OF ac, where rnd = rnd and c = c]
  have h: "heap (resurrect rnd c w') x = heap w x" if "x \<noteq> c" for x using r(5) that assms(4) by simp
  have m: "conn_up (heap (resurrect rnd c w') x) \<longleftrightarrow> x = c \<or> conn_up (heap w x)"
      "conn_down (heap (resurrect rnd c w') x) \<longleftrightarrow> x \<noteq> c \<and> conn_down (heap w x)" for x
    using r(6) h up_not_down by (cases "x = c"; auto)+
  have d: "set (dead (removeFromDead c (pool w'))) = set (dead (pool w)) - {c}"
      "distinct (dead (removeFromDead c (pool w')))"
    using set_removeFromDead(3,4) [of "pool w'" c] i(2) assms(3) by simp_all
  show ?thesis
  proof (rule pool_invI)
    show "set (ready (pool (resurrect rnd c w')))
        = {x \<in> members (pool (resurrect rnd c w')). conn_up (heap (resurrect rnd c w') x)}"
      using i(3) assms(2,3) unfolding r(1,3) m by auto
    show "set (dead (pool (resurrect rnd c w')))
        = {x \<in> members (pool (resurrect rnd c w')). conn_down (heap (resurrect rnd c w') x)}"
      using i(4) assms(3) d unfolding r(2,3) m by auto
    show "conn_up (heap (resurrect rnd c w') x) \<or> conn_down (heap (resurrect rnd c w') x)"
      if "x \<in> members (pool (resurrect rnd c w'))" for x
      using that i(5) [of x] assms(3) unfolding r(3) m by auto
  qed (use r d in simp_all)
qed

lemma upd_pool_counters:
  "pool_inv (upd_pool (\<lambda>p. p\<lparr>poolSuccesses := f p\<rparr>) w) = pool_inv w"
  "pool_inv (upd_pool (\<lambda>p. p\<lparr>poolFailures := f p\<rparr>) w) = pool_inv w"
  "pool_inv (upd_pool (\<lambda>p. p\<lparr>poolRequests := f p\<rparr>) w) = pool_inv w"
  "pool_inv (upd_pool (\<lambda>p. p\<lparr>poolWarmupSkips := f p\<rparr>) w) = pool_inv w"
  "pool_inv (upd_pool (\<lambda>p. p\<lparr>poolWarmupAccepts := f p\<rparr>) w) = pool_inv w"
  "pool_inv (upd_pool (spawn t) w) = pool_inv w"
  by (simp_all add: pool_inv_def pool_simps Let_def)

lemma pool_inv_OnSuccess:
  assumes "pool_inv w" "c \<in> members (pool w)"
  shows "pool_inv (OnSuccess rnd c w)"
  using assms(1) pool_inv_resurrect [OF assms, of "upd_conn c markAsHealthy w"]
  by (simp add: OnSuccess_def upd_pool_counters pool_simps)

lemma tryStandby_effect:
  assumes "pool_inv w"
  shows "pool_inv (snd (tryStandby w))"
proof (cases "activeCount (pool w) < length (ready (pool w))")
  case True
  let ?c = "ready (pool w) ! activeCount (pool w)"
  have c: "conn_up (heap w ?c)" using True pool_invD(3) [OF assms] by (metis (mono_tags, lifting) mem_Collect_eq nth_mem)
  have "pool_inv (upd_conn ?c (upd_lc lcActive (lcStandby OR lcNeedsWarmup)) w)"
    using assms c up_not_down by (intro pool_inv_heap [OF assms]) (auto simp: pool_simps)
  then show ?thesis using True by (auto simp: tryStandby_def Let_def pool_simps elim!: pool_inv_lists)
qed (use assms in \<open>simp add: tryStandby_def Let_def\<close>)

lemma deferred_effect:
  assumes "pool_inv w"
  shows "pool_inv (deferredStandbyPromotion w)"
proof (cases "activeCount (pool w) < length (ready (pool w))")
  case True
  let ?c = "ready (pool w) ! activeCount (pool w)"
  have c: "conn_up (heap w ?c)" using True pool_invD(3) [OF assms] by (metis (mono_tags, lifting) mem_Collect_eq nth_mem)
  have "pool_inv (upd_conn ?c (upd_lc lcActive (lcStandby OR lcNeedsWarmup)) w)"
    using assms c up_not_down by (intro pool_inv_heap [OF assms]) (auto simp: pool_simps)
  then show ?thesis using True
    by (auto simp: deferredStandbyPromotion_def Let_def pool_simps elim!: pool_inv_lists)
qed (use assms in \<open>simp add: deferredStandbyPromotion_def Let_def\<close>)

lemma promoteStandby_effect:
  assumes "pool_inv w"
  shows "pool_inv (snd (promoteStandby rnd c w))"
proof (cases "standby_index c (pool w)")
  case (Some i)
  then have i: "activeCount (pool w) \<le> i" "i < length (ready (pool w))" "ready (pool w) ! i = c"
    using find_rev_upt_Some unfolding standby_index_def by fastforce+
  have up: "conn_up (heap w c)" using i pool_invD(3) [OF assms] by (metis (mono_tags, lifting) mem_Collect_eq nth_mem)
  let ?w = "upd_conn c (\<lambda>x. startWarmup_conn (fst (getWarmupParams (pool w))) (snd (getWarmupParams (pool w)))
      (upd_lc lcActive lcStandby x)) w"
  have "pool_inv ?w" using assms up up_not_down by (intro pool_inv_heap [OF assms]) (auto simp: pool_simps)
  then show ?thesis
    by (rule pool_inv_lists)
      (use Some i in \<open>auto simp: promoteStandby_def Let_def case_prod_unfold pool_simps shuffleActive_sets
        getWarmupParams_def\<close>)
qed (use assms in \<open>simp add: promoteStandby_def\<close>)

text \<open>Moving a connection that is up from the ready to the dead list.\<close>

lemma pool_inv_bury:
  assumes "pool_inv w" "c \<in> members (pool w)" "conn_up (heap w c)"
    and "ready (pool w') = ready (removeFromReady c (pool w))"
    and "activeCount (pool w') = activeCount (removeFromReady c (pool w))"
    and "mset (dead (pool w')) = mset (dead (pool w) @ [c])" "members (pool w') = members (pool w)"
    and "\<And>x. x \<noteq> c \<Longrightarrow> conn_up (heap w x) \<Longrightarrow> conn_up (heap w' x)"
    and "\<And>x. x \<noteq> c \<Longrightarrow> conn_down (heap w x) \<Longrightarrow> conn_down (heap w' x)"
    and "conn_down (heap w' c)"
  shows "pool_inv w'"
proof -
  note i = pool_invD [OF assms(1)]
  have m: "conn_up (heap w' x) \<longleftrightarrow> x \<noteq> c \<and> conn_up (heap w x)"
      "conn_down (heap w' x) \<longleftrightarrow> x = c \<or> conn_down (heap w x)" if "x \<in> members (pool w)" for x
    using assms(8,9,10) i(5) [OF that] up_not_down by (cases "x = c"; auto)+
  have nd: "c \<notin> set (dead (pool w))" using i(4) assms(3) up_not_down by blast
  have d: "set (dead (pool w')) = insert c (set (dead (pool w)))" "distinct (dead (pool w'))"
    using mset_eq_setD [OF assms(6)] mset_eq_imp_distinct_iff [OF assms(6)] i(2) nd by auto
  show ?thesis
  proof (rule pool_invI)
    show "activeCount (pool w') \<le> length (ready (pool w'))"
      using take_drop_removeFromReady(3) [OF i(1)] assms(4,5) by simp
    show "set (ready (pool w')) = {x \<in> members (pool w'). conn_up (heap w' x)}"
      using i(3) assms(2,4,7) m by (auto simp: removeFromReady_simps)
    show "set (dead (pool w')) = {x \<in> members (pool w'). conn_down (heap w' x)}"
      using i(4) assms(2,7) m d by auto
    show "conn_up (heap w' x) \<or> conn_down (heap w' x)" if "x \<in> members (pool w')" for x
      using that i(5) [of x] assms(7) m by auto
  qed (rule d(2))
qed

text \<open>What the code relies on in \<^verbatim>\<open>slices.SortFunc\<close>: a permutation, in ascending order of the key.\<close>

locale sort_func =
  fixes srt :: "('a \<Rightarrow> 'k::linorder) \<Rightarrow> 'a list \<Rightarrow> 'a list"
  assumes perm: "mset (srt key xs) = mset xs"
    and ascending: "sorted (map key (srt key xs))"
begin

lemma set_srt: "set (srt key xs) = set xs"
  using mset_eq_setD [OF perm] .

lemma length_srt: "length (srt key xs) = length xs"
  using perm [of key xs] by (metis size_mset)

lemma srt_front_least: "x \<in> set (srt key xs) \<Longrightarrow> key (hd (srt key xs)) \<le> key x"
  using ascending [of key xs] by (cases "srt key xs") auto

end

interpretation stable_sort: sort_func sort_key
  by unfold_locales simp_all

definition killed :: "int \<Rightarrow> connection \<Rightarrow> connection" where
  "killed now c = markAsDead now (storeOverloadedAt None (upd_lc (lcDead OR lcNeedsWarmup OR lcNeedsHardware)
     (lcReady OR lcActive OR lcStandby OR lcOverloaded) c))"

lemma conn_down_killed: "now \<noteq> 0 \<Longrightarrow> conn_down (killed now c)"
  by (auto simp: killed_def mode_simps)

lemma appendToDead_down:
  assumes "conn_down (heap w c)"
  shows "appendToDead now c w = upd_pool (\<lambda>p. p\<lparr>dead := dead p @ [c]\<rparr>) w"
  using assms
  by (auto simp: appendToDead_def Let_def conn_down_def deadSinceIsZero_def upd_conn_def upd_pool_def)

lemma scheduleResurrect_simps [pool_simps]:
  "ready (pool (scheduleResurrect now c w)) = ready (pool w)"
  "dead (pool (scheduleResurrect now c w)) = dead (pool w)"
  "activeCount (pool (scheduleResurrect now c w)) = activeCount (pool w)"
  "members (pool (scheduleResurrect now c w)) = members (pool w)"
  "conn_up (heap (scheduleResurrect now c w) x) = conn_up (heap w x)"
  "conn_down (heap (scheduleResurrect now c w) x) = conn_down (heap w x)"
  "x \<noteq> c \<Longrightarrow> heap (scheduleResurrect now c w) x = heap w x"
  by (simp_all add: scheduleResurrect_def pool_simps Let_def)

text \<open>The effect of \<^verbatim>\<open>OnFailure\<close> on a connection that is up, before the resurrection is scheduled.\<close>

definition buried :: "((cid \<Rightarrow> int) \<Rightarrow> cid list \<Rightarrow> cid list) \<Rightarrow> int \<Rightarrow> cid \<Rightarrow> world \<Rightarrow> world" where
  "buried srt now c w =
     (let h = (heap w)(c := killed now (heap w c)); p = removeFromReady c (pool w)
      in \<lparr>heap = h, pool = p\<lparr>dead := srt (\<lambda>x. - failures (h x)) (dead p @ [c]),
            poolFailures := poolFailures p + 1\<rparr>\<rparr>)"

lemma OnFailure_locked_up:
  assumes "conn_up (heap w c)" "now \<noteq> 0"
  shows "OnFailure_locked srt now c w =
     (let w1 = buried srt now c w in (Some (activeCount (pool w1) < length (ready (pool w1))), w1))"
proof -
  let ?st = "lcDead OR lcNeedsWarmup OR lcNeedsHardware" and ?clr = "lcReady OR lcActive OR lcStandby OR lcOverloaded"
  have u: "\<not> bit (lifecycle (state (heap w c))) 1" using assms(1) by (simp add: conn_up_def lc_of_def)
  have "bit ((lifecycle (state (heap w c)) OR ?st) AND NOT ?clr) 1"
    by (simp add: bit_and_iff bit_or_iff bit_not_iff bit_flags)
  then have "(lifecycle (state (heap w c)) OR ?st) AND NOT ?clr \<noteq> lifecycle (state (heap w c))"
    using u by metis
  then have cas: "casLifecycle (state (heap w c)) 0 ?st ?clr = (Inr (), state (upd_lc ?st ?clr (heap w c)))"
    by (simp add: casLifecycle_eq upd_lc_def Let_def)
  let ?w = "w\<lparr>heap := (heap w)(c := killed now (heap w c))\<rparr>"
  have k: "upd_conn c (markAsDead now) (upd_conn c (storeOverloadedAt None)
      (upd_conn c (\<lambda>x. x\<lparr>state := state (upd_lc ?st ?clr (heap w c))\<rparr>) w)) = ?w"
    by (simp add: upd_conn_def killed_def upd_lc_def)
  have d: "appendToDead now c (upd_pool (removeFromReady c) ?w)
      = upd_pool (\<lambda>p. p\<lparr>dead := dead p @ [c]\<rparr>) (upd_pool (removeFromReady c) ?w)"
    using conn_down_killed [OF assms(2)] by (intro appendToDead_down) (simp add: pool_simps)
  have b: "buried srt now c w = upd_pool (\<lambda>p. p\<lparr>dead := srt (\<lambda>x. - failures ((heap ?w) x)) (dead p)\<rparr>)
      (upd_pool (\<lambda>p. p\<lparr>poolFailures := poolFailures p + 1\<rparr>)
        (upd_pool (\<lambda>p. p\<lparr>dead := dead p @ [c]\<rparr>) (upd_pool (removeFromReady c) ?w)))"
    by (simp add: buried_def upd_pool_def Let_def)
  show ?thesis
    using u by (simp add: OnFailure_locked_def cas k d b lc_of_def Let_def upd_pool_simps)
qed

lemma OnFailure_up:
  assumes "conn_up (heap w c)" "now \<noteq> 0"
  shows "OnFailure srt now c w =
     (let w1 = buried srt now c w; w2 = scheduleResurrect now c w1
      in if activeCount (pool w1) < length (ready (pool w1)) then upd_pool (spawn asyncPromote) w2 else w2)"
  by (simp add: OnFailure_def OnFailure_locked_up [OF assms] Let_def)

lemma buried_simps [pool_simps]:
  "heap (buried srt now c w) = (heap w)(c := killed now (heap w c))"
  "ready (pool (buried srt now c w)) = ready (removeFromReady c (pool w))"
  "activeCount (pool (buried srt now c w)) = activeCount (removeFromReady c (pool w))"
  "members (pool (buried srt now c w)) = members (pool w)"
  "dead (pool (buried srt now c w))
     = srt (\<lambda>x. - failures (((heap w)(c := killed now (heap w c))) x)) (dead (pool w) @ [c])"
  by (simp_all add: buried_def Let_def removeFromReady_simps)

lemma pool_inv_OnFailure_locked:
  assumes "pool_inv w" "c \<in> members (pool w)" "now \<noteq> 0" "sort_func srt"
  shows "pool_inv (snd (OnFailure_locked srt now c w))"
proof (cases "conn_up (heap w c)")
  case True
  have "pool_inv (buried srt now c w)"
    by (rule pool_inv_bury [OF assms(1,2) True])
      (simp_all add: pool_simps sort_func.perm [OF assms(4)] conn_down_killed [OF assms(3)])
  then show ?thesis by (simp add: OnFailure_locked_up [OF True assms(3)] Let_def)
next
  case False
  then have "conn_down (heap w c)" using pool_invD(5) [OF assms(1,2)] by blast
  then show ?thesis using assms(1) by (simp add: OnFailure_locked_def conn_down_def)
qed

section \<open>Cap enforcement\<close>

lemma partition_warm_spec:
  assumes "wc \<le> i" "i + n \<le> length rd" "\<forall>j < wc. W (rd ! j)" "\<forall>j. wc \<le> j \<and> j < i \<longrightarrow> \<not> W (rd ! j)"
    and "partition_warm W i n wc rd = (wc', rd')"
  shows "length rd' = length rd \<and> mset (take (i + n) rd') = mset (take (i + n) rd)
    \<and> drop (i + n) rd' = drop (i + n) rd \<and> wc' \<le> i + n
    \<and> (\<forall>j < wc'. W (rd' ! j)) \<and> (\<forall>j. wc' \<le> j \<and> j < i + n \<longrightarrow> \<not> W (rd' ! j))"
  using assms
proof (induction n arbitrary: i wc rd)
  case 0
  then show ?case by simp
next
  case (Suc n)
  let ?rd = "if i \<noteq> wc then swap_nth rd i wc else rd"
  show ?case
  proof (cases "W (rd ! i)")
    case False
    then show ?thesis using Suc.IH [of wc "i + 1" rd] Suc.prems less_Suc_eq by auto
  next
    case True
    have nth: "?rd ! j = (if j = i then rd ! wc else if j = wc then rd ! i else rd ! j)" for j
      using Suc.prems by (auto simp: swap_nth_def nth_list_update)
    have "mset (take (i + Suc n) ?rd) = mset (take (i + Suc n) rd)" "drop (i + Suc n) ?rd = drop (i + Suc n) rd"
      using Suc.prems by simp_all
    moreover have "length rd' = length ?rd \<and> mset (take (i + 1 + n) rd') = mset (take (i + 1 + n) ?rd)
      \<and> drop (i + 1 + n) rd' = drop (i + 1 + n) ?rd \<and> wc' \<le> i + 1 + n
      \<and> (\<forall>j < wc'. W (rd' ! j)) \<and> (\<forall>j. wc' \<le> j \<and> j < i + 1 + n \<longrightarrow> \<not> W (rd' ! j))"
    proof (rule Suc.IH)
      show "\<forall>j < wc + 1. W (?rd ! j)" using Suc.prems True unfolding nth by (auto simp: less_Suc_eq)
      show "\<forall>j. wc + 1 \<le> j \<and> j < i + 1 \<longrightarrow> \<not> W (?rd ! j)"
        using Suc.prems unfolding nth by (auto simp: less_Suc_eq)
    qed (use Suc.prems True in auto)
    ultimately show ?thesis by (simp add: add.commute add.left_commute)
  qed
qed

lemma filter_split_at:
  assumes "k \<le> length xs" "\<forall>j < k. W (xs ! j)" "\<forall>j. k \<le> j \<and> j < length xs \<longrightarrow> \<not> W (xs ! j)"
  shows "filter W xs = take k xs" "filter (\<lambda>x. \<not> W x) xs = drop k xs"
proof -
  have t: "\<forall>x \<in> set (take k xs). W x" using assms by (auto simp: in_set_conv_nth)
  have d: "\<forall>x \<in> set (drop k xs). \<not> W x" using assms by (auto simp: in_set_conv_nth)
  have s: "xs = take k xs @ drop k xs" by simp
  show "filter W xs = take k xs" using t d by (subst s) (simp only: filter_append filter_True filter_False append_Nil2)
  show "filter (\<lambda>x. \<not> W x) xs = drop k xs" using t d by (subst s) (simp only: filter_append, simp)
qed

lemma fold_upd_conn_pool: "pool (fold (\<lambda>i w. upd_conn (g i) f w) is w) = pool w"
  by (induction "is" arbitrary: w) (simp_all add: pool_simps)

lemma fold_upd_conn_other:
  "x \<notin> g ` set is \<Longrightarrow> heap (fold (\<lambda>i w. upd_conn (g i) f w) is w) x = heap w x"
  by (induction "is" arbitrary: w) (auto simp: pool_simps)

lemma fold_upd_conn_keeps:
  assumes "\<And>c. P c \<Longrightarrow> P (f c)"
  shows "P (heap w x) \<Longrightarrow> P (heap (fold (\<lambda>i w. upd_conn (g i) f w) is w) x)"
proof (induction "is" arbitrary: w)
  case (Cons i is')
  have "P (heap (upd_conn (g i) f w) x)" using Cons.prems assms by (cases "x = g i") (auto simp: pool_simps)
  then show ?case using Cons.IH by simp
qed simp

lemma fold_upd_conn_hits:
  assumes "\<And>c. P (f c)"
  shows "x \<in> g ` set is \<Longrightarrow> P (heap (fold (\<lambda>i w. upd_conn (g i) f w) is w) x)"
proof (induction "is" arbitrary: w)
  case (Cons i is')
  show ?case
  proof (cases "x = g i")
    case True
    then have "P (heap (upd_conn (g i) f w) x)" using assms by (simp add: pool_simps)
    then show ?thesis using fold_upd_conn_keeps [of P f] assms by simp
  next
    case False
    then show ?thesis using Cons by simp
  qed
qed simp

lemma warming_demote: "isWarmingUp (state (demote_to_standby c)) = False"
  by (simp add: demote_to_standby_def)

text \<open>
  The facts of a run of \<^verbatim>\<open>enforceActiveCap\<close> that demotes: which connections stay active, and that
  the demoted ones are fully warmed.
\<close>

lemma enforceActiveCap_run:
  fixes rnd w
  defines "p \<equiv> pool w" and "W \<equiv> \<lambda>c. isWarmingUp (state (heap w c))" and "w' \<equiv> enforceActiveCap rnd w"
  assumes le: "activeCount p \<le> length (ready p)" and cap: "0 < activeListCap p" "activeListCap p < int (activeCount p)"
    and nw: "activeListCap p < int (length (filter (\<lambda>c. \<not> W c) (take (activeCount p) (ready p))))"
  shows "mset (ready (pool w')) = mset (ready p)" "activeCount (pool w') \<le> length (ready (pool w'))"
    and "dead (pool w') = dead p" "members (pool w') = members p"
    and "int (activeCount (pool w')) = int (length (filter W (take (activeCount p) (ready p)))) + activeListCap p"
    and "filter_mset W (mset (take (activeCount (pool w')) (ready (pool w'))))
           = filter_mset W (mset (take (activeCount p) (ready p)))"
    and "\<exists>ys. set ys \<subseteq> set (ready p) \<and> (\<forall>c \<in> set ys. \<not> W c)
           \<and> heap w' = heap (fold (\<lambda>c w. upd_conn c demote_to_standby w) ys w)
           \<and> mset (drop (activeCount (pool w')) (ready (pool w'))) = mset ys + mset (drop (activeCount p) (ready p))"
proof -
  let ?ac = "activeCount p" and ?cap = "nat (activeListCap p)"
  obtain wc rd where pw: "partition_warm W 0 ?ac 0 (ready p) = (wc, rd)" by fastforce
  have s: "length rd = length (ready p)" "mset (take ?ac rd) = mset (take ?ac (ready p))"
      "drop ?ac rd = drop ?ac (ready p)" "wc \<le> ?ac" "\<forall>j < wc. W (rd ! j)"
      "\<forall>j. wc \<le> j \<and> j < ?ac \<longrightarrow> \<not> W (rd ! j)"
    using partition_warm_spec [of 0 0 ?ac "ready p" W wc rd] le pw by auto
  have f: "filter W (take ?ac rd) = take wc rd" "filter (\<lambda>x. \<not> W x) (take ?ac rd) = drop wc (take ?ac rd)"
    using filter_split_at [of wc "take ?ac rd" W] s le by (simp_all add: min_def)
  have c: "length (filter W (take ?ac rd)) = length (filter W (take ?ac (ready p)))"
      "length (filter (\<lambda>x. \<not> W x) (take ?ac rd)) = length (filter (\<lambda>x. \<not> W x) (take ?ac (ready p)))"
    using s(2) by (metis mset_filter size_mset)+
  have wc: "length (filter W (take ?ac (ready p))) = wc"
      "length (filter (\<lambda>x. \<not> W x) (take ?ac (ready p))) = ?ac - wc"
  proof -
    have "length (take wc rd) = wc" "length (drop wc (take ?ac rd)) = ?ac - wc" using s(1,4) le by simp_all
    then show "length (filter W (take ?ac (ready p))) = wc"
      "length (filter (\<lambda>x. \<not> W x) (take ?ac (ready p))) = ?ac - wc" using c unfolding f by simp_all
  qed
  let ?new = "wc + ?cap"
  have new: "?new < ?ac" using nw wc cap s(4) by linarith
  let ?q = "p\<lparr>ready := rd, activeCount := ?new\<rparr>"
  let ?ys = "map (\<lambda>i. rd ! i) [?new..<?ac]"
  have ys: "drop ?new (take ?ac rd) = ?ys"
    using s le by (intro nth_equalityI) auto
  have w': "w' = upd_pool (\<lambda>p. shuffleActive rnd (p\<lparr>ready := rd, activeCount := ?new\<rparr>))
      (fold (\<lambda>i w. upd_conn (rd ! i) demote_to_standby w) [?new..<?ac] w)"
    using pw cap nw unfolding w'_def p_def W_def by (simp add: enforceActiveCap_def Let_def not_le)
  then have pool: "pool w' = shuffleActive rnd ?q"
    and hp: "heap w' = heap (fold (\<lambda>c w. upd_conn c demote_to_standby w) ?ys w)"
    by (simp_all add: pool_simps fold_upd_conn_pool p_def fold_map comp_def)
  have qle: "activeCount ?q \<le> length (ready ?q)" using new s le by simp
  note sh = shuffleActive_sets [OF qle, of rnd]
  have mrd: "mset rd = mset (ready p)" using s by (metis append_take_drop_id mset_append)
  show "mset (ready (pool w')) = mset (ready p)" using sh(2) mrd by (simp add: pool)
  show "activeCount (pool w') \<le> length (ready (pool w'))" using qle by (simp add: pool pool_simps)
  show "dead (pool w') = dead p" "members (pool w') = members p" by (simp_all add: pool pool_simps)
  show "int (activeCount (pool w')) = int (length (filter W (take ?ac (ready p)))) + activeListCap p"
    using cap by (simp add: pool pool_simps wc)
  have sp: "take ?ac rd = take ?new rd @ ?ys" 
    using append_take_drop_id [of ?new "take ?ac rd"] new unfolding ys by (simp add: min_def)
  have nW: "\<forall>c \<in> set ?ys. \<not> W c" using s(6) by auto
  have "filter_mset W (mset (take ?new rd)) = filter_mset W (mset (take ?ac rd))"
    using nW by (simp add: sp filter_mset_eq_conv)
  then show "filter_mset W (mset (take (activeCount (pool w')) (ready (pool w'))))
      = filter_mset W (mset (take ?ac (ready p)))"
    using sh(3) s(2) by (simp add: pool pool_simps)
  have "drop ?new rd = drop ?new (take ?ac rd @ drop ?ac rd)" by simp
  also have "\<dots> = ?ys @ drop ?ac (ready p)"
    unfolding drop_append ys s(3) using new s(1) le by simp
  finally have "drop ?new rd = ?ys @ drop ?ac (ready p)" .
  then have "mset (drop (activeCount (pool w')) (ready (pool w'))) = mset ?ys + mset (drop ?ac (ready p))"
    using sh(4) by (simp add: pool pool_simps)
  moreover have "set ?ys \<subseteq> set (ready p)" 
    unfolding ys [symmetric] mset_eq_setD [OF mrd, symmetric] using set_drop_subset set_take_subset by fast
  ultimately show "\<exists>ys. set ys \<subseteq> set (ready p) \<and> (\<forall>c \<in> set ys. \<not> W c)
      \<and> heap w' = heap (fold (\<lambda>c w. upd_conn c demote_to_standby w) ys w)
      \<and> mset (drop (activeCount (pool w')) (ready (pool w'))) = mset ys + mset (drop ?ac (ready p))"
    using nW hp by blast
qed

lemma enforceActiveCap_idle:
  assumes "activeListCap (pool w) \<le> 0 \<or> int (activeCount (pool w)) \<le> activeListCap (pool w)
    \<or> int (length (filter (\<lambda>c. \<not> isWarmingUp (state (heap w c))) (take (activeCount (pool w)) (ready (pool w)))))
        \<le> activeListCap (pool w)"
  shows "enforceActiveCap rnd w = w"
  using assms by (auto simp: enforceActiveCap_def Let_def)

lemma pool_inv_enforceActiveCap:
  assumes "pool_inv w"
  shows "pool_inv (enforceActiveCap rnd w)"
proof (cases "enforceActiveCap rnd w = w")
  case False
  note i = pool_invD [OF assms]
  have g: "0 < activeListCap (pool w)" "activeListCap (pool w) < int (activeCount (pool w))"
    "activeListCap (pool w)
      < int (length (filter (\<lambda>c. \<not> isWarmingUp (state (heap w c))) (take (activeCount (pool w)) (ready (pool w)))))"
    using False enforceActiveCap_idle [of w rnd] by linarith+
  note r = enforceActiveCap_run [OF i(1) g, of rnd]
  obtain ys where ys: "set ys \<subseteq> set (ready (pool w))"
      "heap (enforceActiveCap rnd w) = heap (fold (\<lambda>c w. upd_conn c demote_to_standby w) ys w)"
    using r(7) by blast
  let ?w = "fold (\<lambda>c w. upd_conn c demote_to_standby w) ys w"
  have "pool_inv ?w"
  proof (rule pool_inv_heap [OF assms])
    show "pool ?w = pool w" by (rule fold_upd_conn_pool)
    show "conn_up (heap ?w c)" if "conn_up (heap w c)" for c
      using that by (rule fold_upd_conn_keeps [rotated]) simp
    show "conn_down (heap ?w c)" if "conn_down (heap w c)" for c
    proof -
      have "c \<notin> set ys" using ys(1) i(3) that up_not_down by blast
      then show ?thesis using that fold_upd_conn_other [of c "\<lambda>c. c" ys demote_to_standby w] by simp
    qed
  qed
  then show ?thesis
    by (rule pool_inv_lists)
      (use r ys in \<open>simp_all add: fold_upd_conn_pool mset_eq_setD [OF r(1)]\<close>)
qed (use assms in simp)

text \<open>Cap enforcement keeps the warmup of every connection.\<close>

lemma enforceActiveCap_warming:
  assumes "activeCount (pool w) \<le> length (ready (pool w))"
  shows "isWarmingUp (state (heap (enforceActiveCap rnd w) c)) = isWarmingUp (state (heap w c))"
proof (cases "enforceActiveCap rnd w = w")
  case False
  have g: "0 < activeListCap (pool w)" "activeListCap (pool w) < int (activeCount (pool w))"
    "activeListCap (pool w)
      < int (length (filter (\<lambda>c. \<not> isWarmingUp (state (heap w c))) (take (activeCount (pool w)) (ready (pool w)))))"
    using False enforceActiveCap_idle [of w rnd] by linarith+
  obtain ys where ys: "\<forall>c \<in> set ys. \<not> isWarmingUp (state (heap w c))"
      "heap (enforceActiveCap rnd w) = heap (fold (\<lambda>c w. upd_conn c demote_to_standby w) ys w)"
    using enforceActiveCap_run(7) [OF assms g, of rnd] by blast
  show ?thesis
  proof (cases "c \<in> set ys")
    case True
    then have "\<not> isWarmingUp (state (heap (fold (\<lambda>c w. upd_conn c demote_to_standby w) ys w) c))"
      by (intro fold_upd_conn_hits [of "\<lambda>c. \<not> isWarmingUp (state c)" demote_to_standby c "\<lambda>c. c"])
        (simp_all add: warming_demote)
    then show ?thesis using ys True by simp
  next
    case False
    then show ?thesis using fold_upd_conn_other [of c "\<lambda>c. c" ys demote_to_standby w] ys(2) by simp
  qed
qed simp

end
