(* ===== verification/Pool_Select.thy ===== *)
theory Pool_Select
  imports Pool_Inv
begin

text \<open>
  Selection, \<^verbatim>\<open>src/opensearchtransport/pool_selection.go\<close>: \<^verbatim>\<open>Next\<close> with its phase under the read lock
  (round robin, warmup skips, starvation prevention) and its fallbacks under the write lock (eviction,
  standby promotion, zombies). The lemmas follow the phases; the properties say that a returned
  connection may be used, that no request starves while an active connection serves requests, and that
  the round robin is fair.
\<close>

section \<open>Definitions\<close>

text \<open>Dedicated cluster managers serve no requests, unless they are user-supplied seeds.\<close>

definition serves_requests :: "connection \<Rightarrow> bool" where
  "serves_requests x \<longleftrightarrow> seed x \<or> \<not> isDedicatedClusterManager (Roles x)"

definition no_position :: "connection \<Rightarrow> bool" where
  "no_position x \<longleftrightarrow> lc_of x AND (lcActive OR lcStandby) = 0"

text \<open>How the loop of \<^verbatim>\<open>Next\<close> under the read lock ends.\<close>

datatype next_exit = served cid bool | evicting | exhausted "cid option" bool

fun next_loop :: "nat \<Rightarrow> cid option \<Rightarrow> int \<Rightarrow> bool \<Rightarrow> world \<Rightarrow> next_exit \<times> world" where
  "next_loop 0 best bestRemSkip needsCap w = (exhausted best needsCap, w)"
| "next_loop (Suc n) best bestRemSkip needsCap w =
     (let ((conn, selectorCap), p) = getNextActiveConn (pool w);
          w = w\<lparr>pool := p\<rparr>;
          needsCap = (needsCap \<or> selectorCap) in
      case conn of
        None \<Rightarrow> next_loop n best bestRemSkip needsCap w
      | Some c \<Rightarrow>
          if \<not> serves_requests (heap w c) then next_loop n best bestRemSkip needsCap w
          else if no_position (heap w c) then (evicting, w)
          else if \<not> isWarmingUp (state (heap w c)) then (served c needsCap, w)
          else let (r, x) = tryWarmupSkip_conn (heap w c); w = upd_conn c (\<lambda>_. x) w in
          (case r of
             warmupAccepted \<Rightarrow>
               let w = upd_pool (\<lambda>p. p\<lparr>poolWarmupAccepts := poolWarmupAccepts p + 1\<rparr>) w;
                   warmupDone = (\<not> isWarmingUp (state x));
                   needsCap = (if warmupDone \<and> activeListCap (pool w) > 0
                                  \<and> int (activeCount (pool w)) > activeListCap (pool w)
                               then True else needsCap)
               in (served c needsCap, w)
           | warmupInactive \<Rightarrow> (served c needsCap, w)
           | warmupSkipped \<Rightarrow>
               let w = upd_pool (\<lambda>p. p\<lparr>poolWarmupSkips := poolWarmupSkips p + 1\<rparr>) w;
                   remSkip = wm_skipCount (roundManager (state x))
               in if remSkip \<le> bestRemSkip then next_loop n (Some c) remSkip needsCap w
                  else next_loop n best bestRemSkip needsCap w))"

text \<open>\<^verbatim>\<open>triggerCapEnforcement\<close>; \<open>lockFree\<close> is the outcome of \<^verbatim>\<open>TryLock\<close>.\<close>

definition triggerCapEnforcement :: "bool \<Rightarrow> multiServerPool \<Rightarrow> multiServerPool" where
  "triggerCapEnforcement lockFree p = (if \<not> lockFree then p else spawn capEnforcement p)"

definition serve :: "bool \<Rightarrow> bool \<Rightarrow> world \<Rightarrow> world" where
  "serve lockFree needsCap w =
     (let w = upd_pool (\<lambda>p. p\<lparr>poolRequests := poolRequests p + 1\<rparr>) w
      in if needsCap then upd_pool (triggerCapEnforcement lockFree) w else w)"

definition evictExternallyDemoted :: "int \<Rightarrow> cid \<Rightarrow> world \<Rightarrow> world" where
  "evictExternallyDemoted now c w = appendToDead now c (upd_pool (removeFromReady c) w)"

text \<open>\<^verbatim>\<open>for range cp.mu.dead\<close>: the dead list rotates by one connection per iteration.\<close>

fun zombie_loop :: "nat \<Rightarrow> world \<Rightarrow> cid option \<times> world" where
  "zombie_loop 0 w = (None, w)"
| "zombie_loop (Suc n) w =
     (let c = hd (dead (pool w)); w = upd_pool (\<lambda>p. p\<lparr>dead := tl (dead p) @ [c]\<rparr>) w
      in if \<not> availableForRouting (heap w c) then zombie_loop n w else (Some c, w))"

definition tryZombie :: "world \<Rightarrow> cid option \<times> world" where
  "tryZombie w = zombie_loop (length (dead (pool w))) w"

definition nextFallbackWithLock :: "world \<Rightarrow> (pool_error + cid) \<times> world" where
  "nextFallbackWithLock w =
     (let (s, w) = tryStandby w in
      if s \<noteq> None \<and> serves_requests (heap w (the s))
      then (Inr (the s), upd_pool (\<lambda>p. p\<lparr>poolRequests := poolRequests p + 1\<rparr>) w)
      else let (z, w) = tryZombie w in
      if z \<noteq> None \<and> serves_requests (heap w (the z))
      then (Inr (the z), upd_pool (\<lambda>p. p\<lparr>poolRequests := poolRequests p + 1\<rparr>) w)
      else (Inl ErrNoConnections, w))"

text \<open>The loop that \<^verbatim>\<open>nextWithEviction\<close> and \<^verbatim>\<open>nextFallback\<close> share.\<close>

fun evict_loop :: "(nat \<Rightarrow> nat) \<Rightarrow> int \<Rightarrow> nat \<Rightarrow> world \<Rightarrow> cid option \<times> world" where
  "evict_loop rnd now 0 w = (None, w)"
| "evict_loop rnd now (Suc n) w =
     (if activeCount (pool w) = 0 then (None, w)
      else let ((conn, needsCap), p) = getNextActiveConn (pool w); w = w\<lparr>pool := p\<rparr> in
      case conn of
        None \<Rightarrow> evict_loop rnd now n w
      | Some c \<Rightarrow>
          if \<not> serves_requests (heap w c) then evict_loop rnd now n w
          else if \<not> no_position (heap w c) then
            let w = (if needsCap then enforceActiveCap rnd w else w)
            in (Some c, upd_pool (\<lambda>p. p\<lparr>poolRequests := poolRequests p + 1\<rparr>) w)
          else evict_loop rnd now n (evictExternallyDemoted now c w))"

definition nextWithEviction :: "(nat \<Rightarrow> nat) \<Rightarrow> int \<Rightarrow> world \<Rightarrow> (pool_error + cid) \<times> world" where
  "nextWithEviction rnd now w =
     (let maxSkips = activeCount (pool w) in
      case evict_loop rnd now maxSkips w of
        (Some c, w) \<Rightarrow> (Inr c, w)
      | (None, w) \<Rightarrow> nextFallbackWithLock w)"

definition nextFallback :: "(nat \<Rightarrow> nat) \<Rightarrow> int \<Rightarrow> world \<Rightarrow> (pool_error + cid) \<times> world" where
  "nextFallback rnd now w =
     (if activeCount (pool w) = 0 then nextFallbackWithLock w
      else let maxSkips = activeCount (pool w) + 1 in
      case evict_loop rnd now maxSkips w of
        (Some c, w) \<Rightarrow> (Inr c, w)
      | (None, w) \<Rightarrow> nextFallbackWithLock w)"

text \<open>
  \<^verbatim>\<open>Next\<close>. Between the release of the read lock and the acquisition of the write lock other
  goroutines run; \<open>env\<close> is what they do.
\<close>

definition Next :: "(world \<Rightarrow> world) \<Rightarrow> (nat \<Rightarrow> nat) \<Rightarrow> int \<Rightarrow> bool \<Rightarrow> world \<Rightarrow> (pool_error + cid) \<times> world" where
  "Next env rnd now lockFree w =
     (let (outcome, w) =
        (if activeCount (pool w) > 0 then next_loop (activeCount (pool w)) None (2 ^ 63 - 1) False w
         else (exhausted None False, w)) in
      case outcome of
        served c needsCap \<Rightarrow> (Inr c, serve lockFree needsCap w)
      | evicting \<Rightarrow> nextWithEviction rnd now (env w)
      | exhausted (Some c) needsCap \<Rightarrow> (Inr c, serve lockFree needsCap w)
      | exhausted None _ \<Rightarrow>
          if ready (pool w) = [] \<and> dead (pool w) = [] then (Inl ErrNoConnections, w)
          else nextFallback rnd now (env w))"

section \<open>Selection keeps the invariant\<close>

lemma getNextActiveConn_pool [pool_simps]:
  "ready (snd (getNextActiveConn p)) = ready p" "dead (snd (getNextActiveConn p)) = dead p"
  "activeCount (snd (getNextActiveConn p)) = activeCount p" "members (snd (getNextActiveConn p)) = members p"
  "activeListCap (snd (getNextActiveConn p)) = activeListCap p"
  by (simp_all add: getNextActiveConn_def poolRoundRobin_selectNext_def capRemain_def capGrow_def capShrink_def
      Let_def split: poolSelector.splits)

definition selection_counter :: "multiServerPool \<Rightarrow> nat" where
  "selection_counter p = (case selector p of nil_selector \<Rightarrow> nextReady p | poolRoundRobin n \<Rightarrow> n)"

lemma getNextActiveConn_eq:
  "fst (getNextActiveConn p) = (Some (ready p ! (selection_counter p mod activeCount p)), False)"
  "selection_counter (snd (getNextActiveConn p)) = Suc (selection_counter p)"
  by (simp_all add: getNextActiveConn_def poolRoundRobin_selectNext_def selection_counter_def capRemain_def
      capGrow_def capShrink_def Let_def split: poolSelector.splits)

lemma selection_counter_upd [simp]:
  "selection_counter (p\<lparr>poolWarmupSkips := n\<rparr>) = selection_counter p"
  "selection_counter (p\<lparr>poolRequests := n\<rparr>) = selection_counter p"
  by (simp_all add: selection_counter_def split: poolSelector.split)

lemma pool_inv_getNext: "pool_inv w \<Longrightarrow> pool_inv (w\<lparr>pool := snd (getNextActiveConn (pool w))\<rparr>)"
  by (simp add: pool_inv_def pool_simps Let_def)

lemma no_position_up: "conn_up x \<Longrightarrow> \<not> no_position x"
proof
  assume x: "conn_up x" "no_position x"
  then have "bit (lc_of x AND (lcActive OR lcStandby)) n = False" for n by (simp add: no_position_def)
  from this [of 2] this [of 3] show False using x by (auto simp: conn_up_def bit_simps bit_flags)
qed

text \<open>Two states with the same lists and the same standing of every connection.\<close>

definition sel_eq :: "world \<Rightarrow> world \<Rightarrow> bool" where
  "sel_eq w w' \<longleftrightarrow> ready (pool w') = ready (pool w) \<and> dead (pool w') = dead (pool w)
     \<and> activeCount (pool w') = activeCount (pool w) \<and> members (pool w') = members (pool w)
     \<and> activeListCap (pool w') = activeListCap (pool w)
     \<and> (\<forall>x. serves_requests (heap w' x) = serves_requests (heap w x) \<and> conn_up (heap w' x) = conn_up (heap w x)
          \<and> conn_down (heap w' x) = conn_down (heap w x))"

lemma sel_eq_refl [simp]: "sel_eq w w"
  by (simp add: sel_eq_def)

lemma sel_eq_trans: "sel_eq w1 w2 \<Longrightarrow> sel_eq w2 w3 \<Longrightarrow> sel_eq w1 w3"
  by (simp add: sel_eq_def)

lemma sel_eq_inv: "sel_eq w w' \<Longrightarrow> pool_inv w \<Longrightarrow> pool_inv w'"
  by (simp add: sel_eq_def pool_inv_def Let_def)

lemma sel_eq_getNext: "sel_eq w (w\<lparr>pool := snd (getNextActiveConn (pool w))\<rparr>)"
  by (simp add: sel_eq_def pool_simps)

lemma sel_eq_warmup: "sel_eq w (upd_conn c (\<lambda>_. snd (tryWarmupSkip_conn (heap w c))) w)"
  by (simp add: sel_eq_def pool_simps serves_requests_def conn_simps)

lemma sel_eq_counters [simp]:
  "sel_eq w (upd_pool (\<lambda>p. p\<lparr>poolWarmupAccepts := f p\<rparr>) w')  = sel_eq w w'"
  "sel_eq w (upd_pool (\<lambda>p. p\<lparr>poolWarmupSkips := f p\<rparr>) w')  = sel_eq w w'"
  "sel_eq w (upd_pool (\<lambda>p. p\<lparr>poolRequests := f p\<rparr>) w')  = sel_eq w w'"
  "sel_eq w (upd_pool (spawn t) w')  = sel_eq w w'"
  by (simp_all add: sel_eq_def pool_simps)

lemma sel_eq_serve: "sel_eq w w' \<Longrightarrow> sel_eq w (serve lf need w')"
  by (cases lf) (auto simp: serve_def triggerCapEnforcement_def sel_eq_def pool_simps Let_def)

definition active_conns :: "world \<Rightarrow> cid list" where
  "active_conns w = take (activeCount (pool w)) (ready (pool w))"

lemma sel_eq_active: "sel_eq w w' \<Longrightarrow> active_conns w' = active_conns w"
  by (simp add: sel_eq_def active_conns_def)

lemma selected_active:
  assumes "0 < activeCount (pool w)" "activeCount (pool w) \<le> length (ready (pool w))"
  shows "ready (pool w) ! (k mod activeCount (pool w)) \<in> set (active_conns w)"
  using assms mod_less_divisor [OF assms(1), of k]
  by (auto simp: active_conns_def in_set_conv_nth intro!: exI [of _ "k mod activeCount (pool w)"])

definition good_choice :: "world \<Rightarrow> cid \<Rightarrow> bool" where
  "good_choice w c \<longleftrightarrow> c \<in> set (active_conns w) \<and> serves_requests (heap w c)"

lemma sel_eq_good: "sel_eq w w' \<Longrightarrow> good_choice w' c = good_choice w c"
  by (simp add: good_choice_def sel_eq_active) (simp add: sel_eq_def)

fun exit_ok :: "world \<Rightarrow> nat \<Rightarrow> next_exit \<Rightarrow> bool" where
  "exit_ok w n (served c _) = good_choice w c"
| "exit_ok w n evicting = False"
| "exit_ok w n (exhausted (Some c) _) = good_choice w c"
| "exit_ok w n (exhausted None _) = (\<forall>k < n. \<not> serves_requests (heap w
     (ready (pool w) ! ((selection_counter (pool w) + k) mod activeCount (pool w)))))"

text \<open>One iteration, with the connection the selector yields.\<close>

lemma next_loop_Suc:
  fixes w
  defines "w1 \<equiv> w\<lparr>pool := snd (getNextActiveConn (pool w))\<rparr>"
    and "c \<equiv> ready (pool w) ! (selection_counter (pool w) mod activeCount (pool w))"
  shows "next_loop (Suc n) best rem need w =
     (if \<not> serves_requests (heap w c) then next_loop n best rem need w1
      else if no_position (heap w c) then (evicting, w1)
      else if \<not> isWarmingUp (state (heap w c)) then (served c need, w1)
      else let x = snd (tryWarmupSkip_conn (heap w c)); w2 = upd_conn c (\<lambda>_. x) w1 in
        (case fst (tryWarmupSkip_conn (heap w c)) of
           warmupAccepted \<Rightarrow> (served c (need \<or> \<not> isWarmingUp (state x) \<and> activeListCap (pool w2) > 0
               \<and> int (activeCount (pool w2)) > activeListCap (pool w2)),
             upd_pool (\<lambda>p. p\<lparr>poolWarmupAccepts := poolWarmupAccepts p + 1\<rparr>) w2)
         | warmupInactive \<Rightarrow> (served c need, w2)
         | warmupSkipped \<Rightarrow>
             let w3 = upd_pool (\<lambda>p. p\<lparr>poolWarmupSkips := poolWarmupSkips p + 1\<rparr>) w2;
                 remSkip = wm_skipCount (roundManager (state x))
             in if remSkip \<le> rem then next_loop n (Some c) remSkip need w3 else next_loop n best rem need w3))"
proof -
  obtain p where g: "getNextActiveConn (pool w) = ((Some c, False), p)"
    using getNextActiveConn_eq(1) [of "pool w"] by (metis c_def prod.collapse)
  then have w1: "w1 = w\<lparr>pool := p\<rparr>" by (simp add: w1_def)
  obtain r x where "tryWarmupSkip_conn (heap w c) = (r, x)" by fastforce
  then show ?thesis using g
    by (cases r) (auto simp: w1 Let_def upd_pool_simps)
qed

declare next_loop.simps(2) [simp del]

lemma next_loop_none: "next_loop n best rem need w = (exhausted None q, w') \<Longrightarrow> best = None"
proof (induction n arbitrary: best rem need w)
  case (Suc n)
  then show ?case
    by (auto simp: next_loop_Suc Let_def split: if_splits warmupResult.splits dest: Suc.IH)
qed simp

text \<open>One pass of the loop on a pool that keeps its invariant.\<close>

lemma next_loop_spec:
  assumes "pool_inv w" "0 < activeCount (pool w)" "\<And>b. best = Some b \<Longrightarrow> good_choice w b"
    and "next_loop n best rem need w = (e, w')" "best = None \<Longrightarrow> 256 \<le> rem"
  shows "sel_eq w w' \<and> exit_ok w n e"
  using assms
proof (induction n arbitrary: best rem need w)
  case 0
  then show ?case by (cases best) auto
next
  case (Suc n)
  let ?w1 = "w\<lparr>pool := snd (getNextActiveConn (pool w))\<rparr>"
  let ?c = "ready (pool w) ! (selection_counter (pool w) mod activeCount (pool w))"
  have le: "activeCount (pool w) \<le> length (ready (pool w))" using pool_invD(1) [OF Suc.prems(1)] .
  have act: "?c \<in> set (active_conns w)" using selected_active [OF Suc.prems(2) le] .
  then have up: "conn_up (heap w ?c)"
    using pool_invD(3) [OF Suc.prems(1)] by (auto simp: active_conns_def dest!: in_set_takeD)
  have s1: "sel_eq w ?w1" by (rule sel_eq_getNext)
  have pc: "0 < activeCount (pool ?w1)" using Suc.prems(2) by (simp add: pool_simps)
  have rec: "sel_eq w w' \<and> exit_ok w (Suc n) e"
    if r: "next_loop n best' rem' need' w2 = (e, w')" and s2: "sel_eq ?w1 w2"
      and c2: "selection_counter (pool w2) = Suc (selection_counter (pool w))"
      and b: "\<And>b. best' = Some b \<Longrightarrow> good_choice w b" and rem: "best' = None \<Longrightarrow> 256 \<le> rem'"
      and skip: "\<not> serves_requests (heap w ?c) \<or> best' \<noteq> None" for best' rem' need' w2
  proof -
    have s: "sel_eq w w2" using sel_eq_trans [OF s1 s2] .
    then have IH: "sel_eq w2 w' \<and> exit_ok w2 n e"
      using Suc.IH [OF _ _ _ r rem] sel_eq_inv Suc.prems b by (simp add: sel_eq_good) (simp add: sel_eq_def)
    have none: "\<forall>k < Suc n. \<not> serves_requests (heap w (ready (pool w) ! ((selection_counter (pool w) + k) mod activeCount (pool w))))"
      if "exit_ok w2 n (exhausted None q)" "\<not> serves_requests (heap w ?c)" for q
    proof (intro allI impI)
      fix k assume "k < Suc n"
      then show "\<not> serves_requests (heap w (ready (pool w) ! ((selection_counter (pool w) + k) mod activeCount (pool w))))"
        using that s c2 by (cases k) (auto simp: sel_eq_def)
    qed
    have "exit_ok w (Suc n) e"
    proof (cases e)
      case (served c q)
      then show ?thesis using IH s by (simp add: sel_eq_good)
    next
      case evicting
      then show ?thesis using IH by simp
    next
      case (exhausted bo q)
      then show ?thesis
      proof (cases bo)
        case None
        moreover have "best' = None" using r exhausted None next_loop_none by metis
        ultimately show ?thesis using IH exhausted skip none by simp
      next
        case (Some b)
        then show ?thesis using IH s exhausted by (simp add: sel_eq_good)
      qed
    qed
    then show ?thesis using s IH sel_eq_trans by blast
  qed
  have cnt: "selection_counter (pool ?w1) = Suc (selection_counter (pool w))"
    by (simp add: getNextActiveConn_eq)
  let ?x = "snd (tryWarmupSkip_conn (heap w ?c))"
  have s2: "sel_eq ?w1 (upd_conn ?c (\<lambda>_. ?x) ?w1)" using sel_eq_warmup [of ?w1 ?c] by simp
  show ?case
  proof (cases "serves_requests (heap w ?c)")
    case False
    then show ?thesis using Suc.prems(3,4,5) cnt by (intro rec [OF _ sel_eq_refl]) (simp_all add: next_loop_Suc)
  next
    case True
    have good: "good_choice w ?c" using act True by (simp add: good_choice_def)
    consider (idle) "\<not> isWarmingUp (state (heap w ?c))"
      | (warm) "isWarmingUp (state (heap w ?c))" by blast
    then show ?thesis
    proof cases
      case idle
      then show ?thesis using Suc.prems(4) True good s1 no_position_up [OF up] by (auto simp: next_loop_Suc)
    next
      case warm
      have np: "\<not> no_position (heap w ?c)" using no_position_up [OF up] .
      have s3: "sel_eq w (upd_conn ?c (\<lambda>_. ?x) ?w1)" using sel_eq_trans [OF s1 s2] .
      show ?thesis
      proof (cases "fst (tryWarmupSkip_conn (heap w ?c))")
        case warmupSkipped
        let ?w3 = "upd_pool (\<lambda>p. p\<lparr>poolWarmupSkips := poolWarmupSkips p + 1\<rparr>) (upd_conn ?c (\<lambda>_. ?x) ?w1)"
        have s4: "sel_eq ?w1 ?w3" "selection_counter (pool ?w3) = Suc (selection_counter (pool w))"
          using s2 cnt by (simp_all add: pool_simps)
        let ?k = "wm_skipCount (roundManager (state ?x))"
        have k: "?k < 256" by simp
        have step: "next_loop (Suc n) best rem need w
            = (if ?k \<le> rem then next_loop n (Some ?c) ?k need ?w3 else next_loop n best rem need ?w3)"
          using warm np True warmupSkipped by (simp add: next_loop_Suc Let_def)
        show ?thesis
        proof (cases "?k \<le> rem")
          case True
          then show ?thesis using Suc.prems(4) good unfolding step by (intro rec [OF _ s4]) auto
        next
          case False
          then have "best \<noteq> None" using k Suc.prems(5) by fastforce
          then show ?thesis using False Suc.prems(3,4) unfolding step by (intro rec [OF _ s4]) auto
        qed
      qed (use Suc.prems(4) True good warm np s3 in \<open>auto simp: next_loop_Suc Let_def\<close>)
    qed
  qed
qed

section \<open>Skips\<close>

text \<open>The skips a connection has left in its warmup round.\<close>

definition remaining_skips :: "world \<Rightarrow> cid \<Rightarrow> int" where
  "remaining_skips w c = wm_skipCount (roundManager (state (heap w c)))"

text \<open>The entries the next \<open>n\<close> calls of the selector yield.\<close>

definition visits :: "world \<Rightarrow> nat \<Rightarrow> cid list" where
  "visits w n = map (\<lambda>k. ready (pool w) ! ((selection_counter (pool w) + k) mod activeCount (pool w))) [0..<n]"

lemma visits_0 [simp]: "visits w 0 = []"
  by (simp add: visits_def)

lemma visits_Suc:
  assumes "sel_eq w w'" "selection_counter (pool w') = Suc (selection_counter (pool w))"
  shows "visits w (Suc n) = ready (pool w) ! (selection_counter (pool w) mod activeCount (pool w)) # visits w' n"
proof -
  have "[0..<Suc n] = 0 # map Suc [0..<n]" by (simp add: upt_conv_Cons map_Suc_upt del: upt_Suc)
  then show ?thesis using assms by (simp add: visits_def sel_eq_def comp_def del: upt_Suc)
qed

lemma visits_active:
  assumes "activeCount (pool w) \<le> length (ready (pool w))"
  shows "visits w (activeCount (pool w)) = rotate (selection_counter (pool w)) (active_conns w)"
  using assms by (intro nth_equalityI) (auto simp: visits_def active_conns_def nth_rotate)

lemma skip_lowers:
  assumes "fst (tryWarmupSkip_conn x) = warmupSkipped"
  shows "wm_skipCount (roundManager (state (snd (tryWarmupSkip_conn x)))) \<le> wm_skipCount (roundManager (state x))"
proof -
  let ?k = "wm_skipCount (roundManager (state x))"
  have "state (snd (tryWarmupSkip_conn x)) = withManagers (state x) (lifecycleManager (state x))
      (wm_withSkipCount (roundManager (state x)) (?k - 1)) \<and> 0 < ?k"
    using assms by (auto simp: tryWarmupSkip_conn_def tryWarmupSkip_alone tryWarmupSkip_body_def Let_def
        case_prod_unfold split: if_splits)
  moreover from this have "(?k - 1) mod 256 \<le> ?k - 1" by (intro zmod_le_nonneg_dividend) simp
  ultimately show ?thesis by (simp add: withManagers_def)
qed

text \<open>How the loop ends, with the skips it counts and the skips that remain.\<close>

definition serving_visits :: "world \<Rightarrow> nat \<Rightarrow> cid list" where
  "serving_visits w n = filter (\<lambda>c. serves_requests (heap w c)) (visits w n)"

definition all_skipped :: "world \<Rightarrow> nat \<Rightarrow> int \<Rightarrow> cid option \<Rightarrow> world \<Rightarrow> bool" where
  "all_skipped w n rem bo w' \<longleftrightarrow>
     poolWarmupSkips (pool w') = poolWarmupSkips (pool w) + int (length (serving_visits w n))
     \<and> (\<forall>x. remaining_skips w' x \<le> remaining_skips w x)
     \<and> (\<forall>x. x \<notin> set (visits w n) \<longrightarrow> heap w' x = heap w x)
     \<and> (\<exists>m \<le> rem. (\<forall>b. bo = Some b \<longrightarrow> remaining_skips w' b \<le> m)
          \<and> (\<forall>x \<in> set (serving_visits w n). m \<le> remaining_skips w' x))"

fun exit_skips :: "world \<Rightarrow> nat \<Rightarrow> int \<Rightarrow> next_exit \<Rightarrow> world \<Rightarrow> bool" where
  "exit_skips w n rem (served c _) w' \<longleftrightarrow> \<not> isWarmingUp (state (heap w' c))
     \<or> poolWarmupAccepts (pool w') = poolWarmupAccepts (pool w) + 1"
| "exit_skips w n rem evicting w' \<longleftrightarrow> True"
| "exit_skips w n rem (exhausted bo _) w' \<longleftrightarrow> all_skipped w n rem bo w'"

lemma getNext_counters [simp]:
  "poolWarmupSkips (snd (getNextActiveConn p)) = poolWarmupSkips p"
  "poolWarmupAccepts (snd (getNextActiveConn p)) = poolWarmupAccepts p"
  by (simp_all add: getNextActiveConn_def poolRoundRobin_selectNext_def capRemain_def capGrow_def capShrink_def
      Let_def split: poolSelector.splits)

lemma all_skipped_pass:
  assumes "sel_eq w w2" "selection_counter (pool w2) = Suc (selection_counter (pool w))"
    and "all_skipped w2 n rem bo w'" "heap w2 = heap w" "poolWarmupSkips (pool w2) = poolWarmupSkips (pool w)"
    and "\<not> serves_requests (heap w (ready (pool w) ! (selection_counter (pool w) mod activeCount (pool w))))"
  shows "all_skipped w (Suc n) rem bo w'"
  using assms by (simp add: all_skipped_def serving_visits_def visits_Suc remaining_skips_def)

lemma all_skipped_skip:
  fixes w
  defines "c \<equiv> ready (pool w) ! (selection_counter (pool w) mod activeCount (pool w))"
  assumes "sel_eq w w3" "selection_counter (pool w3) = Suc (selection_counter (pool w))"
    and "serves_requests (heap w c)" "\<And>x. x \<noteq> c \<Longrightarrow> heap w3 x = heap w x"
    and "remaining_skips w3 c \<le> remaining_skips w c" "poolWarmupSkips (pool w3) = poolWarmupSkips (pool w) + 1"
    and "all_skipped w3 n rem' bo w'" "rem' \<le> rem" "rem' \<le> remaining_skips w3 c"
  shows "all_skipped w (Suc n) rem bo w'"
proof -
  have v: "visits w (Suc n) = c # visits w3 n" unfolding c_def by (rule visits_Suc [OF assms(2,3)])
  have sv: "serving_visits w (Suc n) = c # serving_visits w3 n"
    using assms(2,4) by (simp add: serving_visits_def v sel_eq_def)
  have mono: "remaining_skips w3 x \<le> remaining_skips w x" for x
    using assms(5,6) by (cases "x = c") (simp_all add: remaining_skips_def)
  obtain m where m: "m \<le> rem'" "\<forall>b. bo = Some b \<longrightarrow> remaining_skips w' b \<le> m"
      "\<forall>x \<in> set (serving_visits w3 n). m \<le> remaining_skips w' x"
    using assms(8) by (auto simp: all_skipped_def)
  have "m \<le> remaining_skips w' c"
  proof (cases "c \<in> set (visits w3 n)")
    case True
    then have "c \<in> set (serving_visits w3 n)" using assms(2,4) by (simp add: serving_visits_def sel_eq_def)
    then show ?thesis using m by blast
  next
    case False
    then have "heap w' c = heap w3 c" using assms(8) by (simp add: all_skipped_def)
    then show ?thesis using m(1) assms(10) by (simp add: remaining_skips_def)
  qed
  moreover have "remaining_skips w' x \<le> remaining_skips w x" for x
    using assms(8) mono [of x] order_trans unfolding all_skipped_def by blast
  ultimately show ?thesis using assms(5,7,8,9) m
    unfolding all_skipped_def sv v by (auto intro!: exI [of _ m])
qed

lemma next_loop_skips:
  assumes "pool_inv w" "0 < activeCount (pool w)" "next_loop n best rem need w = (e, w')"
    and "\<And>b. best = Some b \<Longrightarrow> remaining_skips w b \<le> rem"
  shows "exit_skips w n rem e w'"
  using assms
proof (induction n arbitrary: best rem need w)
  case 0
  then show ?case by (auto simp: all_skipped_def serving_visits_def intro!: exI [of _ rem])
next
  case (Suc n)
  let ?w1 = "w\<lparr>pool := snd (getNextActiveConn (pool w))\<rparr>"
  let ?c = "ready (pool w) ! (selection_counter (pool w) mod activeCount (pool w))"
  let ?x = "snd (tryWarmupSkip_conn (heap w ?c))"
  let ?w3 = "upd_pool (\<lambda>p. p\<lparr>poolWarmupSkips := poolWarmupSkips p + 1\<rparr>) (upd_conn ?c (\<lambda>_. ?x) ?w1)"
  have s1: "sel_eq w ?w1" by (rule sel_eq_getNext)
  have s3: "sel_eq w ?w3" using sel_eq_trans [OF s1] sel_eq_warmup [of ?w1 ?c] by simp
  have cnt: "selection_counter (pool ?w1) = Suc (selection_counter (pool w))"
      "selection_counter (pool ?w3) = Suc (selection_counter (pool w))"
    by (simp_all add: getNextActiveConn_eq pool_simps)
  have ac: "0 < activeCount (pool ?w1)" "0 < activeCount (pool ?w3)" using Suc.prems(2) by (simp_all add: pool_simps)
  have i: "pool_inv ?w1" "pool_inv ?w3" using sel_eq_inv [OF s1 Suc.prems(1)] sel_eq_inv [OF s3 Suc.prems(1)] .
  consider (pass) "\<not> serves_requests (heap w ?c)"
    | (skip) "serves_requests (heap w ?c)" "\<not> no_position (heap w ?c)" "isWarmingUp (state (heap w ?c))"
        "fst (tryWarmupSkip_conn (heap w ?c)) = warmupSkipped"
    | (stop) "serves_requests (heap w ?c)" "no_position (heap w ?c) \<or> \<not> isWarmingUp (state (heap w ?c))
        \<or> fst (tryWarmupSkip_conn (heap w ?c)) \<noteq> warmupSkipped" by blast
  then show ?case
  proof cases
    case pass
    then have "next_loop n best rem need ?w1 = (e, w')" using Suc.prems(3) by (simp add: next_loop_Suc)
    then have "exit_skips ?w1 n rem e w'"
      using Suc.IH [OF i(1) ac(1)] Suc.prems(4) by (simp add: remaining_skips_def)
    then show ?thesis using all_skipped_pass [OF s1 cnt(1)] pass by (cases e) auto
  next
    case skip
    let ?k = "remaining_skips ?w3 ?c"
    have low: "?k \<le> remaining_skips w ?c" using skip_lowers [OF skip(4)] by (simp add: remaining_skips_def pool_simps)
    have k: "wm_skipCount (roundManager (state ?x)) = ?k" by (simp add: remaining_skips_def pool_simps)
    obtain best' rem' where r: "next_loop n best' rem' need ?w3 = (e, w')" "rem' \<le> rem" "rem' \<le> ?k"
        "\<And>b. best' = Some b \<Longrightarrow> remaining_skips ?w3 b \<le> rem'"
    proof (cases "?k \<le> rem")
      case True
      then show ?thesis using that [of "Some ?c" ?k] Suc.prems(3) skip by (simp add: next_loop_Suc Let_def k)
    next
      case False
      have "remaining_skips ?w3 b \<le> rem" if "best = Some b" for b
        using Suc.prems(4) [OF that] low by (cases "b = ?c") (simp_all add: remaining_skips_def pool_simps)
      then show ?thesis using that [of best rem] Suc.prems(3) skip False by (simp add: next_loop_Suc Let_def k)
    qed
    have "exit_skips ?w3 n rem' e w'" using Suc.IH [OF i(2) ac(2) r(1,4)] .
    then show ?thesis
    proof (cases e)
      case (exhausted bo q)
      then show ?thesis
        using \<open>exit_skips ?w3 n rem' e w'\<close> skip(1) r(2,3) low
        by (auto intro!: all_skipped_skip [OF s3 cnt(2)] simp: pool_simps)
    qed (auto simp: pool_simps)
  next
    case stop
    have "fst (tryWarmupSkip_conn (heap w ?c)) = warmupInactive \<Longrightarrow> \<not> isWarmingUp (state ?x)"
      by (auto simp: tryWarmupSkip_conn_def tryWarmupSkip_alone tryWarmupSkip_body_def Let_def isWarmingUp_def
          wm_isZero_def case_prod_unfold split: if_splits)
    then show ?thesis using Suc.prems(3) stop
      by (auto simp: next_loop_Suc Let_def pool_simps split: if_splits warmupResult.splits)
  qed
qed

section \<open>Fallbacks\<close>

lemma zombie_loop_spec:
  assumes "n \<le> length (dead (pool w))" "zombie_loop n w = (r, w')"
  shows "\<exists>ds. w' = w\<lparr>pool := (pool w)\<lparr>dead := ds\<rparr>\<rparr> \<and> mset ds = mset (dead (pool w))
    \<and> (case r of Some c \<Rightarrow> c \<in> set (dead (pool w)) \<and> availableForRouting (heap w c)
        | None \<Rightarrow> \<forall>c \<in> set (take n (dead (pool w))). \<not> availableForRouting (heap w c))"
  using assms
proof (induction n arbitrary: w)
  case 0
  then show ?case by (auto intro!: exI [of _ "dead (pool w)"])
next
  case (Suc n)
  obtain c ds where ds: "dead (pool w) = c # ds" using Suc.prems(1) by (cases "dead (pool w)") auto
  let ?w = "upd_pool (\<lambda>p. p\<lparr>dead := tl (dead p) @ [c]\<rparr>) w"
  have d: "dead (pool ?w) = ds @ [c]" "heap ?w = heap w" by (simp_all add: pool_simps ds)
  have u: "?w\<lparr>pool := (pool ?w)\<lparr>dead := es\<rparr>\<rparr> = w\<lparr>pool := (pool w)\<lparr>dead := es\<rparr>\<rparr>" for es
    by (simp add: upd_pool_def)
  show ?case
  proof (cases "availableForRouting (heap w c)")
    case True
    then have "r = Some c" "w' = ?w" using Suc.prems(2) ds by (simp_all add: pool_simps)
    then show ?thesis using True ds by (auto simp: upd_pool_def intro!: exI [of _ "ds @ [c]"])
  next
    case False
    have "zombie_loop n ?w = (r, w')" using Suc.prems(2) False ds by (simp add: pool_simps)
    moreover have "n \<le> length (dead (pool ?w))" using Suc.prems(1) d ds by simp
    ultimately obtain es where "w' = ?w\<lparr>pool := (pool ?w)\<lparr>dead := es\<rparr>\<rparr>" "mset es = mset (dead (pool ?w))"
        "case r of Some c \<Rightarrow> c \<in> set (dead (pool ?w)) \<and> availableForRouting (heap ?w c)
            | None \<Rightarrow> \<forall>c \<in> set (take n (dead (pool ?w))). \<not> availableForRouting (heap ?w c)"
      using Suc.IH [of ?w] by blast
    then show ?thesis using False Suc.prems(1) ds d unfolding u
      by (intro exI [of _ es]) (auto split: option.splits)
  qed
qed

lemma tryZombie_spec:
  assumes "tryZombie w = (r, w')"
  shows "\<exists>ds. w' = w\<lparr>pool := (pool w)\<lparr>dead := ds\<rparr>\<rparr> \<and> mset ds = mset (dead (pool w))"
    and "r = Some c \<Longrightarrow> c \<in> set (dead (pool w)) \<and> availableForRouting (heap w c)"
    and "r = None \<Longrightarrow> c \<in> set (dead (pool w)) \<Longrightarrow> \<not> availableForRouting (heap w c)"
  using zombie_loop_spec [of "length (dead (pool w))" w r w'] assms unfolding tryZombie_def
  by (cases r; auto)+

lemma pool_inv_tryZombie:
  assumes "pool_inv w"
  shows "pool_inv (snd (tryZombie w))"
proof -
  obtain r w' where z: "tryZombie w = (r, w')" by fastforce
  then obtain ds where "w' = w\<lparr>pool := (pool w)\<lparr>dead := ds\<rparr>\<rparr>" "mset ds = mset (dead (pool w))"
    using tryZombie_spec(1) by blast
  then have "pool_inv w'" using pool_invD(1) [OF assms] by (intro pool_inv_lists [OF assms]) simp_all
  then show ?thesis by (simp add: z)
qed

lemma tryStandby_fields:
  assumes "tryStandby w = (s, w')"
  shows "serves_requests (heap w' x) = serves_requests (heap w x)" "dead (pool w') = dead (pool w)"
    "ready (pool w') = ready (pool w)" "members (pool w') = members (pool w)"
    "s = Some c \<Longrightarrow> c \<in> set (ready (pool w))"
    "x \<notin> set (ready (pool w)) \<Longrightarrow> heap w' x = heap w x"
  using assms
  by (auto simp: tryStandby_def Let_def pool_simps serves_requests_def conn_simps split: if_splits)

lemma pool_inv_nextFallbackWithLock:
  assumes "pool_inv w"
  shows "pool_inv (snd (nextFallbackWithLock w))"
proof -
  have s: "pool_inv (snd (tryStandby w))" using tryStandby_effect [OF assms] .
  then have "pool_inv (snd (tryZombie (snd (tryStandby w))))" by (rule pool_inv_tryZombie)
  then show ?thesis using s
    by (simp add: nextFallbackWithLock_def case_prod_unfold Let_def upd_pool_counters)
qed

text \<open>A connection that a request may be sent to.\<close>

definition routable :: "world \<Rightarrow> cid \<Rightarrow> bool" where
  "routable w c \<longleftrightarrow> c \<in> members (pool w) \<and> serves_requests (heap w c)
     \<and> (conn_up (heap w c) \<or> availableForRouting (heap w c))"

lemma nextFallbackWithLock_routable:
  assumes "pool_inv w" "nextFallbackWithLock w = (Inr c, w')"
  shows "routable w c"
proof -
  obtain s w1 where s: "tryStandby w = (s, w1)" by fastforce
  obtain z w2 where z: "tryZombie w1 = (z, w2)" by fastforce
  note st = tryStandby_fields [OF s]
  obtain ds where zo: "w2 = w1\<lparr>pool := (pool w1)\<lparr>dead := ds\<rparr>\<rparr>" using tryZombie_spec(1) [OF z] by blast
  note i = pool_invD [OF assms(1)]
  consider "s = Some c" "serves_requests (heap w1 c)" | "z = Some c" "serves_requests (heap w2 c)"
    using assms(2) s z by (auto simp: nextFallbackWithLock_def Let_def split: if_splits)
  then show ?thesis
  proof cases
    case 1
    then have "c \<in> set (ready (pool w))" using st(5) by simp
    then show ?thesis using 1 i(3) st(1) by (auto simp: routable_def)
  next
    case 2
    then have c: "c \<in> set (dead (pool w))" "availableForRouting (heap w1 c)"
      using tryZombie_spec(2) [OF z] st(2) by simp_all
    then have "c \<notin> set (ready (pool w))" using i(3,4) up_not_down by auto
    then have "heap w1 c = heap w c" using st(6) by simp
    then show ?thesis using 2 c i(4) zo st(1) by (auto simp: routable_def)
  qed
qed

lemma evict_loop_spec:
  assumes "pool_inv w" "0 < activeCount (pool w)" "evict_loop rnd now n w = (r, w')"
  shows "sel_eq w w' \<and> (case r of Some c \<Rightarrow> good_choice w c
    | None \<Rightarrow> \<forall>k < n. \<not> serves_requests (heap w
        (ready (pool w) ! ((selection_counter (pool w) + k) mod activeCount (pool w)))))"
  using assms
proof (induction n arbitrary: w)
  case (Suc n)
  let ?w1 = "w\<lparr>pool := snd (getNextActiveConn (pool w))\<rparr>"
  let ?c = "ready (pool w) ! (selection_counter (pool w) mod activeCount (pool w))"
  have act: "?c \<in> set (active_conns w)" using selected_active [OF Suc.prems(2)] pool_invD(1) [OF Suc.prems(1)] .
  then have np: "\<not> no_position (heap w ?c)"
    using pool_invD(3) [OF Suc.prems(1)] by (intro no_position_up) (auto simp: active_conns_def dest!: in_set_takeD)
  obtain p where g: "getNextActiveConn (pool w) = ((Some ?c, False), p)"
    using getNextActiveConn_eq(1) [of "pool w"] by (metis prod.collapse)
  have s1: "sel_eq w ?w1" by (rule sel_eq_getNext)
  show ?case
  proof (cases "serves_requests (heap w ?c)")
    case True
    then show ?thesis using Suc.prems(2,3) np g act s1 by (auto simp: good_choice_def Let_def)
  next
    case False
    then have "evict_loop rnd now n ?w1 = (r, w')" using Suc.prems(2,3) g by simp
    then have IH: "sel_eq ?w1 w' \<and> (case r of Some c \<Rightarrow> good_choice ?w1 c
      | None \<Rightarrow> \<forall>k < n. \<not> serves_requests (heap ?w1
          (ready (pool ?w1) ! ((selection_counter (pool ?w1) + k) mod activeCount (pool ?w1)))))"
      using Suc.prems(1,2) s1 sel_eq_inv by (intro Suc.IH) (auto simp: pool_simps)
    have "\<not> serves_requests (heap w (ready (pool w) ! ((selection_counter (pool w) + k) mod activeCount (pool w))))"
      if "r = None" "k < Suc n" for k
      using IH that False by (cases k) (auto simp: pool_simps getNextActiveConn_eq)
    then show ?thesis using IH s1 sel_eq_trans sel_eq_good [OF s1] by (auto split: option.splits)
  qed
qed simp

section \<open>Next\<close>

lemma routable_active:
  "pool_inv w \<Longrightarrow> good_choice w c \<Longrightarrow> routable w c"
  using pool_invD(3) [of w] by (auto simp: good_choice_def active_conns_def routable_def dest!: in_set_takeD)

lemma sel_eq_routable:
  assumes "sel_eq w w'" "pool_inv w" "good_choice w c"
  shows "routable w' c"
  using routable_active [of w' c] sel_eq_inv [OF assms(1,2)] sel_eq_good [OF assms(1)] assms(3) by simp

lemma nextFallbackWithLock_result:
  assumes "pool_inv w" "nextFallbackWithLock w = (Inr c, w')"
  shows "routable w' c"
proof -
  obtain s w1 where s: "tryStandby w = (s, w1)" by fastforce
  obtain z w2 where z: "tryZombie w1 = (z, w2)" by fastforce
  obtain ds where zo: "w2 = w1\<lparr>pool := (pool w1)\<lparr>dead := ds\<rparr>\<rparr>" using tryZombie_spec(1) [OF z] by blast
  have i: "pool_inv w1" using tryStandby_effect [OF assms(1)] s by simp
  consider (standby) "s = Some c" "serves_requests (heap w1 c)" "pool w' = (pool w1)\<lparr>poolRequests := poolRequests (pool w1) + 1\<rparr>" "heap w' = heap w1"
    | (zombie) "z = Some c" "serves_requests (heap w2 c)" "pool w' = (pool w2)\<lparr>poolRequests := poolRequests (pool w2) + 1\<rparr>" "heap w' = heap w2"
    using assms(2) s z by (auto simp: nextFallbackWithLock_def Let_def pool_simps split: if_splits)
  then show ?thesis
  proof cases
    case standby
    then have "c \<in> set (ready (pool w1))" using tryStandby_fields(3,5) [OF s] by simp
    then show ?thesis using standby pool_invD(3) [OF i] by (auto simp: routable_def)
  next
    case zombie
    then have "c \<in> set (dead (pool w1))" "availableForRouting (heap w1 c)" using tryZombie_spec(2) [OF z] by simp_all
    then show ?thesis using zombie zo pool_invD(4) [OF i] by (auto simp: routable_def)
  qed
qed

declare evict_loop.simps(2) [simp del]

lemma nextFallbackWithLock_routed:
  "pool_inv w \<Longrightarrow> fst (nextFallbackWithLock w) = Inr c \<Longrightarrow> routable (snd (nextFallbackWithLock w)) c"
  by (rule nextFallbackWithLock_result) (auto simp: prod_eq_iff)

lemma evict_then_fallback:
  assumes "pool_inv w" "0 < activeCount (pool w)"
  shows "pool_inv (snd (case evict_loop rnd now n w of (Some c, w) \<Rightarrow> (Inr c, w) | (None, w) \<Rightarrow> nextFallbackWithLock w))"
    and "fst (case evict_loop rnd now n w of (Some c, w) \<Rightarrow> (Inr c, w) | (None, w) \<Rightarrow> nextFallbackWithLock w) = Inr c
      \<Longrightarrow> routable (snd (case evict_loop rnd now n w of (Some c, w) \<Rightarrow> (Inr c, w) | (None, w) \<Rightarrow> nextFallbackWithLock w)) c"
proof -
  obtain r w1 where e: "evict_loop rnd now n w = (r, w1)" by fastforce
  have s: "sel_eq w w1" "\<And>b. r = Some b \<Longrightarrow> good_choice w b"
    using evict_loop_spec [OF assms e] by auto
  have i: "pool_inv w1" using sel_eq_inv [OF s(1) assms(1)] .
  show "pool_inv (snd (case evict_loop rnd now n w of (Some c, w) \<Rightarrow> (Inr c, w) | (None, w) \<Rightarrow> nextFallbackWithLock w))"
    using i pool_inv_nextFallbackWithLock by (cases r) (simp_all add: e)
  show "routable (snd (case evict_loop rnd now n w of (Some c, w) \<Rightarrow> (Inr c, w) | (None, w) \<Rightarrow> nextFallbackWithLock w)) c"
    if "fst (case evict_loop rnd now n w of (Some c, w) \<Rightarrow> (Inr c, w) | (None, w) \<Rightarrow> nextFallbackWithLock w) = Inr c"
  proof (cases r)
    case None
    then show ?thesis using that e nextFallbackWithLock_routed [OF i] by simp
  next
    case (Some b)
    then show ?thesis using that e s sel_eq_routable [OF s(1) assms(1)] by simp
  qed
qed

lemma pool_inv_nextFallback: "pool_inv w \<Longrightarrow> pool_inv (snd (nextFallback rnd now w))"
  using evict_then_fallback(1) [of w rnd now] pool_inv_nextFallbackWithLock [of w]
  by (auto simp: nextFallback_def Let_def)

lemma nextFallback_result:
  assumes "pool_inv w" "fst (nextFallback rnd now w) = Inr c"
  shows "routable (snd (nextFallback rnd now w)) c"
proof (cases "activeCount (pool w) = 0")
  case True
  then show ?thesis using assms nextFallbackWithLock_routed by (simp add: nextFallback_def)
next
  case False
  then show ?thesis using assms evict_then_fallback(2) [of w rnd now] by (simp add: nextFallback_def Let_def)
qed

lemma pool_inv_nextWithEviction: "pool_inv w \<Longrightarrow> pool_inv (snd (nextWithEviction rnd now w))"
  using evict_then_fallback(1) [of w rnd now] pool_inv_nextFallbackWithLock [of w]
  by (cases "activeCount (pool w) = 0") (auto simp: nextWithEviction_def Let_def)

text \<open>
  Why the phase under the read lock chose a connection: it is not warming up, its turn of the warmup
  came, or every serving active entry was skipped and it has the fewest skips left.
\<close>

definition fair_choice :: "world \<Rightarrow> cid \<Rightarrow> world \<Rightarrow> bool" where
  "fair_choice w c w' \<longleftrightarrow> \<not> isWarmingUp (state (heap w' c))
     \<or> poolWarmupAccepts (pool w') = poolWarmupAccepts (pool w) + 1
     \<or> poolWarmupSkips (pool w') = poolWarmupSkips (pool w)
           + int (length (filter (\<lambda>x. serves_requests (heap w x)) (active_conns w)))
         \<and> (\<forall>x. good_choice w x \<longrightarrow> remaining_skips w' c \<le> remaining_skips w' x)"

lemma fair_choice_serve: "fair_choice w c (serve lf q w') = fair_choice w c w'"
  by (cases lf) (auto simp: fair_choice_def serve_def triggerCapEnforcement_def remaining_skips_def spawn_def
      pool_simps Let_def)

lemma filter_rotate_mset: "mset (filter P (rotate n xs)) = mset (filter P xs)"
proof (induction n)
  case (Suc n)
  then show ?case by (cases "rotate n xs") auto
qed simp

lemma fair_choice_loop:
  assumes "pool_inv w" "0 < activeCount (pool w)"
    and "next_loop (activeCount (pool w)) None rem need w = (e, w')" "e = served c q \<or> e = exhausted (Some c) q"
  shows "fair_choice w c w'"
proof -
  let ?n = "activeCount (pool w)"
  have ex: "exit_skips w ?n rem e w'" using next_loop_skips [OF assms(1-3)] by simp
  have m: "mset (serving_visits w ?n) = mset (filter (\<lambda>x. serves_requests (heap w x)) (active_conns w))"
    unfolding serving_visits_def visits_active [OF pool_invD(1) [OF assms(1)]] by (rule filter_rotate_mset)
  have len: "length (serving_visits w ?n) = length (filter (\<lambda>x. serves_requests (heap w x)) (active_conns w))"
    using m by (rule mset_eq_length)
  have mem: "good_choice w x \<Longrightarrow> x \<in> set (serving_visits w ?n)" for x
    using mset_eq_setD [OF m] by (simp add: good_choice_def)
  show ?thesis
  proof (cases "e = served c q")
    case True
    then show ?thesis using ex by (auto simp: fair_choice_def)
  next
    case False
    then have a: "all_skipped w ?n rem (Some c) w'" using ex assms(4) by simp
    then obtain k where "remaining_skips w' c \<le> k" "\<forall>x \<in> set (serving_visits w ?n). k \<le> remaining_skips w' x"
      by (auto simp: all_skipped_def)
    then have "remaining_skips w' c \<le> remaining_skips w' x" if "good_choice w x" for x
      using mem [OF that] by force
    then show ?thesis using a len by (simp add: fair_choice_def all_skipped_def)
  qed
qed

text \<open>The outcome of the phase under the read lock.\<close>

lemma Next_cases:
  assumes "pool_inv w"
  obtains (chosen) c w1 where "Next env rnd now lf w = (Inr c, w1)" "sel_eq w w1" "good_choice w c" "fair_choice w c w1"
  | (fallback) w1 where "sel_eq w w1" "\<forall>c \<in> set (active_conns w). \<not> serves_requests (heap w c)"
      "Next env rnd now lf w = (if ready (pool w1) = [] \<and> dead (pool w1) = [] then (Inl ErrNoConnections, w1)
        else nextFallback rnd now (env w1))"
proof (cases "activeCount (pool w) > 0")
  case False
  then show ?thesis using fallback [of w] by (simp add: Next_def active_conns_def)
next
  case True
  let ?ac = "activeCount (pool w)" and ?s = "selection_counter (pool w)"
  obtain e w1 where l: "next_loop ?ac None (2 ^ 63 - 1) False w = (e, w1)" by fastforce
  have sp: "sel_eq w w1" "exit_ok w ?ac e"
    using next_loop_spec [OF assms True _ l] by simp_all
  show ?thesis
  proof (cases e)
    case (served c q)
    then have "fair_choice w c (serve lf q w1)" using fair_choice_loop [OF assms True l] by (simp add: fair_choice_serve)
    then show ?thesis using served chosen [of c "serve lf q w1"] sp l True sel_eq_serve by (simp add: Next_def)
  next
    case evicting
    then show ?thesis using sp by simp
  next
    case (exhausted bo q)
    show ?thesis
    proof (cases bo)
      case (Some c)
      then have "fair_choice w c (serve lf q w1)"
        using fair_choice_loop [OF assms True l] exhausted by (simp add: fair_choice_serve)
      then show ?thesis using Some chosen [of c "serve lf q w1"] sp l True sel_eq_serve exhausted by (simp add: Next_def)
    next
      case None
      have "\<not> serves_requests (heap w c)" if c: "c \<in> set (active_conns w)" for c
      proof -
        obtain i where i: "i < ?ac" "ready (pool w) ! i = c"
          using c by (auto simp: active_conns_def in_set_conv_nth)
        let ?k = "(i + (?ac - ?s mod ?ac)) mod ?ac"
        have "(?s + ?k) mod ?ac = (?s mod ?ac + (i + (?ac - ?s mod ?ac))) mod ?ac" by (simp add: mod_simps)
        also have "\<dots> = (i + ?ac) mod ?ac" using mod_less_divisor [OF True, of ?s] by simp
        finally have "(?s + ?k) mod ?ac = i" using i by simp
        moreover have "\<not> serves_requests (heap w (ready (pool w) ! ((?s + ?k) mod ?ac)))"
        proof -
          have "\<forall>k < ?ac. \<not> serves_requests (heap w (ready (pool w) ! ((?s + k) mod ?ac)))"
            using sp(2) None exhausted by simp
          moreover have "?k < ?ac" using True by simp
          ultimately show ?thesis by blast
        qed
        ultimately show ?thesis using i(2) by metis
      qed
      then show ?thesis using fallback [of w1] sp l True None exhausted by (simp add: Next_def)
    qed
  qed
qed

section \<open>Properties\<close>

text \<open>C5. \<^verbatim>\<open>Next\<close> keeps the pool's invariant and only hands out a member that may be used: one that
  serves requests (a seed, or not a dedicated cluster manager) and is either up or a dead connection
  that is a seed or was once reachable. While some active connection serves requests it hands out an
  active one, which is up; only otherwise can it be a standby or a dead one. (A usable standby
  connection does not always come before a dead one: only the head of the standby partition is tried.)
  This holds whatever the other goroutines do between the two locks, as long as they keep the
  invariant.\<close>
theorem Next_safe:
  assumes "pool_inv w" "\<forall>v. pool_inv v \<longrightarrow> pool_inv (env v)"
  shows "pool_inv (snd (Next env rnd now lockFree w))
    \<and> (fst (Next env rnd now lockFree w) = Inr c \<longrightarrow>
        routable (snd (Next env rnd now lockFree w)) c
        \<and> (good_choice w c \<and> conn_up (heap w c)
           \<or> (\<forall>x \<in> set (active_conns w). \<not> serves_requests (heap w x))))"
  using assms(1)
proof (cases rule: Next_cases [of w env rnd now lockFree])
  case (chosen b w1)
  have "conn_up (heap w b)" using chosen(3) pool_invD(3) [OF assms(1)]
    by (auto simp: good_choice_def active_conns_def dest!: in_set_takeD)
  then show ?thesis using chosen assms(1) sel_eq_inv sel_eq_routable by auto
next
  case (fallback w1)
  have "pool_inv (env w1)" using fallback(1) assms sel_eq_inv by blast
  then show ?thesis using fallback assms(1) sel_eq_inv pool_inv_nextFallback nextFallback_result by auto
qed

text \<open>C6. \<^verbatim>\<open>Next\<close> never fails while some active connection serves requests, however many connections
  are being warmed up. The connection it returns is an active one that serves requests, and it is
  not warming up, or its turn of the warmup came in this call, or the call counted a skip for every
  serving active entry and no active connection that serves requests has fewer skips left than the
  returned one.\<close>
theorem Next_no_starvation:
  assumes "pool_inv w" "c \<in> set (active_conns w)" "serves_requests (heap w c)"
  shows "\<exists>b. fst (Next env rnd now lockFree w) = Inr b \<and> b \<in> set (active_conns w) \<and> serves_requests (heap w b)
    \<and> (let w' = snd (Next env rnd now lockFree w) in
       \<not> isWarmingUp (state (heap w' b))
       \<or> poolWarmupAccepts (pool w') = poolWarmupAccepts (pool w) + 1
       \<or> poolWarmupSkips (pool w') = poolWarmupSkips (pool w)
             + int (length (filter (\<lambda>x. serves_requests (heap w x)) (active_conns w)))
           \<and> (\<forall>x \<in> set (active_conns w). serves_requests (heap w x) \<longrightarrow>
                wm_skipCount (roundManager (state (heap w' b))) \<le> wm_skipCount (roundManager (state (heap w' x)))))"
  using assms(1)
proof (cases rule: Next_cases [of w env rnd now lockFree])
  case (chosen b w1)
  then show ?thesis by (auto simp: fair_choice_def good_choice_def remaining_skips_def Let_def)
next
  case (fallback w1)
  then show ?thesis using assms by blast
qed

text \<open>A small pool: connections 1 and 2 active, 3 on standby, 4 dead.\<close>

definition sample_conn :: "connLifecycle \<Rightarrow> int \<Rightarrow> connection" where
  "sample_conn lc since = blank_connection\<lparr>state := newConnState lc, deadSinceNano := since\<rparr>"

definition sample_heap :: "cid \<Rightarrow> connection" where
  "sample_heap c =
     (if c = 1 \<or> c = 2 then sample_conn (lcActive OR lcReady OR lcViable) 0
      else if c = 3 then sample_conn (lcStandby OR lcViable) 0
      else sample_conn (lcDead OR lcNeedsWarmup OR lcViable) 7)"

definition empty_pool :: multiServerPool where
  "empty_pool = \<lparr>ready = [], dead = [], activeCount = 0, members = {}, activeListCap = 0, warmupRounds = 0,
     warmupSkipCount = 0, hasHealthCheck = False, selector = poolRoundRobin 0, nextReady = 0,
     standbyPromotionChecks = 3, activeListCapConfig = None, poolRequests = 0, poolSuccesses = 0,
     poolFailures = 0, poolWarmupSkips = 0, poolWarmupAccepts = 0, spawned = []\<rparr>"

definition sample_world :: world where
  "sample_world = \<lparr>heap = sample_heap, pool = empty_pool\<lparr>ready := [1, 2, 3], dead := [4], activeCount := 2,
     members := {1, 2, 3, 4}\<rparr>\<rparr>"

lemma sample_lc:
  "lc_of (sample_conn lc since) = lc AND mask 13" "deadSinceNano (sample_conn lc since) = since"
  "Roles (sample_conn lc since) = {}" "seed (sample_conn lc since) = False"
  "isWarmingUp (state (sample_conn lc since)) = False"
  by (simp_all add: sample_conn_def lc_of_def lifecycle_newConnState blank_connection_def)

lemma pool_inv_sample: "pool_inv sample_world"
  by (auto simp: pool_inv_def sample_world_def empty_pool_def sample_heap_def conn_up_def conn_down_def
      sample_lc bit_simps bit_flags)

theorem Next_safe_witness:
  "pool_inv (snd (Next (\<lambda>v. snd (tryStandby v)) (\<lambda>i. i) 9 True sample_world))"
  using Next_safe [OF pool_inv_sample, of "\<lambda>v. snd (tryStandby v)" "\<lambda>i. i" 9 True] tryStandby_effect by blast

theorem Next_no_starvation_witness:
  "\<exists>b. fst (Next (\<lambda>w. w) (\<lambda>i. i) 9 True sample_world) = Inr b \<and> good_choice sample_world b"
proof -
  have "1 \<in> set (active_conns sample_world)" "serves_requests (heap sample_world 1)"
    by (simp_all add: active_conns_def sample_world_def serves_requests_def sample_heap_def sample_lc
        isDedicatedClusterManager_def role_has_def)
  from Next_no_starvation [OF pool_inv_sample this, of "\<lambda>w. w" "\<lambda>i. i" 9 True]
  show ?thesis by (auto simp: good_choice_def)
qed

text \<open>Successive calls of \<^verbatim>\<open>Next\<close>, with their results.\<close>

fun next_calls :: "nat \<Rightarrow> world \<Rightarrow> (pool_error + cid) list \<times> world" where
  "next_calls 0 w = ([], w)"
| "next_calls (Suc n) w =
     (let (r, w) = Next (\<lambda>w. w) (\<lambda>i. i) 1 True w; (rs, w) = next_calls n w in (r # rs, w))"

definition all_serving :: "world \<Rightarrow> bool" where
  "all_serving w \<longleftrightarrow> (\<forall>c \<in> set (active_conns w). serves_requests (heap w c) \<and> \<not> isWarmingUp (state (heap w c)))"

lemma Next_round_robin:
  assumes "pool_inv w" "0 < activeCount (pool w)" "all_serving w"
  shows "Next env rnd now lf w
    = (Inr (ready (pool w) ! (selection_counter (pool w) mod activeCount (pool w))),
       upd_pool (\<lambda>p. p\<lparr>poolRequests := poolRequests p + 1\<rparr>) (w\<lparr>pool := snd (getNextActiveConn (pool w))\<rparr>))"
proof -
  let ?c = "ready (pool w) ! (selection_counter (pool w) mod activeCount (pool w))"
  have c: "?c \<in> set (active_conns w)" using selected_active [OF assms(2) pool_invD(1) [OF assms(1)]] .
  then have "\<not> no_position (heap w ?c)"
    using pool_invD(3) [OF assms(1)] by (intro no_position_up) (auto simp: active_conns_def dest!: in_set_takeD)
  moreover obtain n where "activeCount (pool w) = Suc n" using assms(2) gr0_implies_Suc by blast
  ultimately show ?thesis using c assms(3) by (simp add: Next_def next_loop_Suc all_serving_def serve_def Let_def)
qed

lemma next_calls_round_robin:
  assumes "pool_inv w" "0 < activeCount (pool w)" "all_serving w"
  shows "fst (next_calls n w)
    = map (\<lambda>k. Inr (ready (pool w) ! ((selection_counter (pool w) + k) mod activeCount (pool w)))) [0..<n]"
  using assms
proof (induction n arbitrary: w)
  case (Suc n)
  let ?w = "upd_pool (\<lambda>p. p\<lparr>poolRequests := poolRequests p + 1\<rparr>) (w\<lparr>pool := snd (getNextActiveConn (pool w))\<rparr>)"
  have s: "sel_eq w ?w" using sel_eq_getNext [of w] by simp
  have h: "heap ?w = heap w" "selection_counter (pool ?w) = Suc (selection_counter (pool w))"
      "ready (pool ?w) = ready (pool w)" "activeCount (pool ?w) = activeCount (pool w)"
    by (simp_all add: pool_simps getNextActiveConn_eq)
  have "fst (next_calls n ?w) = map (\<lambda>k. Inr (ready (pool w) ! ((Suc (selection_counter (pool w)) + k) mod activeCount (pool w)))) [0..<n]"
    using Suc.IH [of ?w] Suc.prems sel_eq_inv [OF s] h sel_eq_active [OF s] by (simp add: all_serving_def)
  moreover have "[0..<Suc n] = 0 # map Suc [0..<n]" by (simp add: map_Suc_upt upt_conv_Cons)
  ultimately show ?case using Next_round_robin [OF Suc.prems, of "\<lambda>w. w" "\<lambda>i. i" 1 True]
    by (simp add: case_prod_unfold Let_def comp_def)
qed simp

lemma mset_rotation:
  assumes "xs \<noteq> []"
  shows "mset (map (\<lambda>k. xs ! ((s + k) mod length xs)) [0..<length xs]) = mset xs"
proof -
  have "map (\<lambda>k. xs ! ((s + k) mod length xs)) [0..<length xs] = rotate s xs"
    by (rule nth_equalityI) (simp_all add: nth_rotate)
  also have "mset (rotate s xs) = mset xs"
    by (simp add: rotate_drop_take) (metis append_take_drop_id mset_append union_commute)
  finally show ?thesis .
qed

text \<open>C7. Round robin is fair: when every active connection serves requests and none is warming up, as
  many consecutive calls of \<^verbatim>\<open>Next\<close> as there are active entries return each entry exactly once, so a
  connection with weight \<open>n\<close> is returned \<open>n\<close> times in a round.\<close>
theorem Next_fair:
  assumes "pool_inv w" "0 < activeCount (pool w)" "all_serving w"
  shows "mset (fst (next_calls (activeCount (pool w)) w)) = mset (map Inr (active_conns w))"
proof -
  let ?ac = "activeCount (pool w)" and ?xs = "active_conns w" and ?s = "selection_counter (pool w)"
  have l: "length ?xs = ?ac" using pool_invD(1) [OF assms(1)] by (simp add: active_conns_def)
  have "map (\<lambda>k. ready (pool w) ! ((?s + k) mod ?ac)) [0..<?ac] = map (\<lambda>k. ?xs ! ((?s + k) mod length ?xs)) [0..<length ?xs]"
    unfolding l using assms(2) by (simp add: active_conns_def)
  then have "mset (map (\<lambda>k. ready (pool w) ! ((?s + k) mod ?ac)) [0..<?ac]) = mset ?xs"
  proof -
    have "?xs \<noteq> []" using l assms(2) by auto
    then show ?thesis unfolding \<open>map _ _ = _\<close> by (rule mset_rotation)
  qed
  then have "image_mset Inr (mset (map (\<lambda>k. ready (pool w) ! ((?s + k) mod ?ac)) [0..<?ac])) = mset (map Inr ?xs)"
    by simp
  then show ?thesis unfolding next_calls_round_robin [OF assms] by (simp add: image_mset.compositionality comp_def flip: mset_map)
qed

theorem Next_fair_witness:
  "mset (fst (next_calls 2 sample_world)) = {#Inr 1, Inr 2#}"
proof -
  have "all_serving sample_world"
    by (simp add: all_serving_def active_conns_def sample_world_def serves_requests_def sample_heap_def sample_lc
        isDedicatedClusterManager_def role_has_def)
  moreover have "activeCount (pool sample_world) = 2" "active_conns sample_world = [1, 2]"
    by (simp_all add: sample_world_def active_conns_def)
  ultimately show ?thesis using Next_fair [OF pool_inv_sample] by simp
qed

text \<open>A standby connection that serves requests does not save a request when a dedicated cluster
  manager stands before it: the fallback promotes only the first standby connection, which it must not
  use, and reports that there are no connections. The next request is served.\<close>
theorem standby_manager_hides_standby:
  "let manager = (sample_conn lcStandby 0)\<lparr>Roles := {RoleClusterManager}\<rparr>;
       node = sample_conn lcStandby 0;
       w = \<lparr>heap = (\<lambda>c. if c = 1 then manager else node),
            pool = empty_pool\<lparr>ready := [1, 2], members := {1, 2}\<rparr>\<rparr>
   in fst (next_calls 2 w) = [Inl ErrNoConnections, Inr 2]"
  by code_simp

end
