(* ===== verification/Pool_Standby.thy ===== *)
theory Pool_Standby
  imports Pool_Select
begin

text \<open>
  Overload demotion, standby rotation and promotion (\<^verbatim>\<open>pool_standby.go\<close>), health checks, the resurrection loop and
  \<^verbatim>\<open>checkDead\<close> (\<^verbatim>\<open>pool_resurrect.go\<close>), each split where the code releases the pool's lock. The last section
  is the step relation \<open>pool_step\<close> of these sections and of those of the other theories, and that a step keeps
  the pool invariant.
\<close>

section \<open>Overload\<close>

definition demoteOverloaded :: "int \<Rightarrow> cid \<Rightarrow> world \<Rightarrow> world" where
  "demoteOverloaded now c w =
     (let lc = lc_of (heap w c) in
      if lc_has lc lcUnknown then
        upd_conn c (storeOverloadedAt (Some now)) (upd_conn c (upd_lc lcOverloaded 0) w)
      else if lc_has lc lcStandby then
        upd_conn c (storeOverloadedAt (Some now)) (upd_conn c (upd_lc lcOverloaded 0) w)
      else case casLifecycle (state (heap w c)) 0 (lcStandby OR lcOverloaded) lcActive of
        (Inl _, _) \<Rightarrow> w
      | (Inr _, s) \<Rightarrow>
          let w = upd_conn c (\<lambda>x. x\<lparr>state := s\<rparr>) w;
              w = upd_conn c (storeOverloadedAt (Some now)) w;
              w = upd_pool (removeFromReady c) w;
              w = appendToReadyStandby c w
          in snd (tryStandby w))"

definition promoteFromOverloaded :: "cid \<Rightarrow> world \<Rightarrow> world" where
  "promoteFromOverloaded c w =
     (if \<not> lc_has (lc_of (heap w c)) lcOverloaded then w
      else upd_conn c (storeOverloadedAt None) (upd_conn c (upd_lc 0 lcOverloaded) w))"

section \<open>Health checks\<close>

text \<open>
  The outcome of one call of the health check function: whether it succeeded, how long it took, and
  the version number found in the body of the response (empty when there is none, or when the body
  cannot be read or parsed).
\<close>

record health_result =
  hr_ok :: bool
  hr_elapsed :: int
  hr_version :: string

definition performHealthCheck :: "health_result \<Rightarrow> bool \<Rightarrow> cid \<Rightarrow> world \<Rightarrow> bool \<times> world" where
  "performHealthCheck hc recordRTT c w =
     (if \<not> hr_ok hc then (False, w)
      else let w = (if recordRTT
                    then upd_conn c (\<lambda>x. case rttRing_add (hr_elapsed hc) (rtt x) of
                           Inr r \<Rightarrow> x\<lparr>rtt := r\<rparr> | Inl _ \<Rightarrow> x) w
                    else w);
               w = upd_conn c (\<lambda>x. snd (decrementDrainingQuiescing [] x)) w;
               w = (if isWarmingUp (state (heap w c))
                    then upd_conn c (\<lambda>x. snd (tryWarmupSkip_conn x)) w else w)
           in (True, if hr_version hc = [] then w else upd_conn c (\<lambda>x. x\<lparr>version := hr_version hc\<rparr>) w))"

definition scheduleRTTProbe :: "bool \<Rightarrow> health_result \<Rightarrow> health_result \<Rightarrow> cid \<Rightarrow> world \<Rightarrow> world" where
  "scheduleRTTProbe lockFree hc1 hc2 c w =
     (if \<not> lockFree then w
      else snd (performHealthCheck hc2 True c (snd (performHealthCheck hc1 False c w))))"

text \<open>Consecutive checks of a standby connection; \<open>hcs k\<close> is the outcome of the call number \<open>k\<close>.\<close>

fun standby_checks :: "nat \<Rightarrow> (nat \<Rightarrow> health_result) \<Rightarrow> cid \<Rightarrow> world \<Rightarrow> bool \<times> world" where
  "standby_checks 0 hcs c w = (True, w)"
| "standby_checks (Suc n) hcs c w =
     (case performHealthCheck (hcs 0) True c w of
        (False, w) \<Rightarrow> (False, w)
      | (True, w) \<Rightarrow> standby_checks n (\<lambda>k. hcs (Suc k)) c w)"

definition performStandbyHealthCheck :: "(nat \<Rightarrow> health_result) \<Rightarrow> cid \<Rightarrow> world \<Rightarrow> bool \<times> world" where
  "performStandbyHealthCheck hcs c w =
     (if \<not> hasHealthCheck (pool w) then (True, w)
      else standby_checks (standbyPromotionChecks (pool w)) hcs c w)"

section \<open>Standby rotation\<close>

datatype rotation_error = ErrRotationHealthCheckFailed | ErrRotationPromotionRace
  | ErrRotationStateChanged | ErrRotationNoCandidate

definition findActiveCandidate :: "world \<Rightarrow> cid option \<times> world" where
  "findActiveCandidate w =
     (let p = pool w; idxs = rev [activeCount p..<length (ready p)] in
      case find (\<lambda>i. \<not> lc_hasAny (lc_of (heap w (ready p ! i))) (lcOverloaded OR lcUnknown OR lcHealthChecking)) idxs of
        Some i \<Rightarrow>
          let c = ready p ! i
          in (Some c, upd_conn c (\<lambda>x. x\<lparr>state := snd (casLifecycle (state x) (lcOverloaded OR lcUnknown)
                (lcHealthChecking OR lcNeedsWarmup) 0)\<rparr>) w)
      | None \<Rightarrow>
          (case find (\<lambda>i. let lc = lc_of (heap w (ready p ! i))
                          in \<not> (lc_hasAny lc (lcOverloaded OR lcUnknown) \<or> \<not> lc_has lc lcHealthChecking)) idxs of
             Some i \<Rightarrow> (Some (ready p ! i), w)
           | None \<Rightarrow> (None, w)))"

definition evictUnknownFromReady :: "int \<Rightarrow> cid \<Rightarrow> world \<Rightarrow> world" where
  "evictUnknownFromReady now c w =
     appendToDead now c (upd_pool (removeFromReady c) (upd_conn c (markAsDead now) w))"

text \<open>
  The second locked section of \<^verbatim>\<open>healthcheckStart\<close>, after the check has been made outside the lock.
\<close>

definition healthcheckFinish :: "int \<Rightarrow> bool \<Rightarrow> cid \<Rightarrow> world \<Rightarrow> (rotation_error + cid) \<times> world" where
  "healthcheckFinish now healthy c w =
     (let w = upd_conn c (upd_lc 0 lcHealthChecking) w in
      if c \<notin> set (ready (pool w)) then (Inl ErrRotationPromotionRace, w)
      else if lc_has (lc_of (heap w c)) lcUnknown then
        (Inl ErrRotationStateChanged, scheduleResurrect now c (evictUnknownFromReady now c w))
      else if \<not> healthy then
        (case casLifecycle (state (heap w c)) 0 (lcDead OR lcNeedsWarmup) (lcReady OR lcActive OR lcStandby) of
           (Inl _, _) \<Rightarrow> (Inl ErrRotationStateChanged, w)
         | (Inr _, s) \<Rightarrow>
             let w = upd_conn c (\<lambda>x. x\<lparr>state := s\<rparr>) w;
                 w = upd_conn c (markAsDead now) w;
                 w = upd_pool (removeFromReady c) w;
                 w = appendToDead now c w
             in (Inl ErrRotationHealthCheckFailed, scheduleResurrect now c w))
      else if standby_index c (pool w) = None then
        (Inl ErrRotationPromotionRace, upd_conn c (upd_lc 0 lcNeedsWarmup) w)
      else (Inr c, w))"

text \<open>
  \<^verbatim>\<open>healthcheckStart\<close>: \<open>env\<close> is what other goroutines do while the check runs outside the lock.
\<close>

definition healthcheckStart :: "(world \<Rightarrow> world) \<Rightarrow> int \<Rightarrow> (nat \<Rightarrow> health_result) \<Rightarrow> world \<Rightarrow> (rotation_error + cid) \<times> world" where
  "healthcheckStart env now hcs w =
     (case findActiveCandidate w of
        (None, w) \<Rightarrow> (Inl ErrRotationNoCandidate, w)
      | (Some c, w) \<Rightarrow>
          let (healthy, w) = performStandbyHealthCheck hcs c (env w)
          in healthcheckFinish now healthy c w)"

definition rotateStandbyOnce :: "(world \<Rightarrow> world) \<Rightarrow> (world \<Rightarrow> world) \<Rightarrow> (nat \<Rightarrow> nat) \<Rightarrow> int \<Rightarrow> (nat \<Rightarrow> health_result) \<Rightarrow>
    world \<Rightarrow> (bool \<times> bool \<times> rotation_error option) \<times> world" where
  "rotateStandbyOnce env1 env2 rnd now hcs w =
     (case healthcheckStart env1 now hcs w of
        (Inl ErrRotationNoCandidate, w) \<Rightarrow> ((False, False, None), w)
      | (Inl e, w) \<Rightarrow> ((True, False, Some e), w)
      | (Inr c, w) \<Rightarrow>
          (case promoteStandby rnd c (env2 w) of
             (False, w) \<Rightarrow> ((True, False, Some ErrRotationPromotionRace), w)
           | (True, w) \<Rightarrow> ((True, True, None), w)))"

definition asyncPromoteStandby :: "(world \<Rightarrow> world) \<Rightarrow> (world \<Rightarrow> world) \<Rightarrow> (nat \<Rightarrow> nat) \<Rightarrow> int \<Rightarrow> (nat \<Rightarrow> health_result) \<Rightarrow>
    world \<Rightarrow> world" where
  "asyncPromoteStandby env1 env2 rnd now hcs w =
     (case healthcheckStart env1 now hcs w of
        (Inl _, w) \<Rightarrow> w
      | (Inr c, w) \<Rightarrow> snd (promoteStandby rnd c (env2 w)))"

definition promoteStandbyGracefully :: "int \<Rightarrow> multiServerPool \<Rightarrow> multiServerPool" where
  "promoteStandbyGracefully gap p =
     (let standbyCount = int (length (ready p)) - int (activeCount p) in
      if gap \<le> 0 \<or> standbyCount \<le> 0 then p
      else let n = min gap standbyCount
           in p\<lparr>spawned := spawned p @ replicate (nat n) asyncPromote\<rparr>)"

section \<open>Resurrection\<close>

text \<open>
  One attempt of the goroutine of \<^verbatim>\<open>scheduleResurrect\<close>: the locked section before the health check
  (\<open>resurrect_begin\<close>, which also resurrects when there is no health check function) and the locked
  section after it (\<open>resurrect_finish\<close>). The result says whether the goroutine ends, and \<open>None\<close>
  that the health check is to be made.
\<close>

definition in_pool :: "cid \<Rightarrow> multiServerPool \<Rightarrow> bool" where
  "in_pool c p \<longleftrightarrow> c \<in> set (ready p) \<or> c \<in> set (dead p)"

definition resurrect_begin :: "(nat \<Rightarrow> nat) \<Rightarrow> cid \<Rightarrow> world \<Rightarrow> bool option \<times> world" where
  "resurrect_begin rnd c w =
     (if deadSinceIsZero (heap w c) then (Some True, w)
      else if \<not> in_pool c (pool w) then (Some True, w)
      else if lc_has (lc_of (heap w c)) lcOverloaded then (Some True, w)
      else if hasHealthCheck (pool w) then (None, w)
      else (Some True, resurrect rnd c w))"

definition resurrect_finish :: "(nat \<Rightarrow> nat) \<Rightarrow> bool \<Rightarrow> cid \<Rightarrow> world \<Rightarrow> bool \<times> world" where
  "resurrect_finish rnd passed c w =
     (if \<not> passed then (False, upd_conn c (\<lambda>x. x\<lparr>failures := failures x + 1\<rparr>) w)
      else if deadSinceIsZero (heap w c) then (True, w)
      else if \<not> in_pool c (pool w) then (True, w)
      else if drainingQuiescingRemaining (heap w c) > 0 then (False, w)
      else (True, resurrect rnd c w))"

definition resurrect_attempt :: "(world \<Rightarrow> world) \<Rightarrow> (nat \<Rightarrow> nat) \<Rightarrow> health_result \<Rightarrow> cid \<Rightarrow> world \<Rightarrow> bool \<times> world" where
  "resurrect_attempt env rnd hc c w =
     (case resurrect_begin rnd c w of
        (Some done, w) \<Rightarrow> (done, w)
      | (None, w) \<Rightarrow>
          let (passed, w) = performHealthCheck hc True c (env w)
          in resurrect_finish rnd passed c w)"

text \<open>The deferred function of the goroutine.\<close>

definition resurrect_done :: "cid \<Rightarrow> world \<Rightarrow> world" where
  "resurrect_done c w = upd_conn c (\<lambda>x. upd_lc 0 lcHealthChecking (x\<lparr>checkStartedAt := None\<rparr>)) w"

text \<open>
  \<^verbatim>\<open>Connection.healthCheck\<close>: the section before the call, and the one after it, which gets the time
  since which the connection was dead when the check began.
\<close>

definition conn_check_begin :: "int \<Rightarrow> connection \<Rightarrow> (int option \<times> connection) option" where
  "conn_check_begin now x =
     (if checkStartedAt x \<noteq> None then None
      else Some (loadDeadSince x, upd_lc lcHealthChecking 0 (x\<lparr>checkStartedAt := Some now\<rparr>)))"

definition time_after :: "int option \<Rightarrow> int option \<Rightarrow> bool" where
  "time_after a b = (case a of None \<Rightarrow> False | Some x \<Rightarrow> (case b of None \<Rightarrow> True | Some y \<Rightarrow> y < x))"

definition conn_check_finish :: "int \<Rightarrow> int option \<Rightarrow> bool \<Rightarrow> connection \<Rightarrow> bool \<times> connection" where
  "conn_check_finish now original ok x =
     (let (r, x) =
        (if time_after (loadDeadSince x) original then (True, x)
         else if \<not> ok then (False, if deadSinceIsZero x then storeDeadSince (Some now) x else x)
         else (True, if \<not> deadSinceIsZero x then storeDeadSince None x else x))
      in (r, upd_lc 0 lcHealthChecking (x\<lparr>checkStartedAt := None\<rparr>)))"

definition checkDeadOne :: "(world \<Rightarrow> world) \<Rightarrow> (nat \<Rightarrow> nat) \<Rightarrow> int \<Rightarrow> bool \<Rightarrow> cid \<Rightarrow> world \<Rightarrow> world" where
  "checkDeadOne env rnd now ok c w =
     (case conn_check_begin now (heap w c) of
        None \<Rightarrow> w
      | Some (original, x) \<Rightarrow>
          let w = env (upd_conn c (\<lambda>_. x) w);
              (passed, x) = conn_check_finish now original ok (heap w c);
              w = upd_conn c (\<lambda>_. x) w in
          if \<not> passed then w
          else let (remaining, x) = decrementDrainingQuiescing [] (heap w c);
                   w = upd_conn c (\<lambda>_. x) w in
          if remaining > 0 then w
          else if deadSinceIsZero (heap w c) then resurrect rnd c w else w)"

text \<open>The fast path of \<^verbatim>\<open>checkDead\<close>, for one connection of the snapshot.\<close>

definition checkDead_fast :: "(nat \<Rightarrow> nat) \<Rightarrow> cid \<Rightarrow> world \<Rightarrow> bool \<times> world" where
  "checkDead_fast rnd c w =
     (if isReady (state (heap w c))
      then (True, resurrect rnd c (upd_conn c markAsHealthy w))
      else (False, w))"

fun checkDead_snapshot :: "(nat \<Rightarrow> nat) \<Rightarrow> cid list \<Rightarrow> world \<Rightarrow> cid list \<times> world" where
  "checkDead_snapshot rnd [] w = ([], w)"
| "checkDead_snapshot rnd (c # cs) w =
     (let (promoted, w) = checkDead_fast rnd c w; (rest, w) = checkDead_snapshot rnd cs w
      in (if promoted then rest else c # rest, w))"

section \<open>Pools as constructed\<close>

datatype connection_pool = singleServerPool "cid option" | multiPool multiServerPool

definition newSingleServerPool :: "cid option \<Rightarrow> (cid \<Rightarrow> connection) \<Rightarrow> (cid \<Rightarrow> connection) \<times> connection_pool" where
  "newSingleServerPool conn h = (case conn of
     None \<Rightarrow> (h, singleServerPool None)
   | Some c \<Rightarrow> (h(c := upd_lc lcActive (lcUnknown OR lcStandby) (h c)), singleServerPool (Some c)))"

definition single_Next :: "(cid \<Rightarrow> connection) \<Rightarrow> cid option \<Rightarrow> pool_error + cid" where
  "single_Next h conn = (case conn of
     None \<Rightarrow> Inl ErrNoConnections
   | Some c \<Rightarrow> if \<not> availableForRouting (h c) then Inl ErrNoConnections else Inr c)"

definition NewConnectionPool :: "cid list \<Rightarrow> (cid \<Rightarrow> connection) \<Rightarrow> (cid \<Rightarrow> connection) \<times> connection_pool" where
  "NewConnectionPool conns h =
     (if length conns = 1 then newSingleServerPool (Some (conns ! 0)) h
      else (h, multiPool (empty_pool\<lparr>ready := conns, activeCount := length conns, dead := [],
              members := set conns, selector := nil_selector, standbyPromotionChecks := 0\<rparr>)))"

section \<open>The operations keep the invariant\<close>

lemma pool_inv_flag:
  assumes "pool_inv w" "\<And>x. conn_up (f x) = conn_up x" "\<And>x. conn_down (f x) = conn_down x"
  shows "pool_inv (upd_conn c f w)"
  using assms by (intro pool_inv_heap [OF assms(1)]) (auto simp: pool_simps)

lemma up_iff_ready: "pool_inv w \<Longrightarrow> c \<in> set (ready (pool w)) \<longleftrightarrow> c \<in> members (pool w) \<and> conn_up (heap w c)"
  using pool_invD(3) by blast

lemma pool_inv_demoteOverloaded:
  assumes "pool_inv w" "c \<in> members (pool w)"
  shows "pool_inv (demoteOverloaded now c w)"
proof (cases "lc_has (lc_of (heap w c)) lcUnknown \<or> lc_has (lc_of (heap w c)) lcStandby")
  case True
  then have "demoteOverloaded now c w = upd_conn c (storeOverloadedAt (Some now)) (upd_conn c (upd_lc lcOverloaded 0) w)"
    by (auto simp: demoteOverloaded_def Let_def)
  then show ?thesis using assms(1) by (simp add: pool_inv_flag)
next
  case False
  then have up: "conn_up (heap w c)" using pool_invD(5) [OF assms] by (auto simp: conn_down_def)
  have act: "bit (lc_of (heap w c)) 2" using up False by (simp add: conn_up_def)
  obtain r s where cas: "casLifecycle (state (heap w c)) 0 (lcStandby OR lcOverloaded) lcActive = (r, s)" by fastforce
  have s: "s = state (upd_lc (lcStandby OR lcOverloaded) lcActive (heap w c))" using cas by (simp add: upd_lc_def)
  let ?w = "upd_conn c (storeOverloadedAt (Some now)) (upd_conn c (\<lambda>x. x\<lparr>state := s\<rparr>) w)"
  have "conn_up ((heap w c)\<lparr>state := s\<rparr>)"
  proof -
    have "(heap w c)\<lparr>state := s\<rparr> = upd_lc (lcStandby OR lcOverloaded) lcActive (heap w c)" by (simp add: s upd_lc_def)
    then show ?thesis using up by (auto simp: mode_simps)
  qed
  then have i: "pool_inv ?w" using assms(1) up_not_down up
    by (intro pool_inv_flag pool_inv_heap [OF assms(1)]) (auto simp: pool_simps)
  let ?w2 = "appendToReadyStandby c (upd_pool (removeFromReady c) ?w)"
  have c: "c \<in> set (ready (pool w))" using up assms up_iff_ready by simp
  have le: "activeCount (pool w) - count_list (take (activeCount (pool w)) (ready (pool w))) c
      \<le> length (filter (\<lambda>x. x \<noteq> c) (ready (pool w)))"
    using take_drop_removeFromReady(3) [OF pool_invD(1) [OF assms(1)], of c] by (simp add: pool_simps)
  have "pool_inv ?w2"
    by (rule pool_inv_lists [OF i]) (use c le in \<open>auto simp: appendToReadyStandby_def Let_def pool_simps\<close>)
  then show ?thesis using False cas assms(1) tryStandby_effect
    by (auto simp: demoteOverloaded_def Let_def split: sum.splits)
qed

lemma pool_inv_promoteFromOverloaded: "pool_inv w \<Longrightarrow> pool_inv (promoteFromOverloaded c w)"
  by (simp add: promoteFromOverloaded_def pool_inv_flag)

lemma mode_rtt_add [simp]:
  "conn_up (case rttRing_add d (rtt x) of Inr r \<Rightarrow> x\<lparr>rtt := r\<rparr> | Inl e \<Rightarrow> x) = conn_up x"
  "conn_down (case rttRing_add d (rtt x) of Inr r \<Rightarrow> x\<lparr>rtt := r\<rparr> | Inl e \<Rightarrow> x) = conn_down x"
  by (simp_all split: sum.splits)

lemma mode_decrement [simp]:
  "conn_up (snd (decrementDrainingQuiescing env x)) = conn_up x"
  "conn_down (snd (decrementDrainingQuiescing env x)) = conn_down x"
  by (simp_all add: decrementDrainingQuiescing_def case_prod_unfold Let_def)

lemma mode_version [simp]:
  "conn_up (x\<lparr>version := v\<rparr>) = conn_up x" "conn_down (x\<lparr>version := v\<rparr>) = conn_down x"
  by (simp_all add: conn_up_def conn_down_def lc_of_def deadSinceIsZero_def)

lemma pool_inv_performHealthCheck: "pool_inv w \<Longrightarrow> pool_inv (snd (performHealthCheck hc rec c w))"
  by (simp add: performHealthCheck_def pool_inv_flag Let_def)

lemma pool_inv_standby_checks: "pool_inv w \<Longrightarrow> pool_inv (snd (standby_checks n hcs c w))"
proof (induction n arbitrary: hcs w)
  case (Suc n)
  then show ?case using pool_inv_performHealthCheck [OF Suc.prems, of "hcs 0" True c]
    by (auto split: prod.splits bool.splits)
qed simp

lemma pool_inv_findActiveCandidate:
  assumes "pool_inv w"
  shows "pool_inv (snd (findActiveCandidate w))"
proof -
  have "conn_up (x\<lparr>state := snd (casLifecycle (state x) cf (lcHealthChecking OR lcNeedsWarmup) 0)\<rparr>) = conn_up x"
    "conn_down (x\<lparr>state := snd (casLifecycle (state x) cf (lcHealthChecking OR lcNeedsWarmup) 0)\<rparr>) = conn_down x" for x cf
    by (auto simp: conn_up_def conn_down_def lc_of_def bit_updLifecycle bit_or_iff bit_flags)
  then show ?thesis using assms
    by (auto simp: findActiveCandidate_def Let_def pool_inv_flag split: option.splits)
qed

lemma pool_inv_healthcheckFinish:
  assumes "pool_inv w" "now \<noteq> 0"
  shows "pool_inv (snd (healthcheckFinish now healthy c w))"
proof -
  let ?w = "upd_conn c (upd_lc 0 lcHealthChecking) w"
  have i: "pool_inv ?w" using assms(1) by (simp add: pool_inv_flag)
  show ?thesis
  proof (cases "c \<in> set (ready (pool ?w)) \<and> \<not> healthy")
    case False
    have i2: "pool_inv (upd_conn c (upd_lc 0 lcNeedsWarmup) ?w)" using i by (rule pool_inv_flag) simp_all
    have up: "c \<in> set (ready (pool ?w)) \<Longrightarrow> \<not> bit (lc_of (heap ?w c)) 1"
      using up_iff_ready [OF i] by (simp add: conn_up_def)
    show ?thesis using False i i2 up
      by (auto simp: healthcheckFinish_def Let_def split: if_splits)
  next
    case True
    then have up: "conn_up (heap ?w c)" "c \<in> members (pool ?w)" using up_iff_ready [OF i] by blast+
    let ?st = "lcDead OR lcNeedsWarmup" and ?clr = "lcReady OR lcActive OR lcStandby"
    obtain r s where cas: "casLifecycle (state (heap ?w c)) 0 ?st ?clr = (r, s)" by fastforce
    let ?w1 = "upd_conn c (markAsDead now) (upd_conn c (\<lambda>x. x\<lparr>state := s\<rparr>) ?w)"
    have "(heap ?w c)\<lparr>state := s\<rparr> = upd_lc ?st ?clr (heap ?w c)" using cas by (simp add: upd_lc_def)
    then have dn: "conn_down (heap ?w1 c)"
      using assms(2) by (auto simp: pool_simps mode_simps)
    then have a: "appendToDead now c (upd_pool (removeFromReady c) ?w1)
        = upd_pool (\<lambda>p. p\<lparr>dead := dead p @ [c]\<rparr>) (upd_pool (removeFromReady c) ?w1)"
      by (intro appendToDead_down) (simp add: pool_simps)
    have "pool_inv (scheduleResurrect now c (upd_pool (\<lambda>p. p\<lparr>dead := dead p @ [c]\<rparr>) (upd_pool (removeFromReady c) ?w1)))"
      by (rule pool_inv_bury [OF i up(2,1)]) (use dn in \<open>simp_all add: pool_simps\<close>)
    then show ?thesis using True i up cas
      by (auto simp: healthcheckFinish_def Let_def a conn_up_def split: sum.splits)
  qed
qed

lemma pool_inv_scheduleResurrect: "pool_inv w \<Longrightarrow> pool_inv (scheduleResurrect now c w)"
  by (simp add: scheduleResurrect_def Let_def upd_pool_counters pool_inv_flag)

lemma down_in_pool:
  "pool_inv w \<Longrightarrow> \<not> deadSinceIsZero (heap w c) \<Longrightarrow> in_pool c (pool w) \<Longrightarrow> c \<in> members (pool w)"
  using pool_invD(3,4) by (auto simp: in_pool_def)

lemma pool_inv_resurrect_begin: "pool_inv w \<Longrightarrow> pool_inv (snd (resurrect_begin rnd c w))"
  using pool_inv_resurrect [of w c w rnd] down_in_pool by (auto simp: resurrect_begin_def)

lemma pool_inv_resurrect_finish: "pool_inv w \<Longrightarrow> pool_inv (snd (resurrect_finish rnd passed c w))"
  using pool_inv_resurrect [of w c w rnd] down_in_pool by (auto simp: resurrect_finish_def pool_inv_flag)

lemma pool_inv_resurrect_done: "pool_inv w \<Longrightarrow> pool_inv (resurrect_done c w)"
  by (simp add: resurrect_done_def pool_inv_flag)

section \<open>Interleavings\<close>

text \<open>
  The atomic sections of the goroutines that use a pool, in any order and with any outcome of the
  health checks, the clock, the random source and the sort. Each is one locked section, or one
  lock-free update of a connection: the sections of \<^verbatim>\<open>Next\<close>, \<^verbatim>\<open>OnSuccess\<close>, \<^verbatim>\<open>OnFailure\<close>, the overload
  marks, cap enforcement, standby rotation and promotion, the resurrection loop and the fast path of
  \<^verbatim>\<open>checkDead\<close>. The health checks that \<^verbatim>\<open>checkDead\<close> makes on the connections its fast path leaves
  (\<open>checkDeadOne\<close>) are not steps: they clear the time of death before they touch the lists, and
  \<open>quiescing_loses_deadSince\<close> shows one that leaves the invariant for good. Nor are the writes that
  another pool or the stats poller makes to a shared connection.
\<close>

inductive pool_step :: "world \<Rightarrow> world \<Rightarrow> bool" where
  next_read: "0 < activeCount (pool w) \<Longrightarrow>
     next_loop (activeCount (pool w)) None (2 ^ 63 - 1) False w = (e, w') \<Longrightarrow> pool_step w w'"
| next_count: "pool_step w (serve lockFree needsCap w)"
| next_evict: "pool_step w (snd (nextWithEviction rnd now w))"
| next_fallback: "pool_step w (snd (nextFallback rnd now w))"
| success: "c \<in> members (pool w) \<Longrightarrow> pool_step w (OnSuccess rnd c w)"
| failure: "c \<in> members (pool w) \<Longrightarrow> now \<noteq> 0 \<Longrightarrow> sort_func srt \<Longrightarrow>
     pool_step w (snd (OnFailure_locked srt now c w))"
| refill: "pool_step w (upd_pool (spawn asyncPromote) w)"
| overload: "c \<in> members (pool w) \<Longrightarrow> pool_step w (demoteOverloaded now c w)"
| overload_cleared: "pool_step w (promoteFromOverloaded c w)"
| grow: "pool_step w (deferredStandbyPromotion w)"
| enforce: "pool_step w (enforceActiveCap rnd w)"
| candidate: "pool_step w (snd (findActiveCandidate w))"
| check: "pool_step w (snd (performHealthCheck hc recordRTT c w))"
| checked: "now \<noteq> 0 \<Longrightarrow> pool_step w (snd (healthcheckFinish now healthy c w))"
| promote: "pool_step w (snd (promoteStandby rnd c w))"
| schedule: "pool_step w (scheduleResurrect now c w)"
| attempt: "pool_step w (snd (resurrect_begin rnd c w))"
| attempted: "pool_step w (snd (resurrect_finish rnd passed c w))"
| finished: "pool_step w (resurrect_done c w)"
| dead_fast: "c \<in> members (pool w) \<Longrightarrow> pool_step w (snd (checkDead_fast rnd c w))"

inductive_cases pool_stepE: "pool_step w w'"

lemma pool_inv_checkDead_fast:
  "pool_inv w \<Longrightarrow> c \<in> members (pool w) \<Longrightarrow> pool_inv (snd (checkDead_fast rnd c w))"
  using pool_inv_resurrect [of w c "upd_conn c markAsHealthy w" rnd] by (simp add: checkDead_fast_def pool_simps)

lemmas pool_inv_ops = pool_inv_nextWithEviction pool_inv_nextFallback pool_inv_OnSuccess pool_inv_OnFailure_locked
  pool_inv_demoteOverloaded pool_inv_promoteFromOverloaded deferred_effect pool_inv_enforceActiveCap
  pool_inv_findActiveCandidate pool_inv_performHealthCheck pool_inv_healthcheckFinish promoteStandby_effect
  pool_inv_scheduleResurrect pool_inv_resurrect_begin pool_inv_resurrect_finish pool_inv_resurrect_done
  pool_inv_checkDead_fast upd_pool_counters

lemma pool_step_inv: "pool_step w w' \<Longrightarrow> pool_inv w \<Longrightarrow> pool_inv w'"
proof (induction rule: pool_step.induct)
  case (next_read w e w')
  have "sel_eq w w' \<and> exit_ok w (activeCount (pool w)) e"
    by (rule next_loop_spec [OF next_read(3,1) _ next_read(2)]) simp_all
  then show ?case using sel_eq_inv next_read(3) by blast
next
  case (next_count w lockFree needsCap)
  then show ?case using sel_eq_serve [OF sel_eq_refl] sel_eq_inv by blast
qed (simp_all add: pool_inv_ops)

text \<open>A whole report of failure, alone, is its locked section followed by the two steps after the unlock.\<close>

lemma OnFailure_steps:
  assumes "c \<in> members (pool w)" "now \<noteq> 0" "sort_func srt"
  shows "pool_step\<^sup>*\<^sup>* w (OnFailure srt now c w)"
proof -
  let ?l = "OnFailure_locked srt now c w"
  have 1: "pool_step w (snd ?l)" by (rule pool_step.failure [OF assms])
  also have 2: "pool_step\<^sup>*\<^sup>* (snd ?l) (OnFailure srt now c w)"
    by (cases ?l; cases "fst ?l")
      (auto simp: OnFailure_def Let_def intro: pool_step.schedule pool_step.refill
        r_into_rtranclp converse_rtranclp_into_rtranclp)
  finally show ?thesis .
qed

end

