(* ===== verification/Pool_Theorems.thy ===== *)
theory Pool_Theorems
  imports Pool_Standby
begin

text \<open>
  What the operations of a pool do to a connection: reports of success and failure, the cap on active
  connections, rotation, and every interleaving of the sections that \<open>pool_step\<close> lists. The last section
  evaluates schedules outside of them, in which the health checks of \<^verbatim>\<open>checkDead\<close> run or two pools share
  a connection; they repeat entries or leave the invariant.
\<close>

section \<open>Every interleaving\<close>

text \<open>C1. The locked sections of \<^verbatim>\<open>Next\<close>, \<^verbatim>\<open>OnSuccess\<close>, \<^verbatim>\<open>OnFailure\<close>, overload demotion and its end, cap
  enforcement, standby rotation and promotion, the resurrection loop and the fast path of \<^verbatim>\<open>checkDead\<close>
  keep the pool invariant in any order and any interleaving: every member stays in exactly one of the
  ready and dead lists, a dead entry never repeats, the ready list holds exactly the members that are
  up, and the active partition stays inside it. Not covered, because they do not keep it: the health
  checks of \<^verbatim>\<open>checkDeadOne\<close> (see \<open>quiescing_loses_deadSince\<close>) and writes to a connection by another
  pool or by a failed stats poll.\<close>
theorem pool_reachable_inv:
  assumes "pool_inv w" "pool_step\<^sup>*\<^sup>* w w'"
  shows "pool_inv w' \<and> distinct (dead (pool w')) \<and> set (ready (pool w')) \<inter> set (dead (pool w')) = {}
    \<and> activeCount (pool w') \<le> length (ready (pool w'))"
proof -
  have "pool_inv w'" using assms(2,1) by (induction rule: rtranclp_induct) (auto intro: pool_step_inv)
  then show ?thesis by (auto simp: pool_inv_def Let_def)
qed

theorem pool_reachable_inv_witness:
  "pool_inv (OnSuccess (\<lambda>i. i) 1 (OnFailure sort_key 9 1 sample_world))"
proof -
  let ?w = "OnFailure sort_key 9 1 sample_world"
  have "pool_step\<^sup>*\<^sup>* sample_world ?w"
    by (rule OnFailure_steps) (simp_all add: sample_world_def stable_sort.sort_func_axioms)
  moreover have "1 \<in> members (pool ?w)"
    by code_simp
  then have "pool_step ?w (OnSuccess (\<lambda>i. i) 1 ?w)" by (rule pool_step.success)
  ultimately have "pool_step\<^sup>*\<^sup>* sample_world (OnSuccess (\<lambda>i. i) 1 ?w)" by (rule rtranclp.rtrancl_into_rtrancl)
  then show ?thesis using pool_reachable_inv [OF pool_inv_sample] by blast
qed

section \<open>Reports of success and failure\<close>

lemma killed_fields:
  assumes "conn_up c"
  shows "failures (killed now c) = failures c + 1" "deadSinceNano (killed now c) = now"
  using assms by (simp_all add: killed_def conn_simps conn_up_def upd_lc_def storeOverloadedAt_def)

lemma resurrect_active:
  assumes "activeCount (pool w) \<le> length (ready (pool w))" "c \<notin> set (ready (pool w))"
  shows "c \<in> set (active_conns (resurrect rnd c w))
     \<longleftrightarrow> activeListCap (pool w) \<le> 0 \<or> int (activeCount (pool w)) < activeListCap (pool w)"
proof -
  have t: "c \<in> set (take (m + k) (ready (shuffleActive rnd (insert_active k c q))))"
    if "activeCount q = m" "m \<le> length (ready q)" "0 < k" for q k m
  proof -
    have "c \<in> set (take (m + k) (ready (insert_active k c q)))"
      using arg_cong [OF insert_active_parts [of q k c, THEN conjunct1], of set_mset] that by auto
    then show ?thesis
      using mset_eq_setD [OF shuffleActive_sets(3) [of "insert_active k c q" rnd]] that
      by (simp add: insert_active_simps)
  qed
  have n: "c \<notin> set (take n (ready (pool w)))" for n using assms(2) in_set_takeD by metis
  show ?thesis using assms n
    by (auto simp: resurrect_def Let_def case_prod_unfold pool_simps appendToReadyActive_def active_conns_def
      appendToReadyStandby_def t take_append)
qed

text \<open>C8. A reported failure of a connection that is up moves it, with all its weighted entries, from the
  ready list to the dead list, keeps the order of the other active connections, stamps the time of
  death, counts the failure, leaves the dead list sorted by failures (most first, although a comment
  in \<^verbatim>\<open>pool_selection.go\<close> says that fewer failures come first) and leaves a health check scheduled or
  running. No other connection changes.\<close>
theorem OnFailure_result:
  assumes "pool_inv w" "c \<in> set (ready (pool w))" "now \<noteq> 0" "sort_func srt"
  shows "let w' = OnFailure srt now c w in
    ready (pool w') = filter (\<lambda>x. x \<noteq> c) (ready (pool w))
    \<and> active_conns w' = filter (\<lambda>x. x \<noteq> c) (active_conns w)
    \<and> mset (dead (pool w')) = add_mset c (mset (dead (pool w)))
    \<and> sorted (map (\<lambda>x. - failures (heap w' x)) (dead (pool w')))
    \<and> failures (heap w' c) = failures (heap w c) + 1 \<and> conn_down (heap w' c) \<and> deadSinceNano (heap w' c) = now
    \<and> checkStartedAt (heap w' c) \<noteq> None
    \<and> (\<forall>x. x \<noteq> c \<longrightarrow> heap w' x = heap w x)"
proof -
  note i = pool_invD [OF assms(1)]
  have up: "conn_up (heap w c)" using assms(2) i(3) by blast
  let ?b = "buried srt now c w" and ?w = "OnFailure srt now c w"
  have f: "failures (heap ?w x) = failures (heap ?b x)" for x
    by (simp add: OnFailure_up [OF up assms(3)] Let_def scheduleResurrect_def pool_simps upd_lc_fields)
  have d: "dead (pool ?w) = srt (\<lambda>x. - failures (heap ?b x)) (dead (pool w) @ [c])"
    by (simp add: OnFailure_up [OF up assms(3)] Let_def pool_simps)
  have "sorted (map (\<lambda>x. - failures (heap ?w x)) (dead (pool ?w)))"
    unfolding f d using sort_func.ascending [OF assms(4)] .
  moreover have "mset (dead (pool ?w)) = add_mset c (mset (dead (pool w)))"
    unfolding d by (simp add: sort_func.perm [OF assms(4)])
  moreover have "active_conns ?w = filter (\<lambda>x. x \<noteq> c) (active_conns w)"
    using take_drop_removeFromReady(1) [OF i(1), of c]
    by (simp add: OnFailure_up [OF up assms(3)] Let_def pool_simps active_conns_def)
  moreover have "ready (pool ?w) = filter (\<lambda>x. x \<noteq> c) (ready (pool w))" "conn_down (heap ?w c)"
    by (simp_all add: OnFailure_up [OF up assms(3)] Let_def pool_simps conn_down_killed [OF assms(3)])
  moreover have "failures (heap ?w c) = failures (heap w c) + 1" "deadSinceNano (heap ?w c) = now"
    "checkStartedAt (heap ?w c) \<noteq> None" "\<And>x. x \<noteq> c \<Longrightarrow> heap ?w x = heap w x"
    by (auto simp: OnFailure_up [OF up assms(3)] Let_def pool_simps killed_fields [OF up] scheduleResurrect_def upd_lc_def)
  ultimately show ?thesis by simp
qed

theorem OnFailure_result_witness:
  "ready (pool (OnFailure sort_key 9 1 sample_world)) = [2, 3]
    \<and> mset (dead (pool (OnFailure sort_key 9 1 sample_world))) = {#1, 4#}"
  using OnFailure_result [OF pool_inv_sample _ _ stable_sort.sort_func_axioms, of 1 9]
  by (simp add: Let_def sample_world_def)

text \<open>C9. A reported success of a dead connection that is neither draining nor overloaded moves it back
  to the ready list, clears its failures and its time of death and marks it reachable. It becomes
  active exactly when the active partition is below its cap. No other connection changes.\<close>
theorem OnSuccess_result:
  assumes "pool_inv w" "c \<in> set (dead (pool w))" "\<not> shouldSkipDraining (heap w c)" "\<not> shouldSkipOverloaded (heap w c)"
  shows "let w' = OnSuccess rnd c w in
    set (ready (pool w')) = insert c (set (ready (pool w))) \<and> set (dead (pool w')) = set (dead (pool w)) - {c}
    \<and> failures (heap w' c) = 0 \<and> conn_up (heap w' c) \<and> lc_has (lc_of (heap w' c)) lcViable
    \<and> (c \<in> set (active_conns w') \<longleftrightarrow> activeListCap (pool w) \<le> 0 \<or> int (activeCount (pool w)) < activeListCap (pool w))
    \<and> (\<forall>x. x \<noteq> c \<longrightarrow> heap w' x = heap w x)"
proof -
  note i = pool_invD [OF assms(1)]
  let ?w = "upd_conn c markAsHealthy w"
  have c: "\<not> deadSinceIsZero (heap w c)" "c \<notin> set (ready (pool w))" "activeCount (pool ?w) \<le> length (ready (pool ?w))"
    using assms(2) i(1,3,4) up_not_down by (auto simp: conn_down_def deadSinceIsZero_def pool_simps)
  have e: "OnSuccess rnd c w = upd_pool (\<lambda>p. p\<lparr>poolSuccesses := poolSuccesses p + 1\<rparr>) (resurrect rnd c ?w)"
    using c(1) assms(3,4) by (simp add: OnSuccess_def)
  have "failures (heap (resurrect rnd c ?w) c) = 0"
    by (auto simp: resurrect_def Let_def case_prod_unfold pool_simps appendToReadyActive_def appendToReadyStandby_def
        markAsReady_def markAsHealthy_def upd_lc_def storeDeadSince_def storeOverloadedAt_def startWarmup_conn_def)
  moreover have "lc_has (lc_of (heap (resurrect rnd c ?w) c)) lcViable"
    by (auto simp: resurrect_def Let_def case_prod_unfold pool_simps appendToReadyActive_def appendToReadyStandby_def
        markAsReady_def conn_simps bit_or_iff bit_flags)
  ultimately have f: "failures (heap (resurrect rnd c ?w) c) = 0 \<and> lc_has (lc_of (heap (resurrect rnd c ?w) c)) lcViable"
    by blast
  show ?thesis using resurrect_effect [OF c(3), where rnd = rnd and c = c] resurrect_active [of ?w c rnd] c f i(2) set_removeFromDead(3) [OF i(2), of c]
    by (auto simp: e pool_simps active_conns_def Let_def)
qed

theorem OnSuccess_result_witness:
  "set (ready (pool (OnSuccess (\<lambda>i. i) 4 sample_world))) = {1, 2, 3, 4} \<and> conn_up (heap (OnSuccess (\<lambda>i. i) 4 sample_world) 4)"
proof -
  have "\<not> shouldSkipDraining (heap sample_world 4)" "\<not> shouldSkipOverloaded (heap sample_world 4)"
    by (code_simp, code_simp)
  then show ?thesis using OnSuccess_result [OF pool_inv_sample, of 4 "\<lambda>i. i"] 
    by (auto simp: Let_def sample_world_def)
qed

section \<open>The cap on active connections\<close>

definition in_standby :: "connection \<Rightarrow> bool" where
  "in_standby x \<longleftrightarrow> lc_has (lc_of x) lcStandby \<and> lc_has (lc_of x) lcNeedsWarmup \<and> \<not> lc_has (lc_of x) lcActive"

lemma demoted_in_standby: "in_standby (demote_to_standby x)"
  by (simp add: in_standby_def demote_to_standby_def conn_simps bit_or_iff bit_flags)

lemma fold_demoted:
  "c \<in> set ys \<Longrightarrow> in_standby (heap (fold (\<lambda>c w. upd_conn c demote_to_standby w) ys w) c)"
  by (induction ys rule: rev_induct) (auto simp: pool_simps demoted_in_standby)

text \<open>C10. Enforcing the cap leaves at most that many warmed connections active, keeps every warming one
  active, keeps the entries of both lists, and leaves each connection it removed from the active
  partition in standby, to be warmed again when it is promoted.\<close>
theorem enforceActiveCap_result:
  assumes "pool_inv w" "0 < activeListCap (pool w)"
  shows "let w' = enforceActiveCap rnd w; warm = \<lambda>c. isWarmingUp (state (heap w c)) in
     int (length (filter (\<lambda>c. \<not> warm c) (active_conns w'))) \<le> activeListCap (pool w)
     \<and> filter_mset warm (mset (active_conns w')) = filter_mset warm (mset (active_conns w))
     \<and> mset (ready (pool w')) = mset (ready (pool w)) \<and> dead (pool w') = dead (pool w)
     \<and> (\<forall>c \<in> set (active_conns w) - set (active_conns w'). in_standby (heap w' c))"
proof (cases "int (length (filter (\<lambda>c. \<not> isWarmingUp (state (heap w c))) (active_conns w))) \<le> activeListCap (pool w)")
  case True
  then have "enforceActiveCap rnd w = w" by (intro enforceActiveCap_idle) (simp add: active_conns_def)
  then show ?thesis using True by simp
next
  case False
  let ?w = "enforceActiveCap rnd w" and ?W = "\<lambda>c. isWarmingUp (state (heap w c))"
  have le: "activeCount (pool w) \<le> length (ready (pool w))" using pool_invD(1) [OF assms(1)] .
  have g: "activeListCap (pool w) < int (activeCount (pool w))"
    "activeListCap (pool w) < int (length (filter (\<lambda>c. \<not> ?W c) (take (activeCount (pool w)) (ready (pool w)))))"
    using False length_filter_le [of "\<lambda>c. \<not> ?W c" "active_conns w"] le by (simp_all add: active_conns_def)
  note r = enforceActiveCap_run [OF le assms(2) g, of rnd]
  obtain ys where ys: "heap ?w = heap (fold (\<lambda>c w. upd_conn c demote_to_standby w) ys w)"
    "mset (drop (activeCount (pool ?w)) (ready (pool ?w))) = mset ys + mset (drop (activeCount (pool w)) (ready (pool w)))"
    using r(7) by blast
  have s: "mset (ready (pool v)) = mset (active_conns v) + mset (drop (activeCount (pool v)) (ready (pool v)))" for v
    by (metis active_conns_def append_take_drop_id mset_append)
  have m: "mset (active_conns w) = mset (active_conns ?w) + mset ys"
    using r(1) s [of w] s [of ?w] ys(2) by simp
  have "in_standby (heap ?w c)" if "c \<in> set (active_conns w)" "c \<notin> set (active_conns ?w)" for c
    using arg_cong [OF m, of set_mset] that fold_demoted [of c ys w] ys(1) by auto
  moreover have "length (filter ?W (active_conns ?w)) + length (filter (\<lambda>c. \<not> ?W c) (active_conns ?w)) = activeCount (pool ?w)"
    using r(2) by (simp add: sum_length_filter_compl active_conns_def)
  moreover have "length (filter ?W (active_conns ?w)) = length (filter ?W (active_conns w))"
    using r(6) by (metis active_conns_def mset_filter size_mset)
  ultimately show ?thesis using r(1,3,5,6) by (simp add: active_conns_def)
qed

theorem enforceActiveCap_result_witness:
  "let w = sample_world\<lparr>pool := (pool sample_world)\<lparr>activeListCap := 1\<rparr>\<rparr>
   in length (active_conns (enforceActiveCap (\<lambda>i. i) w)) = 1
      \<and> int (length (filter (\<lambda>c. \<not> isWarmingUp (state (heap w c))) (active_conns (enforceActiveCap (\<lambda>i. i) w)))) \<le> 1"
proof -
  let ?w = "sample_world\<lparr>pool := (pool sample_world)\<lparr>activeListCap := 1\<rparr>\<rparr>"
  have "pool_inv ?w" using pool_inv_sample by (simp add: pool_inv_def Let_def)
  moreover have "length (active_conns (enforceActiveCap (\<lambda>i. i) ?w)) = 1" by code_simp
  ultimately show ?thesis using enforceActiveCap_result [of ?w "\<lambda>i. i"] by (simp add: Let_def)
qed

section \<open>Shared connections\<close>

text \<open>
  Two goroutines check the same dead connection: a request through the zombie path succeeds while the
  health check of \<^verbatim>\<open>checkDeadOne\<close> is under way. The check sees a connection that is no longer dead and
  resurrects it a second time, which gives it two entries in the ready list.
\<close>

theorem checkDeadOne_duplicates:
  "let x = sample_conn (lcDead OR lcViable) 7;
       w = \<lparr>heap = (\<lambda>_. x), pool = empty_pool\<lparr>dead := [1], members := {1}, hasHealthCheck := True\<rparr>\<rparr>;
       w' = checkDeadOne (\<lambda>v. OnSuccess (\<lambda>i. i) 1 v) (\<lambda>i. i) 9 True 1 w
   in pool_inv w \<and> ready (pool w') = [1, 1] \<and> activeCount (pool w') = 2 \<and> dead (pool w') = []"
  by code_simp

text \<open>
  A draining connection that passes a check of \<^verbatim>\<open>checkDeadOne\<close> stays in the dead list but loses its time
  of death, which the dead list promises to have; its resurrection loop takes it for resurrected and
  ends, and a successful request no longer brings it back.
\<close>

theorem quiescing_loses_deadSince:
  "let x = (sample_conn (lcDead OR lcViable) 7)\<lparr>drainingQuiescingRemaining := 3\<rparr>;
       w = \<lparr>heap = (\<lambda>_. x), pool = empty_pool\<lparr>dead := [1], members := {1}, hasHealthCheck := True\<rparr>\<rparr>;
       w' = checkDeadOne (\<lambda>v. v) (\<lambda>i. i) 9 True 1 w
   in pool_inv w \<and> dead (pool w') = [1] \<and> deadSinceIsZero (heap w' 1) \<and> lc_has (lc_of (heap w' 1)) lcUnknown
      \<and> fst (resurrect_begin (\<lambda>i. i) 1 w') = Some True \<and> dead (pool (OnSuccess (\<lambda>i. i) 1 w')) = [1]"
  by code_simp

text \<open>
  Pools share connections. One pool reports a failure of a connection; another, which still has it in
  its ready list, reports a success of a request sent before: the connection gets a second entry there.
\<close>

theorem shared_success_duplicates:
  "let x = sample_conn (lcActive OR lcReady OR lcViable) 0;
       mine = \<lparr>heap = (\<lambda>_. x), pool = empty_pool\<lparr>ready := [1], activeCount := 1, members := {1}\<rparr>\<rparr>;
       other = OnFailure sort_key 9 1 mine;
       mine' = OnSuccess (\<lambda>i. i) 1 (mine\<lparr>heap := heap other\<rparr>)
   in pool_inv mine \<and> ready (pool mine') = [1, 1]"
  by code_simp

text \<open>The other way round: resurrected by one pool, then reported failed by one that has it in its dead list.\<close>

theorem shared_failure_duplicates:
  "let x = sample_conn (lcDead OR lcViable) 7;
       mine = \<lparr>heap = (\<lambda>_. x), pool = empty_pool\<lparr>dead := [1], members := {1}\<rparr>\<rparr>;
       other = OnSuccess (\<lambda>i. i) 1 mine;
       mine' = OnFailure sort_key 9 1 (mine\<lparr>heap := heap other\<rparr>)
   in pool_inv mine \<and> dead (pool mine') = [1, 1]"
  by code_simp

text \<open>
  An overloaded active connection is demoted and the slot backfilled from the head of the standby
  partition. When there is no other standby connection, that is the one just demoted: it is active
  again, still marked overloaded.
\<close>

theorem demoteOverloaded_repromotes:
  "let x = sample_conn (lcActive OR lcReady OR lcViable) 0;
       w = \<lparr>heap = (\<lambda>_. x), pool = empty_pool\<lparr>ready := [1, 2], activeCount := 2, members := {1, 2}\<rparr>\<rparr>;
       w' = demoteOverloaded 9 1 w
   in pool_inv w \<and> active_conns w' = [2, 1] \<and> lc_has (lc_of (heap w' 1)) lcOverloaded
      \<and> lc_has (lc_of (heap w' 1)) lcActive \<and> \<not> lc_has (lc_of (heap w' 1)) lcStandby"
  by code_simp

text \<open>
  The exported constructor puts its connections in the active partition without giving them a
  position; the first request finds none of them usable and moves them all to the dead list.
\<close>

theorem NewConnectionPool_unusable:
  "(case NewConnectionPool [1, 2] (\<lambda>_. sample_conn 0 0) of
      (h, multiPool p) \<Rightarrow>
        (case Next (\<lambda>w. w) (\<lambda>i. i) 9 True \<lparr>heap = h, pool = p\<rparr> of
           (r, w) \<Rightarrow> r = Inl ErrNoConnections \<and> ready (pool w) = [] \<and> dead (pool w) = [2, 1])
    | _ \<Rightarrow> False)"
  by code_simp

end
