(* ===== verification/Pool_Status.thy ===== *)
theory Pool_Status
  imports Complex_Main Pool_Standby
begin

text \<open>
  What a pool reports about itself (\<^verbatim>\<open>pool_multi_server.go\<close>: counts, snapshots, availability) and the
  numbers it derives from its size: warmup parameters and the time between two resurrection attempts
  (\<^verbatim>\<open>pool_resurrect.go\<close>). Times are nanoseconds; floating point is exact real arithmetic here, and a
  conversion to \<^verbatim>\<open>time.Duration\<close> truncates.
\<close>

section \<open>Counts\<close>

record lifecycleCounts =
  lc_active :: nat
  lc_standby :: nat
  lc_dead :: nat
  lc_warming :: nat
  lc_healthCheck :: nat
  lc_overloaded :: nat

definition no_counts :: lifecycleCounts where
  "no_counts = \<lparr>lc_active = 0, lc_standby = 0, lc_dead = 0, lc_warming = 0, lc_healthCheck = 0, lc_overloaded = 0\<rparr>"

definition count_position :: "connLifecycle \<Rightarrow> lifecycleCounts \<Rightarrow> lifecycleCounts" where
  "count_position lc k =
     (if lc_has lc lcActive then k\<lparr>lc_active := lc_active k + 1\<rparr>
      else if lc_has lc lcStandby then k\<lparr>lc_standby := lc_standby k + 1\<rparr>
      else k\<lparr>lc_dead := lc_dead k + 1\<rparr>)"

definition count_flags :: "connLifecycle \<Rightarrow> lifecycleCounts \<Rightarrow> lifecycleCounts" where
  "count_flags lc k =
     (let k = (if lc_has lc lcHealthChecking then k\<lparr>lc_healthCheck := lc_healthCheck k + 1\<rparr> else k)
      in if lc_has lc lcOverloaded then k\<lparr>lc_overloaded := lc_overloaded k + 1\<rparr> else k)"

definition count_ready :: "connection \<Rightarrow> lifecycleCounts \<Rightarrow> lifecycleCounts" where
  "count_ready c k =
     (let k = count_position (lc_of c) k;
          k = (if isWarmingUp (state c) then k\<lparr>lc_warming := lc_warming k + 1\<rparr> else k)
      in count_flags (lc_of c) k)"

definition count_dead :: "connection \<Rightarrow> lifecycleCounts \<Rightarrow> lifecycleCounts" where
  "count_dead c k = count_flags (lc_of c) (count_position (lc_of c) k)"

definition countByLifecycle :: "world \<Rightarrow> lifecycleCounts" where
  "countByLifecycle w =
     (let k = fold (\<lambda>c. count_ready (heap w c)) (ready (pool w)) no_counts
      in fold (\<lambda>c. count_dead (heap w c)) (dead (pool w)) k)"

record PolicySnapshot =
  ActiveCount :: nat
  StandbyCount :: nat
  DeadCount :: nat
  ActiveListCap :: int
  WarmingCount :: nat
  HealthCheckingCount :: nat
  Requests :: int
  Successes :: int
  Failures :: int
  WarmupSkips :: int
  WarmupAccepts :: int

definition snapshot :: "world \<Rightarrow> PolicySnapshot" where
  "snapshot w =
     (let counts = countByLifecycle w; p = pool w
      in \<lparr>ActiveCount = lc_active counts, StandbyCount = lc_standby counts, DeadCount = lc_dead counts,
          ActiveListCap = activeListCap p, WarmingCount = lc_warming counts,
          HealthCheckingCount = lc_healthCheck counts, Requests = poolRequests p,
          Successes = poolSuccesses p, Failures = poolFailures p, WarmupSkips = poolWarmupSkips p,
          WarmupAccepts = poolWarmupAccepts p\<rparr>)"

definition hasAvailableConns :: "world \<Rightarrow> bool" where
  "hasAvailableConns w \<longleftrightarrow> (if length (ready (pool w)) > 0 then True
     else list_ex (\<lambda>c. availableForRouting (heap w c)) (dead (pool w)))"

definition pool_URLs :: "world \<Rightarrow> string list" where
  "pool_URLs w = map (\<lambda>c. URL (heap w c)) (ready (pool w)) @ map (\<lambda>c. URL (heap w c)) (dead (pool w))"

definition pool_connections :: "multiServerPool \<Rightarrow> cid list" where
  "pool_connections p = ready p @ dead p"

definition connectionsByState :: "multiServerPool \<Rightarrow> cid list \<times> cid list" where
  "connectionsByState p = (ready p, dead p)"

section \<open>Warmup parameters\<close>

definition minWarmupRounds :: int where "minWarmupRounds = 4"
definition maxWarmupRounds :: int where "maxWarmupRounds = 16"
definition warmupSkipMultiple :: int where "warmupSkipMultiple = 2"

definition recalculateWarmupParams :: "int \<Rightarrow> multiServerPool \<Rightarrow> multiServerPool" where
  "recalculateWarmupParams poolSize p =
     (let p = (if activeListCapConfig p = None \<and> poolSize > 0 then p\<lparr>activeListCap := poolSize\<rparr> else p);
          n = poolSize;
          n = (if activeListCap p > 0 \<and> activeListCap p < n then activeListCap p else n);
          n = (if n \<le> 0 then minWarmupRounds else n);
          rounds = max (min n maxWarmupRounds) minWarmupRounds
      in p\<lparr>warmupRounds := rounds, warmupSkipCount := rounds * warmupSkipMultiple\<rparr>)"

section \<open>Resurrection timeout\<close>

record resurrect_config =
  resurrectTimeoutInitial :: int
  resurrectTimeoutMax :: int
  resurrectTimeoutFactorCutoff :: int
  minimumResurrectTimeout :: int
  jitterScale :: real
  serverMaxNewConnsPerSec :: real
  clientsPerServer :: real

definition Duration :: "real \<Rightarrow> int" where
  "Duration x = (if 0 \<le> x then \<lfloor>x\<rfloor> else \<lceil>x\<rceil>)"

text \<open>\<open>u\<close> is the number that \<^verbatim>\<open>rand.Float64\<close> returns, in the interval from 0 to 1.\<close>

definition calculateResurrectTimeout :: "resurrect_config \<Rightarrow> real \<Rightarrow> cid \<Rightarrow> world \<Rightarrow> int" where
  "calculateResurrectTimeout g u c w =
     (let factor = min (failures (heap w c) - 1) (resurrectTimeoutFactorCutoff g);
          baseTimeout = Duration (real_of_int (resurrectTimeoutInitial g) / 1000000000 * power_int 2 factor * 1000000000);
          baseTimeout = (if resurrectTimeoutMax g > 0 \<and> baseTimeout > resurrectTimeoutMax g
                         then resurrectTimeoutMax g else baseTimeout);
          totalNodes = length (ready (pool w)) + length (dead (pool w));
          liveNodes = activeCount (pool w);
          healthRatio = real liveNodes / real (max totalNodes 1);
          healthTimeout = Duration (real_of_int baseTimeout * healthRatio);
          rateLimitedTimeout =
            (if liveNodes > 0 \<and> serverMaxNewConnsPerSec g > 0
             then let t = Duration (1000000000 * real liveNodes * clientsPerServer g / serverMaxNewConnsPerSec g)
                  in if resurrectTimeoutMax g > 0 \<and> t > resurrectTimeoutMax g then resurrectTimeoutMax g else t
             else 0);
          finalTimeout = max (max healthTimeout rateLimitedTimeout) (minimumResurrectTimeout g);
          jitter = Duration (u * jitterScale g * real_of_int finalTimeout)
      in finalTimeout + jitter)"

section \<open>Properties\<close>

lemma Duration_mono: "x \<le> y \<Longrightarrow> Duration x \<le> Duration y"
proof (cases "0 \<le> x \<longleftrightarrow> 0 \<le> y")
  case False
  assume "x \<le> y"
  then have xy: "x < 0" "0 \<le> y" using False by linarith+
  have "\<lceil>x\<rceil> \<le> 0" using xy(1) by (intro ceiling_le) simp
  also have "0 \<le> \<lfloor>y\<rfloor>" using xy(2) by simp
  finally show ?thesis using xy by (simp add: Duration_def)
qed (auto simp: Duration_def floor_mono ceiling_mono)

lemma Duration_of_int [simp]: "Duration (real_of_int n) = n"
  by (simp add: Duration_def)

lemma Duration_bounds: "0 \<le> x \<Longrightarrow> 0 \<le> Duration x \<and> real_of_int (Duration x) \<le> x"
  by (simp add: Duration_def)

text \<open>The wait before a resurrection attempt is never shorter than the configured minimum and
  never longer than the larger of the maximum and the minimum, stretched by the jitter. While no
  connection is active the wait is the minimum plus jitter, however many failures there were.\<close>
theorem resurrect_timeout_bounds:
  assumes "activeCount (pool w) \<le> length (ready (pool w))" "0 \<le> u" "u \<le> 1" "0 \<le> jitterScale g"
    and "0 < resurrectTimeoutMax g" "0 \<le> minimumResurrectTimeout g"
  shows "minimumResurrectTimeout g \<le> calculateResurrectTimeout g u c w
    \<and> real_of_int (calculateResurrectTimeout g u c w)
        \<le> (1 + jitterScale g) * real_of_int (max (resurrectTimeoutMax g) (minimumResurrectTimeout g))
    \<and> (activeCount (pool w) = 0 \<longrightarrow> calculateResurrectTimeout g u c w
        = minimumResurrectTimeout g + Duration (u * jitterScale g * real_of_int (minimumResurrectTimeout g)))"
proof -
  let ?M = "resurrectTimeoutMax g" and ?m = "minimumResurrectTimeout g"
  define raw where "raw = Duration (real_of_int (resurrectTimeoutInitial g) / 1000000000
      * power_int 2 (min (failures (heap w c) - 1) (resurrectTimeoutFactorCutoff g)) * 1000000000)"
  define base where "base = (if ?M > 0 \<and> raw > ?M then ?M else raw)"
  define ratio where "ratio = real (activeCount (pool w)) / real (max (length (ready (pool w)) + length (dead (pool w))) 1)"
  define rate1 where "rate1 = Duration (1000000000 * real (activeCount (pool w)) * clientsPerServer g / serverMaxNewConnsPerSec g)"
  define rate where "rate = (if activeCount (pool w) > 0 \<and> serverMaxNewConnsPerSec g > 0
      then if ?M > 0 \<and> rate1 > ?M then ?M else rate1 else 0)"
  define final where "final = max (max (Duration (real_of_int base * ratio)) rate) ?m"
  have t: "calculateResurrectTimeout g u c w = final + Duration (u * jitterScale g * real_of_int final)"
    by (simp only: calculateResurrectTimeout_def Let_def final_def rate_def rate1_def ratio_def base_def raw_def)
  have r: "0 \<le> ratio" "ratio \<le> 1" using assms(1) by (auto simp: ratio_def)
  have "real_of_int base * ratio \<le> real_of_int ?M"
    using r assms(5) mult_mono [of "real_of_int base" "real_of_int ?M" ratio 1] by (simp add: base_def)
  then have "Duration (real_of_int base * ratio) \<le> ?M" using Duration_mono by (metis Duration_of_int)
  moreover have "rate \<le> ?M" using assms(5) by (auto simp: rate_def)
  ultimately have f: "?m \<le> final" "final \<le> max ?M ?m" by (auto simp: final_def)
  have k: "0 \<le> u * jitterScale g" "u * jitterScale g \<le> jitterScale g"
    using assms(2,3,4) by (simp_all add: mult_left_le_one_le)
  have "0 \<le> u * jitterScale g * real_of_int final" "u * jitterScale g * real_of_int final \<le> jitterScale g * real_of_int final"
    using k f(1) assms(6) by (simp, intro mult_right_mono) simp_all
  then have j: "0 \<le> Duration (u * jitterScale g * real_of_int final)"
      "real_of_int (Duration (u * jitterScale g * real_of_int final)) \<le> jitterScale g * real_of_int final"
    using Duration_bounds [of "u * jitterScale g * real_of_int final"] by (blast, linarith)
  have "jitterScale g * real_of_int final \<le> jitterScale g * real_of_int (max ?M ?m)"
    using f(2) assms(4) by (intro mult_left_mono) simp_all
  then have "real_of_int (calculateResurrectTimeout g u c w) \<le> (1 + jitterScale g) * real_of_int (max ?M ?m)"
    using f(2) j(2) unfolding t by (simp add: algebra_simps)
  moreover have "activeCount (pool w) = 0 \<Longrightarrow> final = ?m"
    using assms(6) by (simp add: final_def rate_def ratio_def Duration_def)
  ultimately show ?thesis using t f(1) j(1) by auto
qed

theorem resurrect_timeout_bounds_witness:
  "let g = \<lparr>resurrectTimeoutInitial = 5000000000, resurrectTimeoutMax = 30000000000, resurrectTimeoutFactorCutoff = 5,
            minimumResurrectTimeout = 500000000, jitterScale = 1 / 2, serverMaxNewConnsPerSec = 32, clientsPerServer = 8\<rparr>
   in minimumResurrectTimeout g \<le> calculateResurrectTimeout g 0 4 sample_world
      \<and> real_of_int (calculateResurrectTimeout g 0 4 sample_world) \<le> 45000000000"
  using resurrect_timeout_bounds [OF pool_invD(1) [OF pool_inv_sample], of 0 "\<lparr>resurrectTimeoutInitial = 5000000000,
      resurrectTimeoutMax = 30000000000, resurrectTimeoutFactorCutoff = 5, minimumResurrectTimeout = 500000000,
      jitterScale = 1 / 2, serverMaxNewConnsPerSec = 32, clientsPerServer = 8\<rparr>" 4]
  by (simp add: Let_def)

lemma count_ready_up:
  assumes "\<forall>c \<in> set cs. conn_up (h c)"
  shows "lc_active (fold (\<lambda>c. count_ready (h c)) cs k) + lc_standby (fold (\<lambda>c. count_ready (h c)) cs k)
           = lc_active k + lc_standby k + length cs
         \<and> lc_dead (fold (\<lambda>c. count_ready (h c)) cs k) = lc_dead k"
  using assms
  by (induction cs arbitrary: k)
    (auto simp: count_ready_def count_position_def count_flags_def conn_up_def Let_def)

lemma count_dead_down:
  assumes "\<forall>c \<in> set cs. conn_down (h c)"
  shows "lc_active (fold (\<lambda>c. count_dead (h c)) cs k) = lc_active k
         \<and> lc_standby (fold (\<lambda>c. count_dead (h c)) cs k) = lc_standby k
         \<and> lc_dead (fold (\<lambda>c. count_dead (h c)) cs k) = lc_dead k + length cs"
  using assms
  by (induction cs arbitrary: k)
    (auto simp: count_dead_def count_position_def count_flags_def conn_down_def Let_def)

text \<open>In a pool whose lists agree with the lifecycle bits, the counts of a snapshot agree with the
  lists: active and standby connections make up the ready list, dead ones the dead list.\<close>
theorem snapshot_counts:
  assumes "pool_inv w"
  shows "ActiveCount (snapshot w) + StandbyCount (snapshot w) = length (ready (pool w))
    \<and> DeadCount (snapshot w) = length (dead (pool w))"
proof -
  have "\<forall>c \<in> set (ready (pool w)). conn_up (heap w c)" "\<forall>c \<in> set (dead (pool w)). conn_down (heap w c)"
    using assms by (simp_all add: pool_inv_def Let_def)
  note r = count_ready_up [OF this(1), of no_counts] and d = count_dead_down [OF this(2)]
  show ?thesis using r by (simp add: snapshot_def countByLifecycle_def Let_def d no_counts_def)
qed

theorem snapshot_counts_witness:
  "ActiveCount (snapshot sample_world) + StandbyCount (snapshot sample_world) = 3 \<and> DeadCount (snapshot sample_world) = 1"
  using snapshot_counts [OF pool_inv_sample] by (simp add: sample_world_def)

text \<open>The warmup parameters of a pool of any size: between 4 and 16 rounds, two skips per round, and
  never more rounds than 4 or the number of connections that can be active. An automatic cap follows
  the size; a configured one stays.\<close>
theorem warmup_params_bounds:
  "let p' = recalculateWarmupParams n p in
     4 \<le> warmupRounds p' \<and> warmupRounds p' \<le> 16 \<and> warmupSkipCount p' = 2 * warmupRounds p'
     \<and> (0 < n \<longrightarrow> warmupRounds p' \<le> max 4 n)
     \<and> (0 < activeListCap p' \<longrightarrow> warmupRounds p' \<le> max 4 (activeListCap p'))
     \<and> activeListCap p' = (if activeListCapConfig p = None \<and> 0 < n then n else activeListCap p)
     \<and> getWarmupParams p' = (warmupRounds p', warmupSkipCount p')"
  unfolding Let_def
  apply (intro conjI)
        apply (simp_all add: recalculateWarmupParams_def Let_def getWarmupParams_def minWarmupRounds_def
      maxWarmupRounds_def warmupSkipMultiple_def min_def max_def)
  by linarith

theorem warmup_params_bounds_witness:
  "let p' = recalculateWarmupParams 7 empty_pool in 4 \<le> warmupRounds p' \<and> warmupRounds p' \<le> 7 \<and> activeListCap p' = 7"
  using warmup_params_bounds [of 7 empty_pool] by (simp add: Let_def empty_pool_def)

end
