(* ===== verification/Rendezvous.thy ===== *)
theory Rendezvous
  imports Pool_Inv "HOL-Library.Product_Lexorder" "HOL-Library.List_Lexorder" "HOL-Library.Char_ord"
begin

text \<open>
  Slot selection by rendezvous hashing (\<^verbatim>\<open>rendezvous_hash.go\<close>). A routing key picks \<open>k\<close> connections out
  of a list that is sorted by RTT bucket: connections on nodes that host a shard of the index first,
  nearer ones before farther ones, and inside the bucket that does not fit entirely those of highest
  hash weight. The specification is one sort by a composite key; the code fills slots tier by tier.

  The median buckets are read while the slots are filled; \<open>bk\<close> is what the reads return.
  \<open>srt\<close> is \<^verbatim>\<open>slices.SortFunc\<close>, whose comparison function orders by a key here.
\<close>

section \<open>Definitions\<close>

definition fnv_offset64 :: "64 word" where "fnv_offset64 = 14695981039346656037"
definition fnv_prime64 :: "64 word" where "fnv_prime64 = 1099511628211"

definition fnv_step :: "64 word \<Rightarrow> char \<Rightarrow> 64 word" where
  "fnv_step hsh c = (hsh XOR of_char c) * fnv_prime64"

definition rendezvousWeight :: "string \<Rightarrow> string \<Rightarrow> string \<Rightarrow> 64 word" where
  "rendezvousWeight keyA keyB nodeURL =
     (let hsh = fold (\<lambda>c hsh. fnv_step hsh c) keyA fnv_offset64;
          hsh = (if keyB \<noteq> [] then fold (\<lambda>c hsh. fnv_step hsh c) keyB (fnv_step hsh CHR ''/'') else hsh);
          hsh = (hsh XOR 0) * fnv_prime64
      in fold (\<lambda>c hsh. fnv_step hsh c) nodeURL hsh)"

text \<open>The comparison of \<^verbatim>\<open>rankByHash\<close>: descending weight, then ascending URL.\<close>

definition rank_key :: "(cid \<Rightarrow> connection) \<Rightarrow> string \<Rightarrow> string \<Rightarrow> cid \<Rightarrow> int \<times> string" where
  "rank_key h keyA keyB c = (- uint (rendezvousWeight keyA keyB (URL (h c))), URL (h c))"

type_synonym rank_sort = "(cid \<Rightarrow> int \<times> string) \<Rightarrow> cid list \<Rightarrow> cid list"

definition rankByHash :: "rank_sort \<Rightarrow> (cid \<Rightarrow> connection) \<Rightarrow> string \<Rightarrow> string \<Rightarrow> cid list \<Rightarrow> cid list" where
  "rankByHash srt h keyA keyB conns = srt (rank_key h keyA keyB) conns"

text \<open>
  \<^verbatim>\<open>fillSlotsFromTiers\<close> on the part of the list not yet visited: the slots, how many remain to be
  filled, and the list, in which the tier that does not fit has been sorted in place.
\<close>

function fillSlotsFromTiers :: "(cid list \<Rightarrow> cid list) \<Rightarrow> (cid \<Rightarrow> int) \<Rightarrow> cid list \<Rightarrow> cid list \<Rightarrow> nat \<Rightarrow>
    cid list \<times> nat \<times> cid list" where
  "fillSlotsFromTiers rank bk conns dst remaining =
     (if conns = [] \<or> remaining = 0 then (dst, remaining, conns)
      else let tierConns = takeWhile (\<lambda>c. bk c = bk (hd conns)) conns;
               rest = drop (length tierConns) conns in
      if length tierConns \<le> remaining then
        let (dst, remaining, rest) = fillSlotsFromTiers rank bk rest (dst @ tierConns) (remaining - length tierConns)
        in (dst, remaining, tierConns @ rest)
      else let ranked = rank tierConns in (dst @ take remaining ranked, 0, ranked @ rest))"
  by pat_completeness auto

termination
proof (relation "measure (\<lambda>(rank, bk, conns, dst, remaining). length conns)", simp)
  fix rank :: "cid list \<Rightarrow> cid list" and bk :: "cid \<Rightarrow> int" and conns dst tier rest :: "cid list" and remaining :: nat
  assume "\<not> (conns = [] \<or> remaining = 0)" "tier = takeWhile (\<lambda>c. bk c = bk (hd conns)) conns"
    "rest = drop (length tier) conns"
  then have "0 < length tier" "0 < length conns" by (cases conns; simp)+
  then show "((rank, bk, rest, dst @ tier, remaining - length tier), (rank, bk, conns, dst, remaining))
      \<in> measure (\<lambda>(rank, bk, conns, dst, remaining). length conns)"
    using \<open>rest = drop (length tier) conns\<close> by simp
qed

declare fillSlotsFromTiers.simps [simp del]

definition rotateConns :: "cid list \<Rightarrow> nat \<Rightarrow> cid list" where
  "rotateConns s offset = rev (rev (take offset s) @ rev (drop offset s))"

definition filterNeedsCatUpdate :: "(cid \<Rightarrow> connection) \<Rightarrow> cid list \<Rightarrow> cid list" where
  "filterNeedsCatUpdate h conns =
     (if \<not> list_ex (\<lambda>c. needsCatUpdate (state (h c))) conns then conns
      else filter (\<lambda>c. \<not> needsCatUpdate (state (h c))) conns)"

definition jitter_offset :: "64 word \<Rightarrow> nat \<Rightarrow> nat" where
  "jitter_offset j n =
     (let offset = sint ((j + 1) - 1) smod int n
      in nat (if offset < 0 then offset + int n else offset))"

text \<open>
  \<^verbatim>\<open>rendezvousTopK\<close>: the slots, the jitter counter and the caller's list after the call. The list the
  caller passed is sorted in place when neither the filter nor the partition has made a copy.
\<close>

definition rendezvousTopK :: "rank_sort \<Rightarrow> (cid \<Rightarrow> connection) \<Rightarrow> (cid \<Rightarrow> int) \<Rightarrow> string \<Rightarrow> string \<Rightarrow> cid list \<Rightarrow> int \<Rightarrow>
    64 word option \<Rightarrow> string set \<Rightarrow> cid list \<times> 64 word option \<times> cid list" where
  "rendezvousTopK srt h bk keyA keyB conns k jitter shardNodeNames =
     (if length conns = 0 \<or> k \<le> 0 then ([], jitter, conns)
      else let cs = filterNeedsCatUpdate h conns in
      if length cs = 0 then ([], jitter, conns)
      else let k = (if k > int (length cs) then length cs else nat k);
               rank = rankByHash srt h keyA keyB;
               (shard, nonShard) =
                 (if shardNodeNames \<noteq> {}
                  then (filter (\<lambda>c. Name (h c) \<in> shardNodeNames) cs, filter (\<lambda>c. Name (h c) \<notin> shardNodeNames) cs)
                  else (cs, []));
               (slots, remaining, shard') = fillSlotsFromTiers rank bk shard [] k;
               slots = (if remaining > 0 \<and> length nonShard > 0
                        then fst (fillSlotsFromTiers rank bk nonShard slots remaining) else slots);
               n = length slots;
               conns' = (if shardNodeNames = {} \<and> cs = conns then shard' else conns)
           in case jitter of
                None \<Rightarrow> (slots, None, conns')
              | Some j \<Rightarrow> if n > 1 then (rotateConns slots (jitter_offset j n), Some (j + 1), conns')
                          else (slots, Some j, conns'))"

section \<open>Sorting lemmas\<close>

lemma sort_key_append:
  assumes "\<And>x y. x \<in> set xs \<Longrightarrow> y \<in> set ys \<Longrightarrow> f x < f y"
  shows "sort_key f (xs @ ys) = sort_key f xs @ sort_key f ys"
proof (rule properties_for_sort_key)
  show "filter (\<lambda>x. f k = f x) (sort_key f xs @ sort_key f ys) = filter (\<lambda>x. f k = f x) (xs @ ys)" for k
    using sort_key_stable [of f "f k"] by (simp add: eq_commute [of "f k"])
  show "sorted (map f (sort_key f xs @ sort_key f ys))"
    using assms by (auto simp: sorted_append less_imp_le)
qed simp

lemma filter_filter_class:
  "(\<And>x. f x = a \<Longrightarrow> Q x) \<Longrightarrow> filter (\<lambda>x. f x = a) (filter Q xs) = filter (\<lambda>x. f x = a) xs"
  "(\<And>x. f x = a \<Longrightarrow> \<not> Q x) \<Longrightarrow> filter (\<lambda>x. f x = a) (filter Q xs) = []"
  by (induction xs) auto

lemma sort_key_filter_parts:
  assumes "\<And>x y. P x \<Longrightarrow> \<not> P y \<Longrightarrow> f x < f y"
  shows "sort_key f xs = sort_key f (filter P xs) @ sort_key f (filter (\<lambda>x. \<not> P x) xs)" (is "_ = ?ys")
proof (rule properties_for_sort_key)
  show "mset ?ys = mset xs"
    using multiset_partition [of "mset xs" P] by simp
  show "filter (\<lambda>x. f k = f x) ?ys = filter (\<lambda>x. f k = f x) xs" for k
  proof -
    have "filter (\<lambda>x. f x = f k) ?ys = filter (\<lambda>x. f x = f k) xs"
    proof (cases "P k")
      case True
      then have "f x = f k \<Longrightarrow> P x" for x using assms [of k x] by (metis less_irrefl)
      then show ?thesis using filter_filter_class(1) [of f "f k" P xs] filter_filter_class(2) [of f "f k" "\<lambda>x. \<not> P x" xs]
        by (simp add: sort_key_stable)
    next
      case False
      then have "f x = f k \<Longrightarrow> \<not> P x" for x using assms [of x k] by (metis less_irrefl)
      then show ?thesis using filter_filter_class(2) [of f "f k" P xs] filter_filter_class(1) [of f "f k" "\<lambda>x. \<not> P x" xs]
        by (simp add: sort_key_stable)
    qed
    then show ?thesis by (simp add: eq_commute)
  qed
  have "f x \<le> f y" if "x \<in> set (filter P xs)" "y \<in> set (filter (\<lambda>x. \<not> P x) xs)" for x y
    using assms [of x y] that by simp
  then show "sorted (map f ?ys)" by (simp add: sorted_append)
qed

lemma sort_key_cong_on:
  assumes "\<And>x y. x \<in> set xs \<Longrightarrow> y \<in> set xs \<Longrightarrow> f x \<le> f y \<longleftrightarrow> g x \<le> g y"
  shows "sort_key f xs = sort_key g xs"
proof (rule properties_for_sort_key)
  have e: "f k = f x \<longleftrightarrow> g k = g x" if "k \<in> set xs" "x \<in> set xs" for k x
    using assms that by (metis order_antisym order_refl)
  show "filter (\<lambda>x. f k = f x) (sort_key g xs) = filter (\<lambda>x. f k = f x) xs" if "k \<in> set (sort_key g xs)" for k
  proof -
    have "filter (\<lambda>x. f k = f x) ys = filter (\<lambda>x. g x = g k) ys" if "set ys = set xs" for ys
      using that e \<open>k \<in> set (sort_key g xs)\<close> by (auto intro!: filter_cong)
    from this [of "sort_key g xs"] this [of xs] show ?thesis by (simp add: sort_key_stable)
  qed
  show "sorted (map f (sort_key g xs))"
    using sorted_sort_key [of g xs] assms by (auto simp: sorted_wrt_map intro: sorted_wrt_mono_rel [rotated])
qed simp

section \<open>The tiers\<close>

definition tier_key :: "(cid \<Rightarrow> int) \<Rightarrow> (cid \<Rightarrow> 'k::linorder) \<Rightarrow> cid \<Rightarrow> int \<times> 'k" where
  "tier_key bk rk c = (bk c, rk c)"

lemma tier_split:
  fixes bk :: "cid \<Rightarrow> int"
  assumes "sorted (map bk conns)" "conns \<noteq> []"
  defines "tier \<equiv> takeWhile (\<lambda>c. bk c = bk (hd conns)) conns"
  shows "conns = tier @ drop (length tier) conns" "tier \<noteq> []" "\<And>c. c \<in> set tier \<Longrightarrow> bk c = bk (hd conns)"
    and "\<And>c. c \<in> set (drop (length tier) conns) \<Longrightarrow> bk (hd conns) < bk c"
proof -
  have e: "drop (length tier) conns = dropWhile (\<lambda>c. bk c = bk (hd conns)) conns"
    unfolding tier_def by (simp add: dropWhile_eq_drop)
  have "tier @ dropWhile (\<lambda>c. bk c = bk (hd conns)) conns = conns" unfolding tier_def by simp
  then show "conns = tier @ drop (length tier) conns" using e by simp
  show "tier \<noteq> []" using assms(2) by (cases conns) (auto simp: tier_def)
  show "\<And>c. c \<in> set tier \<Longrightarrow> bk c = bk (hd conns)" unfolding tier_def using set_takeWhileD by fastforce
  fix c assume c: "c \<in> set (drop (length tier) conns)"
  let ?rest = "dropWhile (\<lambda>c. bk c = bk (hd conns)) conns"
  have ne: "?rest \<noteq> []" using c e by (metis empty_iff list.set(1))
  have r: "bk (hd ?rest) \<noteq> bk (hd conns)" using hd_dropWhile [OF ne] by simp
  have s: "sorted (map bk ?rest)" using assms(1) e by (metis drop_map sorted_wrt_drop)
  have "hd ?rest \<in> set conns" using set_dropWhileD [OF hd_in_set [OF ne]] by simp
  then have "bk (hd conns) \<le> bk (hd ?rest)" using assms(1,2) by (cases conns) auto
  moreover have "bk (hd ?rest) \<le> bk c" using s c e ne by (cases ?rest) auto
  ultimately show "bk (hd conns) < bk c" using r by linarith
qed

lemma map_replicate_const_on: "(\<And>x. x \<in> set xs \<Longrightarrow> f x = b) \<Longrightarrow> map f xs = replicate (length xs) b"
  by (induction xs) auto

lemma fillSlots_spec:
  assumes "sorted (map bk conns)" "\<And>xs. mset (rank xs) = mset xs"
    and "\<And>xs. set xs \<subseteq> set conns \<Longrightarrow> rank xs = sort_key rk xs"
  shows "\<exists>xs conns'. fillSlotsFromTiers rank bk conns dst remaining = (dst @ xs, remaining - length xs, conns')
    \<and> mset xs = mset (take remaining (sort_key (tier_key bk rk) conns))
    \<and> mset conns' = mset conns \<and> map bk conns' = map bk conns"
  using assms
proof (induction rank bk conns dst remaining rule: fillSlotsFromTiers.induct)
  case (1 rank bk conns dst remaining)
  show ?case
  proof (cases "conns = [] \<or> remaining = 0")
    case True
    then have "fillSlotsFromTiers rank bk conns dst remaining = (dst, remaining, conns)"
      by (subst fillSlotsFromTiers.simps) simp
    then show ?thesis using True by (auto intro!: exI [of _ "[]"])
  next
    case False
    let ?tier = "takeWhile (\<lambda>c. bk c = bk (hd conns)) conns" and ?K = "tier_key bk rk"
    let ?rest = "drop (length ?tier) conns"
    note t = tier_split [OF "1.prems"(1)]
    have ne: "conns \<noteq> []" using False by simp
    obtain b where tb: "\<And>c. c \<in> set ?tier \<Longrightarrow> bk c = b" using t(3) [OF ne] by blast
    have tc: "?tier @ ?rest = conns" using t(1) [OF ne] by (rule sym)
    have "?K x < ?K y" if "x \<in> set ?tier" "y \<in> set ?rest" for x y
      using t(3) [OF ne that(1)] t(4) [OF ne that(2)] by (simp add: tier_key_def)
    then have s: "sort_key ?K conns = sort_key ?K ?tier @ sort_key ?K ?rest"
      using sort_key_append [of ?tier ?rest ?K] unfolding tc by blast
    have k: "sort_key ?K ?tier = sort_key rk ?tier"
    proof (rule sort_key_cong_on)
      fix x y assume "x \<in> set ?tier" "y \<in> set ?tier"
      then have "bk x = bk y" using tb by metis
      then show "?K x \<le> ?K y \<longleftrightarrow> rk x \<le> rk y" by (simp add: tier_key_def)
    qed
    have r: "rank ?tier = sort_key rk ?tier" by (rule "1.prems"(3)) (auto dest: set_takeWhileD)
    show ?thesis
    proof (cases "length ?tier \<le> remaining")
      case True
      have "sorted (map bk ?rest)" using "1.prems"(1) by (metis drop_map sorted_wrt_drop)
      moreover have "rank xs = sort_key rk xs" if "set xs \<subseteq> set ?rest" for xs
        using "1.prems"(3) that set_drop_subset [of "length ?tier" conns] by (meson subset_trans)
      ultimately have "\<exists>xs conns'. fillSlotsFromTiers rank bk ?rest (dst @ ?tier) (remaining - length ?tier)
            = ((dst @ ?tier) @ xs, remaining - length ?tier - length xs, conns')
          \<and> mset xs = mset (take (remaining - length ?tier) (sort_key ?K ?rest))
          \<and> mset conns' = mset ?rest \<and> map bk conns' = map bk ?rest"
        by (rule "1.IH" [OF False refl refl True _ "1.prems"(2)])
      then obtain xs conns' where ih: "fillSlotsFromTiers rank bk ?rest (dst @ ?tier) (remaining - length ?tier)
            = ((dst @ ?tier) @ xs, remaining - length ?tier - length xs, conns')"
          "mset xs = mset (take (remaining - length ?tier) (sort_key ?K ?rest))"
          "mset conns' = mset ?rest" "map bk conns' = map bk ?rest"
        by blast
      have "fillSlotsFromTiers rank bk conns dst remaining = (dst @ (?tier @ xs), remaining - length (?tier @ xs), ?tier @ conns')"
        using False True ih(1) by (subst fillSlotsFromTiers.simps) (simp add: Let_def)
      moreover have "mset (?tier @ xs) = mset (take remaining (sort_key ?K conns))"
        using True ih(2) by (simp add: s)
      moreover have "mset (?tier @ conns') = mset conns" using ih(3) arg_cong [OF tc, of mset] by simp
      moreover have "map bk (?tier @ conns') = map bk conns" using ih(4) arg_cong [OF tc, of "map bk"] by simp
      ultimately show ?thesis by blast
    next
      case False2: False
      let ?xs = "take remaining (rank ?tier)"
      have l: "length (rank ?tier) = length ?tier" using "1.prems"(2) by (metis size_mset)
      then have "fillSlotsFromTiers rank bk conns dst remaining = (dst @ ?xs, remaining - length ?xs, rank ?tier @ ?rest)"
        using False False2 by (subst fillSlotsFromTiers.simps) (simp add: Let_def)
      moreover have "mset ?xs = mset (take remaining (sort_key ?K conns))"
        using False2 by (simp add: s k r)
      moreover have "mset (rank ?tier @ ?rest) = mset conns" using "1.prems"(2) arg_cong [OF tc, of mset] by simp
      moreover have "map bk (rank ?tier @ ?rest) = map bk conns"
      proof -
        have "set (rank ?tier) = set ?tier" using "1.prems"(2) mset_eq_setD by blast
        then have "map bk (rank ?tier) = replicate (length (rank ?tier)) b"
          by (intro map_replicate_const_on tb) (simp only:)
        moreover have "map bk ?tier = replicate (length ?tier) b" by (intro map_replicate_const_on tb)
        ultimately have m: "map bk (rank ?tier) = map bk ?tier" by (simp only: l)
        have "map bk (rank ?tier @ ?rest) = map bk (?tier @ ?rest)" by (simp only: map_append m)
        then show ?thesis by (simp only: tc)
      qed
      ultimately show ?thesis by blast
    qed
  qed
qed

section \<open>The selection is a sort by one key\<close>

definition spec_key :: "(cid \<Rightarrow> connection) \<Rightarrow> (cid \<Rightarrow> int) \<Rightarrow> string \<Rightarrow> string \<Rightarrow> string set \<Rightarrow> cid \<Rightarrow> bool \<times> int \<times> int \<times> string" where
  "spec_key h bk keyA keyB names c = (names \<noteq> {} \<and> Name (h c) \<notin> names, tier_key bk (rank_key h keyA keyB) c)"

lemma filterNeedsCatUpdate_eq: "filterNeedsCatUpdate h conns = filter (\<lambda>c. \<not> needsCatUpdate (state (h c))) conns"
  by (auto simp: filterNeedsCatUpdate_def list_ex_iff filter_id_conv)

lemma rotateConns_eq: "rotateConns s offset = drop offset s @ take offset s"
  by (simp add: rotateConns_def)

lemma mset_rotateConns: "mset (rotateConns s offset) = mset s"
  by (metis append_take_drop_id mset_append rotateConns_eq union_commute)

lemma rankByHash_sort:
  assumes "sort_func srt" "inj_on (\<lambda>c. URL (h c)) (set conns)" "set xs \<subseteq> set conns"
  shows "rankByHash srt h keyA keyB xs = sort_key (rank_key h keyA keyB) xs"
proof -
  have "inj_on (rank_key h keyA keyB) (set xs)"
    using assms(2,3) by (auto simp: inj_on_def rank_key_def)
  then show ?thesis
    unfolding rankByHash_def
    by (intro sort_key_inj_key_eq [symmetric]) (simp_all add: sort_func.perm [OF assms(1)] sort_func.ascending [OF assms(1)])
qed

lemma two_phase_fill:
  fixes keyA keyB :: string and names :: "string set" and k :: nat
  assumes srt: "sort_func srt" and so: "sorted (map bk cs)" and inj: "inj_on (\<lambda>c. URL (h c)) (set cs)"
    and n: "names \<noteq> {}"
  defines "rank \<equiv> rankByHash srt h keyA keyB" and "P \<equiv> \<lambda>c. Name (h c) \<in> names"
  obtains xs ys rem cs1 where "fillSlotsFromTiers rank bk (filter P cs) [] k = (xs, rem, cs1)"
    and "ys = (if rem > 0 \<and> length (filter (\<lambda>c. \<not> P c) cs) > 0
           then fst (fillSlotsFromTiers rank bk (filter (\<lambda>c. \<not> P c) cs) xs rem) else xs)"
    and "mset ys = mset (take k (sort_key (spec_key h bk keyA keyB names) cs))"
proof -
  let ?K = "tier_key bk (rank_key h keyA keyB)" and ?S = "spec_key h bk keyA keyB names"
  have rank: "mset (rank xs) = mset xs" "set xs \<subseteq> set cs \<Longrightarrow> rank xs = sort_key (rank_key h keyA keyB) xs" for xs
    using rankByHash_sort [OF srt inj] by (simp_all add: rank_def rankByHash_def sort_func.perm [OF srt])
  have fill: "\<exists>zs cs'. fillSlotsFromTiers rank bk (filter Q cs) dst r = (dst @ zs, r - length zs, cs')
      \<and> mset zs = mset (take r (sort_key ?K (filter Q cs)))" for Q dst r
  proof -
    have "rank xs = sort_key (rank_key h keyA keyB) xs" if "set xs \<subseteq> set (filter Q cs)" for xs
      using that by (intro rank(2)) auto
    then show ?thesis
      using fillSlots_spec [OF sorted_filter [OF so] rank(1), of Q "rank_key h keyA keyB" dst r] by blast
  qed
  obtain xs cs1 where x: "fillSlotsFromTiers rank bk (filter P cs) [] k = ([] @ xs, k - length xs, cs1)"
      "mset xs = mset (take k (sort_key ?K (filter P cs)))" using fill [of P "[]" k] by blast
  obtain zs cs2 where z: "fillSlotsFromTiers rank bk (filter (\<lambda>c. \<not> P c) cs) xs (k - length xs) = (xs @ zs, k - length xs - length zs, cs2)"
      "mset zs = mset (take (k - length xs) (sort_key ?K (filter (\<lambda>c. \<not> P c) cs)))"
    using fill [of "\<lambda>c. \<not> P c" xs "k - length xs"] by blast
  define ys where "ys = (if k - length xs > 0 \<and> length (filter (\<lambda>c. \<not> P c) cs) > 0
      then fst (fillSlotsFromTiers rank bk (filter (\<lambda>c. \<not> P c) cs) xs (k - length xs)) else xs)"
  have lx: "length xs = min k (length (filter P cs))" using arg_cong [OF x(2), of size] by (simp add: min.commute)
  have ys: "mset ys = mset xs + mset zs"
  proof (cases "k - length xs > 0 \<and> length (filter (\<lambda>c. \<not> P c) cs) > 0")
    case True
    then have "ys = xs @ zs" unfolding ys_def z(1) by simp
    then show ?thesis by simp
  next
    case False
    then have "mset zs = {#}" using z(2) by auto
    then show ?thesis using False by (simp only: ys_def if_False add_0_right)
  qed
  have "mset ys = mset (take k (sort_key ?S cs))"
  proof -
    have "?S x < ?S y" if "P x" "\<not> P y" for x y using that n by (simp add: spec_key_def P_def)
    then have s: "sort_key ?S cs = sort_key ?S (filter P cs) @ sort_key ?S (filter (\<lambda>c. \<not> P c) cs)"
      by (rule sort_key_filter_parts)
    have c: "sort_key ?S (filter Q cs) = sort_key ?K (filter Q cs)" if "\<And>x y. Q x \<Longrightarrow> Q y \<Longrightarrow> P x = P y" for Q
      using that by (intro sort_key_cong_on) (auto simp: spec_key_def P_def n)
    have "k - length xs = k - length (filter P cs)" using lx by simp
    then show ?thesis unfolding ys s using c [of P] c [of "\<lambda>c. \<not> P c"] x(2) z(2) by simp
  qed
  then show thesis using that [of xs "k - length xs" cs1 ys] x(1) ys_def by simp
qed


lemma one_phase_fill:
  fixes keyA keyB :: string and k :: nat
  assumes srt: "sort_func srt" and so: "sorted (map bk cs)" and inj: "inj_on (\<lambda>c. URL (h c)) (set cs)"
  obtains xs rem cs1 where "fillSlotsFromTiers (rankByHash srt h keyA keyB) bk cs [] k = (xs, rem, cs1)"
    and "mset xs = mset (take k (sort_key (spec_key h bk keyA keyB {}) cs))"
    and "mset cs1 = mset cs" "map bk cs1 = map bk cs"
proof -
  let ?rank = "rankByHash srt h keyA keyB"
  have r: "mset (?rank xs) = mset xs" for xs by (simp add: rankByHash_def sort_func.perm [OF srt])
  have rank: "?rank xs = sort_key (rank_key h keyA keyB) xs" if "set xs \<subseteq> set cs" for xs
    using rankByHash_sort [OF srt inj that] .
  have "sort_key (tier_key bk (rank_key h keyA keyB)) cs = sort_key (spec_key h bk keyA keyB {}) cs"
    by (intro sort_key_cong_on) (simp add: spec_key_def)
  then show thesis
    using that fillSlots_spec [OF so r rank, of "[]" k] by fastforce
qed

text \<open>C2. For a list of connections sorted by RTT bucket, with distinct URLs, the slots are the first
  \<open>k\<close> connections in the order of the composite key: hosts of a shard first, then the nearer bucket,
  then the higher hash weight. Connections with stale shard data are never among them. The caller's
  list keeps its connections and stays sorted by bucket.\<close>
theorem rendezvousTopK_spec:
  assumes "sort_func srt" "sorted (map bk conns)" "inj_on (\<lambda>c. URL (h c)) (set conns)"
  shows "let (slots, j, conns') = rendezvousTopK srt h bk keyA keyB conns k jitter names;
             fresh = filter (\<lambda>c. \<not> needsCatUpdate (state (h c))) conns
         in mset slots = mset (take (nat k) (sort_key (spec_key h bk keyA keyB names) fresh))
            \<and> length slots = min (nat k) (length fresh)
            \<and> mset conns' = mset conns \<and> map bk conns' = map bk conns"
proof -
  let ?cs = "filterNeedsCatUpdate h conns" and ?S = "spec_key h bk keyA keyB names"
  let ?r = "rendezvousTopK srt h bk keyA keyB conns k jitter names" and ?rank = "rankByHash srt h keyA keyB"
  define k' where "k' = (if k > int (length ?cs) then length ?cs else nat k)"
  have so: "sorted (map bk ?cs)" and inj: "inj_on (\<lambda>c. URL (h c)) (set ?cs)"
    using assms(2,3) by (auto simp: filterNeedsCatUpdate_eq sorted_filter inj_on_def)
  have tk: "take k' (sort_key ?S ?cs) = take (nat k) (sort_key ?S ?cs)" by (auto simp: k'_def)
  have "mset (fst ?r) = mset (take (nat k) (sort_key ?S ?cs)) \<and> mset (snd (snd ?r)) = mset conns
      \<and> map bk (snd (snd ?r)) = map bk conns"
  proof (cases "length conns = 0 \<or> k \<le> 0 \<or> length ?cs = 0")
    case True
    then show ?thesis by (auto simp: rendezvousTopK_def filterNeedsCatUpdate_eq)
  next
    case False
    show ?thesis
    proof (cases "names = {}")
      case True
      obtain xs rem cs1 where f: "fillSlotsFromTiers ?rank bk ?cs [] k' = (xs, rem, cs1)"
          "mset xs = mset (take k' (sort_key (spec_key h bk keyA keyB {}) ?cs))" "mset cs1 = mset ?cs" "map bk cs1 = map bk ?cs"
        using one_phase_fill [OF assms(1) so inj, of keyA keyB k'] .
      then show ?thesis using False True tk
        by (auto simp: rendezvousTopK_def Let_def k'_def [symmetric] mset_rotateConns split: option.splits)
    next
      case ne: False
      obtain xs ys rem cs1 where f: "fillSlotsFromTiers ?rank bk (filter (\<lambda>c. Name (h c) \<in> names) ?cs) [] k' = (xs, rem, cs1)"
          "ys = (if rem > 0 \<and> length (filter (\<lambda>c. Name (h c) \<notin> names) ?cs) > 0
             then fst (fillSlotsFromTiers ?rank bk (filter (\<lambda>c. Name (h c) \<notin> names) ?cs) xs rem) else xs)"
          "mset ys = mset (take k' (sort_key ?S ?cs))"
        using two_phase_fill [OF assms(1) so inj ne, of keyA keyB k'] .
      have "fst ?r = (case jitter of None \<Rightarrow> ys | Some j \<Rightarrow> if length ys > 1 then rotateConns ys (jitter_offset j (length ys)) else ys)"
        "snd (snd ?r) = conns"
        using False ne unfolding rendezvousTopK_def f(2)
        by (simp_all add: Let_def k'_def [symmetric] f(1) split: option.splits)
      then show ?thesis using f(3) tk by (auto simp: mset_rotateConns split: option.splits)
    qed
  qed
  moreover from this have "length (fst ?r) = min (nat k) (length ?cs)"
    by (metis length_sort length_take min.commute size_mset)
  ultimately show ?thesis by (simp add: case_prod_unfold Let_def filterNeedsCatUpdate_eq)
qed


definition sample_nodes :: "cid \<Rightarrow> connection" where
  "sample_nodes c = (if c = 1 then blank_connection\<lparr>URL := ''a'', Name := ''a''\<rparr>
     else if c = 2 then blank_connection\<lparr>URL := ''b'', Name := ''b''\<rparr>
     else blank_connection\<lparr>URL := ''c'', Name := ''c''\<rparr>)"

theorem rendezvousTopK_spec_witness:
  "let (slots, j, conns') = rendezvousTopK sort_key sample_nodes (\<lambda>_. 8) ''logs'' [] [1, 2, 3] 2 None {''b''} in length slots = 2"
proof -
  have "inj_on (\<lambda>c. URL (sample_nodes c)) (set [1, 2, 3])" by (simp add: inj_on_def sample_nodes_def)
  moreover have "filter (\<lambda>c. \<not> needsCatUpdate (state (sample_nodes c))) [1, 2, 3] = [1, 2, 3]" by code_simp
  ultimately show ?thesis
    using rendezvousTopK_spec [OF stable_sort.sort_func_axioms, of "\<lambda>_. 8" "[1, 2, 3]" sample_nodes "''logs''" "[]" 2 None "{''b''}"]
    by (simp add: case_prod_unfold Let_def)
qed

section \<open>Stability\<close>

lemma take_filter_absent:
  assumes "x \<notin> set (take k ys)"
  shows "take k (filter (\<lambda>y. y \<noteq> x) ys) = take k ys"
proof -
  have "filter (\<lambda>y. y \<noteq> x) (take k ys) = take k ys" using assms by (simp add: filter_id_conv) metis
  then have "filter (\<lambda>y. y \<noteq> x) ys = take k ys @ filter (\<lambda>y. y \<noteq> x) (drop k ys)"
    by (metis append_take_drop_id filter_append)
  then show ?thesis by (cases "k \<le> length ys") simp_all
qed

lemma set_take_filter:
  "set (take k ys) - {x} \<subseteq> set (take k (filter (\<lambda>y. y \<noteq> x) ys))"
proof -
  let ?A = "filter (\<lambda>y. y \<noteq> x) (take k ys)" and ?B = "filter (\<lambda>y. y \<noteq> x) (drop k ys)"
  have e: "filter (\<lambda>y. y \<noteq> x) ys = ?A @ ?B" by (simp flip: filter_append)
  have "length ?A \<le> k" by (rule order_trans [OF length_filter_le]) simp
  then show ?thesis unfolding e by auto
qed

text \<open>Losing a connection disturbs no other: when \<open>x\<close> leaves the list, every other connection that
  had a slot keeps it, and when \<open>x\<close> had no slot the slots are the same connections as before.\<close>
theorem rendezvous_stable:
  assumes "sort_func srt" "sorted (map bk conns)" "inj_on (\<lambda>c. URL (h c)) (set conns)"
  shows "let before = fst (rendezvousTopK srt h bk keyA keyB conns k jitter names);
             after = fst (rendezvousTopK srt h bk keyA keyB (filter (\<lambda>c. c \<noteq> x) conns) k jitter names)
         in set before - {x} \<subseteq> set after \<and> (x \<notin> set before \<longrightarrow> mset after = mset before)"
proof -
  let ?f = "\<lambda>cs. filter (\<lambda>c. \<not> needsCatUpdate (state (h c))) cs" and ?S = "spec_key h bk keyA keyB names"
  let ?slots = "\<lambda>cs. fst (rendezvousTopK srt h bk keyA keyB cs k jitter names)" and ?cs = "filter (\<lambda>c. c \<noteq> x) conns"
  have s: "mset (?slots conns) = mset (take (nat k) (sort_key ?S (?f conns)))"
    using rendezvousTopK_spec [OF assms, of keyA keyB k jitter names] by (simp add: case_prod_unfold Let_def)
  have "mset (?slots ?cs) = mset (take (nat k) (sort_key ?S (?f ?cs)))"
    using rendezvousTopK_spec [OF assms(1) sorted_filter [OF assms(2)] inj_on_subset [OF assms(3)], of "\<lambda>c. c \<noteq> x" keyA keyB k jitter names]
    by (simp add: case_prod_unfold Let_def)
  moreover have "sort_key ?S (?f ?cs) = filter (\<lambda>c. c \<noteq> x) (sort_key ?S (?f conns))"
    by (simp add: filter_sort conj_commute)
  ultimately have a: "mset (?slots ?cs) = mset (take (nat k) (filter (\<lambda>c. c \<noteq> x) (sort_key ?S (?f conns))))" by simp
  show ?thesis unfolding Let_def
    using set_take_filter [of "nat k" "sort_key ?S (?f conns)" x] take_filter_absent [of x "nat k" "sort_key ?S (?f conns)"]
      mset_eq_setD [OF s] mset_eq_setD [OF a] s a by metis
qed

text \<open>The hash weight is FNV-1a of the routing key, a zero byte and the URL, where the two parts of a
  key are joined by a slash.\<close>
theorem rendezvousWeight_fnv1a:
  "rendezvousWeight keyA keyB url = foldl fnv_step fnv_offset64
     ((if keyB = [] then keyA else keyA @ CHR ''/'' # keyB) @ CHR 0x00 # url)"
proof -
  have "fold (\<lambda>c hsh. fnv_step hsh c) xs hsh = foldl fnv_step hsh xs" for xs hsh
    by (simp add: foldl_conv_fold)
  then show ?thesis by (simp add: rendezvousWeight_def Let_def fnv_step_def)
qed

text \<open>
  A ranking sorts the list it is given. When no shard placement is known and no connection is flagged,
  that is the list of the caller, which all requests of a router read without a lock.
\<close>
theorem rendezvous_sorts_callers_list:
  "let (slots, j, conns') = rendezvousTopK sort_key sample_nodes (\<lambda>_. 8) ''i'' [] [1, 2, 3] 1 None {}
   in conns' = [3, 2, 1]"
  by code_simp

theorem rendezvous_stable_witness:
  "let before = fst (rendezvousTopK sort_key sample_nodes (\<lambda>_. 8) ''i'' [] [1, 2, 3] 2 None {});
       after = fst (rendezvousTopK sort_key sample_nodes (\<lambda>_. 8) ''i'' [] [1, 2] 2 None {})
   in set before - {3} \<subseteq> set after"
proof -
  have "inj_on (\<lambda>c. URL (sample_nodes c)) (set [1, 2, 3])" by (simp add: inj_on_def sample_nodes_def)
  then show ?thesis
    using rendezvous_stable [OF stable_sort.sort_func_axioms, of "\<lambda>_. 8" "[1, 2, 3]" sample_nodes "''i''" "[]" 2 None "{}" 3]
    by (simp add: Let_def)
qed

text \<open>Successive requests start at successive slots: in the rotated result of the request that sees
  the jitter counter at \<open>j\<close>, the first slot is number \<open>j\<close> modulo the number of slots, also when the
  64-bit counter has gone negative.\<close>
theorem jitter_rotation:
  assumes "s \<noteq> []"
  shows "hd (rotateConns s (jitter_offset j (length s))) = s ! nat (sint j mod int (length s))
    \<and> jitter_offset j (length s) < length s"
proof -
  let ?n = "int (length s)"
  have n: "0 < ?n" using assms by simp
  have m: "jitter_offset j (length s) = nat (sint j mod ?n)"
  proof -
    have "sint j smod ?n = sint j mod ?n - ?n * of_bool (sgn (sint j) \<noteq> sgn ?n \<and> \<not> ?n dvd sint j)"
      by (rule signed_modulo_int_eq_modulo_int)
    moreover have "0 \<le> sint j mod ?n" "sint j mod ?n < ?n" using n by simp_all
    ultimately show ?thesis by (auto simp: jitter_offset_def Let_def)
  qed
  then have l: "jitter_offset j (length s) < length s" using n by (simp add: nat_less_iff)
  then show ?thesis by (simp add: rotateConns_eq hd_append hd_drop_conv_nth m)
qed

theorem jitter_rotation_witness:
  "hd (rotateConns [4, 5, 6] (jitter_offset (- 1) (length [4, 5, 6::cid]))) = 6"
  using jitter_rotation [of "[4, 5, 6]" "- 1"] by simp

end
