(* ===== verification/Shard_Hash.thy ===== *)
theory Shard_Hash
  imports Rtt
begin

text \<open>
  The shard hash, \<^verbatim>\<open>src/opensearchutil/shardhash\<close> and its wrappers in
  \<^verbatim>\<open>src/opensearchtransport/murmur3.go\<close>. A Go string is its list of bytes; ranging over it decodes
  UTF-8 as the language defines. The lemmas show that the UTF-16 encoding never leaves its
  buffer, that the byte-indexed loops compute the reference MurmurHash3 written over unsigned
  words and rotations, and that the shard number is a shard of the index.
\<close>

section \<open>Definitions\<close>

type_synonym go_string = "8 word list"

subsection \<open>MurmurHash3\<close>

definition c1 :: int32 where "c1 = word_of_int (-862048943)"
definition c2 :: int32 where "c2 = 0x1b873593"

definition byte32 :: "8 word \<Rightarrow> int32" where
  "byte32 b = ucast b"

definition fmix32 :: "int32 \<Rightarrow> int32" where
  "fmix32 h0 =
     (let h = h0 XOR drop_bit 16 h0;
          h = h * word_of_int (-2048144789);
          h = h XOR drop_bit 13 h;
          h = h * word_of_int (-1028477387)
      in h XOR drop_bit 16 h)"

definition mix_k1 :: "int32 \<Rightarrow> int32" where
  "mix_k1 k0 =
     (let k1 = k0 * c1;
          k1 = push_bit 15 k1 OR drop_bit 17 k1
      in k1 * c2)"

definition murmur_block :: "go_string \<Rightarrow> nat \<Rightarrow> int32 \<Rightarrow> int32" where
  "murmur_block data i h0 =
     (let offset = i * 4;
          k1 = byte32 (data ! offset) OR push_bit 8 (byte32 (data ! (offset + 1)))
               OR push_bit 16 (byte32 (data ! (offset + 2))) OR push_bit 24 (byte32 (data ! (offset + 3)));
          h1 = h0 XOR mix_k1 k1;
          h1 = push_bit 13 h1 OR drop_bit 19 h1
      in h1 * 5 + word_of_int (-430675100))"

definition murmur_tail :: "go_string \<Rightarrow> nat \<Rightarrow> int32 \<Rightarrow> int32" where
  "murmur_tail data tail h1 =
     (let r = length data mod 4;
          k1 = (if r = 3 then push_bit 16 (byte32 (data ! (tail + 2))) else 0);
          k1 = (if r \<ge> 2 then k1 XOR push_bit 8 (byte32 (data ! (tail + 1))) else k1)
      in if r \<ge> 1 then h1 XOR mix_k1 (k1 XOR byte32 (data ! tail)) else h1)"

definition murmurhash3X86_32 :: "go_string \<Rightarrow> int32 \<Rightarrow> int32" where
  "murmurhash3X86_32 data seed =
     (let nblocks = length data div 4;
          h1 = fold (murmur_block data) [0..<nblocks] seed;
          h1 = murmur_tail data (nblocks * 4) h1;
          h1 = h1 XOR word_of_nat (length data)
      in fmix32 h1)"

subsection \<open>Runes of a string\<close>

text \<open>
  \<^verbatim>\<open>for _, r := range s\<close> decodes UTF-8. \<open>decode_rune\<close> returns the rune at the head of a
  non-empty string and its width; an invalid sequence is one byte wide and gives \<open>0xFFFD\<close>.
\<close>

definition cont :: "nat \<Rightarrow> nat \<Rightarrow> nat \<Rightarrow> bool" where
  "cont lo hi b \<longleftrightarrow> lo \<le> b \<and> b \<le> hi"

definition second_range :: "nat \<Rightarrow> nat \<times> nat" where
  "second_range b0 = (if b0 = 0xE0 then (0xA0, 0xBF) else if b0 = 0xED then (0x80, 0x9F)
     else if b0 = 0xF0 then (0x90, 0xBF) else if b0 = 0xF4 then (0x80, 0x8F) else (0x80, 0xBF))"

definition runeError :: nat where "runeError = 0xFFFD"

fun decode_rune :: "nat list \<Rightarrow> nat \<times> nat" where
  "decode_rune [] = (runeError, 0)"
| "decode_rune (b0 # bs) =
     (let (lo, hi) = second_range b0 in
      if b0 < 0x80 then (b0, 1)
      else if b0 < 0xC2 \<or> 0xF4 < b0 then (runeError, 1)
      else case bs of
        [] \<Rightarrow> (runeError, 1)
      | b1 # bs1 \<Rightarrow>
          if \<not> cont lo hi b1 then (runeError, 1)
          else if b0 < 0xE0 then ((b0 mod 32) * 64 + b1 mod 64, 2)
          else case bs1 of
            [] \<Rightarrow> (runeError, 1)
          | b2 # bs2 \<Rightarrow>
              if \<not> cont 0x80 0xBF b2 then (runeError, 1)
              else if b0 < 0xF0 then ((b0 mod 16) * 4096 + (b1 mod 64) * 64 + b2 mod 64, 3)
              else case bs2 of
                [] \<Rightarrow> (runeError, 1)
              | b3 # bs3 \<Rightarrow>
                  if \<not> cont 0x80 0xBF b3 then (runeError, 1)
                  else ((b0 mod 8) * 262144 + (b1 mod 64) * 4096 + (b2 mod 64) * 64 + b3 mod 64, 4))"

lemma decode_rune_width:
  "b # bs = s \<Longrightarrow> 1 \<le> snd (decode_rune s) \<and> snd (decode_rune s) \<le> length s"
  by (cases s rule: decode_rune.cases) (auto simp: Let_def split: list.splits prod.splits)

function range_runes :: "nat list \<Rightarrow> nat list" where
  "range_runes s =
     (if s = [] then []
      else let (r, w) = decode_rune s in r # range_runes (drop w s))"
  by pat_completeness auto
termination
proof (relation "measure length")
  fix s :: "nat list" and x r w
  assume "s \<noteq> []" "x = decode_rune s" "(r, w) = x"
  then show "(drop w s, s) \<in> measure length"
    using decode_rune_width [of "hd s" "tl s" s] by (cases s) (auto dest: sym)
qed simp

declare range_runes.simps [simp del]

subsection \<open>Hash and ForRouting\<close>

definition write_bytes :: "go_string \<Rightarrow> nat \<Rightarrow> go_string \<Rightarrow> go_panic + go_string" where
  "write_bytes buf j bs =
     (if j + length bs \<le> length buf then Inr (take j buf @ bs @ drop (j + length bs) buf)
      else Inl indexOutOfRange)"

definition le16 :: "nat \<Rightarrow> go_string" where
  "le16 u = [word_of_nat u, word_of_nat (u div 256)]"

definition utf16_bytes :: "nat \<Rightarrow> go_string" where
  "utf16_bytes r0 =
     (if r0 \<le> 0xFFFF then le16 r0
      else let r = r0 - 0x10000;
               hi = 0xD800 + (r div 1024) mod 1024;
               lo = 0xDC00 + r mod 1024
           in le16 hi @ le16 lo)"

fun encode_utf16 :: "nat list \<Rightarrow> go_string \<Rightarrow> nat \<Rightarrow> go_panic + (go_string \<times> nat)" where
  "encode_utf16 [] buf j = Inr (buf, j)"
| "encode_utf16 (r # rs) buf j =
     (let bs = utf16_bytes r in
      case write_bytes buf j bs of
        Inl e \<Rightarrow> Inl e
      | Inr buf' \<Rightarrow> encode_utf16 rs buf' (j + length bs))"

definition Hash :: "go_string \<Rightarrow> go_panic + int32" where
  "Hash routing =
     (let n = length routing * 2;
          buf = replicate n 0
      in case encode_utf16 (range_runes (map unat routing)) buf 0 of
           Inl e \<Rightarrow> Inl e
         | Inr (buf', j) \<Rightarrow> Inr (murmurhash3X86_32 (take j buf') 0))"

definition floorMod :: "int32 \<Rightarrow> int \<Rightarrow> go_panic + int" where
  "floorMod a b =
     (if b = 0 then Inl integerDivideByZero
      else let m = sint a smod b in Inr (if m < 0 then m + b else m))"

definition ForRouting :: "go_string \<Rightarrow> int \<Rightarrow> int \<Rightarrow> go_panic + int" where
  "ForRouting routing routingNumShards numPrimaryShards =
     (case Hash routing of Inl e \<Rightarrow> Inl e | Inr hash \<Rightarrow>
      if numPrimaryShards = 0 then Inl integerDivideByZero
      else let routingFactor = routingNumShards sdiv numPrimaryShards in
      case floorMod hash routingNumShards of Inl e \<Rightarrow> Inl e | Inr m \<Rightarrow>
      if routingFactor = 0 then Inl integerDivideByZero else Inr (m sdiv routingFactor))"

definition opensearchShardHash :: "go_string \<Rightarrow> go_panic + int32" where
  "opensearchShardHash routing = Hash routing"

definition shardForRouting :: "go_string \<Rightarrow> int \<Rightarrow> int \<Rightarrow> go_panic + int" where
  "shardForRouting routing routingNumShards numPrimaryShards = ForRouting routing routingNumShards numPrimaryShards"

section \<open>The encoding stays in the buffer\<close>

text \<open>The UTF-16 bytes of a rune are at most twice its UTF-8 bytes.\<close>

lemma length_utf16_bytes: "length (utf16_bytes r) = (if r \<le> 0xFFFF then 2 else 4)"
  by (simp add: utf16_bytes_def le16_def Let_def)

lemma decode_rune_utf16:
  "s \<noteq> [] \<Longrightarrow> length (utf16_bytes (fst (decode_rune s))) \<le> 2 * snd (decode_rune s)"
proof (cases s)
  case (Cons b0 bs)
  have l: "x < 16 \<Longrightarrow> y < 64 \<Longrightarrow> z < 64 \<Longrightarrow> x * 4096 + y * 64 + z \<le> 65535"
    "x < 32 \<Longrightarrow> y < 64 \<Longrightarrow> x * 64 + y \<le> 65535" for x y z :: nat by linarith+
  have m: "b0 mod 16 * 4096 + c mod 64 * 64 + d mod 64 \<le> 65535" "b0 mod 32 * 64 + c mod 64 \<le> 65535" for c d
    by (rule l; simp)+
  show ?thesis unfolding Cons decode_rune.simps length_utf16_bytes
    by (simp add: Let_def runeError_def m split: list.split prod.split)
qed simp

lemma length_encoding:
  "length (concat (map utf16_bytes (range_runes s))) \<le> 2 * length s"
proof (induction s rule: range_runes.induct)
  case (1 s)
  show ?case
  proof (cases "s = []")
    case False
    obtain r w where d: "decode_rune s = (r, w)" by fastforce
    have "1 \<le> w" "w \<le> length s" using decode_rune_width [of "hd s" "tl s" s] d False by auto
    moreover have "length (utf16_bytes r) \<le> 2 * w" using decode_rune_utf16 [OF False] d by simp
    moreover have "length (concat (map utf16_bytes (range_runes (drop w s)))) \<le> 2 * length (drop w s)"
      using 1 False d by simp
    ultimately show ?thesis using False d by (simp add: range_runes.simps [of s])
  qed (simp add: range_runes.simps)
qed

lemma encode_utf16_fits:
  assumes "j + length (concat (map utf16_bytes rs)) \<le> length buf"
  shows "\<exists>buf'. encode_utf16 rs buf j = Inr (buf', j + length (concat (map utf16_bytes rs)))
     \<and> length buf' = length buf
     \<and> take (j + length (concat (map utf16_bytes rs))) buf' = take j buf @ concat (map utf16_bytes rs)"
  using assms
proof (induction rs arbitrary: buf j)
  case (Cons r rs)
  let ?b = "utf16_bytes r" and ?c = "concat (map utf16_bytes rs)"
  let ?buf = "take j buf @ ?b @ drop (j + length ?b) buf"
  have w: "write_bytes buf j ?b = Inr ?buf" using Cons.prems by (simp add: write_bytes_def)
  have t: "take (j + length ?b) ?buf = take j buf @ ?b" using Cons.prems by simp
  have "\<exists>buf'. encode_utf16 rs ?buf (j + length ?b) = Inr (buf', j + length ?b + length ?c)
     \<and> length buf' = length ?buf \<and> take (j + length ?b + length ?c) buf' = take (j + length ?b) ?buf @ ?c"
    using Cons.prems by (intro Cons.IH) simp
  then show ?case using Cons.prems by (auto simp: w t Let_def add.assoc)
qed simp

lemma Hash_eq:
  "Hash s = Inr (murmurhash3X86_32 (concat (map utf16_bytes (range_runes (map unat s)))) 0)"
proof -
  have "length (concat (map utf16_bytes (range_runes (map unat s)))) \<le> length s * 2"
    using length_encoding [of "map unat s"] by simp
  then show ?thesis
    using encode_utf16_fits [of 0 "range_runes (map unat s)" "replicate (length s * 2) 0"]
    by (auto simp: Hash_def Let_def)
qed

section \<open>Text\<close>

text \<open>UTF-8 of a Unicode scalar value, as the standard defines it.\<close>

definition scalar :: "nat \<Rightarrow> bool" where
  "scalar c \<longleftrightarrow> c < 0xD800 \<or> (0xDFFF < c \<and> c \<le> 0x10FFFF)"

definition utf8 :: "nat \<Rightarrow> nat list" where
  "utf8 c =
     (if c < 0x80 then [c]
      else if c < 0x800 then [0xC0 + c div 64, 0x80 + c mod 64]
      else if c < 0x10000 then [0xE0 + c div 4096, 0x80 + c div 64 mod 64, 0x80 + c mod 64]
      else [0xF0 + c div 262144, 0x80 + c div 4096 mod 64, 0x80 + c div 64 mod 64, 0x80 + c mod 64])"

lemma low6: "(0x80 + x mod 64) mod 64 = x mod 64" "cont 0x80 0xBF (0x80 + x mod 64)" for x :: nat
  by (simp_all add: cont_def mod_add_eq [symmetric, of "0x80"])

lemma digits64:
  "c div 4096 * 4096 + c div 64 mod 64 * 64 + c mod 64 = c"
  "c div 262144 * 262144 + c div 4096 mod 64 * 4096 + c div 64 mod 64 * 64 + c mod 64 = c" for c :: nat
proof -
  have "c = c div 64 * 64 + c mod 64" "c div 64 = c div 64 div 64 * 64 + c div 64 mod 64"
    "c div 4096 = c div 4096 div 64 * 64 + c div 4096 mod 64" by simp_all
  moreover have "c div 64 div 64 = c div 4096" "c div 4096 div 64 = c div 262144"
    by (simp_all add: div_mult2_eq [symmetric])
  ultimately show "c div 4096 * 4096 + c div 64 mod 64 * 64 + c mod 64 = c"
    "c div 262144 * 262144 + c div 4096 mod 64 * 4096 + c div 64 mod 64 * 64 + c mod 64 = c" by linarith+
qed

lemma lead_mod:
  "q < 32 \<Longrightarrow> (0xC0 + q) mod 32 = q" "q < 16 \<Longrightarrow> (0xE0 + q) mod 16 = q"
  "q < 8 \<Longrightarrow> (0xF0 + q) mod 8 = q" for q :: nat
  using mod_mult_self3 [of 6 32 q] mod_mult_self3 [of 14 16 q] mod_mult_self3 [of 30 8 q] by simp_all

lemma second_range_ok:
  fixes q m :: nat
  assumes "m < 64"
  shows "q < 16 \<Longrightarrow> (q = 0 \<longrightarrow> 32 \<le> m) \<Longrightarrow> (q = 13 \<longrightarrow> m < 32) \<Longrightarrow>
      \<exists>lo hi. second_range (0xE0 + q) = (lo, hi) \<and> cont lo hi (0x80 + m)"
    and "q < 5 \<Longrightarrow> (q = 0 \<longrightarrow> 16 \<le> m) \<Longrightarrow> (q = 4 \<longrightarrow> m < 16) \<Longrightarrow>
      \<exists>lo hi. second_range (0xF0 + q) = (lo, hi) \<and> cont lo hi (0x80 + m)"
  using assms by (auto simp: second_range_def cont_def)

lemma decode_utf8_3:
  assumes "0x800 \<le> c" "c < 0x10000" "scalar c"
  shows "decode_rune (utf8 c @ rest) = (c, length (utf8 c))"
proof -
  let ?q = "c div 4096" and ?m = "c div 64 mod 64"
  have q: "?q < 16" using assms by (simp add: less_mult_imp_div_less)
  have b: "?m < 64" "c mod 64 < 64" by simp_all
  have h1: "?q = 0 \<longrightarrow> 32 \<le> ?m" using assms(1) digits64(1) [of c] b by linarith
  have h2: "?q = 13 \<longrightarrow> ?m < 32"
    using assms(3) digits64(1) [of c] b unfolding scalar_def by linarith
  obtain lo hi where "second_range (0xE0 + ?q) = (lo, hi)" "cont lo hi (0x80 + ?m)"
    using second_range_ok(1) [OF b(1) q h1 h2] by blast
  then show ?thesis using assms q digits64(1) [of c] low6(2) [of c]
    by (simp add: utf8_def low6 lead_mod)
qed

lemma decode_utf8_4:
  assumes "0x10000 \<le> c" "scalar c"
  shows "decode_rune (utf8 c @ rest) = (c, length (utf8 c))"
proof -
  let ?q = "c div 262144" and ?m = "c div 4096 mod 64"
  have q: "?q < 5" using assms by (simp add: scalar_def less_mult_imp_div_less)
  have b: "?m < 64" "c div 64 mod 64 < 64" "c mod 64 < 64" by simp_all
  have h1: "?q = 0 \<longrightarrow> 16 \<le> ?m" using assms(1) digits64(2) [of c] b by linarith
  have h2: "?q = 4 \<longrightarrow> ?m < 16"
    using assms digits64(2) [of c] b unfolding scalar_def by linarith
  obtain lo hi where "second_range (0xF0 + ?q) = (lo, hi)" "cont lo hi (0x80 + ?m)"
    using second_range_ok(2) [OF b(1) q h1 h2] by blast
  then show ?thesis using assms q digits64(2) [of c] low6(2) [of c] low6(2) [of "c div 64"]
    by (simp add: utf8_def low6 lead_mod)
qed

lemma decode_utf8:
  assumes "scalar c"
  shows "decode_rune (utf8 c @ rest) = (c, length (utf8 c))"
proof -
  consider "c < 0x80" | "0x80 \<le> c" "c < 0x800" | "0x800 \<le> c" "c < 0x10000" | "0x10000 \<le> c" by linarith
  then show ?thesis
  proof cases
    case 1
    then show ?thesis by (simp add: utf8_def split: prod.splits)
  next
    case 2
    let ?q = "c div 64"
    have "2 \<le> ?q" "?q < 32" using 2 by (simp_all add: less_mult_imp_div_less less_eq_div_iff_mult_less_eq)
    moreover from this have "second_range (0xC0 + ?q) = (0x80, 0xBF)"
      by (simp add: second_range_def)
    ultimately show ?thesis using 2 low6(2) [of c] by (simp add: utf8_def low6 lead_mod)
  qed (use assms decode_utf8_3 decode_utf8_4 in blast)+
qed

lemma range_runes_utf8:
  "(\<And>c. c \<in> set cs \<Longrightarrow> scalar c) \<Longrightarrow> range_runes (concat (map utf8 cs)) = cs"
proof (induction cs)
  case Nil
  then show ?case by (simp add: range_runes.simps)
next
  case (Cons c cs)
  have "utf8 c \<noteq> []" by (simp add: utf8_def)
  then show ?case using Cons by (simp add: range_runes.simps [of "utf8 c @ _"] decode_utf8)
qed

lemma utf8_bytes: "scalar c \<Longrightarrow> b \<in> set (utf8 c) \<Longrightarrow> b < 256"
proof -
  have "x mod 64 < 64" for x :: nat by simp
  then have "0x80 + x mod 64 < 256" for x :: nat by (simp add: add_strict_left_mono less_trans)
  then show "scalar c \<Longrightarrow> b \<in> set (utf8 c) \<Longrightarrow> b < 256"
    by (auto simp: utf8_def scalar_def less_mult_imp_div_less split: if_splits)
qed

text \<open>
  The reference encoder, written from the Unicode standard and sharing nothing with the code: the
  code units of a scalar value (a surrogate pair above \<open>0xFFFF\<close>), each as its low and then its
  high byte. \<open>utf16le_decode\<close> is the strict decoder, which rejects lone and swapped surrogates.
\<close>

definition utf16_units :: "nat \<Rightarrow> nat list" where
  "utf16_units c = (if c < 0x10000 then [c] else [0xD7C0 + c div 0x400, 0xDC00 + c mod 0x400])"

definition little_endian :: "nat \<Rightarrow> nat list" where
  "little_endian u = [u mod 256, u div 256]"

definition utf16le :: "nat list \<Rightarrow> nat list" where
  "utf16le text = concat (map (\<lambda>c. concat (map little_endian (utf16_units c))) text)"

fun utf16le_decode :: "nat list \<Rightarrow> nat list option" where
  "utf16le_decode [] = Some []"
| "utf16le_decode (l # h # bs) =
     (let u = l + 256 * h in
      if u < 0xD800 \<or> 0xDFFF < u then map_option (Cons u) (utf16le_decode bs)
      else case bs of
        l' # h' # bs' \<Rightarrow>
          let v = l' + 256 * h' in
          if u < 0xDC00 \<and> 0xDC00 \<le> v \<and> v \<le> 0xDFFF
          then map_option (Cons (0x10000 + (u - 0xD800) * 0x400 + (v - 0xDC00))) (utf16le_decode bs')
          else None
      | _ \<Rightarrow> None)"
| "utf16le_decode [b] = None"

lemma utf16le_decode_unit:
  assumes "scalar c"
  shows "utf16le_decode (concat (map little_endian (utf16_units c)) @ bs) = map_option (Cons c) (utf16le_decode bs)"
proof (cases "c < 0x10000")
  case True
  have e: "c mod 256 + 256 * (c div 256) = c" by simp
  have "c < 0xD800 \<or> 0xDFFF < c" using assms by (auto simp: scalar_def)
  then have "utf16le_decode (c mod 256 # c div 256 # bs) = map_option (Cons c) (utf16le_decode bs)"
    unfolding utf16le_decode.simps(2) Let_def e by (simp only: if_True)
  with True show ?thesis
    by (simp add: utf16_units_def little_endian_def del: utf16le_decode.simps)
next
  case False
  let ?u = "0xD7C0 + c div 0x400" and ?v = "0xDC00 + c mod 0x400"
  have c: "c = c div 0x400 * 0x400 + c mod 0x400" by simp
  have b: "64 \<le> c div 0x400" "c div 0x400 < 0x440" "c mod 0x400 < 0x400"
    using False assms c by (simp_all add: scalar_def less_mult_imp_div_less less_eq_div_iff_mult_less_eq)
  have e: "?u mod 256 + 256 * (?u div 256) = ?u" "?v mod 256 + 256 * (?v div 256) = ?v" by simp_all
  have r: "0x10000 + (?u - 0xD800) * 0x400 + (?v - 0xDC00) = c" using b c by linarith
  have g: "\<not> (?u < 0xD800 \<or> 0xDFFF < ?u)" "?u < 0xDC00 \<and> 0xDC00 \<le> ?v \<and> ?v \<le> 0xDFFF" using b by linarith+
  have "utf16le_decode (?u mod 256 # ?u div 256 # ?v mod 256 # ?v div 256 # bs) = map_option (Cons c) (utf16le_decode bs)"
    unfolding utf16le_decode.simps(2) Let_def e list.case using g r by (simp only: if_False if_True simp_thms)
  with False show ?thesis
    by (simp add: utf16_units_def little_endian_def del: utf16le_decode.simps)
qed

lemma utf16le_roundtrip:
  "(\<And>c. c \<in> set cs \<Longrightarrow> scalar c) \<Longrightarrow> utf16le_decode (utf16le cs) = Some cs"
  by (induction cs) (simp_all add: utf16le_def utf16le_decode_unit)

lemma word_of_nat_mod256: "(word_of_nat (u mod 256) :: 8 word) = word_of_nat u"
  by (simp add: word_of_nat_eq_iff take_bit_nat_def)

lemma utf16_bytes_ref:
  assumes "scalar c"
  shows "utf16_bytes c = map word_of_nat (concat (map little_endian (utf16_units c)))"
proof (cases "c < 0x10000")
  case True
  then show ?thesis by (simp add: utf16_bytes_def le16_def utf16_units_def little_endian_def word_of_nat_mod256)
next
  case False
  have c: "c = c div 0x400 * 0x400 + c mod 0x400" by simp
  have d: "(c - 0x10000) div 0x400 = c div 0x400 - 64" 
    using False div_mult_self4 [of "0x400" "64" "c - 0x10000"] by simp
  have m: "(c - 0x10000) mod 0x400 = c mod 0x400" 
    using False mod_mult_self4 [of "0x400" "64" "c - 0x10000"] by simp
  have b: "64 \<le> c div 0x400" "c div 0x400 < 0x440" using False assms 
    by (simp_all add: scalar_def less_mult_imp_div_less less_eq_div_iff_mult_less_eq)
  then have h: "0xD800 + (c div 0x400 - 64) mod 0x400 = 0xD7C0 + c div 0x400" by simp
  have f: "\<not> c \<le> 0xFFFF" using False by simp
  show ?thesis
    unfolding utf16_bytes_def le16_def utf16_units_def little_endian_def Let_def d m h
    by (simp only: word_of_nat_mod256 list.map concat.simps append.simps f False if_False)
qed

lemma utf16_text_ref:
  "(\<And>c. c \<in> set cs \<Longrightarrow> scalar c) \<Longrightarrow> concat (map utf16_bytes cs) = map word_of_nat (utf16le cs)"
  by (induction cs) (simp_all add: utf16le_def utf16_bytes_ref del: map_concat map_map)

section \<open>The reference MurmurHash3\<close>

definition rotl :: "nat \<Rightarrow> int32 \<Rightarrow> int32" where "rotl n w = word_rotl n w"

definition ref_mix :: "int32 \<Rightarrow> int32" where
  "ref_mix k = rotl 15 (k * 0xcc9e2d51) * 0x1b873593"

definition ref_round :: "int32 \<Rightarrow> int32 \<Rightarrow> int32" where
  "ref_round h k = rotl 13 (h XOR ref_mix k) * 5 + 0xe6546b64"

fun le32 :: "go_string \<Rightarrow> int32" where
  "le32 [] = 0"
| "le32 (b # bs) = ucast b + 256 * le32 bs"

declare le32.simps [simp del]

fun ref_blocks :: "go_string \<Rightarrow> int32 \<Rightarrow> int32" where
  "ref_blocks (a # b # c # d # bs) h = ref_blocks bs (ref_round h (le32 [a, b, c, d]))"
| "ref_blocks [] h = h"
| "ref_blocks bs h = h XOR ref_mix (le32 bs)"

definition ref_fmix :: "int32 \<Rightarrow> int32" where
  "ref_fmix h0 = (let h = (h0 XOR drop_bit 16 h0) * 0x85ebca6b;
                      h = (h XOR drop_bit 13 h) * 0xc2b2ae35
                  in h XOR drop_bit 16 h)"

definition murmur3_ref :: "go_string \<Rightarrow> int32 \<Rightarrow> int32" where
  "murmur3_ref bs seed = ref_fmix (ref_blocks bs seed XOR word_of_nat (length bs))"

lemma consts32:
  "c1 = 0xcc9e2d51" "(word_of_int (-430675100) :: 32 word) = 0xe6546b64"
  "(word_of_int (-2048144789) :: 32 word) = 0x85ebca6b" "(word_of_int (-1028477387) :: 32 word) = 0xc2b2ae35"
  by (simp_all add: c1_def)

lemma rot_eq:
  "push_bit 15 k OR drop_bit 17 k = rotl 15 k" "push_bit 13 k OR drop_bit 19 k = rotl 13 k"
proof -
  have m: "n < 32 \<Longrightarrow> m < 32 \<Longrightarrow> (n + (32 - m)) mod 32 = (if n < m then n + (32 - m) else n - m)" for n m :: nat
    by (simp add: mod_if)
  show "push_bit 15 k OR drop_bit 17 k = rotl 15 k" "push_bit 13 k OR drop_bit 19 k = rotl 13 k"
    unfolding rotl_def using m [where m = 15] m [where m = 13]
    by (intro bit_word_eqI; auto simp: bit_simps add.commute dest: bit_imp_le_length)+
qed


lemma mix_k1_ref: "mix_k1 k = ref_mix k"
  by (simp add: mix_k1_def ref_mix_def rot_eq consts32 c2_def)

lemma le32_Cons: "le32 (b # bs) = byte32 b OR push_bit 8 (le32 bs)"
proof -
  have "256 * le32 bs = push_bit 8 (le32 bs)" by (simp add: push_bit_eq_mult)
  moreover have "byte32 b AND push_bit 8 (le32 bs) = 0"
    unfolding byte32_def by (rule bit_word_eqI) (auto simp: bit_simps dest: bit_imp_le_length)
  ultimately show ?thesis by (simp add: le32.simps byte32_def disjunctive_add_eq_or)
qed

lemma le32_bytes:
  "le32 [a] = byte32 a"
  "le32 [a, b] = byte32 a OR push_bit 8 (byte32 b)"
  "le32 [a, b, c] = byte32 a OR push_bit 8 (byte32 b) OR push_bit 16 (byte32 c)"
  "le32 [a, b, c, d] = byte32 a OR push_bit 8 (byte32 b) OR push_bit 16 (byte32 c) OR push_bit 24 (byte32 d)"
  by (simp_all add: le32_Cons push_bit_or le32.simps(1))

lemma xor_bytes:
  "push_bit 8 (byte32 b) XOR byte32 a = le32 [a, b]"
  "(push_bit 16 (byte32 c) XOR push_bit 8 (byte32 b)) XOR byte32 a = le32 [a, b, c]"
  unfolding byte32_def le32_bytes by (rule bit_word_eqI; auto simp: bit_simps dest: bit_imp_le_length)+

lemma murmur_block_ref:
  "length pre = 4 * i \<Longrightarrow> murmur_block (pre @ a # b # c # d # bs) i h = ref_round h (le32 [a, b, c, d])"
  by (simp add: murmur_block_def ref_round_def mix_k1_ref rot_eq consts32 le32_bytes nth_append
      mult.commute Let_def)

lemma murmur_tail_ref:
  assumes "length pre = 4 * i" "length bs < 4"
  shows "murmur_tail (pre @ bs) (i * 4) h = ref_blocks bs h"
proof -
  have l: "length (pre @ bs) mod 4 = length bs" using assms by simp
  consider "bs = []" | a where "bs = [a]" | a b where "bs = [a, b]" | a b c where "bs = [a, b, c]"
    using assms(2) by (cases bs; cases "tl bs"; cases "tl (tl bs)"; cases "tl (tl (tl bs))") auto
  then show ?thesis
  proof cases
    case 1
    then show ?thesis using l by (simp add: murmur_tail_def)
  next
    case 2
    then show ?thesis using l assms
      by (simp add: murmur_tail_def mix_k1_ref nth_append mult.commute le32_bytes)
  next
    case 3
    then show ?thesis using l assms
      by (simp add: murmur_tail_def mix_k1_ref nth_append mult.commute xor_bytes)
  next
    case 4
    then show ?thesis using l assms
      by (simp add: murmur_tail_def mix_k1_ref nth_append mult.commute xor_bytes)
  qed
qed

lemma murmur_loop_ref:
  assumes "length pre = 4 * i"
  shows "murmur_tail (pre @ bs) ((i + length bs div 4) * 4)
           (fold (murmur_block (pre @ bs)) [i..<i + length bs div 4] h) = ref_blocks bs h"
  using assms
proof (induction bs h arbitrary: pre i rule: ref_blocks.induct)
  case (1 a b c d bs h)
  have "length (a # b # c # d # bs) div 4 = Suc (length bs div 4)" by simp
  then have "[i..<i + length (a # b # c # d # bs) div 4] = i # [Suc i..<Suc i + length bs div 4]"
    by (simp only: add_Suc_right add_Suc upt_conv_Cons less_Suc_eq_le le_add1)
  moreover have "pre @ a # b # c # d # bs = (pre @ [a, b, c, d]) @ bs" by simp
  moreover have "i + length (a # b # c # d # bs) div 4 = Suc i + length bs div 4" by simp
  ultimately show ?case using "1.IH" [of "pre @ [a, b, c, d]" "Suc i"] "1.prems"
    by (simp add: murmur_block_ref)
qed (use murmur_tail_ref [where bs = "[]"] in \<open>simp_all add: murmur_tail_ref\<close>)

lemma fmix32_ref: "fmix32 h = ref_fmix h"
  unfolding fmix32_def ref_fmix_def consts32 Let_def ..

lemma murmur_ref: "murmurhash3X86_32 bs seed = murmur3_ref bs seed"
  using murmur_loop_ref [of "[]" 0 bs seed]
  by (simp add: murmurhash3X86_32_def murmur3_ref_def fmix32_ref Let_def)


lemma floorMod_eq: "0 < b \<Longrightarrow> floorMod a b = Inr (sint a mod b)"
proof -
  assume b: "0 < b"
  consider "sint a = 0" | "0 < sint a" | "sint a < 0" by linarith
  then have "(if sint a smod b < 0 then sint a smod b + b else sint a smod b) = sint a mod b"
  proof cases
    case 3
    have "sint a smod b = - ((- sint a) mod b)" using 3 b by (simp add: smod_int_alt_def)
    then show ?thesis using b
      by (cases "sint a mod b = 0") (auto simp: zmod_zminus1_eq_if)
  qed (use b in \<open>simp_all add: smod_int_alt_def not_less\<close>)
  then show ?thesis using b by (simp add: floorMod_def Let_def)
qed

definition fmix32_inv :: "int32 \<Rightarrow> int32" where
  "fmix32_inv h0 =
     (let h = (h0 XOR drop_bit 16 h0) * 0x7ed1b41d;
          h = (h XOR drop_bit 13 h XOR drop_bit 26 h) * 0xa5cb9243
      in h XOR drop_bit 16 h)"


lemma xorshift_inv:
  "(h XOR drop_bit 16 h) XOR drop_bit 16 (h XOR drop_bit 16 h) = h"
  "(h XOR drop_bit 13 h) XOR drop_bit 13 (h XOR drop_bit 13 h) XOR drop_bit 26 (h XOR drop_bit 13 h) = h"
  for h :: "32 word"
  by (rule bit_word_eqI, auto simp: bit_simps dest: bit_imp_le_length)+

lemma odd_mult_inv: "h * 0xc2b2ae35 * 0x7ed1b41d = h" "h * 0x85ebca6b * 0xa5cb9243 = h" for h :: "32 word"
proof -
  have "(0xc2b2ae35 * 0x7ed1b41d :: 32 word) = 1" "(0x85ebca6b * 0xa5cb9243 :: 32 word) = 1" by code_simp+
  then show "h * 0xc2b2ae35 * 0x7ed1b41d = h" "h * 0x85ebca6b * 0xa5cb9243 = h"
    by (simp_all only: mult.assoc mult_1_right)
qed

lemma fmix32_inv_fmix32: "fmix32_inv (fmix32 h) = h"
  unfolding fmix32_ref ref_fmix_def fmix32_inv_def Let_def xorshift_inv odd_mult_inv ..

section \<open>Properties\<close>

text \<open>C3. \<^verbatim>\<open>Hash\<close> never panics: the UTF-16 encoding of any string, valid or not, fits the buffer of
  twice its length. On the UTF-8 bytes of a text of Unicode scalar values it is the reference
  MurmurHash3 (x86, 32 bit, seed 0) of the little-endian UTF-16 of the same text, as an encoder
  written independently of the code defines it: the low byte of a code unit before the high one,
  the high surrogate before the low one; the strict decoder reads the text back from it.\<close>
theorem Hash_correct:
  assumes "\<forall>c \<in> set text. scalar c"
  shows "(\<exists>h. Hash s = Inr h)
    \<and> Hash (map word_of_nat (concat (map utf8 text))) = Inr (murmur3_ref (map word_of_nat (utf16le text)) 0)
    \<and> utf16le_decode (utf16le text) = Some text"
proof -
  have "map unat (map word_of_nat (concat (map utf8 text)) :: 8 word list) = concat (map utf8 text)"
    unfolding map_map using assms utf8_bytes
    by (intro map_idI) (auto simp: unsigned_of_nat take_bit_nat_eq_self)
  then show ?thesis using assms
    by (simp add: Hash_eq murmur_ref range_runes_utf8 utf16_text_ref utf16le_roundtrip del: map_map)
qed

theorem Hash_correct_witness:
  "Hash (map word_of_nat [0x64, 0xF0, 0x9F, 0x98, 0x80])
     = Inr (murmur3_ref [0x64, 0, 0x3D, 0xD8, 0x00, 0xDE] 0)"
proof -
  have "concat (map utf8 [0x64, 0x1F600]) = [0x64, 0xF0, 0x9F, 0x98, 0x80]" by (simp add: utf8_def)
  moreover have "utf16le [0x64, 0x1F600] = [0x64, 0, 0x3D, 0xD8, 0x00, 0xDE]"
    by (simp add: utf16le_def utf16_units_def little_endian_def)
  ultimately show ?thesis using Hash_correct [of "[0x64, 0x1F600]"] by (simp add: scalar_def)
qed
text \<open>The finalizer of the hash loses nothing: \<^verbatim>\<open>fmix32\<close> is a bijection of the 32-bit words.\<close>
theorem fmix32_bij: "bij fmix32"
proof (rule bijI)
  show "inj fmix32" by (rule inj_on_inverseI [of _ fmix32_inv]) (simp add: fmix32_inv_fmix32)
  then show "surj fmix32" by (rule finite_UNIV_inj_surj [OF finite])
qed

lemma zdiv_less_bound: "0 < f \<Longrightarrow> m < n * f \<Longrightarrow> m div f < n" for m n f :: int
  using div_mult_mod_eq [of m f] pos_mod_sign [of f m] mult_less_cancel_right_pos [of f "m div f" n] by linarith

text \<open>\<^verbatim>\<open>ForRouting\<close> is OpenSearch's scaled shard id: for a positive shard count that divides the
  number of routing shards it returns, without a panic, the floor modulus of the hash divided by
  the routing factor, which is a shard of the index.\<close>
theorem ForRouting_shard:
  assumes "0 < numPrimaryShards" "0 < routingNumShards" "numPrimaryShards dvd routingNumShards"
  shows "\<exists>h. Hash routing = Inr h
    \<and> ForRouting routing routingNumShards numPrimaryShards
        = Inr ((sint h mod routingNumShards) div (routingNumShards div numPrimaryShards))
    \<and> 0 \<le> (sint h mod routingNumShards) div (routingNumShards div numPrimaryShards)
    \<and> (sint h mod routingNumShards) div (routingNumShards div numPrimaryShards) < numPrimaryShards"
proof -
  obtain f where f: "routingNumShards = numPrimaryShards * f" using assms(3) by auto
  then have "0 < f" using assms by (simp add: zero_less_mult_iff)
  obtain h where h: "Hash routing = Inr h" using Hash_eq by blast
  let ?m = "sint h mod routingNumShards"
  have m: "0 \<le> ?m" "?m < numPrimaryShards * f" using assms f by simp_all
  have "routingNumShards sdiv numPrimaryShards = f" "routingNumShards div numPrimaryShards = f"
    using assms f \<open>0 < f\<close> by (simp_all add: signed_divide_int_def)
  moreover have "?m sdiv f = ?m div f"
    using m \<open>0 < f\<close> by (cases "?m = 0") (simp_all add: signed_divide_int_def)
  moreover have "?m div f < numPrimaryShards"
    using m \<open>0 < f\<close> by (intro zdiv_less_bound) (simp_all add: mult.commute)
  moreover have "0 \<le> ?m div f" using m \<open>0 < f\<close> by (simp add: pos_imp_zdiv_nonneg_iff)
  ultimately show ?thesis using h assms \<open>0 < f\<close> by (simp add: ForRouting_def floorMod_eq)
qed

theorem ForRouting_shard_witness:
  "\<exists>h. Hash [0x68, 0x65, 0x6c, 0x6c, 0x6f] = Inr h
    \<and> ForRouting [0x68, 0x65, 0x6c, 0x6c, 0x6f] 640 5 = Inr ((sint h mod 640) div (640 div 5))
    \<and> (sint h mod 640) div (640 div 5) < 5"
  using ForRouting_shard [of 5 640 "[0x68, 0x65, 0x6c, 0x6c, 0x6f]"] by auto

text \<open>The hash agrees with the published vectors of OpenSearch's \<^verbatim>\<open>Murmur3HashFunction\<close> for
  \<^verbatim>\<open>hell\<close> and \<^verbatim>\<open>hello\<close>, and places \<^verbatim>\<open>hello\<close> on shard 4 of a five-shard index with 640 routing
  shards.\<close>
theorem Hash_vectors:
  "Hash [0x68, 0x65, 0x6c, 0x6c] = Inr 0x5a0cb7c3
   \<and> Hash [0x68, 0x65, 0x6c, 0x6c, 0x6f] = Inr 0xd7c31989
   \<and> Hash [] = Inr 0
   \<and> ForRouting [0x68, 0x65, 0x6c, 0x6c, 0x6f] 640 5 = Inr 4"
proof -
  have hell: "murmurhash3X86_32 [0x68, 0, 0x65, 0, 0x6c, 0, 0x6c, 0] 0 = 0x5a0cb7c3" by code_simp
  have hello: "murmurhash3X86_32 [0x68, 0, 0x65, 0, 0x6c, 0, 0x6c, 0, 0x6f, 0] 0 = 0xd7c31989" by code_simp
  have "Hash [0x68, 0x65, 0x6c, 0x6c] = Inr 0x5a0cb7c3" unfolding hell [symmetric]
    by (simp add: Hash_eq range_runes.simps utf16_bytes_def le16_def)
  moreover have h: "Hash [0x68, 0x65, 0x6c, 0x6c, 0x6f] = Inr 0xd7c31989" unfolding hello [symmetric]
    by (simp add: Hash_eq range_runes.simps utf16_bytes_def le16_def)
  moreover have "Hash [] = Inr 0"
    by (simp add: Hash_eq range_runes.simps murmurhash3X86_32_def murmur_tail_def fmix32_def)
  moreover have "ForRouting [0x68, 0x65, 0x6c, 0x6c, 0x6f] 640 5 = Inr 4"
    by (simp add: ForRouting_def h floorMod_eq signed_divide_int_def)
  ultimately show ?thesis by blast
qed

end
