(* ===== verification/Policy_State.thy ===== *)
theory Policy_State
  imports Atomic_Cell
begin

unbundle bit_operations_syntax

text \<open>
  The state word of a routing policy (\<^verbatim>\<open>policy_override_env.go\<close>): two bits for what discovery found,
  two for what the operator set through the environment. Discovery and the environment write it with
  compare-and-swap loops that must not disturb each other's bits.
\<close>

section \<open>Definitions\<close>

definition psEnabled :: int32 where "psEnabled = push_bit 0 1"
definition psDisabled :: int32 where "psDisabled = push_bit 1 1"
definition psEnvEnabled :: int32 where "psEnvEnabled = push_bit 2 1"
definition psEnvDisabled :: int32 where "psEnvDisabled = push_bit 3 1"
definition psDynamicMask :: int32 where "psDynamicMask = psEnabled OR psDisabled"
definition psEnvMask :: int32 where "psEnvMask = psEnvEnabled OR psEnvDisabled"

definition psIsEnabled :: "int32 \<Rightarrow> bool" where
  "psIsEnabled s \<longleftrightarrow> (if s AND psEnvDisabled \<noteq> 0 then False else s AND psEnabled \<noteq> 0)"

definition psSetEnabled_body :: "bool \<Rightarrow> int32 \<Rightarrow> unit \<times> int32 option" where
  "psSetEnabled_body enabled old =
     (let nxt = old AND NOT psDynamicMask;
          nxt = (if enabled then nxt OR psEnabled else nxt OR psDisabled)
      in ((), Some nxt))"

definition psSetEnabled :: "bool \<Rightarrow> int32 interference \<Rightarrow> int32 \<Rightarrow> int32" where
  "psSetEnabled enabled env s = snd (cas_retry (psSetEnabled_body enabled) env s)"

definition psSetEnvOverride_body :: "bool \<Rightarrow> int32 \<Rightarrow> unit \<times> int32 option" where
  "psSetEnvOverride_body enabled old =
     (let nxt = old AND NOT psEnvMask;
          nxt = (if enabled then nxt OR psEnvEnabled else nxt OR psEnvDisabled)
      in ((), Some nxt))"

definition psSetEnvOverride :: "bool \<Rightarrow> int32 interference \<Rightarrow> int32 \<Rightarrow> int32" where
  "psSetEnvOverride enabled env s = snd (cas_retry (psSetEnvOverride_body enabled) env s)"

section \<open>The bits of the word\<close>

lemmas ps_defs = psEnabled_def psDisabled_def psEnvEnabled_def psEnvDisabled_def psDynamicMask_def psEnvMask_def

lemma bit_single32: "k < 32 \<Longrightarrow> bit (push_bit k 1 :: int32) n \<longleftrightarrow> n = k"
  by (auto simp: bit_simps)

lemma bit_ps [simp]:
  "bit psEnabled n \<longleftrightarrow> n = 0" "bit psDisabled n \<longleftrightarrow> n = 1" "bit psEnvEnabled n \<longleftrightarrow> n = 2"
  "bit psEnvDisabled n \<longleftrightarrow> n = 3" "bit psDynamicMask n \<longleftrightarrow> n = 0 \<or> n = 1" "bit psEnvMask n \<longleftrightarrow> n = 2 \<or> n = 3"
  unfolding ps_defs bit_or_iff using bit_single32 [of 0 n] bit_single32 [of 1 n] bit_single32 [of 2 n] bit_single32 [of 3 n]
  by simp_all

lemma and_flag:
  fixes s f :: int32
  assumes "\<And>k. bit f k \<longleftrightarrow> k = n"
  shows "s AND f \<noteq> 0 \<longleftrightarrow> bit s n"
proof -
  have "bit (s AND f) k \<longleftrightarrow> k = n \<and> bit s n" for k using assms by (auto simp: bit_and_iff)
  then show ?thesis by (metis bit_0_eq bot_apply bot_bool_def bit_eq_iff)
qed

lemma psIsEnabled_bits: "psIsEnabled s \<longleftrightarrow> bit s 0 \<and> \<not> bit s 3"
  using and_flag [OF bit_ps(1), of s] and_flag [OF bit_ps(4), of s] by (simp add: psIsEnabled_def)

text \<open>A word never says both enabled and disabled, neither at run time nor from the environment.\<close>

definition ps_exclusive :: "int32 \<Rightarrow> bool" where
  "ps_exclusive s \<longleftrightarrow> \<not> (bit s 0 \<and> bit s 1) \<and> \<not> (bit s 2 \<and> bit s 3)"

lemma bit_len: "bit s n \<Longrightarrow> n < 32" for s :: int32
  using bit_imp_le_length [of s n] by simp

lemma bit_psSetEnabled_body:
  "psSetEnabled_body e old = (u, Some t) \<Longrightarrow>
     bit t n = (if n = 0 then e else if n = 1 then \<not> e else bit old n)"
  by (auto simp: psSetEnabled_body_def Let_def bit_or_iff bit_and_iff bit_not_iff dest: bit_len split: if_splits)

lemma bit_psSetEnvOverride_body:
  "psSetEnvOverride_body e old = (u, Some t) \<Longrightarrow>
     bit t n = (if n = 2 then e else if n = 3 then \<not> e else bit old n)"
  by (auto simp: psSetEnvOverride_body_def Let_def bit_or_iff bit_and_iff bit_not_iff dest: bit_len split: if_splits)

interpretation enabled_loop: cas_loop "psSetEnabled_body e" ps_exclusive
  by unfold_locales (auto simp: ps_exclusive_def bit_psSetEnabled_body)

interpretation override_loop: cas_loop "psSetEnvOverride_body e" ps_exclusive
  by unfold_locales (auto simp: ps_exclusive_def bit_psSetEnvOverride_body)

lemma bit_psSetEnabled:
  "\<exists>k. \<forall>n. bit (psSetEnabled e env s) n = (if n = 0 then e else if n = 1 then \<not> e else bit (env_prefix env s k) n)"
proof -
  obtain k where "cas_retry (psSetEnabled_body e) env s = cas_retry (psSetEnabled_body e) [] (env_prefix env s k)"
    using cas_retry_linearizable [of "psSetEnabled_body e" env s] by blast
  then show ?thesis
    using bit_psSetEnabled_body [of e "env_prefix env s k"]
    by (auto simp: psSetEnabled_def cas_retry_alone psSetEnabled_body_def Let_def intro!: exI [of _ k])
qed

lemma bit_psSetEnvOverride:
  "\<exists>k. \<forall>n. bit (psSetEnvOverride e env s) n = (if n = 2 then e else if n = 3 then \<not> e else bit (env_prefix env s k) n)"
proof -
  obtain k where "cas_retry (psSetEnvOverride_body e) env s = cas_retry (psSetEnvOverride_body e) [] (env_prefix env s k)"
    using cas_retry_linearizable [of "psSetEnvOverride_body e" env s] by blast
  then show ?thesis
    using bit_psSetEnvOverride_body [of e "env_prefix env s k"]
    by (auto simp: psSetEnvOverride_def cas_retry_alone psSetEnvOverride_body_def Let_def intro!: exI [of _ k])
qed

lemma env_prefix_Nil: "env_prefix [] m k = m"
  by (simp add: env_prefix_def)

lemma bit_psSetEnabled_alone:
  "bit (psSetEnabled e [] s) n = (if n = 0 then e else if n = 1 then \<not> e else bit s n)"
  using bit_psSetEnabled [of e "[]" s] unfolding env_prefix_Nil by blast

text \<open>Updates by discovery, in the form the environment of a loop takes.\<close>

definition discovery_updates :: "bool list \<Rightarrow> int32 interference" where
  "discovery_updates es = map (\<lambda>e. psSetEnabled e []) es"

definition override_updates :: "bool list \<Rightarrow> int32 interference" where
  "override_updates es = map (\<lambda>e. psSetEnvOverride e []) es"

text \<open>An operator's override and discovery do not disturb each other, whatever the interleaving of
  their loops. After an override that raced with the updates \<open>es\<close>, and any later updates of discovery,
  the policy is enabled exactly when the override says on and discovery last said enabled. An update of
  discovery that races with overrides stores its own bit and one of the overrides, and no word ever
  claims both a state and its opposite.\<close>
theorem override_independent:
  assumes "ps_exclusive s"
  shows "let m = psSetEnvOverride on (discovery_updates es) s;
             later = fold (\<lambda>e. psSetEnabled e []) (es' @ [e]) m;
             raced = psSetEnabled e (override_updates es) s
         in psIsEnabled later = (on \<and> e) \<and> ps_exclusive later \<and> ps_exclusive raced
            \<and> (\<exists>k. psIsEnabled raced = (e \<and> \<not> bit (env_prefix (override_updates es) s k) 3))"
proof -
  let ?m = "psSetEnvOverride on (discovery_updates es) s"
  have keeps: "env_keeps ps_exclusive (discovery_updates bs)" "env_keeps ps_exclusive (override_updates bs)" for bs
    using enabled_loop.run_alone_inv override_loop.run_alone_inv
    by (auto simp: env_keeps_def discovery_updates_def override_updates_def psSetEnabled_def psSetEnvOverride_def)
  have m: "ps_exclusive ?m" "bit ?m 3 \<longleftrightarrow> \<not> on"
    using override_loop.run_inv [OF assms keeps(1)] bit_psSetEnvOverride [of on "discovery_updates es" s]
    by (auto simp: psSetEnvOverride_def)
  have f: "ps_exclusive (fold (\<lambda>e. psSetEnabled e []) bs x) \<and> bit (fold (\<lambda>e. psSetEnabled e []) bs x) 3 = bit x 3"
    if "ps_exclusive x" for bs x
    using that
  proof (induction bs arbitrary: x)
    case (Cons b bs)
    have "ps_exclusive (psSetEnabled b [] x)" by (simp add: psSetEnabled_def enabled_loop.run_alone_inv [OF Cons.prems])
    moreover have "bit (psSetEnabled b [] x) 3 = bit x 3" by (simp add: bit_psSetEnabled_alone)
    ultimately show ?case using Cons.IH by simp
  qed simp
  let ?l = "fold (\<lambda>e. psSetEnabled e []) (es' @ [e]) ?m"
  have "bit ?l 0 = e" by (simp add: bit_psSetEnabled_alone)
  then have l: "psIsEnabled ?l = (on \<and> e)" "ps_exclusive ?l"
    using f [OF m(1), of "es' @ [e]"] m(2) by (auto simp: psIsEnabled_bits)
  have r: "ps_exclusive (psSetEnabled e (override_updates es) s)"
    using enabled_loop.run_inv [OF assms keeps(2)] by (simp add: psSetEnabled_def)
  obtain k where "\<forall>n. bit (psSetEnabled e (override_updates es) s) n
      = (if n = 0 then e else if n = 1 then \<not> e else bit (env_prefix (override_updates es) s k) n)"
    using bit_psSetEnabled by blast
  then have "psIsEnabled (psSetEnabled e (override_updates es) s) = (e \<and> \<not> bit (env_prefix (override_updates es) s k) 3)"
    by (simp add: psIsEnabled_bits)
  then show ?thesis using l r by (auto simp: Let_def)
qed

theorem override_independent_witness:
  "\<not> psIsEnabled (fold (\<lambda>e. psSetEnabled e []) ([] @ [True]) (psSetEnvOverride False (discovery_updates [True]) 0))"
  using override_independent [of 0 False "[True]" "[]" True] by (simp add: ps_exclusive_def Let_def)

end
