(* ===== verification/Go_Strings.thy ===== *)
theory Go_Strings
  imports Prelude
begin

text \<open>
  What several components use of Go's \<^verbatim>\<open>strings\<close> and \<^verbatim>\<open>strconv\<close>: joining and splitting by a separator byte,
  decimal numbers, prefixes and the spellings of a boolean. A string is a list of bytes.
\<close>

section \<open>Definitions\<close>

fun strings_Join :: "char \<Rightarrow> string list \<Rightarrow> string" where
  "strings_Join sep [] = []"
| "strings_Join sep [s] = s"
| "strings_Join sep (s # ss) = s @ sep # strings_Join sep ss"

fun strings_Split :: "char \<Rightarrow> string \<Rightarrow> string list" where
  "strings_Split sep [] = [[]]"
| "strings_Split sep (c # cs) =
     (if c = sep then [] # strings_Split sep cs
      else case strings_Split sep cs of [] \<Rightarrow> [[c]] | w # ws \<Rightarrow> (c # w) # ws)"

fun decimal :: "nat \<Rightarrow> string" where
  "decimal n = (if n < 10 then [char_of (48 + n)] else decimal (n div 10) @ [char_of (48 + n mod 10)])"

declare decimal.simps [simp del]

text \<open>
  \<^verbatim>\<open>strconv.Atoi\<close>: an optional sign and decimal digits, within the range of a 64-bit integer, and
  \<^verbatim>\<open>strconv.ParseBool\<close>. A parse error is \<open>None\<close>.
\<close>

fun digits_value :: "int \<Rightarrow> string \<Rightarrow> int option" where
  "digits_value acc [] = Some acc"
| "digits_value acc (c # cs) =
     (if 48 \<le> (of_char c :: int) \<and> of_char c \<le> (57 :: int) then digits_value (10 * acc + (of_char c - 48)) cs else None)"

definition strconv_Atoi :: "string \<Rightarrow> int option" where
  "strconv_Atoi s =
     (let (neg, ds) = (case s of
            c # cs \<Rightarrow> if c = CHR ''-'' then (True, cs) else if c = CHR ''+'' then (False, cs) else (False, s)
          | [] \<Rightarrow> (False, s))
      in if ds = [] then None
         else case digits_value 0 ds of
                None \<Rightarrow> None
              | Some n \<Rightarrow>
                  let v = (if neg then - n else n)
                  in if - (2 ^ 63) \<le> v \<and> v < 2 ^ 63 then Some v else None)"

definition strconv_ParseBool :: "string \<Rightarrow> bool option" where
  "strconv_ParseBool s =
     (if s \<in> set [''1'', ''t'', ''T'', ''TRUE'', ''true'', ''True''] then Some True
      else if s \<in> set [''0'', ''f'', ''F'', ''FALSE'', ''false'', ''False''] then Some False
      else None)"

text \<open>\<^verbatim>\<open>strings.TrimSpace\<close> of an ASCII string, \<^verbatim>\<open>strings.Cut\<close> at a byte and \<^verbatim>\<open>strings.HasPrefix\<close>.\<close>

definition ascii_space :: "char \<Rightarrow> bool" where
  "ascii_space c \<longleftrightarrow> c \<in> {CHR '' '', CHR 0x09, CHR 0x0A, CHR 0x0B, CHR 0x0C, CHR 0x0D}"

definition strings_TrimSpace :: "string \<Rightarrow> string" where
  "strings_TrimSpace s = rev (dropWhile ascii_space (rev (dropWhile ascii_space s)))"

definition strings_Cut :: "char \<Rightarrow> string \<Rightarrow> string \<times> string \<times> bool" where
  "strings_Cut sep s =
     (let before = takeWhile (\<lambda>c. c \<noteq> sep) s
      in if sep \<in> set s then (before, drop (Suc (length before)) s, True) else (s, [], False))"

definition strings_HasPrefix :: "string \<Rightarrow> string \<Rightarrow> bool" where
  "strings_HasPrefix s p \<longleftrightarrow> take (length p) s = p"

section \<open>Joining and splitting\<close>

lemma split_nonempty: "strings_Split sep s \<noteq> []"
  by (induction s) (auto split: list.splits)

lemma split_plain: "sep \<notin> set s \<Longrightarrow> strings_Split sep s = [s]"
  by (induction s) auto

lemma split_prefix: "sep \<notin> set s \<Longrightarrow> strings_Split sep (s @ sep # t) = s # strings_Split sep t"
  by (induction s) auto

lemma split_join:
  "ss \<noteq> [] \<Longrightarrow> (\<And>s. s \<in> set ss \<Longrightarrow> sep \<notin> set s) \<Longrightarrow> strings_Split sep (strings_Join sep ss) = ss"
  by (induction sep ss rule: strings_Join.induct) (auto simp: split_plain split_prefix)

section \<open>Decimal numbers\<close>

abbreviation digit :: "char \<Rightarrow> bool" where
  "digit c \<equiv> 48 \<le> (of_char c :: nat) \<and> of_char c \<le> (57 :: nat)"

lemma char_of_inj: "m < 256 \<Longrightarrow> n < 256 \<Longrightarrow> (char_of m = (char_of n :: char)) = (m = (n::nat))"
  by (metis char_of_eq_iff char_of_take_bit_eq mod_less of_char_of)

lemma digit_char: "(n::nat) < 10 \<Longrightarrow> digit (char_of (48 + n))"
  by simp

lemma decimal_digits: "decimal n \<noteq> [] \<and> (\<forall>c\<in>set (decimal n). digit c)"
proof (induction n rule: decimal.induct)
  case (1 n)
  then show ?case
    using digit_char [of n] digit_char [of "n mod 10"] by (subst (1 2) decimal.simps) auto
qed

lemma decimal_no_underscore: "CHR ''_'' \<notin> set (decimal n)"
  using decimal_digits [of n] by force

lemma decimal_snoc: "10 \<le> n \<Longrightarrow> decimal n = decimal (n div 10) @ [char_of (48 + n mod 10)]"
  by (simp add: decimal.simps)

lemma decimal_small: "n < 10 \<Longrightarrow> decimal n = [char_of (48 + n)]"
  by (simp add: decimal.simps)

lemma decimal_inject: "decimal m = decimal n \<Longrightarrow> m = n"
proof (induction m arbitrary: n rule: decimal.induct)
  case (1 m)
  consider "m < 10" "n < 10" | "m < 10" "10 \<le> n" | "10 \<le> m" "n < 10" | "10 \<le> m" "10 \<le> n" by linarith
  then show ?case
  proof cases
    case 1 with "1.prems" show ?thesis by (simp add: decimal_small char_of_inj)
  next
    case 2 with "1.prems" show ?thesis
      using decimal_digits [of "n div 10"] by (simp add: decimal_small decimal_snoc)
  next
    case 3 with "1.prems" show ?thesis
      using decimal_digits [of "m div 10"] by (simp add: decimal_small decimal_snoc)
  next
    case 4
    with "1.prems" have "decimal (m div 10) @ [char_of (48 + m mod 10)] = decimal (n div 10) @ [char_of (48 + n mod 10)]"
      by (simp only: decimal_snoc)
    then have "decimal (m div 10) = decimal (n div 10)" "m mod 10 = n mod 10"
      by (simp_all add: char_of_inj)
    with "1.IH" [of "n div 10"] 4 have "m div 10 = n div 10" by linarith
    with \<open>m mod 10 = n mod 10\<close> show ?thesis by (metis div_mult_mod_eq)
  qed
qed

end
