(* ===== verification/Operation.thy ===== *)
theory Operation
  imports Go_Strings
begin

unbundle bit_operations_syntax

text \<open>
  Operation identifiers (\<^verbatim>\<open>operation.go\<close>): a 64-bit word that packs a read/write bit, a category
  and a minor number. The constants carry the names and values of the source, in its order; the names table is
  the switch of \<^verbatim>\<open>OperationID.String\<close>. The theorems show that the packing can be undone, that no two operations
  share an identifier or a name, and that a printed identifier tells which operation it came from.
\<close>

section \<open>Layout\<close>

type_synonym OperationID = "64 word"

definition opRWBit :: nat where "opRWBit = 63"
definition opRWMask :: OperationID where "opRWMask = push_bit opRWBit (- 1)"
definition opCatShift :: nat where "opCatShift = 56"
definition opCatMask :: OperationID where "opCatMask = push_bit opCatShift 0x7F"
definition opMinMask :: OperationID where "opMinMask = 0x00000000FFFFFFFF"
definition opMajMask :: OperationID where "opMajMask = opRWMask OR opCatMask"

definition IsWrite :: "OperationID \<Rightarrow> bool" where "IsWrite op \<longleftrightarrow> op AND opRWMask \<noteq> 0"
definition IsRead :: "OperationID \<Rightarrow> bool" where "IsRead op \<longleftrightarrow> op AND opRWMask = 0"
definition Category :: "OperationID \<Rightarrow> OperationID" where "Category op = op AND opMajMask"
definition Minor :: "OperationID \<Rightarrow> OperationID" where "Minor op = op AND opMinMask"

section \<open>Categories\<close>

definition CatCluster :: OperationID where "CatCluster = push_bit opCatShift 0"
definition CatSearch :: OperationID where "CatSearch = push_bit opCatShift 1"
definition CatScroll :: OperationID where "CatScroll = push_bit opCatShift 2"
definition CatPIT :: OperationID where "CatPIT = push_bit opCatShift 3"
definition CatDocRead :: OperationID where "CatDocRead = push_bit opCatShift 4"
definition CatIndex :: OperationID where "CatIndex = push_bit opCatShift 5"
definition CatMapping :: OperationID where "CatMapping = push_bit opCatShift 6"
definition CatAlias :: OperationID where "CatAlias = push_bit opCatShift 7"
definition CatTemplate :: OperationID where "CatTemplate = push_bit opCatShift 8"
definition CatMaint :: OperationID where "CatMaint = push_bit opCatShift 9"
definition CatIngest :: OperationID where "CatIngest = push_bit opCatShift 10"
definition CatAdmin :: OperationID where "CatAdmin = push_bit opCatShift 11"
definition CatPing :: OperationID where "CatPing = push_bit opCatShift 12"
definition catBulkSlot :: OperationID where "catBulkSlot = push_bit opCatShift 13"

definition CatClusterWrite :: OperationID where "CatClusterWrite = opRWMask OR CatCluster"
definition CatScrollWrite :: OperationID where "CatScrollWrite = opRWMask OR CatScroll"
definition CatPITWrite :: OperationID where "CatPITWrite = opRWMask OR CatPIT"
definition CatDocWrite :: OperationID where "CatDocWrite = opRWMask OR CatDocRead"
definition CatBulk :: OperationID where "CatBulk = opRWMask OR catBulkSlot"
definition CatIndexWrite :: OperationID where "CatIndexWrite = opRWMask OR CatIndex"
definition CatMappingWrite :: OperationID where "CatMappingWrite = opRWMask OR CatMapping"
definition CatAliasWrite :: OperationID where "CatAliasWrite = opRWMask OR CatAlias"
definition CatTemplateWrite :: OperationID where "CatTemplateWrite = opRWMask OR CatTemplate"
definition CatMaintWrite :: OperationID where "CatMaintWrite = opRWMask OR CatMaint"
definition CatIngestWrite :: OperationID where "CatIngestWrite = opRWMask OR CatIngest"
definition CatAdminWrite :: OperationID where "CatAdminWrite = opRWMask OR CatAdmin"

section \<open>Minor numbers\<close>

definition minSearch :: OperationID where "minSearch = 1"
definition minMSearch :: OperationID where "minMSearch = 2"
definition minCount :: OperationID where "minCount = 3"
definition minSearchTemplate :: OperationID where "minSearchTemplate = 4"
definition minMSearchTemplate :: OperationID where "minMSearchTemplate = 5"
definition minValidate :: OperationID where "minValidate = 6"
definition minRankEval :: OperationID where "minRankEval = 7"
definition minExplain :: OperationID where "minExplain = 8"
definition minSearchShards :: OperationID where "minSearchShards = 9"
definition minFieldCaps :: OperationID where "minFieldCaps = 10"
definition minScrollGet :: OperationID where "minScrollGet = 1"
definition minScrollDelete :: OperationID where "minScrollDelete = 2"
definition minPITList :: OperationID where "minPITList = 1"
definition minPITCreate :: OperationID where "minPITCreate = 2"
definition minPITDelete :: OperationID where "minPITDelete = 3"
definition minDocGet :: OperationID where "minDocGet = 1"
definition minDocExists :: OperationID where "minDocExists = 2"
definition minDocSourceGet :: OperationID where "minDocSourceGet = 3"
definition minDocSourceExists :: OperationID where "minDocSourceExists = 4"
definition minMGet :: OperationID where "minMGet = 5"
definition minTermVectors :: OperationID where "minTermVectors = 6"
definition minMTermVectors :: OperationID where "minMTermVectors = 7"
definition minDocIndex :: OperationID where "minDocIndex = 1"
definition minDocCreate :: OperationID where "minDocCreate = 2"
definition minDocUpdate :: OperationID where "minDocUpdate = 3"
definition minDocDelete :: OperationID where "minDocDelete = 4"
definition minBulk :: OperationID where "minBulk = 1"
definition minBulkStream :: OperationID where "minBulkStream = 2"
definition minReindex :: OperationID where "minReindex = 3"
definition minDeleteByQuery :: OperationID where "minDeleteByQuery = 4"
definition minUpdateByQuery :: OperationID where "minUpdateByQuery = 5"
definition minReindexRethrottle :: OperationID where "minReindexRethrottle = 6"
definition minDBQRethrottle :: OperationID where "minDBQRethrottle = 7"
definition minUBQRethrottle :: OperationID where "minUBQRethrottle = 8"
definition minIndexGet :: OperationID where "minIndexGet = 1"
definition minIndexExists :: OperationID where "minIndexExists = 2"
definition minIndexCreate :: OperationID where "minIndexCreate = 3"
definition minIndexDelete :: OperationID where "minIndexDelete = 4"
definition minIndexOpen :: OperationID where "minIndexOpen = 5"
definition minIndexClose :: OperationID where "minIndexClose = 6"
definition minIndexClone :: OperationID where "minIndexClone = 7"
definition minIndexShrink :: OperationID where "minIndexShrink = 8"
definition minIndexSplit :: OperationID where "minIndexSplit = 9"
definition minIndexRollover :: OperationID where "minIndexRollover = 10"
definition minIndexBlock :: OperationID where "minIndexBlock = 11"
definition minIndexResolve :: OperationID where "minIndexResolve = 12"
definition minIndexAnalyze :: OperationID where "minIndexAnalyze = 13"
definition minMappingGet :: OperationID where "minMappingGet = 1"
definition minMappingPut :: OperationID where "minMappingPut = 2"
definition minAliasGet :: OperationID where "minAliasGet = 1"
definition minAliasPut :: OperationID where "minAliasPut = 2"
definition minAliasDelete :: OperationID where "minAliasDelete = 3"
definition minCatAliases :: OperationID where "minCatAliases = 4"
definition minIndexTemplateGet :: OperationID where "minIndexTemplateGet = 1"
definition minIndexTemplateCreate :: OperationID where "minIndexTemplateCreate = 2"
definition minIndexTemplateDelete :: OperationID where "minIndexTemplateDelete = 3"
definition minIndexTemplateExists :: OperationID where "minIndexTemplateExists = 4"
definition minIndexTemplateSimulate :: OperationID where "minIndexTemplateSimulate = 5"
definition minIndexTemplateSimulateIndex :: OperationID where "minIndexTemplateSimulateIndex = 6"
definition minComponentTemplateGet :: OperationID where "minComponentTemplateGet = 7"
definition minComponentTemplateCreate :: OperationID where "minComponentTemplateCreate = 8"
definition minComponentTemplateDelete :: OperationID where "minComponentTemplateDelete = 9"
definition minComponentTemplateExists :: OperationID where "minComponentTemplateExists = 10"
definition minLegacyTemplateGet :: OperationID where "minLegacyTemplateGet = 11"
definition minLegacyTemplateCreate :: OperationID where "minLegacyTemplateCreate = 12"
definition minLegacyTemplateDelete :: OperationID where "minLegacyTemplateDelete = 13"
definition minLegacyTemplateExists :: OperationID where "minLegacyTemplateExists = 14"
definition minRefresh :: OperationID where "minRefresh = 1"
definition minFlush :: OperationID where "minFlush = 2"
definition minForceMerge :: OperationID where "minForceMerge = 3"
definition minCacheClear :: OperationID where "minCacheClear = 4"
definition minSegments :: OperationID where "minSegments = 5"
definition minRecovery :: OperationID where "minRecovery = 6"
definition minShardStores :: OperationID where "minShardStores = 7"
definition minStats :: OperationID where "minStats = 8"
definition minIngestGet :: OperationID where "minIngestGet = 1"
definition minIngestCreate :: OperationID where "minIngestCreate = 2"
definition minIngestDelete :: OperationID where "minIngestDelete = 3"
definition minIngestSimulate :: OperationID where "minIngestSimulate = 4"
definition minIngestGrok :: OperationID where "minIngestGrok = 5"
definition minClusterInfo :: OperationID where "minClusterInfo = 1"
definition minClusterHealth :: OperationID where "minClusterHealth = 2"
definition minClusterStats :: OperationID where "minClusterStats = 3"
definition minClusterState :: OperationID where "minClusterState = 4"
definition minClusterSettingsGet :: OperationID where "minClusterSettingsGet = 5"
definition minClusterSettingsPut :: OperationID where "minClusterSettingsPut = 6"
definition minClusterReroute :: OperationID where "minClusterReroute = 7"
definition minClusterPendingTasks :: OperationID where "minClusterPendingTasks = 8"
definition minClusterAllocExplain :: OperationID where "minClusterAllocExplain = 9"
definition minClusterRemoteInfo :: OperationID where "minClusterRemoteInfo = 10"
definition minClusterVotingConfigGet :: OperationID where "minClusterVotingConfigGet = 11"
definition minClusterVotingConfigPut :: OperationID where "minClusterVotingConfigPut = 12"
definition minClusterDecommission :: OperationID where "minClusterDecommission = 13"
definition minCatAllocation :: OperationID where "minCatAllocation = 1"
definition minCatClusterMgr :: OperationID where "minCatClusterMgr = 2"
definition minCatCount :: OperationID where "minCatCount = 3"
definition minCatFielddata :: OperationID where "minCatFielddata = 4"
definition minCatHealth :: OperationID where "minCatHealth = 5"
definition minCatIndices :: OperationID where "minCatIndices = 6"
definition minCatMaster :: OperationID where "minCatMaster = 7"
definition minCatNodeAttrs :: OperationID where "minCatNodeAttrs = 8"
definition minCatNodes :: OperationID where "minCatNodes = 9"
definition minCatPendingTasks :: OperationID where "minCatPendingTasks = 10"
definition minCatPlugins :: OperationID where "minCatPlugins = 11"
definition minCatRecovery :: OperationID where "minCatRecovery = 12"
definition minCatRepositories :: OperationID where "minCatRepositories = 13"
definition minCatSegments :: OperationID where "minCatSegments = 14"
definition minCatShards :: OperationID where "minCatShards = 15"
definition minCatSnapshots :: OperationID where "minCatSnapshots = 16"
definition minCatTasks :: OperationID where "minCatTasks = 17"
definition minCatTemplates :: OperationID where "minCatTemplates = 18"
definition minCatThreadPool :: OperationID where "minCatThreadPool = 19"
definition minNodesInfo :: OperationID where "minNodesInfo = 20"
definition minNodesStats :: OperationID where "minNodesStats = 21"
definition minNodesUsage :: OperationID where "minNodesUsage = 22"
definition minNodesHotThreads :: OperationID where "minNodesHotThreads = 23"
definition minNodesReloadSecurity :: OperationID where "minNodesReloadSecurity = 24"
definition minTasksList :: OperationID where "minTasksList = 25"
definition minTasksGet :: OperationID where "minTasksGet = 26"
definition minTasksCancel :: OperationID where "minTasksCancel = 27"
definition minSnapshotCreate :: OperationID where "minSnapshotCreate = 28"
definition minSnapshotGet :: OperationID where "minSnapshotGet = 29"
definition minSnapshotDelete :: OperationID where "minSnapshotDelete = 30"
definition minSnapshotClone :: OperationID where "minSnapshotClone = 31"
definition minSnapshotRestore :: OperationID where "minSnapshotRestore = 32"
definition minSnapshotStatus :: OperationID where "minSnapshotStatus = 33"
definition minSnapshotRepoCreate :: OperationID where "minSnapshotRepoCreate = 34"
definition minSnapshotRepoGet :: OperationID where "minSnapshotRepoGet = 35"
definition minSnapshotRepoDelete :: OperationID where "minSnapshotRepoDelete = 36"
definition minSnapshotRepoVerify :: OperationID where "minSnapshotRepoVerify = 37"
definition minSnapshotRepoCleanup :: OperationID where "minSnapshotRepoCleanup = 38"
definition minScriptGet :: OperationID where "minScriptGet = 39"
definition minScriptPut :: OperationID where "minScriptPut = 40"
definition minScriptDelete :: OperationID where "minScriptDelete = 41"
definition minScriptContext :: OperationID where "minScriptContext = 42"
definition minScriptLanguage :: OperationID where "minScriptLanguage = 43"
definition minScriptPainlessExec :: OperationID where "minScriptPainlessExec = 44"
definition minDanglingGet :: OperationID where "minDanglingGet = 45"
definition minDanglingDelete :: OperationID where "minDanglingDelete = 46"
definition minDanglingImport :: OperationID where "minDanglingImport = 47"
definition minDataStreamGet :: OperationID where "minDataStreamGet = 48"
definition minDataStreamCreate :: OperationID where "minDataStreamCreate = 49"
definition minDataStreamDelete :: OperationID where "minDataStreamDelete = 50"
definition minDataStreamStats :: OperationID where "minDataStreamStats = 51"
definition minRenderSearchTemplate :: OperationID where "minRenderSearchTemplate = 52"
definition minPing :: OperationID where "minPing = 1"

section \<open>Operations\<close>

definition OpOther :: OperationID where "OpOther = - 1"
definition OpSearch :: OperationID where "OpSearch = CatSearch OR minSearch"
definition OpMSearch :: OperationID where "OpMSearch = CatSearch OR minMSearch"
definition OpCount :: OperationID where "OpCount = CatSearch OR minCount"
definition OpSearchTemplate :: OperationID where "OpSearchTemplate = CatSearch OR minSearchTemplate"
definition OpMSearchTmpl :: OperationID where "OpMSearchTmpl = CatSearch OR minMSearchTemplate"
definition OpValidate :: OperationID where "OpValidate = CatSearch OR minValidate"
definition OpRankEval :: OperationID where "OpRankEval = CatSearch OR minRankEval"
definition OpExplain :: OperationID where "OpExplain = CatSearch OR minExplain"
definition OpSearchShards :: OperationID where "OpSearchShards = CatSearch OR minSearchShards"
definition OpFieldCaps :: OperationID where "OpFieldCaps = CatSearch OR minFieldCaps"
definition OpScrollGet :: OperationID where "OpScrollGet = CatScroll OR minScrollGet"
definition OpScrollDelete :: OperationID where "OpScrollDelete = CatScrollWrite OR minScrollDelete"
definition OpPITList :: OperationID where "OpPITList = CatPIT OR minPITList"
definition OpPITCreate :: OperationID where "OpPITCreate = CatPITWrite OR minPITCreate"
definition OpPITDelete :: OperationID where "OpPITDelete = CatPITWrite OR minPITDelete"
definition OpDocGet :: OperationID where "OpDocGet = CatDocRead OR minDocGet"
definition OpDocExists :: OperationID where "OpDocExists = CatDocRead OR minDocExists"
definition OpDocSourceGet :: OperationID where "OpDocSourceGet = CatDocRead OR minDocSourceGet"
definition OpDocSourceExist :: OperationID where "OpDocSourceExist = CatDocRead OR minDocSourceExists"
definition OpMGet :: OperationID where "OpMGet = CatDocRead OR minMGet"
definition OpTermVectors :: OperationID where "OpTermVectors = CatDocRead OR minTermVectors"
definition OpMTermVectors :: OperationID where "OpMTermVectors = CatDocRead OR minMTermVectors"
definition OpDocIndex :: OperationID where "OpDocIndex = CatDocWrite OR minDocIndex"
definition OpDocCreate :: OperationID where "OpDocCreate = CatDocWrite OR minDocCreate"
definition OpDocUpdate :: OperationID where "OpDocUpdate = CatDocWrite OR minDocUpdate"
definition OpDocDelete :: OperationID where "OpDocDelete = CatDocWrite OR minDocDelete"
definition OpBulk :: OperationID where "OpBulk = CatBulk OR minBulk"
definition OpBulkStream :: OperationID where "OpBulkStream = CatBulk OR minBulkStream"
definition OpReindex :: OperationID where "OpReindex = CatBulk OR minReindex"
definition OpDeleteByQuery :: OperationID where "OpDeleteByQuery = CatBulk OR minDeleteByQuery"
definition OpUpdateByQuery :: OperationID where "OpUpdateByQuery = CatBulk OR minUpdateByQuery"
definition OpReindexRethrottle :: OperationID where "OpReindexRethrottle = CatBulk OR minReindexRethrottle"
definition OpDBQRethrottle :: OperationID where "OpDBQRethrottle = CatBulk OR minDBQRethrottle"
definition OpUBQRethrottle :: OperationID where "OpUBQRethrottle = CatBulk OR minUBQRethrottle"
definition OpIndexGet :: OperationID where "OpIndexGet = CatIndex OR minIndexGet"
definition OpIndexExists :: OperationID where "OpIndexExists = CatIndex OR minIndexExists"
definition OpIndexCreate :: OperationID where "OpIndexCreate = CatIndexWrite OR minIndexCreate"
definition OpIndexDelete :: OperationID where "OpIndexDelete = CatIndexWrite OR minIndexDelete"
definition OpIndexOpen :: OperationID where "OpIndexOpen = CatIndexWrite OR minIndexOpen"
definition OpIndexClose :: OperationID where "OpIndexClose = CatIndexWrite OR minIndexClose"
definition OpIndexClone :: OperationID where "OpIndexClone = CatIndexWrite OR minIndexClone"
definition OpIndexShrink :: OperationID where "OpIndexShrink = CatIndexWrite OR minIndexShrink"
definition OpIndexSplit :: OperationID where "OpIndexSplit = CatIndexWrite OR minIndexSplit"
definition OpIndexRollover :: OperationID where "OpIndexRollover = CatIndexWrite OR minIndexRollover"
definition OpIndexBlock :: OperationID where "OpIndexBlock = CatIndexWrite OR minIndexBlock"
definition OpIndexResolve :: OperationID where "OpIndexResolve = CatIndex OR minIndexResolve"
definition OpIndexAnalyze :: OperationID where "OpIndexAnalyze = CatIndexWrite OR minIndexAnalyze"
definition OpMappingGet :: OperationID where "OpMappingGet = CatMapping OR minMappingGet"
definition OpMappingPut :: OperationID where "OpMappingPut = CatMappingWrite OR minMappingPut"
definition OpAliasGet :: OperationID where "OpAliasGet = CatAlias OR minAliasGet"
definition OpAliasPut :: OperationID where "OpAliasPut = CatAliasWrite OR minAliasPut"
definition OpAliasDelete :: OperationID where "OpAliasDelete = CatAliasWrite OR minAliasDelete"
definition OpCatAliases :: OperationID where "OpCatAliases = CatAlias OR minCatAliases"
definition OpIndexTemplateGet :: OperationID where "OpIndexTemplateGet = CatTemplate OR minIndexTemplateGet"
definition OpIndexTemplateCreate :: OperationID where "OpIndexTemplateCreate = CatTemplateWrite OR minIndexTemplateCreate"
definition OpIndexTemplateDelete :: OperationID where "OpIndexTemplateDelete = CatTemplateWrite OR minIndexTemplateDelete"
definition OpIndexTemplateExists :: OperationID where "OpIndexTemplateExists = CatTemplate OR minIndexTemplateExists"
definition OpIndexTemplateSimulate :: OperationID where "OpIndexTemplateSimulate = CatTemplate OR minIndexTemplateSimulate"
definition OpIndexTemplateSimulateIndex :: OperationID where "OpIndexTemplateSimulateIndex = CatTemplate OR minIndexTemplateSimulateIndex"
definition OpComponentTemplateGet :: OperationID where "OpComponentTemplateGet = CatTemplate OR minComponentTemplateGet"
definition OpComponentTemplateCreate :: OperationID where "OpComponentTemplateCreate = CatTemplateWrite OR minComponentTemplateCreate"
definition OpComponentTemplateDelete :: OperationID where "OpComponentTemplateDelete = CatTemplateWrite OR minComponentTemplateDelete"
definition OpComponentTemplateExists :: OperationID where "OpComponentTemplateExists = CatTemplate OR minComponentTemplateExists"
definition OpLegacyTemplateGet :: OperationID where "OpLegacyTemplateGet = CatTemplate OR minLegacyTemplateGet"
definition OpLegacyTemplateCreate :: OperationID where "OpLegacyTemplateCreate = CatTemplateWrite OR minLegacyTemplateCreate"
definition OpLegacyTemplateDelete :: OperationID where "OpLegacyTemplateDelete = CatTemplateWrite OR minLegacyTemplateDelete"
definition OpLegacyTemplateExists :: OperationID where "OpLegacyTemplateExists = CatTemplate OR minLegacyTemplateExists"
definition OpRefresh :: OperationID where "OpRefresh = CatMaintWrite OR minRefresh"
definition OpFlush :: OperationID where "OpFlush = CatMaintWrite OR minFlush"
definition OpForceMerge :: OperationID where "OpForceMerge = CatMaintWrite OR minForceMerge"
definition OpCacheClear :: OperationID where "OpCacheClear = CatMaintWrite OR minCacheClear"
definition OpSegments :: OperationID where "OpSegments = CatMaint OR minSegments"
definition OpRecovery :: OperationID where "OpRecovery = CatMaint OR minRecovery"
definition OpShardStores :: OperationID where "OpShardStores = CatMaint OR minShardStores"
definition OpStats :: OperationID where "OpStats = CatMaint OR minStats"
definition OpIngestGet :: OperationID where "OpIngestGet = CatIngest OR minIngestGet"
definition OpIngestCreate :: OperationID where "OpIngestCreate = CatIngestWrite OR minIngestCreate"
definition OpIngestDelete :: OperationID where "OpIngestDelete = CatIngestWrite OR minIngestDelete"
definition OpIngestSimulate :: OperationID where "OpIngestSimulate = CatIngestWrite OR minIngestSimulate"
definition OpIngestGrok :: OperationID where "OpIngestGrok = CatIngest OR minIngestGrok"
definition OpClusterInfo :: OperationID where "OpClusterInfo = CatCluster OR minClusterInfo"
definition OpClusterHealth :: OperationID where "OpClusterHealth = CatCluster OR minClusterHealth"
definition OpClusterStats :: OperationID where "OpClusterStats = CatCluster OR minClusterStats"
definition OpClusterState :: OperationID where "OpClusterState = CatCluster OR minClusterState"
definition OpClusterSettingsGet :: OperationID where "OpClusterSettingsGet = CatCluster OR minClusterSettingsGet"
definition OpClusterSettingsPut :: OperationID where "OpClusterSettingsPut = CatClusterWrite OR minClusterSettingsPut"
definition OpClusterReroute :: OperationID where "OpClusterReroute = CatClusterWrite OR minClusterReroute"
definition OpClusterPendingTasks :: OperationID where "OpClusterPendingTasks = CatCluster OR minClusterPendingTasks"
definition OpClusterAllocExplain :: OperationID where "OpClusterAllocExplain = CatCluster OR minClusterAllocExplain"
definition OpClusterRemoteInfo :: OperationID where "OpClusterRemoteInfo = CatCluster OR minClusterRemoteInfo"
definition OpClusterVotingConfigEx :: OperationID where "OpClusterVotingConfigEx = CatClusterWrite OR minClusterVotingConfigPut"
definition OpCatAllocation :: OperationID where "OpCatAllocation = CatAdmin OR minCatAllocation"
definition OpCatClusterMgr :: OperationID where "OpCatClusterMgr = CatAdmin OR minCatClusterMgr"
definition OpCatCount :: OperationID where "OpCatCount = CatAdmin OR minCatCount"
definition OpCatFielddata :: OperationID where "OpCatFielddata = CatAdmin OR minCatFielddata"
definition OpCatHealth :: OperationID where "OpCatHealth = CatAdmin OR minCatHealth"
definition OpCatIndices :: OperationID where "OpCatIndices = CatAdmin OR minCatIndices"
definition OpCatMaster :: OperationID where "OpCatMaster = CatAdmin OR minCatMaster"
definition OpCatNodeAttrs :: OperationID where "OpCatNodeAttrs = CatAdmin OR minCatNodeAttrs"
definition OpCatNodes :: OperationID where "OpCatNodes = CatAdmin OR minCatNodes"
definition OpCatPendingTask :: OperationID where "OpCatPendingTask = CatAdmin OR minCatPendingTasks"
definition OpCatPlugins :: OperationID where "OpCatPlugins = CatAdmin OR minCatPlugins"
definition OpCatRecovery :: OperationID where "OpCatRecovery = CatAdmin OR minCatRecovery"
definition OpCatRepos :: OperationID where "OpCatRepos = CatAdmin OR minCatRepositories"
definition OpCatSegments :: OperationID where "OpCatSegments = CatAdmin OR minCatSegments"
definition OpCatShards :: OperationID where "OpCatShards = CatAdmin OR minCatShards"
definition OpCatSnapshots :: OperationID where "OpCatSnapshots = CatAdmin OR minCatSnapshots"
definition OpCatTasks :: OperationID where "OpCatTasks = CatAdmin OR minCatTasks"
definition OpCatTemplates :: OperationID where "OpCatTemplates = CatAdmin OR minCatTemplates"
definition OpCatThreadPool :: OperationID where "OpCatThreadPool = CatAdmin OR minCatThreadPool"
definition OpNodesInfo :: OperationID where "OpNodesInfo = CatAdmin OR minNodesInfo"
definition OpNodesStats :: OperationID where "OpNodesStats = CatAdmin OR minNodesStats"
definition OpNodesUsage :: OperationID where "OpNodesUsage = CatAdmin OR minNodesUsage"
definition OpNodesHotThreads :: OperationID where "OpNodesHotThreads = CatAdmin OR minNodesHotThreads"
definition OpNodesReloadSecurity :: OperationID where "OpNodesReloadSecurity = CatAdminWrite OR minNodesReloadSecurity"
definition OpTasksList :: OperationID where "OpTasksList = CatAdmin OR minTasksList"
definition OpTasksGet :: OperationID where "OpTasksGet = CatAdmin OR minTasksGet"
definition OpTasksCancel :: OperationID where "OpTasksCancel = CatAdminWrite OR minTasksCancel"
definition OpSnapshotCreate :: OperationID where "OpSnapshotCreate = CatAdminWrite OR minSnapshotCreate"
definition OpSnapshotGet :: OperationID where "OpSnapshotGet = CatAdmin OR minSnapshotGet"
definition OpSnapshotDelete :: OperationID where "OpSnapshotDelete = CatAdminWrite OR minSnapshotDelete"
definition OpSnapshotClone :: OperationID where "OpSnapshotClone = CatAdminWrite OR minSnapshotClone"
definition OpSnapshotRestore :: OperationID where "OpSnapshotRestore = CatAdminWrite OR minSnapshotRestore"
definition OpSnapshotStatus :: OperationID where "OpSnapshotStatus = CatAdmin OR minSnapshotStatus"
definition OpSnapshotRepoCreate :: OperationID where "OpSnapshotRepoCreate = CatAdminWrite OR minSnapshotRepoCreate"
definition OpSnapshotRepoGet :: OperationID where "OpSnapshotRepoGet = CatAdmin OR minSnapshotRepoGet"
definition OpSnapshotRepoDelete :: OperationID where "OpSnapshotRepoDelete = CatAdminWrite OR minSnapshotRepoDelete"
definition OpSnapshotRepoVerify :: OperationID where "OpSnapshotRepoVerify = CatAdminWrite OR minSnapshotRepoVerify"
definition OpSnapshotRepoClean :: OperationID where "OpSnapshotRepoClean = CatAdminWrite OR minSnapshotRepoCleanup"
definition OpScriptGet :: OperationID where "OpScriptGet = CatAdmin OR minScriptGet"
definition OpScriptPut :: OperationID where "OpScriptPut = CatAdminWrite OR minScriptPut"
definition OpScriptDelete :: OperationID where "OpScriptDelete = CatAdminWrite OR minScriptDelete"
definition OpScriptContext :: OperationID where "OpScriptContext = CatAdmin OR minScriptContext"
definition OpScriptLanguage :: OperationID where "OpScriptLanguage = CatAdmin OR minScriptLanguage"
definition OpScriptPainlessExec :: OperationID where "OpScriptPainlessExec = CatAdminWrite OR minScriptPainlessExec"
definition OpDanglingGet :: OperationID where "OpDanglingGet = CatAdmin OR minDanglingGet"
definition OpDanglingDelete :: OperationID where "OpDanglingDelete = CatAdminWrite OR minDanglingDelete"
definition OpDanglingImport :: OperationID where "OpDanglingImport = CatAdminWrite OR minDanglingImport"
definition OpDataStreamGet :: OperationID where "OpDataStreamGet = CatIndex OR minDataStreamGet"
definition OpDataStreamCreate :: OperationID where "OpDataStreamCreate = CatIndexWrite OR minDataStreamCreate"
definition OpDataStreamDelete :: OperationID where "OpDataStreamDelete = CatIndexWrite OR minDataStreamDelete"
definition OpDataStreamStats :: OperationID where "OpDataStreamStats = CatIndex OR minDataStreamStats"
definition OpRenderSearchTemplate :: OperationID where "OpRenderSearchTemplate = CatSearch OR minRenderSearchTemplate"
definition OpPing :: OperationID where "OpPing = CatPing OR minPing"

section \<open>Names\<close>

definition opNameSearch :: string where "opNameSearch = ''search''"
definition opNameMSearch :: string where "opNameMSearch = ''msearch''"
definition opNameCount :: string where "opNameCount = ''count''"
definition opNameSearchTemplate :: string where "opNameSearchTemplate = ''search_template''"
definition opNameMSearchTmpl :: string where "opNameMSearchTmpl = ''msearch_template''"
definition opNameValidate :: string where "opNameValidate = ''validate''"
definition opNameRankEval :: string where "opNameRankEval = ''rank_eval''"
definition opNameExplain :: string where "opNameExplain = ''explain''"
definition opNameSearchShards :: string where "opNameSearchShards = ''search_shards''"
definition opNameFieldCaps :: string where "opNameFieldCaps = ''field_caps''"
definition opNameScrollGet :: string where "opNameScrollGet = ''scroll_get''"
definition opNameScrollDelete :: string where "opNameScrollDelete = ''scroll_delete''"
definition opNamePITList :: string where "opNamePITList = ''pit_list''"
definition opNamePITCreate :: string where "opNamePITCreate = ''pit_create''"
definition opNamePITDelete :: string where "opNamePITDelete = ''pit_delete''"
definition opNameDocGet :: string where "opNameDocGet = ''doc_get''"
definition opNameDocExists :: string where "opNameDocExists = ''doc_exists''"
definition opNameDocSourceGet :: string where "opNameDocSourceGet = ''doc_source_get''"
definition opNameDocSourceExist :: string where "opNameDocSourceExist = ''doc_source_exists''"
definition opNameMGet :: string where "opNameMGet = ''mget''"
definition opNameTermVectors :: string where "opNameTermVectors = ''termvectors''"
definition opNameMTermVectors :: string where "opNameMTermVectors = ''mtermvectors''"
definition opNameDocIndex :: string where "opNameDocIndex = ''doc_index''"
definition opNameDocCreate :: string where "opNameDocCreate = ''doc_create''"
definition opNameDocUpdate :: string where "opNameDocUpdate = ''doc_update''"
definition opNameDocDelete :: string where "opNameDocDelete = ''doc_delete''"
definition opNameBulk :: string where "opNameBulk = ''bulk''"
definition opNameBulkStream :: string where "opNameBulkStream = ''bulk_stream''"
definition opNameReindex :: string where "opNameReindex = ''reindex''"
definition opNameDeleteByQuery :: string where "opNameDeleteByQuery = ''delete_by_query''"
definition opNameUpdateByQuery :: string where "opNameUpdateByQuery = ''update_by_query''"
definition opNameReindexRethrottle :: string where "opNameReindexRethrottle = ''reindex_rethrottle''"
definition opNameDBQRethrottle :: string where "opNameDBQRethrottle = ''dbq_rethrottle''"
definition opNameUBQRethrottle :: string where "opNameUBQRethrottle = ''ubq_rethrottle''"
definition opNameIndexGet :: string where "opNameIndexGet = ''index_get''"
definition opNameIndexExists :: string where "opNameIndexExists = ''index_exists''"
definition opNameIndexCreate :: string where "opNameIndexCreate = ''index_create''"
definition opNameIndexDelete :: string where "opNameIndexDelete = ''index_delete''"
definition opNameIndexOpen :: string where "opNameIndexOpen = ''index_open''"
definition opNameIndexClose :: string where "opNameIndexClose = ''index_close''"
definition opNameIndexClone :: string where "opNameIndexClone = ''index_clone''"
definition opNameIndexShrink :: string where "opNameIndexShrink = ''index_shrink''"
definition opNameIndexSplit :: string where "opNameIndexSplit = ''index_split''"
definition opNameIndexRollover :: string where "opNameIndexRollover = ''index_rollover''"
definition opNameIndexBlock :: string where "opNameIndexBlock = ''index_block''"
definition opNameIndexResolve :: string where "opNameIndexResolve = ''index_resolve''"
definition opNameIndexAnalyze :: string where "opNameIndexAnalyze = ''index_analyze''"
definition opNameMappingGet :: string where "opNameMappingGet = ''mapping_get''"
definition opNameMappingPut :: string where "opNameMappingPut = ''mapping_put''"
definition opNameAliasGet :: string where "opNameAliasGet = ''alias_get''"
definition opNameAliasPut :: string where "opNameAliasPut = ''alias_put''"
definition opNameAliasDelete :: string where "opNameAliasDelete = ''alias_delete''"
definition opNameCatAliases :: string where "opNameCatAliases = ''cat_aliases''"
definition opNameIndexTemplateGet :: string where "opNameIndexTemplateGet = ''index_template_get''"
definition opNameIndexTemplateCreate :: string where "opNameIndexTemplateCreate = ''index_template_create''"
definition opNameIndexTemplateDelete :: string where "opNameIndexTemplateDelete = ''index_template_delete''"
definition opNameIndexTemplateExists :: string where "opNameIndexTemplateExists = ''index_template_exists''"
definition opNameIndexTemplateSimulate :: string where "opNameIndexTemplateSimulate = ''index_template_simulate''"
definition opNameIndexTemplateSimulateIndex :: string where "opNameIndexTemplateSimulateIndex = ''index_template_simulate_index''"
definition opNameComponentTemplateGet :: string where "opNameComponentTemplateGet = ''component_template_get''"
definition opNameComponentTemplateCreate :: string where "opNameComponentTemplateCreate = ''component_template_create''"
definition opNameComponentTemplateDelete :: string where "opNameComponentTemplateDelete = ''component_template_delete''"
definition opNameComponentTemplateExists :: string where "opNameComponentTemplateExists = ''component_template_exists''"
definition opNameLegacyTemplateGet :: string where "opNameLegacyTemplateGet = ''legacy_template_get''"
definition opNameLegacyTemplateCreate :: string where "opNameLegacyTemplateCreate = ''legacy_template_create''"
definition opNameLegacyTemplateDelete :: string where "opNameLegacyTemplateDelete = ''legacy_template_delete''"
definition opNameLegacyTemplateExists :: string where "opNameLegacyTemplateExists = ''legacy_template_exists''"
definition opNameRefresh :: string where "opNameRefresh = ''refresh''"
definition opNameFlush :: string where "opNameFlush = ''flush''"
definition opNameForceMerge :: string where "opNameForceMerge = ''forcemerge''"
definition opNameCacheClear :: string where "opNameCacheClear = ''cache_clear''"
definition opNameSegments :: string where "opNameSegments = ''segments''"
definition opNameRecovery :: string where "opNameRecovery = ''recovery''"
definition opNameShardStores :: string where "opNameShardStores = ''shard_stores''"
definition opNameStats :: string where "opNameStats = ''stats''"
definition opNameIngestGet :: string where "opNameIngestGet = ''ingest_get''"
definition opNameIngestCreate :: string where "opNameIngestCreate = ''ingest_create''"
definition opNameIngestDelete :: string where "opNameIngestDelete = ''ingest_delete''"
definition opNameIngestSimulate :: string where "opNameIngestSimulate = ''ingest_simulate''"
definition opNameIngestGrok :: string where "opNameIngestGrok = ''ingest_grok''"
definition opNameClusterInfo :: string where "opNameClusterInfo = ''cluster_info''"
definition opNameClusterHealth :: string where "opNameClusterHealth = ''cluster_health''"
definition opNameClusterStats :: string where "opNameClusterStats = ''cluster_stats''"
definition opNameClusterState :: string where "opNameClusterState = ''cluster_state''"
definition opNameClusterSettingsGet :: string where "opNameClusterSettingsGet = ''cluster_settings_get''"
definition opNameClusterSettingsPut :: string where "opNameClusterSettingsPut = ''cluster_settings_put''"
definition opNameClusterReroute :: string where "opNameClusterReroute = ''cluster_reroute''"
definition opNameClusterPendingTasks :: string where "opNameClusterPendingTasks = ''cluster_pending_tasks''"
definition opNameClusterAllocExplain :: string where "opNameClusterAllocExplain = ''cluster_alloc_explain''"
definition opNameClusterRemoteInfo :: string where "opNameClusterRemoteInfo = ''cluster_remote_info''"
definition opNameClusterVotingConfigEx :: string where "opNameClusterVotingConfigEx = ''cluster_voting_config''"
definition opNamePing :: string where "opNamePing = ''ping''"
definition opNameCatAllocation :: string where "opNameCatAllocation = ''cat_allocation''"
definition opNameCatClusterMgr :: string where "opNameCatClusterMgr = ''cat_cluster_manager''"
definition opNameCatCount :: string where "opNameCatCount = ''cat_count''"
definition opNameCatFielddata :: string where "opNameCatFielddata = ''cat_fielddata''"
definition opNameCatHealth :: string where "opNameCatHealth = ''cat_health''"
definition opNameCatIndices :: string where "opNameCatIndices = ''cat_indices''"
definition opNameCatMaster :: string where "opNameCatMaster = ''cat_master''"
definition opNameCatNodeAttrs :: string where "opNameCatNodeAttrs = ''cat_nodeattrs''"
definition opNameCatNodes :: string where "opNameCatNodes = ''cat_nodes''"
definition opNameCatPendingTask :: string where "opNameCatPendingTask = ''cat_pending_tasks''"
definition opNameCatPlugins :: string where "opNameCatPlugins = ''cat_plugins''"
definition opNameCatRecovery :: string where "opNameCatRecovery = ''cat_recovery''"
definition opNameCatRepos :: string where "opNameCatRepos = ''cat_repositories''"
definition opNameCatSegments :: string where "opNameCatSegments = ''cat_segments''"
definition opNameCatShards :: string where "opNameCatShards = ''cat_shards''"
definition opNameCatSnapshots :: string where "opNameCatSnapshots = ''cat_snapshots''"
definition opNameCatTasks :: string where "opNameCatTasks = ''cat_tasks''"
definition opNameCatTemplates :: string where "opNameCatTemplates = ''cat_templates''"
definition opNameCatThreadPool :: string where "opNameCatThreadPool = ''cat_thread_pool''"
definition opNameNodesInfo :: string where "opNameNodesInfo = ''nodes_info''"
definition opNameNodesStats :: string where "opNameNodesStats = ''nodes_stats''"
definition opNameNodesUsage :: string where "opNameNodesUsage = ''nodes_usage''"
definition opNameNodesHotThreads :: string where "opNameNodesHotThreads = ''nodes_hot_threads''"
definition opNameNodesReloadSecurity :: string where "opNameNodesReloadSecurity = ''nodes_reload_secure_settings''"
definition opNameTasksList :: string where "opNameTasksList = ''tasks_list''"
definition opNameTasksGet :: string where "opNameTasksGet = ''tasks_get''"
definition opNameTasksCancel :: string where "opNameTasksCancel = ''tasks_cancel''"
definition opNameSnapshotCreate :: string where "opNameSnapshotCreate = ''snapshot_create''"
definition opNameSnapshotGet :: string where "opNameSnapshotGet = ''snapshot_get''"
definition opNameSnapshotDelete :: string where "opNameSnapshotDelete = ''snapshot_delete''"
definition opNameSnapshotClone :: string where "opNameSnapshotClone = ''snapshot_clone''"
definition opNameSnapshotRestore :: string where "opNameSnapshotRestore = ''snapshot_restore''"
definition opNameSnapshotStatus :: string where "opNameSnapshotStatus = ''snapshot_status''"
definition opNameSnapshotRepoCreate :: string where "opNameSnapshotRepoCreate = ''snapshot_repo_create''"
definition opNameSnapshotRepoGet :: string where "opNameSnapshotRepoGet = ''snapshot_repo_get''"
definition opNameSnapshotRepoDelete :: string where "opNameSnapshotRepoDelete = ''snapshot_repo_delete''"
definition opNameSnapshotRepoVerify :: string where "opNameSnapshotRepoVerify = ''snapshot_repo_verify''"
definition opNameSnapshotRepoClean :: string where "opNameSnapshotRepoClean = ''snapshot_repo_cleanup''"
definition opNameScriptGet :: string where "opNameScriptGet = ''script_get''"
definition opNameScriptPut :: string where "opNameScriptPut = ''script_put''"
definition opNameScriptDelete :: string where "opNameScriptDelete = ''script_delete''"
definition opNameScriptContext :: string where "opNameScriptContext = ''script_context''"
definition opNameScriptLanguage :: string where "opNameScriptLanguage = ''script_language''"
definition opNameScriptPainlessExec :: string where "opNameScriptPainlessExec = ''script_painless_execute''"
definition opNameDanglingGet :: string where "opNameDanglingGet = ''dangling_get''"
definition opNameDanglingDelete :: string where "opNameDanglingDelete = ''dangling_delete''"
definition opNameDanglingImport :: string where "opNameDanglingImport = ''dangling_import''"
definition opNameDataStreamGet :: string where "opNameDataStreamGet = ''data_stream_get''"
definition opNameDataStreamCreate :: string where "opNameDataStreamCreate = ''data_stream_create''"
definition opNameDataStreamDelete :: string where "opNameDataStreamDelete = ''data_stream_delete''"
definition opNameDataStreamStats :: string where "opNameDataStreamStats = ''data_stream_stats''"
definition opNameRenderSearchTemplate :: string where "opNameRenderSearchTemplate = ''render_search_template''"
definition opNameOther :: string where "opNameOther = ''other''"

definition op_names :: "(OperationID \<times> string) list" where
  "op_names = [
    (OpSearch, opNameSearch),
    (OpMSearch, opNameMSearch),
    (OpCount, opNameCount),
    (OpSearchTemplate, opNameSearchTemplate),
    (OpMSearchTmpl, opNameMSearchTmpl),
    (OpValidate, opNameValidate),
    (OpRankEval, opNameRankEval),
    (OpExplain, opNameExplain),
    (OpSearchShards, opNameSearchShards),
    (OpFieldCaps, opNameFieldCaps),
    (OpScrollGet, opNameScrollGet),
    (OpScrollDelete, opNameScrollDelete),
    (OpPITList, opNamePITList),
    (OpPITCreate, opNamePITCreate),
    (OpPITDelete, opNamePITDelete),
    (OpDocGet, opNameDocGet),
    (OpDocExists, opNameDocExists),
    (OpDocSourceGet, opNameDocSourceGet),
    (OpDocSourceExist, opNameDocSourceExist),
    (OpMGet, opNameMGet),
    (OpTermVectors, opNameTermVectors),
    (OpMTermVectors, opNameMTermVectors),
    (OpDocIndex, opNameDocIndex),
    (OpDocCreate, opNameDocCreate),
    (OpDocUpdate, opNameDocUpdate),
    (OpDocDelete, opNameDocDelete),
    (OpBulk, opNameBulk),
    (OpBulkStream, opNameBulkStream),
    (OpReindex, opNameReindex),
    (OpDeleteByQuery, opNameDeleteByQuery),
    (OpUpdateByQuery, opNameUpdateByQuery),
    (OpReindexRethrottle, opNameReindexRethrottle),
    (OpDBQRethrottle, opNameDBQRethrottle),
    (OpUBQRethrottle, opNameUBQRethrottle),
    (OpIndexGet, opNameIndexGet),
    (OpIndexExists, opNameIndexExists),
    (OpIndexCreate, opNameIndexCreate),
    (OpIndexDelete, opNameIndexDelete),
    (OpIndexOpen, opNameIndexOpen),
    (OpIndexClose, opNameIndexClose),
    (OpIndexClone, opNameIndexClone),
    (OpIndexShrink, opNameIndexShrink),
    (OpIndexSplit, opNameIndexSplit),
    (OpIndexRollover, opNameIndexRollover),
    (OpIndexBlock, opNameIndexBlock),
    (OpIndexResolve, opNameIndexResolve),
    (OpIndexAnalyze, opNameIndexAnalyze),
    (OpMappingGet, opNameMappingGet),
    (OpMappingPut, opNameMappingPut),
    (OpAliasGet, opNameAliasGet),
    (OpAliasPut, opNameAliasPut),
    (OpAliasDelete, opNameAliasDelete),
    (OpCatAliases, opNameCatAliases),
    (OpIndexTemplateGet, opNameIndexTemplateGet),
    (OpIndexTemplateCreate, opNameIndexTemplateCreate),
    (OpIndexTemplateDelete, opNameIndexTemplateDelete),
    (OpIndexTemplateExists, opNameIndexTemplateExists),
    (OpIndexTemplateSimulate, opNameIndexTemplateSimulate),
    (OpIndexTemplateSimulateIndex, opNameIndexTemplateSimulateIndex),
    (OpComponentTemplateGet, opNameComponentTemplateGet),
    (OpComponentTemplateCreate, opNameComponentTemplateCreate),
    (OpComponentTemplateDelete, opNameComponentTemplateDelete),
    (OpComponentTemplateExists, opNameComponentTemplateExists),
    (OpLegacyTemplateGet, opNameLegacyTemplateGet),
    (OpLegacyTemplateCreate, opNameLegacyTemplateCreate),
    (OpLegacyTemplateDelete, opNameLegacyTemplateDelete),
    (OpLegacyTemplateExists, opNameLegacyTemplateExists),
    (OpRefresh, opNameRefresh),
    (OpFlush, opNameFlush),
    (OpForceMerge, opNameForceMerge),
    (OpCacheClear, opNameCacheClear),
    (OpSegments, opNameSegments),
    (OpRecovery, opNameRecovery),
    (OpShardStores, opNameShardStores),
    (OpStats, opNameStats),
    (OpIngestGet, opNameIngestGet),
    (OpIngestCreate, opNameIngestCreate),
    (OpIngestDelete, opNameIngestDelete),
    (OpIngestSimulate, opNameIngestSimulate),
    (OpIngestGrok, opNameIngestGrok),
    (OpClusterInfo, opNameClusterInfo),
    (OpClusterHealth, opNameClusterHealth),
    (OpClusterStats, opNameClusterStats),
    (OpClusterState, opNameClusterState),
    (OpClusterSettingsGet, opNameClusterSettingsGet),
    (OpClusterSettingsPut, opNameClusterSettingsPut),
    (OpClusterReroute, opNameClusterReroute),
    (OpClusterPendingTasks, opNameClusterPendingTasks),
    (OpClusterAllocExplain, opNameClusterAllocExplain),
    (OpClusterRemoteInfo, opNameClusterRemoteInfo),
    (OpClusterVotingConfigEx, opNameClusterVotingConfigEx),
    (OpPing, opNamePing),
    (OpCatAllocation, opNameCatAllocation),
    (OpCatClusterMgr, opNameCatClusterMgr),
    (OpCatCount, opNameCatCount),
    (OpCatFielddata, opNameCatFielddata),
    (OpCatHealth, opNameCatHealth),
    (OpCatIndices, opNameCatIndices),
    (OpCatMaster, opNameCatMaster),
    (OpCatNodeAttrs, opNameCatNodeAttrs),
    (OpCatNodes, opNameCatNodes),
    (OpCatPendingTask, opNameCatPendingTask),
    (OpCatPlugins, opNameCatPlugins),
    (OpCatRecovery, opNameCatRecovery),
    (OpCatRepos, opNameCatRepos),
    (OpCatSegments, opNameCatSegments),
    (OpCatShards, opNameCatShards),
    (OpCatSnapshots, opNameCatSnapshots),
    (OpCatTasks, opNameCatTasks),
    (OpCatTemplates, opNameCatTemplates),
    (OpCatThreadPool, opNameCatThreadPool),
    (OpNodesInfo, opNameNodesInfo),
    (OpNodesStats, opNameNodesStats),
    (OpNodesUsage, opNameNodesUsage),
    (OpNodesHotThreads, opNameNodesHotThreads),
    (OpNodesReloadSecurity, opNameNodesReloadSecurity),
    (OpTasksList, opNameTasksList),
    (OpTasksGet, opNameTasksGet),
    (OpTasksCancel, opNameTasksCancel),
    (OpSnapshotCreate, opNameSnapshotCreate),
    (OpSnapshotGet, opNameSnapshotGet),
    (OpSnapshotDelete, opNameSnapshotDelete),
    (OpSnapshotClone, opNameSnapshotClone),
    (OpSnapshotRestore, opNameSnapshotRestore),
    (OpSnapshotStatus, opNameSnapshotStatus),
    (OpSnapshotRepoCreate, opNameSnapshotRepoCreate),
    (OpSnapshotRepoGet, opNameSnapshotRepoGet),
    (OpSnapshotRepoDelete, opNameSnapshotRepoDelete),
    (OpSnapshotRepoVerify, opNameSnapshotRepoVerify),
    (OpSnapshotRepoClean, opNameSnapshotRepoClean),
    (OpScriptGet, opNameScriptGet),
    (OpScriptPut, opNameScriptPut),
    (OpScriptDelete, opNameScriptDelete),
    (OpScriptContext, opNameScriptContext),
    (OpScriptLanguage, opNameScriptLanguage),
    (OpScriptPainlessExec, opNameScriptPainlessExec),
    (OpDanglingGet, opNameDanglingGet),
    (OpDanglingDelete, opNameDanglingDelete),
    (OpDanglingImport, opNameDanglingImport),
    (OpDataStreamGet, opNameDataStreamGet),
    (OpDataStreamCreate, opNameDataStreamCreate),
    (OpDataStreamDelete, opNameDataStreamDelete),
    (OpDataStreamStats, opNameDataStreamStats),
    (OpRenderSearchTemplate, opNameRenderSearchTemplate),
    (OpOther, opNameOther)]"

definition cat_names :: "(OperationID \<times> string) list" where
  "cat_names = [
    (CatSearch, ''search''),
    (CatScroll, ''scroll''),
    (CatScrollWrite, ''scroll_write''),
    (CatPIT, ''pit''),
    (CatPITWrite, ''pit_write''),
    (CatDocRead, ''doc_read''),
    (CatDocWrite, ''doc_write''),
    (CatBulk, ''bulk''),
    (CatIndex, ''index''),
    (CatIndexWrite, ''index_write''),
    (CatMapping, ''mapping''),
    (CatMappingWrite, ''mapping_write''),
    (CatAlias, ''alias''),
    (CatAliasWrite, ''alias_write''),
    (CatTemplate, ''template''),
    (CatTemplateWrite, ''template_write''),
    (CatMaint, ''maint''),
    (CatMaintWrite, ''maint_write''),
    (CatIngest, ''ingest''),
    (CatIngestWrite, ''ingest_write''),
    (CatCluster, ''cluster''),
    (CatClusterWrite, ''cluster_write''),
    (CatAdmin, ''admin''),
    (CatAdminWrite, ''admin_write''),
    (CatPing, ''ping'')]"

text \<open>\<^verbatim>\<open>strconv.FormatInt\<close> of a non-negative number in base ten.\<close>


definition cat_name :: "OperationID \<Rightarrow> string" where
  "cat_name op = (case map_of cat_names (Category op) of Some n \<Rightarrow> n | None \<Rightarrow> ''unknown'')"

definition op_String :: "OperationID \<Rightarrow> string" where
  "op_String op =
     (case map_of op_names op of
        Some n \<Rightarrow> n
      | None \<Rightarrow> cat_name op @ ''_'' @ decimal (unat (Minor op)))"

lemmas layout_defs =
  opRWBit_def opRWMask_def opCatShift_def opCatMask_def opMinMask_def opMajMask_def

lemmas category_defs =
  CatCluster_def CatSearch_def CatScroll_def CatPIT_def CatDocRead_def CatIndex_def CatMapping_def CatAlias_def
  CatTemplate_def CatMaint_def CatIngest_def CatAdmin_def CatPing_def catBulkSlot_def CatClusterWrite_def
  CatScrollWrite_def CatPITWrite_def CatDocWrite_def CatBulk_def CatIndexWrite_def CatMappingWrite_def
  CatAliasWrite_def CatTemplateWrite_def CatMaintWrite_def CatIngestWrite_def CatAdminWrite_def

lemmas op_name_defs =
  opNameSearch_def opNameMSearch_def opNameCount_def opNameSearchTemplate_def opNameMSearchTmpl_def opNameValidate_def
  opNameRankEval_def opNameExplain_def opNameSearchShards_def opNameFieldCaps_def opNameScrollGet_def
  opNameScrollDelete_def opNamePITList_def opNamePITCreate_def opNamePITDelete_def opNameDocGet_def
  opNameDocExists_def opNameDocSourceGet_def opNameDocSourceExist_def opNameMGet_def opNameTermVectors_def
  opNameMTermVectors_def opNameDocIndex_def opNameDocCreate_def opNameDocUpdate_def opNameDocDelete_def opNameBulk_def
  opNameBulkStream_def opNameReindex_def opNameDeleteByQuery_def opNameUpdateByQuery_def opNameReindexRethrottle_def
  opNameDBQRethrottle_def opNameUBQRethrottle_def opNameIndexGet_def opNameIndexExists_def opNameIndexCreate_def
  opNameIndexDelete_def opNameIndexOpen_def opNameIndexClose_def opNameIndexClone_def opNameIndexShrink_def
  opNameIndexSplit_def opNameIndexRollover_def opNameIndexBlock_def opNameIndexResolve_def opNameIndexAnalyze_def
  opNameMappingGet_def opNameMappingPut_def opNameAliasGet_def opNameAliasPut_def opNameAliasDelete_def
  opNameCatAliases_def opNameIndexTemplateGet_def opNameIndexTemplateCreate_def opNameIndexTemplateDelete_def
  opNameIndexTemplateExists_def opNameIndexTemplateSimulate_def opNameIndexTemplateSimulateIndex_def
  opNameComponentTemplateGet_def opNameComponentTemplateCreate_def opNameComponentTemplateDelete_def
  opNameComponentTemplateExists_def opNameLegacyTemplateGet_def opNameLegacyTemplateCreate_def
  opNameLegacyTemplateDelete_def opNameLegacyTemplateExists_def opNameRefresh_def opNameFlush_def opNameForceMerge_def
  opNameCacheClear_def opNameSegments_def opNameRecovery_def opNameShardStores_def opNameStats_def opNameIngestGet_def
  opNameIngestCreate_def opNameIngestDelete_def opNameIngestSimulate_def opNameIngestGrok_def opNameClusterInfo_def
  opNameClusterHealth_def opNameClusterStats_def opNameClusterState_def opNameClusterSettingsGet_def
  opNameClusterSettingsPut_def opNameClusterReroute_def opNameClusterPendingTasks_def opNameClusterAllocExplain_def
  opNameClusterRemoteInfo_def opNameClusterVotingConfigEx_def opNamePing_def opNameCatAllocation_def
  opNameCatClusterMgr_def opNameCatCount_def opNameCatFielddata_def opNameCatHealth_def opNameCatIndices_def
  opNameCatMaster_def opNameCatNodeAttrs_def opNameCatNodes_def opNameCatPendingTask_def opNameCatPlugins_def
  opNameCatRecovery_def opNameCatRepos_def opNameCatSegments_def opNameCatShards_def opNameCatSnapshots_def
  opNameCatTasks_def opNameCatTemplates_def opNameCatThreadPool_def opNameNodesInfo_def opNameNodesStats_def
  opNameNodesUsage_def opNameNodesHotThreads_def opNameNodesReloadSecurity_def opNameTasksList_def opNameTasksGet_def
  opNameTasksCancel_def opNameSnapshotCreate_def opNameSnapshotGet_def opNameSnapshotDelete_def
  opNameSnapshotClone_def opNameSnapshotRestore_def opNameSnapshotStatus_def opNameSnapshotRepoCreate_def
  opNameSnapshotRepoGet_def opNameSnapshotRepoDelete_def opNameSnapshotRepoVerify_def opNameSnapshotRepoClean_def
  opNameScriptGet_def opNameScriptPut_def opNameScriptDelete_def opNameScriptContext_def opNameScriptLanguage_def
  opNameScriptPainlessExec_def opNameDanglingGet_def opNameDanglingDelete_def opNameDanglingImport_def
  opNameDataStreamGet_def opNameDataStreamCreate_def opNameDataStreamDelete_def opNameDataStreamStats_def
  opNameRenderSearchTemplate_def opNameOther_def

section \<open>Values\<close>

lemma op_masks:
  "opMajMask = 0xFF00000000000000" "opMinMask = 0xFFFFFFFF" "opRWMask = 0x8000000000000000"
  by code_simp+

lemma cat_values:
  "CatCluster = 0x0000000000000000"
  "CatSearch = 0x0100000000000000"
  "CatScroll = 0x0200000000000000"
  "CatPIT = 0x0300000000000000"
  "CatDocRead = 0x0400000000000000"
  "CatIndex = 0x0500000000000000"
  "CatMapping = 0x0600000000000000"
  "CatAlias = 0x0700000000000000"
  "CatTemplate = 0x0800000000000000"
  "CatMaint = 0x0900000000000000"
  "CatIngest = 0x0A00000000000000"
  "CatAdmin = 0x0B00000000000000"
  "CatPing = 0x0C00000000000000"
  "catBulkSlot = 0x0D00000000000000"
  "CatClusterWrite = 0x8000000000000000"
  "CatScrollWrite = 0x8200000000000000"
  "CatPITWrite = 0x8300000000000000"
  "CatDocWrite = 0x8400000000000000"
  "CatBulk = 0x8D00000000000000"
  "CatIndexWrite = 0x8500000000000000"
  "CatMappingWrite = 0x8600000000000000"
  "CatAliasWrite = 0x8700000000000000"
  "CatTemplateWrite = 0x8800000000000000"
  "CatMaintWrite = 0x8900000000000000"
  "CatIngestWrite = 0x8A00000000000000"
  "CatAdminWrite = 0x8B00000000000000"
  by code_simp+

lemma op_values:
  "OpSearch = 0x0100000000000001"
  "OpMSearch = 0x0100000000000002"
  "OpCount = 0x0100000000000003"
  "OpSearchTemplate = 0x0100000000000004"
  "OpMSearchTmpl = 0x0100000000000005"
  "OpValidate = 0x0100000000000006"
  "OpRankEval = 0x0100000000000007"
  "OpExplain = 0x0100000000000008"
  "OpSearchShards = 0x0100000000000009"
  "OpFieldCaps = 0x010000000000000A"
  "OpScrollGet = 0x0200000000000001"
  "OpScrollDelete = 0x8200000000000002"
  "OpPITList = 0x0300000000000001"
  "OpPITCreate = 0x8300000000000002"
  "OpPITDelete = 0x8300000000000003"
  "OpDocGet = 0x0400000000000001"
  "OpDocExists = 0x0400000000000002"
  "OpDocSourceGet = 0x0400000000000003"
  "OpDocSourceExist = 0x0400000000000004"
  "OpMGet = 0x0400000000000005"
  "OpTermVectors = 0x0400000000000006"
  "OpMTermVectors = 0x0400000000000007"
  "OpDocIndex = 0x8400000000000001"
  "OpDocCreate = 0x8400000000000002"
  "OpDocUpdate = 0x8400000000000003"
  "OpDocDelete = 0x8400000000000004"
  "OpBulk = 0x8D00000000000001"
  "OpBulkStream = 0x8D00000000000002"
  "OpReindex = 0x8D00000000000003"
  "OpDeleteByQuery = 0x8D00000000000004"
  "OpUpdateByQuery = 0x8D00000000000005"
  "OpReindexRethrottle = 0x8D00000000000006"
  "OpDBQRethrottle = 0x8D00000000000007"
  "OpUBQRethrottle = 0x8D00000000000008"
  "OpIndexGet = 0x0500000000000001"
  "OpIndexExists = 0x0500000000000002"
  "OpIndexCreate = 0x8500000000000003"
  "OpIndexDelete = 0x8500000000000004"
  "OpIndexOpen = 0x8500000000000005"
  "OpIndexClose = 0x8500000000000006"
  "OpIndexClone = 0x8500000000000007"
  "OpIndexShrink = 0x8500000000000008"
  "OpIndexSplit = 0x8500000000000009"
  "OpIndexRollover = 0x850000000000000A"
  "OpIndexBlock = 0x850000000000000B"
  "OpIndexResolve = 0x050000000000000C"
  "OpIndexAnalyze = 0x850000000000000D"
  "OpMappingGet = 0x0600000000000001"
  "OpMappingPut = 0x8600000000000002"
  "OpAliasGet = 0x0700000000000001"
  "OpAliasPut = 0x8700000000000002"
  "OpAliasDelete = 0x8700000000000003"
  "OpCatAliases = 0x0700000000000004"
  "OpIndexTemplateGet = 0x0800000000000001"
  "OpIndexTemplateCreate = 0x8800000000000002"
  "OpIndexTemplateDelete = 0x8800000000000003"
  "OpIndexTemplateExists = 0x0800000000000004"
  "OpIndexTemplateSimulate = 0x0800000000000005"
  "OpIndexTemplateSimulateIndex = 0x0800000000000006"
  "OpComponentTemplateGet = 0x0800000000000007"
  "OpComponentTemplateCreate = 0x8800000000000008"
  "OpComponentTemplateDelete = 0x8800000000000009"
  "OpComponentTemplateExists = 0x080000000000000A"
  "OpLegacyTemplateGet = 0x080000000000000B"
  "OpLegacyTemplateCreate = 0x880000000000000C"
  "OpLegacyTemplateDelete = 0x880000000000000D"
  "OpLegacyTemplateExists = 0x080000000000000E"
  "OpRefresh = 0x8900000000000001"
  "OpFlush = 0x8900000000000002"
  "OpForceMerge = 0x8900000000000003"
  "OpCacheClear = 0x8900000000000004"
  "OpSegments = 0x0900000000000005"
  "OpRecovery = 0x0900000000000006"
  "OpShardStores = 0x0900000000000007"
  "OpStats = 0x0900000000000008"
  "OpIngestGet = 0x0A00000000000001"
  "OpIngestCreate = 0x8A00000000000002"
  "OpIngestDelete = 0x8A00000000000003"
  "OpIngestSimulate = 0x8A00000000000004"
  "OpIngestGrok = 0x0A00000000000005"
  "OpClusterInfo = 0x0000000000000001"
  "OpClusterHealth = 0x0000000000000002"
  "OpClusterStats = 0x0000000000000003"
  "OpClusterState = 0x0000000000000004"
  "OpClusterSettingsGet = 0x0000000000000005"
  "OpClusterSettingsPut = 0x8000000000000006"
  "OpClusterReroute = 0x8000000000000007"
  "OpClusterPendingTasks = 0x0000000000000008"
  "OpClusterAllocExplain = 0x0000000000000009"
  "OpClusterRemoteInfo = 0x000000000000000A"
  "OpClusterVotingConfigEx = 0x800000000000000C"
  "OpCatAllocation = 0x0B00000000000001"
  "OpCatClusterMgr = 0x0B00000000000002"
  "OpCatCount = 0x0B00000000000003"
  "OpCatFielddata = 0x0B00000000000004"
  "OpCatHealth = 0x0B00000000000005"
  "OpCatIndices = 0x0B00000000000006"
  "OpCatMaster = 0x0B00000000000007"
  "OpCatNodeAttrs = 0x0B00000000000008"
  "OpCatNodes = 0x0B00000000000009"
  "OpCatPendingTask = 0x0B0000000000000A"
  "OpCatPlugins = 0x0B0000000000000B"
  "OpCatRecovery = 0x0B0000000000000C"
  "OpCatRepos = 0x0B0000000000000D"
  "OpCatSegments = 0x0B0000000000000E"
  "OpCatShards = 0x0B0000000000000F"
  "OpCatSnapshots = 0x0B00000000000010"
  "OpCatTasks = 0x0B00000000000011"
  "OpCatTemplates = 0x0B00000000000012"
  "OpCatThreadPool = 0x0B00000000000013"
  "OpNodesInfo = 0x0B00000000000014"
  "OpNodesStats = 0x0B00000000000015"
  "OpNodesUsage = 0x0B00000000000016"
  "OpNodesHotThreads = 0x0B00000000000017"
  "OpNodesReloadSecurity = 0x8B00000000000018"
  "OpTasksList = 0x0B00000000000019"
  "OpTasksGet = 0x0B0000000000001A"
  "OpTasksCancel = 0x8B0000000000001B"
  "OpSnapshotCreate = 0x8B0000000000001C"
  "OpSnapshotGet = 0x0B0000000000001D"
  "OpSnapshotDelete = 0x8B0000000000001E"
  "OpSnapshotClone = 0x8B0000000000001F"
  "OpSnapshotRestore = 0x8B00000000000020"
  "OpSnapshotStatus = 0x0B00000000000021"
  "OpSnapshotRepoCreate = 0x8B00000000000022"
  "OpSnapshotRepoGet = 0x0B00000000000023"
  "OpSnapshotRepoDelete = 0x8B00000000000024"
  "OpSnapshotRepoVerify = 0x8B00000000000025"
  "OpSnapshotRepoClean = 0x8B00000000000026"
  "OpScriptGet = 0x0B00000000000027"
  "OpScriptPut = 0x8B00000000000028"
  "OpScriptDelete = 0x8B00000000000029"
  "OpScriptContext = 0x0B0000000000002A"
  "OpScriptLanguage = 0x0B0000000000002B"
  "OpScriptPainlessExec = 0x8B0000000000002C"
  "OpDanglingGet = 0x0B0000000000002D"
  "OpDanglingDelete = 0x8B0000000000002E"
  "OpDanglingImport = 0x8B0000000000002F"
  "OpDataStreamGet = 0x0500000000000030"
  "OpDataStreamCreate = 0x8500000000000031"
  "OpDataStreamDelete = 0x8500000000000032"
  "OpDataStreamStats = 0x0500000000000033"
  "OpRenderSearchTemplate = 0x0100000000000034"
  "OpPing = 0x0C00000000000001"
  "OpOther = 0xFFFFFFFFFFFFFFFF"
  by (simp_all add: cat_values
     OpSearch_def OpMSearch_def OpCount_def OpSearchTemplate_def OpMSearchTmpl_def OpValidate_def OpRankEval_def
     OpExplain_def OpSearchShards_def OpFieldCaps_def OpScrollGet_def OpScrollDelete_def OpPITList_def
     OpPITCreate_def OpPITDelete_def OpDocGet_def OpDocExists_def OpDocSourceGet_def OpDocSourceExist_def
     OpMGet_def OpTermVectors_def OpMTermVectors_def OpDocIndex_def OpDocCreate_def OpDocUpdate_def
     OpDocDelete_def OpBulk_def OpBulkStream_def OpReindex_def OpDeleteByQuery_def OpUpdateByQuery_def
     OpReindexRethrottle_def OpDBQRethrottle_def OpUBQRethrottle_def OpIndexGet_def OpIndexExists_def
     OpIndexCreate_def OpIndexDelete_def OpIndexOpen_def OpIndexClose_def OpIndexClone_def OpIndexShrink_def
     OpIndexSplit_def OpIndexRollover_def OpIndexBlock_def OpIndexResolve_def OpIndexAnalyze_def
     OpMappingGet_def OpMappingPut_def OpAliasGet_def OpAliasPut_def OpAliasDelete_def OpCatAliases_def
     OpIndexTemplateGet_def OpIndexTemplateCreate_def OpIndexTemplateDelete_def OpIndexTemplateExists_def
     OpIndexTemplateSimulate_def OpIndexTemplateSimulateIndex_def OpComponentTemplateGet_def
     OpComponentTemplateCreate_def OpComponentTemplateDelete_def OpComponentTemplateExists_def
     OpLegacyTemplateGet_def OpLegacyTemplateCreate_def OpLegacyTemplateDelete_def OpLegacyTemplateExists_def
     OpRefresh_def OpFlush_def OpForceMerge_def OpCacheClear_def OpSegments_def OpRecovery_def OpShardStores_def
     OpStats_def OpIngestGet_def OpIngestCreate_def OpIngestDelete_def OpIngestSimulate_def OpIngestGrok_def
     OpClusterInfo_def OpClusterHealth_def OpClusterStats_def OpClusterState_def OpClusterSettingsGet_def
     OpClusterSettingsPut_def OpClusterReroute_def OpClusterPendingTasks_def OpClusterAllocExplain_def
     OpClusterRemoteInfo_def OpClusterVotingConfigEx_def OpCatAllocation_def OpCatClusterMgr_def OpCatCount_def
     OpCatFielddata_def OpCatHealth_def OpCatIndices_def OpCatMaster_def OpCatNodeAttrs_def OpCatNodes_def
     OpCatPendingTask_def OpCatPlugins_def OpCatRecovery_def OpCatRepos_def OpCatSegments_def OpCatShards_def
     OpCatSnapshots_def OpCatTasks_def OpCatTemplates_def OpCatThreadPool_def OpNodesInfo_def OpNodesStats_def
     OpNodesUsage_def OpNodesHotThreads_def OpNodesReloadSecurity_def OpTasksList_def OpTasksGet_def
     OpTasksCancel_def OpSnapshotCreate_def OpSnapshotGet_def OpSnapshotDelete_def OpSnapshotClone_def
     OpSnapshotRestore_def OpSnapshotStatus_def OpSnapshotRepoCreate_def OpSnapshotRepoGet_def
     OpSnapshotRepoDelete_def OpSnapshotRepoVerify_def OpSnapshotRepoClean_def OpScriptGet_def OpScriptPut_def
     OpScriptDelete_def OpScriptContext_def OpScriptLanguage_def OpScriptPainlessExec_def OpDanglingGet_def
     OpDanglingDelete_def OpDanglingImport_def OpDataStreamGet_def OpDataStreamCreate_def OpDataStreamDelete_def
     OpDataStreamStats_def OpRenderSearchTemplate_def OpPing_def OpOther_def minSearch_def minMSearch_def
     minCount_def minSearchTemplate_def minMSearchTemplate_def minValidate_def minRankEval_def minExplain_def
     minSearchShards_def minFieldCaps_def minScrollGet_def minScrollDelete_def minPITList_def minPITCreate_def
     minPITDelete_def minDocGet_def minDocExists_def minDocSourceGet_def minDocSourceExists_def minMGet_def
     minTermVectors_def minMTermVectors_def minDocIndex_def minDocCreate_def minDocUpdate_def minDocDelete_def
     minBulk_def minBulkStream_def minReindex_def minDeleteByQuery_def minUpdateByQuery_def
     minReindexRethrottle_def minDBQRethrottle_def minUBQRethrottle_def minIndexGet_def minIndexExists_def
     minIndexCreate_def minIndexDelete_def minIndexOpen_def minIndexClose_def minIndexClone_def
     minIndexShrink_def minIndexSplit_def minIndexRollover_def minIndexBlock_def minIndexResolve_def
     minIndexAnalyze_def minMappingGet_def minMappingPut_def minAliasGet_def minAliasPut_def minAliasDelete_def
     minCatAliases_def minIndexTemplateGet_def minIndexTemplateCreate_def minIndexTemplateDelete_def
     minIndexTemplateExists_def minIndexTemplateSimulate_def minIndexTemplateSimulateIndex_def
     minComponentTemplateGet_def minComponentTemplateCreate_def minComponentTemplateDelete_def
     minComponentTemplateExists_def minLegacyTemplateGet_def minLegacyTemplateCreate_def
     minLegacyTemplateDelete_def minLegacyTemplateExists_def minRefresh_def minFlush_def minForceMerge_def
     minCacheClear_def minSegments_def minRecovery_def minShardStores_def minStats_def minIngestGet_def
     minIngestCreate_def minIngestDelete_def minIngestSimulate_def minIngestGrok_def minClusterInfo_def
     minClusterHealth_def minClusterStats_def minClusterState_def minClusterSettingsGet_def
     minClusterSettingsPut_def minClusterReroute_def minClusterPendingTasks_def minClusterAllocExplain_def
     minClusterRemoteInfo_def minClusterVotingConfigPut_def minCatAllocation_def minCatClusterMgr_def
     minCatCount_def minCatFielddata_def minCatHealth_def minCatIndices_def minCatMaster_def minCatNodeAttrs_def
     minCatNodes_def minCatPendingTasks_def minCatPlugins_def minCatRecovery_def minCatRepositories_def
     minCatSegments_def minCatShards_def minCatSnapshots_def minCatTasks_def minCatTemplates_def
     minCatThreadPool_def minNodesInfo_def minNodesStats_def minNodesUsage_def minNodesHotThreads_def
     minNodesReloadSecurity_def minTasksList_def minTasksGet_def minTasksCancel_def minSnapshotCreate_def
     minSnapshotGet_def minSnapshotDelete_def minSnapshotClone_def minSnapshotRestore_def minSnapshotStatus_def
     minSnapshotRepoCreate_def minSnapshotRepoGet_def minSnapshotRepoDelete_def minSnapshotRepoVerify_def
     minSnapshotRepoCleanup_def minScriptGet_def minScriptPut_def minScriptDelete_def minScriptContext_def
     minScriptLanguage_def minScriptPainlessExec_def minDanglingGet_def minDanglingDelete_def
     minDanglingImport_def minDataStreamGet_def minDataStreamCreate_def minDataStreamDelete_def
     minDataStreamStats_def minRenderSearchTemplate_def minPing_def)

text \<open>The category byte and the minor number of an identifier as one small number.\<close>

definition op_key :: "OperationID \<Rightarrow> int" where
  "op_key op = uint op div 2 ^ 56 + 256 * (uint op mod 2 ^ 32)"

lemma op_keys:
  "map (op_key \<circ> fst) op_names = [
     257, 513, 769, 1025, 1281, 1537, 1793, 2049, 2305, 2561, 258, 642, 259, 643, 899, 260, 516, 772, 1028,
     1284, 1540, 1796, 388, 644, 900, 1156, 397, 653, 909, 1165, 1421, 1677, 1933, 2189, 261, 517, 901, 1157,
     1413, 1669, 1925, 2181, 2437, 2693, 2949, 3077, 3461, 262, 646, 263, 647, 903, 1031, 264, 648, 904, 1032,
     1288, 1544, 1800, 2184, 2440, 2568, 2824, 3208, 3464, 3592, 393, 649, 905, 1161, 1289, 1545, 1801, 2057,
     266, 650, 906, 1162, 1290, 256, 512, 768, 1024, 1280, 1664, 1920, 2048, 2304, 2560, 3200, 268, 267, 523,
     779, 1035, 1291, 1547, 1803, 2059, 2315, 2571, 2827, 3083, 3339, 3595, 3851, 4107, 4363, 4619, 4875, 5131,
     5387, 5643, 5899, 6283, 6411, 6667, 7051, 7307, 7435, 7819, 8075, 8331, 8459, 8843, 8971, 9355, 9611, 9867,
     9995, 10379, 10635, 10763, 11019, 11403, 11531, 11915, 12171, 12293, 12677, 12933, 13061, 13313,
     1099511627775]"
  by (simp add: op_names_def op_values op_key_def)

lemma op_ids_distinct: "distinct (map fst op_names)"
proof -
  have "distinct (map (op_key \<circ> fst) op_names)" unfolding op_keys by code_simp
  then show ?thesis by (simp add: distinct_map inj_on_def)
qed

fun enc :: "string \<Rightarrow> int" where
  "enc [] = 1"
| "enc (c # cs) = of_char c + 256 * enc cs"

lemma op_names_distinct: "distinct (map snd op_names)"
proof -
  have "distinct (map (enc \<circ> snd) op_names)" by (simp add: op_names_def op_name_defs)
  then show ?thesis by (simp add: distinct_map inj_on_def)
qed

section \<open>Packing and unpacking\<close>

lemma IsRead_iff: "IsRead op \<longleftrightarrow> \<not> IsWrite op"
  by (simp add: IsRead_def IsWrite_def)

text \<open>A category and a minor number that fit their fields can be read back from their union.\<close>
theorem op_unpack:
  assumes "cat AND opMajMask = cat" "m AND opMinMask = m"
  shows "Category (cat OR m) = cat \<and> Minor (cat OR m) = m \<and> (IsWrite (cat OR m) \<longleftrightarrow> IsWrite cat)"
proof -
  have "m AND opMajMask = m AND (opMinMask AND opMajMask)" "cat AND opMinMask = cat AND (opMajMask AND opMinMask)"
    "m AND opRWMask = m AND (opMinMask AND opRWMask)"
    using assms by (simp_all only: and.assoc [symmetric])
  then have "m AND opMajMask = 0" "cat AND opMinMask = 0" "m AND opRWMask = 0" by (simp_all add: op_masks)
  with assms show ?thesis by (simp add: Category_def Minor_def IsWrite_def bit.conj_disj_distrib2)
qed

theorem op_unpack_witness:
  "Category (CatDocWrite OR minDocUpdate) = CatDocWrite \<and> Minor (CatDocWrite OR minDocUpdate) = minDocUpdate \<and>
    (IsWrite (CatDocWrite OR minDocUpdate) \<longleftrightarrow> IsWrite CatDocWrite)"
  by (rule op_unpack) (simp_all add: cat_values op_masks minDocUpdate_def)

text \<open>No two operations share an identifier, and no two share a name.\<close>
theorem op_table_distinct: "distinct (map fst op_names) \<and> distinct (map snd op_names)"
  by (simp add: op_ids_distinct op_names_distinct)

section \<open>Printed identifiers\<close>

lemma last_underscore:
  assumes "xs @ CHR ''_'' # d = ys @ CHR ''_'' # e" "CHR ''_'' \<notin> set d" "CHR ''_'' \<notin> set e"
  shows "xs = ys \<and> d = e"
  using assms
proof (induction xs arbitrary: ys)
  case Nil then show ?case by (cases ys) auto
next
  case (Cons x xs) then show ?case by (cases ys) auto
qed

lemma names_end: "list_all (\<lambda>p. snd p \<noteq> [] \<and> \<not> digit (last (snd p))) op_names"
  by (simp add: op_names_def op_name_defs)

lemma fallback_end:
  "\<exists>c. last (cat_name op @ ''_'' @ decimal (unat (Minor op))) = c \<and> digit c"
  using decimal_digits [of "unat (Minor op)"] by (metis append_is_Nil_conv last_appendR last_in_set)

text \<open>C38. A printed identifier determines the operation: two identifiers with the same text are equal, or both are
  outside the table and agree in the category name and the minor number.\<close>
theorem op_String_identifies:
  assumes "op_String a = op_String b"
  shows "a = b \<or> (map_of op_names a = None \<and> map_of op_names b = None \<and> cat_name a = cat_name b \<and> Minor a = Minor b)"
proof -
  have no: "n \<noteq> cat_name x @ ''_'' @ decimal (unat (Minor x))" if "map_of op_names y = Some n" for x y n
    using names_end fallback_end [of x] map_of_SomeD [OF that] by (fastforce simp: list_all_iff)
  show ?thesis
  proof (cases "map_of op_names a")
    case None
    with assms no have "map_of op_names b = None" by (cases "map_of op_names b") (auto simp: op_String_def)
    with None assms
      last_underscore [of "cat_name a" "decimal (unat (Minor a))" "cat_name b" "decimal (unat (Minor b))"]
    have "cat_name a = cat_name b" "decimal (unat (Minor a)) = decimal (unat (Minor b))"
      by (simp_all add: op_String_def decimal_no_underscore)
    with None \<open>map_of op_names b = None\<close> show ?thesis by (simp add: decimal_inject word_unat_eq_iff)
  next
    case (Some n)
    with assms no obtain m where m: "map_of op_names b = Some m" "m = n"
      by (cases "map_of op_names b") (auto simp: op_String_def)
    with Some have "(a, n) \<in> set op_names" "(b, n) \<in> set op_names" by (auto dest: map_of_SomeD)
    with op_names_distinct show ?thesis by (metis distinct_map inj_onD prod.inject snd_conv)
  qed
qed

theorem op_String_identifies_witness:
  "op_String (CatSearch OR 99) = op_String (CatSearch OR 99 OR 0x100000000) \<and>
    (CatSearch OR 99 = (CatSearch OR 99 OR 0x100000000) \<or>
     (map_of op_names (CatSearch OR 99) = None \<and> map_of op_names (CatSearch OR 99 OR 0x100000000) = None \<and>
      cat_name (CatSearch OR 99) = cat_name (CatSearch OR 99 OR 0x100000000) \<and>
      Minor (CatSearch OR 99) = Minor (CatSearch OR 99 OR 0x100000000)))"
proof -
  have "op_String (CatSearch OR 99) = op_String (CatSearch OR 99 OR 0x100000000)"
    by (simp add: op_String_def op_names_def op_values cat_name_def cat_names_def cat_values Category_def Minor_def op_masks)
  with op_String_identifies [OF this] show ?thesis by blast
qed

end
