(* ===== verification/Route_Trie.thy ===== *)
theory Route_Trie
  imports Operation "HOL-Library.Sublist"
begin

text \<open>
  The route trie of the request multiplexer (\<^verbatim>\<open>policy_mux_trie.go\<close>) and the operation classifier over it
  (\<^verbatim>\<open>classify.go\<close>). Routes are paths of literal and wildcard segments; a lookup walks the cleaned request
  path and prefers the literal child at every step. \<^verbatim>\<open>'p\<close> stands for the policy a leaf names.
\<close>

section \<open>Paths\<close>

abbreviation slash :: char where "slash \<equiv> CHR ''/''"

text \<open>The segment loop that \<^verbatim>\<open>add\<close> and \<^verbatim>\<open>match\<close> share: slashes are skipped, a segment ends before the next one.\<close>

function path_segments :: "string \<Rightarrow> string list" where
  "path_segments p =
     (if p = [] then []
      else if hd p = slash then path_segments (tl p)
      else takeWhile (\<lambda>c. c \<noteq> slash) p # path_segments (dropWhile (\<lambda>c. c \<noteq> slash) p))"
  by pat_completeness auto

termination
proof (relation "measure length", simp)
  fix p :: string
  assume "p \<noteq> []" "hd p \<noteq> slash"
  then show "(dropWhile (\<lambda>c. c \<noteq> slash) p, p) \<in> measure length"
    by (cases p) (auto simp: le_imp_less_Suc length_dropWhile_le)
qed (simp add: neq_Nil_conv)+

declare path_segments.simps [simp del]

lemma path_segments_simps [simp]:
  "path_segments [] = []" "path_segments (slash # p) = path_segments p"
  by (simp_all add: path_segments.simps)

text \<open>\<^verbatim>\<open>path.Clean\<close> of the Go library: dots and empty segments go, a parent segment takes one segment back.\<close>

definition clean_step :: "bool \<Rightarrow> string list \<Rightarrow> string \<Rightarrow> string list" where
  "clean_step rooted out seg =
     (if seg = ''.'' then out
      else if seg = ''..'' then
        (if out \<noteq> [] \<and> last out \<noteq> ''..'' then butlast out else if rooted then out else out @ [seg])
      else out @ [seg])"

fun join_slash :: "string list \<Rightarrow> string" where
  "join_slash [] = []"
| "join_slash [s] = s"
| "join_slash (s # ss) = s @ slash # join_slash ss"

definition path_Clean :: "string \<Rightarrow> string" where
  "path_Clean p =
     (if p = [] then ''.''
      else let rooted = (hd p = slash);
               out = foldl (clean_step rooted) [] (path_segments p)
           in if rooted then slash # join_slash out else if out = [] then ''.'' else join_slash out)"

section \<open>The trie\<close>

type_synonym routeAttr = "32 word"

record 'p trieLeaf =
  leaf_policy :: 'p
  leaf_operationID :: OperationID
  leaf_attrs :: routeAttr
  leaf_poolName :: string

datatype 'p trieNode = trieNode
  (children: "string \<Rightarrow> 'p trieNode option")
  (wildcard: "'p trieNode option")
  (wildName: string)
  (methods: "string \<Rightarrow> 'p trieLeaf option")

definition empty_node :: "string \<Rightarrow> 'p trieNode" where
  "empty_node name = trieNode (\<lambda>_. None) None name (\<lambda>_. None)"

definition is_param :: "string \<Rightarrow> bool" where
  "is_param seg \<longleftrightarrow> length seg > 2 \<and> seg ! 0 = CHR ''{'' \<and> seg ! (length seg - 1) = CHR ''}''"

definition param_name :: "string \<Rightarrow> string" where
  "param_name seg = take (length seg - 2) (drop 1 seg)"

fun add_node :: "string list \<Rightarrow> string list \<Rightarrow> 'p trieLeaf \<Rightarrow> 'p trieNode \<Rightarrow> 'p trieNode" where
  "add_node ms [] leaf (trieNode cs wc nm me) = trieNode cs wc nm (fold (\<lambda>m f. f(m := Some leaf)) ms me)"
| "add_node ms (seg # segs) leaf (trieNode cs wc nm me) =
     (if is_param seg
      then let child = (case wc of None \<Rightarrow> empty_node (param_name seg) | Some w \<Rightarrow> w)
           in trieNode cs (Some (add_node ms segs leaf child)) nm me
      else let child = (case cs seg of None \<Rightarrow> empty_node [] | Some t \<Rightarrow> t)
           in trieNode (cs(seg := Some (add_node ms segs leaf child))) wc nm me)"

definition routeTrie_add :: "string list \<Rightarrow> string \<Rightarrow> 'p trieLeaf \<Rightarrow> 'p trieNode \<Rightarrow> 'p trieNode" where
  "routeTrie_add ms path leaf root = add_node ms (path_segments path) leaf root"

record 'p trieMatch =
  tm_leaf :: "'p trieLeaf option"
  indexStart :: nat
  indexEnd :: nat
  docStart :: nat
  docEnd :: nat
  isSystem :: bool

definition record_wild :: "string \<Rightarrow> nat \<Rightarrow> nat \<Rightarrow> 'p trieMatch \<Rightarrow> 'p trieMatch" where
  "record_wild name a b r =
     (if name = ''index'' then r\<lparr>indexStart := a, indexEnd := b\<rparr>
      else if name = ''id'' then r\<lparr>docStart := a, docEnd := b\<rparr> else r)"

text \<open>The end of the segment that starts at a position: the index of the next slash, or the length.\<close>

definition seg_end :: "string \<Rightarrow> nat \<Rightarrow> nat" where
  "seg_end path pos = pos + length (takeWhile (\<lambda>c. c \<noteq> slash) (drop pos path))"

lemma seg_end_gt: "pos < length path \<Longrightarrow> path ! pos \<noteq> slash \<Longrightarrow> pos < seg_end path pos"
  by (cases "drop pos path") (auto simp: seg_end_def nth_via_drop)

text \<open>
  The loop of \<^verbatim>\<open>match\<close>. The Go loop also tests for an empty segment, which cannot occur after the test
  for a slash. The flag tells whether the node is still the root.
\<close>

function trie_walk :: "string \<Rightarrow> nat \<Rightarrow> 'p trieNode \<Rightarrow> 'p trieMatch \<Rightarrow> bool \<Rightarrow> ('p trieNode \<times> 'p trieMatch \<times> bool) option" where
  "trie_walk path pos node r atRoot =
     (if pos < length path then
        if path ! pos = slash then trie_walk path (pos + 1) node r atRoot
        else let segEnd = seg_end path pos; seg = take (segEnd - pos) (drop pos path) in
        (case children node seg of
           Some child \<Rightarrow> trie_walk path segEnd child r False
         | None \<Rightarrow>
             (case wildcard node of
                Some w \<Rightarrow> trie_walk path segEnd w (record_wild (wildName w) pos segEnd r) False
              | None \<Rightarrow> None))
      else Some (node, r, atRoot))"
  by pat_completeness auto

termination
  by (relation "measure (\<lambda>(path, pos, node, r, atRoot). length path - pos)") (simp_all add: seg_end_gt diff_less_mono2)

declare trie_walk.simps [simp del]

lemma take_segment: "take (seg_end path pos - pos) (drop pos path) = takeWhile (\<lambda>c. c \<noteq> slash) (drop pos path)"
  by (simp add: seg_end_def takeWhile_eq_take [symmetric])

lemma drop_seg_end: "drop (seg_end path pos) path = dropWhile (\<lambda>c. c \<noteq> slash) (drop pos path)"
  by (metis seg_end_def add.commute drop_drop dropWhile_eq_drop)

lemma trie_walk_end: "\<not> pos < length path \<Longrightarrow> trie_walk path pos node r b = Some (node, r, b)"
  by (subst trie_walk.simps) simp

lemma trie_walk_slash:
  "pos < length path \<Longrightarrow> path ! pos = slash \<Longrightarrow> trie_walk path pos node r b = trie_walk path (Suc pos) node r b"
  by (subst trie_walk.simps) simp

lemma trie_walk_seg:
  assumes "pos < length path" "path ! pos \<noteq> slash"
  shows "trie_walk path pos node r b =
    (case children node (takeWhile (\<lambda>c. c \<noteq> slash) (drop pos path)) of
       Some child \<Rightarrow> trie_walk path (seg_end path pos) child r False
     | None \<Rightarrow>
         (case wildcard node of
            Some w \<Rightarrow> trie_walk path (seg_end path pos) w (record_wild (wildName w) pos (seg_end path pos) r) False
          | None \<Rightarrow> None))"
  using assms by (subst trie_walk.simps) (simp add: Let_def take_segment)

text \<open>Induction along the positions the loop visits.\<close>

lemma walk_induct [case_names stop slash seg]:
  assumes "\<And>pos. \<not> pos < length path \<Longrightarrow> P pos"
    and "\<And>pos. pos < length path \<Longrightarrow> path ! pos = slash \<Longrightarrow> P (Suc pos) \<Longrightarrow> P pos"
    and "\<And>pos. pos < length path \<Longrightarrow> path ! pos \<noteq> slash \<Longrightarrow> P (seg_end path pos) \<Longrightarrow> P pos"
  shows "P pos"
proof (induction "length path - pos" arbitrary: pos rule: less_induct)
  case less
  show ?case
    using assms less(1) [of "Suc pos"] less(1) [of "seg_end path pos"] seg_end_gt [of pos path]
    by (meson diff_less_mono2 lessI)
qed

definition routeTrie_match :: "'p trieNode \<Rightarrow> string \<Rightarrow> string \<Rightarrow> 'p trieMatch option" where
  "routeTrie_match root method path0 =
     (let path = path_Clean path0 in
      if path = [] \<or> path ! 0 \<noteq> slash then None
      else let r = \<lparr>tm_leaf = None, indexStart = 0, indexEnd = 0, docStart = 0, docEnd = 0,
                    isSystem = (length path \<ge> 2 \<and> path ! 0 = slash \<and> path ! 1 = CHR ''_'')\<rparr> in
      case trie_walk path 0 root r True of
        None \<Rightarrow> None
      | Some (node, r, atRoot) \<Rightarrow>
          if atRoot \<and> path \<noteq> ''/'' then None
          else (case methods node method of
                  Some leaf \<Rightarrow> Some (r\<lparr>tm_leaf := Some leaf\<rparr>)
                | None \<Rightarrow> None))"

definition Classify :: "'p trieNode \<Rightarrow> string \<Rightarrow> string \<Rightarrow> OperationID" where
  "Classify trie method path =
     (case routeTrie_match trie method path of
        Some m \<Rightarrow> (case tm_leaf m of Some l \<Rightarrow> leaf_operationID l | None \<Rightarrow> OpOther)
      | None \<Rightarrow> OpOther)"


section \<open>What a node path reaches\<close>

datatype pseg = Lit string | Wild

definition pat_of :: "string list \<Rightarrow> pseg list" where
  "pat_of segs = map (\<lambda>s. if is_param s then Wild else Lit s) segs"

fun node_at :: "'p trieNode \<Rightarrow> pseg list \<Rightarrow> 'p trieNode option" where
  "node_at t [] = Some t"
| "node_at t (Lit s # ps) = (case children t s of None \<Rightarrow> None | Some c \<Rightarrow> node_at c ps)"
| "node_at t (Wild # ps) = (case wildcard t of None \<Rightarrow> None | Some c \<Rightarrow> node_at c ps)"

definition leaf_at :: "'p trieNode \<Rightarrow> pseg list \<Rightarrow> string \<Rightarrow> 'p trieLeaf option" where
  "leaf_at t ps m = (case node_at t ps of None \<Rightarrow> None | Some n \<Rightarrow> methods n m)"

lemma pat_of_simps [simp]:
  "pat_of [] = []" "pat_of (s # ss) = (if is_param s then Wild else Lit s) # pat_of ss"
  by (simp_all add: pat_of_def)

lemma leaf_at_simps [simp]:
  "leaf_at t [] m = methods t m"
  "leaf_at t (Lit s # ps) m = (case children t s of None \<Rightarrow> None | Some c \<Rightarrow> leaf_at c ps m)"
  "leaf_at t (Wild # ps) m = (case wildcard t of None \<Rightarrow> None | Some c \<Rightarrow> leaf_at c ps m)"
  by (simp_all add: leaf_at_def split: option.splits)

lemma node_at_append: "node_at t (ps @ qs) = (case node_at t ps of None \<Rightarrow> None | Some n \<Rightarrow> node_at n qs)"
  by (induction t ps rule: node_at.induct) (auto split: option.splits)

lemma empty_node_simps [simp]:
  "children (empty_node n) s = None" "wildcard (empty_node n) = None" "methods (empty_node n) m = None"
  "wildName (empty_node n) = n"
  by (simp_all add: empty_node_def)

lemma node_at_empty [simp]: "node_at (empty_node n) ps = (if ps = [] then Some (empty_node n) else None)"
proof (cases ps)
  case (Cons p ps') then show ?thesis by (cases p) simp_all
qed simp

lemma leaf_at_empty [simp]: "leaf_at (empty_node n) ps m = None"
  by (simp add: leaf_at_def)

lemma fold_methods:
  "fold (\<lambda>m f. f(m := Some leaf)) ms me m = (if m \<in> set ms then Some leaf else me m)"
  by (induction ms arbitrary: me) auto

lemma leaf_at_add_node:
  "leaf_at (add_node ms segs leaf t) ps m = (if ps = pat_of segs \<and> m \<in> set ms then Some leaf else leaf_at t ps m)"
proof (induction ms segs leaf t arbitrary: ps rule: add_node.induct)
  case (1 ms leaf cs wc nm me)
  show ?case
  proof (cases ps)
    case Nil then show ?thesis by (simp add: fold_methods)
  next
    case (Cons p ps') then show ?thesis by (cases p) simp_all
  qed
next
  case (2 ms seg segs leaf cs wc nm me)
  show ?case
  proof (cases ps)
    case Nil then show ?thesis by (simp add: Let_def)
  next
    case (Cons p ps')
    then show ?thesis using 2 by (cases p) (auto simp: Let_def split: option.splits)
  qed
qed

lemma node_at_add_node:
  "node_at (add_node ms segs leaf t) ps \<noteq> None \<longleftrightarrow> node_at t ps \<noteq> None \<or> prefix ps (pat_of segs)"
proof (induction ms segs leaf t arbitrary: ps rule: add_node.induct)
  case (1 ms leaf cs wc nm me)
  show ?case
  proof (cases ps)
    case (Cons p ps') then show ?thesis by (cases p) auto
  qed simp
next
  case (2 ms seg segs leaf cs wc nm me)
  show ?case
  proof (cases ps)
    case (Cons p ps')
    then show ?thesis using 2 by (cases p) (auto simp: Let_def split: option.splits)
  qed simp
qed

section \<open>A route list as the specification\<close>

type_synonym 'p routeEntry = "string \<times> string \<times> 'p trieLeaf"

abbreviation entry_pat :: "'p routeEntry \<Rightarrow> pseg list" where
  "entry_pat e \<equiv> pat_of (path_segments (fst (snd e)))"

definition build_trie :: "'p routeEntry list \<Rightarrow> 'p trieNode" where
  "build_trie rs = foldl (\<lambda>t (m, path, leaf). routeTrie_add [m] path leaf t) (empty_node []) rs"

definition covered :: "'p routeEntry list \<Rightarrow> pseg list \<Rightarrow> bool" where
  "covered rs ps \<longleftrightarrow> list_ex (\<lambda>e. prefix ps (entry_pat e)) rs"

text \<open>The pattern that a request path selects: the literal segment wins wherever some route continues with it.\<close>

fun resolve :: "'p routeEntry list \<Rightarrow> pseg list \<Rightarrow> string list \<Rightarrow> pseg list option" where
  "resolve rs pre [] = Some pre"
| "resolve rs pre (s # ss) =
     (if covered rs (pre @ [Lit s]) then resolve rs (pre @ [Lit s]) ss
      else if covered rs (pre @ [Wild]) then resolve rs (pre @ [Wild]) ss else None)"

definition last_route :: "'p routeEntry list \<Rightarrow> pseg list \<Rightarrow> string \<Rightarrow> 'p trieLeaf option" where
  "last_route rs ps m = map_option (\<lambda>e. snd (snd e)) (find (\<lambda>e. entry_pat e = ps \<and> fst e = m) (rev rs))"

lemma build_trie_snoc:
  "build_trie (rs @ [e]) = routeTrie_add [fst e] (fst (snd e)) (snd (snd e)) (build_trie rs)"
  by (simp add: build_trie_def case_prod_beta)

lemma build_trie_covered: "ps \<noteq> [] \<Longrightarrow> node_at (build_trie rs) ps \<noteq> None \<longleftrightarrow> covered rs ps"
proof (induction rs rule: rev_induct)
  case Nil then show ?case by (simp add: build_trie_def covered_def)
next
  case (snoc e rs)
  then show ?case
    unfolding build_trie_snoc routeTrie_add_def node_at_add_node covered_def by auto
qed

lemma build_trie_leaf: "leaf_at (build_trie rs) ps m = last_route rs ps m"
proof (induction rs rule: rev_induct)
  case Nil show ?case by (simp add: build_trie_def last_route_def)
next
  case (snoc e rs)
  then show ?case
    unfolding build_trie_snoc routeTrie_add_def leaf_at_add_node last_route_def by auto
qed

lemma build_trie_no_leaf: "None = node_at (build_trie rs) ps \<Longrightarrow> last_route rs ps m = None"
  using build_trie_leaf [of rs ps m] by (simp add: leaf_at_def split: option.splits)

section \<open>The walk by segments\<close>

fun seg_walk :: "'p trieNode \<Rightarrow> string list \<Rightarrow> 'p trieNode option" where
  "seg_walk t [] = Some t"
| "seg_walk t (s # ss) =
     (case children t s of
        Some c \<Rightarrow> seg_walk c ss
      | None \<Rightarrow> (case wildcard t of Some w \<Rightarrow> seg_walk w ss | None \<Rightarrow> None))"

lemma seg_walk_resolve:
  assumes "node_at (build_trie rs) pre = Some t"
  shows "seg_walk t ss = (case resolve rs pre ss of None \<Rightarrow> None | Some ps \<Rightarrow> node_at (build_trie rs) ps)"
  using assms
proof (induction ss arbitrary: t pre)
  case (Cons s ss)
  have lit: "node_at (build_trie rs) (pre @ [Lit s]) = children t s"
    and wild: "node_at (build_trie rs) (pre @ [Wild]) = wildcard t"
    using Cons.prems by (simp_all add: node_at_append split: option.splits)
  have "covered rs (pre @ [Lit s]) \<longleftrightarrow> children t s \<noteq> None"
    and "covered rs (pre @ [Wild]) \<longleftrightarrow> wildcard t \<noteq> None"
    using build_trie_covered [of "pre @ [Lit s]" rs] build_trie_covered [of "pre @ [Wild]" rs] lit wild by simp_all
  with Cons.IH [of "pre @ [Lit s]"] Cons.IH [of "pre @ [Wild]"] lit wild
  show ?case by (auto split: option.splits)
qed simp

lemma path_segments_at:
  assumes "pos < length path" "path ! pos \<noteq> slash"
  shows "path_segments (drop pos path) =
    takeWhile (\<lambda>c. c \<noteq> slash) (drop pos path) # path_segments (dropWhile (\<lambda>c. c \<noteq> slash) (drop pos path))"
  using assms by (subst path_segments.simps) (simp add: hd_drop_conv_nth)

lemma path_segments_at_slash:
  "pos < length path \<Longrightarrow> path ! pos = slash \<Longrightarrow> path_segments (drop pos path) = path_segments (drop (Suc pos) path)"
  by (metis Cons_nth_drop_Suc path_segments_simps(2))

lemma trie_walk_node:
  "map_option fst (trie_walk path pos node r b) = seg_walk node (path_segments (drop pos path))"
proof (induction pos arbitrary: node r b rule: walk_induct [where path = path])
  case (seg pos)
  then show ?case by (simp add: trie_walk_seg path_segments_at drop_seg_end split: option.splits)
qed (simp_all add: trie_walk_end trie_walk_slash path_segments_at_slash)

section \<open>Cleaned paths\<close>

abbreviation plain_seg :: "string \<Rightarrow> bool" where
  "plain_seg s \<equiv> s \<noteq> [] \<and> slash \<notin> set s"

lemma path_segments_plain: "s \<in> set (path_segments p) \<Longrightarrow> plain_seg s"
proof (induction p rule: path_segments.induct)
  case (1 p)
  show ?case
  proof (cases "p = [] \<or> hd p = slash")
    case True with 1 show ?thesis by (auto simp: path_segments.simps [of p] split: if_splits)
  next
    case False
    then have "takeWhile (\<lambda>c. c \<noteq> slash) p \<noteq> []" by (cases p) auto
    with 1 False show ?thesis by (auto simp: path_segments.simps [of p] dest: set_takeWhileD split: if_splits)
  qed
qed

lemma path_segments_seg:
  assumes "plain_seg s" "rest = [] \<or> hd rest = slash"
  shows "path_segments (s @ rest) = s # path_segments rest"
proof -
  have "takeWhile (\<lambda>c. c \<noteq> slash) (s @ rest) = s" "dropWhile (\<lambda>c. c \<noteq> slash) (s @ rest) = rest"
    using assms by (cases rest; auto simp: takeWhile_append dropWhile_append split: if_splits)+
  moreover have "hd s \<noteq> slash" using assms by (metis hd_in_set)
  ultimately show ?thesis using assms by (subst path_segments.simps) simp
qed

lemma path_segments_join: "(\<And>s. s \<in> set ss \<Longrightarrow> plain_seg s) \<Longrightarrow> path_segments (join_slash ss) = ss"
proof (induction ss rule: join_slash.induct)
  case (2 s) then show ?case using path_segments_seg [of s "[]"] by simp
next
  case (3 s s' ss)
  then have "path_segments (join_slash (s' # ss)) = s' # ss" by simp
  then show ?case using 3 path_segments_seg [of s "slash # join_slash (s' # ss)"] by simp
qed simp

definition clean_segs :: "bool \<Rightarrow> string list \<Rightarrow> string list" where
  "clean_segs rooted ss = foldl (clean_step rooted) [] ss"

text \<open>A rooted path loses every dot segment; what is left is a fixed point of the scan.\<close>

definition tidy :: "string list \<Rightarrow> bool" where
  "tidy out \<longleftrightarrow> (\<forall>s\<in>set out. plain_seg s \<and> s \<noteq> ''.'' \<and> s \<noteq> ''..'')"

lemma clean_step_tidy: "tidy out \<Longrightarrow> plain_seg s \<Longrightarrow> tidy (clean_step True out s)"
  by (auto simp: clean_step_def tidy_def dest: in_set_butlastD)

lemma foldl_clean_tidy:
  "tidy out \<Longrightarrow> (\<And>s. s \<in> set ss \<Longrightarrow> plain_seg s) \<Longrightarrow> tidy (foldl (clean_step True) out ss)"
  by (induction ss arbitrary: out) (auto simp: clean_step_tidy)

lemma foldl_clean_fixed: "tidy ss \<Longrightarrow> foldl (clean_step True) out ss = out @ ss"
  by (induction ss arbitrary: out) (auto simp: clean_step_def tidy_def)

lemma path_Clean_rooted:
  assumes "p \<noteq> []" "hd p = slash"
  shows "path_Clean p = slash # join_slash (clean_segs True (path_segments p))"
    and "tidy (clean_segs True (path_segments p))"
  using assms foldl_clean_tidy [of "[]" "path_segments p"] path_segments_plain [of _ p]
  by (auto simp: path_Clean_def Let_def clean_segs_def tidy_def [of "[]"])

lemma path_segments_Clean_rooted:
  "p \<noteq> [] \<Longrightarrow> hd p = slash \<Longrightarrow> path_segments (path_Clean p) = clean_segs True (path_segments p)"
  using path_Clean_rooted [of p] by (simp add: path_segments_join tidy_def)

lemma foldl_clean_plain:
  "list_all plain_seg out \<Longrightarrow> list_all plain_seg ss \<Longrightarrow> list_all plain_seg (foldl (clean_step rooted) out ss)"
proof (induction ss arbitrary: out)
  case (Cons s ss)
  have "list_all plain_seg (clean_step rooted out s)"
    using Cons.prems by (auto simp: clean_step_def list_all_iff dest: in_set_butlastD)
  with Cons show ?case by simp
qed simp

lemma path_Clean_relative:
  assumes "p = [] \<or> hd p \<noteq> slash"
  shows "path_Clean p \<noteq> [] \<and> hd (path_Clean p) \<noteq> slash"
proof -
  have first: "join_slash ss \<noteq> [] \<and> hd (join_slash ss) \<noteq> slash" if "ss \<noteq> []" "\<And>s. s \<in> set ss \<Longrightarrow> plain_seg s" for ss
  proof (cases ss)
    case (Cons s ss')
    with that have "plain_seg s" by simp
    then have "hd s \<noteq> slash" by (metis hd_in_set)
    with Cons \<open>plain_seg s\<close> show ?thesis by (cases ss') auto
  qed (use that in simp)
  show ?thesis
  proof (cases "p = []")
    case False
    let ?out = "foldl (clean_step False) [] (path_segments p)"
    have "list_all plain_seg ?out"
      by (rule foldl_clean_plain) (simp_all add: list_all_iff path_segments_plain)
    then have "?out \<noteq> [] \<Longrightarrow> join_slash ?out \<noteq> [] \<and> hd (join_slash ?out) \<noteq> slash"
      by (intro first) (auto simp: list_all_iff)
    with False assms show ?thesis by (simp add: path_Clean_def Let_def)
  qed (simp add: path_Clean_def)
qed

text \<open>Cleaning an absolute request path is idempotent.\<close>
theorem path_Clean_idem: "path_Clean (path_Clean (slash # p)) = path_Clean (slash # p)"
proof -
  let ?q = "path_Clean (slash # p)"
  have q: "?q = slash # join_slash (clean_segs True (path_segments p))" and "tidy (clean_segs True (path_segments p))"
    using path_Clean_rooted [of "slash # p"] by simp_all
  moreover have "path_segments ?q = clean_segs True (path_segments p)"
    using path_segments_Clean_rooted [of "slash # p"] by simp
  ultimately have "clean_segs True (path_segments ?q) = clean_segs True (path_segments p)"
    by (simp add: clean_segs_def foldl_clean_fixed)
  then show ?thesis using path_Clean_rooted(1) [of ?q] by (simp add: q)
qed

section \<open>The lookup against the route list\<close>

lemma trie_walk_atRoot:
  "trie_walk path pos node r b = Some (n, r', b') \<Longrightarrow> b' = (b \<and> path_segments (drop pos path) = [])"
proof (induction pos arbitrary: node r b rule: walk_induct [where path = path])
  case (seg pos)
  then show ?case by (auto simp: trie_walk_seg path_segments_at drop_seg_end split: option.splits)
qed (simp_all add: trie_walk_end trie_walk_slash path_segments_at_slash)

definition routed :: "'p routeEntry list \<Rightarrow> string \<Rightarrow> string \<Rightarrow> 'p trieLeaf option" where
  "routed rs meth p =
     (if p = [] \<or> hd p \<noteq> slash then None
      else case resolve rs [] (clean_segs True (path_segments p)) of
             None \<Rightarrow> None
           | Some ps \<Rightarrow> last_route rs ps meth)"

lemma routeTrie_match_leaf:
  "routeTrie_match t meth p =
     (if p = [] \<or> hd p \<noteq> slash then None else routeTrie_match t meth p)"
  using path_Clean_relative [of p] by (auto simp: routeTrie_match_def Let_def hd_conv_nth)

lemma routeTrie_match_routed:
  "map_option tm_leaf (routeTrie_match (build_trie rs) meth p) = map_option Some (routed rs meth p)"
proof (cases "p = [] \<or> hd p \<noteq> slash")
  case True then show ?thesis using routeTrie_match_leaf [of "build_trie rs" meth p] by (simp add: routed_def)
next
  case False
  let ?q = "path_Clean p" and ?ss = "clean_segs True (path_segments p)"
  have q: "?q = slash # join_slash ?ss" and segs: "path_segments ?q = ?ss" and "tidy ?ss"
    using False path_Clean_rooted [of p] path_segments_Clean_rooted [of p] by simp_all
  have walk: "map_option fst (trie_walk ?q 0 (build_trie rs) r True) =
      (case resolve rs [] ?ss of None \<Rightarrow> None | Some ps \<Rightarrow> node_at (build_trie rs) ps)" for r
    using trie_walk_node [of ?q 0 "build_trie rs" r True] seg_walk_resolve [of rs "[]" "build_trie rs" ?ss] segs by simp
  have root: "b \<Longrightarrow> ?q = ''/''" if "trie_walk ?q 0 (build_trie rs) r True = Some (n, r', b)" for n r r' b
    using trie_walk_atRoot [OF that] segs by (simp add: q)
  have "hd ?q = slash" "?q ! 0 = slash" by (simp_all add: q)
  let ?r = "\<lparr>tm_leaf = None, indexStart = 0, indexEnd = 0, docStart = 0, docEnd = 0,
    isSystem = (length ?q \<ge> 2 \<and> ?q ! 0 = slash \<and> ?q ! 1 = CHR ''_'')\<rparr>"
  show ?thesis
  proof (cases "trie_walk ?q 0 (build_trie rs) ?r True")
    case None
    with walk [of ?r] show ?thesis
      using False q
      by (auto simp: routed_def routeTrie_match_def Let_def build_trie_no_leaf split: option.splits)
  next
    case (Some w)
    obtain n r' b where w: "w = (n, r', b)" by (cases w) auto
    from Some w root [of ?r n r' b] have "b \<Longrightarrow> ?q = ''/''" by simp
    obtain ps where ps: "resolve rs [] ?ss = Some ps" "node_at (build_trie rs) ps = Some n"
      using walk [of ?r] Some w by (auto split: option.splits)
    then have "methods n meth = last_route rs ps meth"
      using build_trie_leaf [of rs ps meth] by (simp add: leaf_at_def)
    then show ?thesis
      using False q Some w ps \<open>b \<Longrightarrow> ?q = ''/''\<close>
      by (auto simp: routed_def routeTrie_match_def Let_def split: option.splits)
  qed
qed

text \<open>C11. A lookup in the trie built from a route list finds the leaf the list prescribes.\<close>
theorem routeTrie_match_refines:
  "map_option tm_leaf (routeTrie_match (build_trie rs) meth p) = map_option Some (routed rs meth p)"
  by (rule routeTrie_match_routed)

text \<open>A lookup changes nothing but the offsets of the two known parameters, and each names one whole segment.\<close>

definition whole_segment :: "string \<Rightarrow> nat \<Rightarrow> nat \<Rightarrow> bool" where
  "whole_segment path a b \<longleftrightarrow>
     0 < a \<and> a < b \<and> b \<le> length path \<and> path ! (a - 1) = slash \<and> slash \<notin> set (take (b - a) (drop a path)) \<and>
     (b < length path \<longrightarrow> path ! b = slash)"

definition captured :: "string \<Rightarrow> nat \<Rightarrow> nat \<Rightarrow> bool" where
  "captured path a b \<longleftrightarrow> (a = 0 \<and> b = 0) \<or> whole_segment path a b"

lemma seg_end_le: "seg_end path pos \<le> max pos (length path)"
  using length_takeWhile_le [of "\<lambda>c. c \<noteq> slash" "drop pos path"] by (simp add: seg_end_def)

lemma seg_end_slash: "seg_end path pos < length path \<Longrightarrow> path ! seg_end path pos = slash"
  using nth_length_takeWhile [of "\<lambda>c. c \<noteq> slash" "drop pos path"] by (simp add: seg_end_def)

lemma whole_segment_at:
  assumes "pos < length path" "path ! pos \<noteq> slash" "0 < pos" "path ! (pos - 1) = slash"
  shows "whole_segment path pos (seg_end path pos)"
  unfolding whole_segment_def take_segment
  using assms seg_end_gt [of pos path] seg_end_le [of path pos] seg_end_slash [of path pos]
  by (auto dest: set_takeWhileD)

lemma trie_walk_captures:
  assumes "trie_walk path pos node r b = Some (n, r', b')" "path ! 0 = slash"
    and "pos = 0 \<or> path ! (pos - 1) = slash \<or> \<not> pos < length path \<or> path ! pos = slash"
    and "captured path (indexStart r) (indexEnd r)" "captured path (docStart r) (docEnd r)"
  shows "captured path (indexStart r') (indexEnd r') \<and> captured path (docStart r') (docEnd r') \<and> isSystem r' = isSystem r"
  using assms
proof (induction pos arbitrary: node r b rule: walk_induct [where path = path])
  case (stop pos) then show ?case by (auto simp: trie_walk_end)
next
  case (slash pos) then show ?case by (auto simp: trie_walk_slash)
next
  case (seg pos)
  have pos: "0 < pos" using seg.hyps seg.prems(2) by (cases pos) auto
  then have whole: "captured path pos (seg_end path pos)"
    using seg.hyps seg.prems(3) whole_segment_at [of pos path] by (auto simp: captured_def)
  let ?w = "\<lambda>nm. record_wild nm pos (seg_end path pos) r"
  have wild: "captured path (indexStart (?w nm)) (indexEnd (?w nm))" "captured path (docStart (?w nm)) (docEnd (?w nm))"
    "isSystem (?w nm) = isSystem r" for nm
    using seg.prems(4,5) whole by (simp_all add: record_wild_def)
  have bound: "seg_end path pos = 0 \<or> path ! (seg_end path pos - 1) = slash \<or> \<not> seg_end path pos < length path \<or>
      path ! seg_end path pos = slash"
    using seg_end_slash [of path pos] by blast
  from seg.prems(1) consider
      c where "trie_walk path (seg_end path pos) c r False = Some (n, r', b')"
    | c where "trie_walk path (seg_end path pos) c (?w (wildName c)) False = Some (n, r', b')"
    by (auto simp: trie_walk_seg [OF seg.hyps(1,2)] split: option.splits)
  then show ?case
  proof cases
    case 1 from seg.IH [OF this seg.prems(2) bound seg.prems(4,5)] show ?thesis .
  next
    case (2 c) from seg.IH [OF this seg.prems(2) bound wild(1,2)] show ?thesis by (simp add: wild(3))
  qed
qed

text \<open>The byte offsets of a match cut whole, non-empty segments out of the cleaned path.\<close>
theorem match_captures:
  assumes "routeTrie_match t meth p = Some m"
  shows "captured (path_Clean p) (indexStart m) (indexEnd m) \<and> captured (path_Clean p) (docStart m) (docEnd m) \<and>
    (isSystem m \<longleftrightarrow> 2 \<le> length (path_Clean p) \<and> path_Clean p ! 1 = CHR ''_'')"
proof -
  let ?q = "path_Clean p"
  let ?r = "\<lparr>tm_leaf = None, indexStart = 0, indexEnd = 0, docStart = 0, docEnd = 0,
    isSystem = (length ?q \<ge> 2 \<and> ?q ! 0 = slash \<and> ?q ! 1 = CHR ''_'')\<rparr> :: 'a trieMatch"
  obtain n r' b leaf where "trie_walk ?q 0 t ?r True = Some (n, r', b)" "m = r'\<lparr>tm_leaf := Some leaf\<rparr>" "?q ! 0 = slash"
    using assms by (auto simp: routeTrie_match_def Let_def split: if_splits option.splits prod.splits)
  with trie_walk_captures [of ?q 0 t ?r True n r' b] show ?thesis by (simp add: captured_def)
qed

theorem match_captures_witness:
  "captured (path_Clean ''/logs//_doc/./7'') 1 5 \<and> captured (path_Clean ''/logs//_doc/./7'') 11 12 \<and>
    (False \<longleftrightarrow> 2 \<le> length (path_Clean ''/logs//_doc/./7'') \<and> path_Clean ''/logs//_doc/./7'' ! 1 = CHR ''_'')"
proof -
  let ?leaf = "\<lparr>leaf_policy = (), leaf_operationID = 7, leaf_attrs = 0, leaf_poolName = []\<rparr>"
  let ?t = "routeTrie_add [''GET''] ''/{index}/_doc/{id}'' ?leaf (empty_node [])"
  have "routeTrie_match ?t ''GET'' ''/logs//_doc/./7'' =
      Some \<lparr>tm_leaf = Some ?leaf, indexStart = 1, indexEnd = 5, docStart = 11, docEnd = 12, isSystem = False\<rparr>"
    by code_simp
  from match_captures [OF this] show ?thesis by simp
qed

end
