(* ===== verification/Mux.thy ===== *)
theory Mux
  imports Route_Trie
begin

text \<open>
  Routes and their registration (\<^verbatim>\<open>policy_mux.go\<close>): a pattern is a method and a path, a builder collects the
  attributes of a route, and the multiplexer and the operation classifier (\<^verbatim>\<open>classify.go\<close>) fill their trie from
  a route list. A panic is an error value. A policy is an option: \<^verbatim>\<open>None\<close> is the nil interface.
\<close>

section \<open>Patterns\<close>

definition is_space :: "char \<Rightarrow> bool" where
  "is_space c \<longleftrightarrow> c \<in> {CHR '' '', CHR 0x09, CHR 0x0A, CHR 0x0B, CHR 0x0C, CHR 0x0D}"

fun split_space :: "string \<Rightarrow> string list" where
  "split_space [] = [[]]"
| "split_space (c # cs) =
     (if is_space c then [] # split_space cs
      else case split_space cs of [] \<Rightarrow> [[c]] | w # ws \<Rightarrow> (c # w) # ws)"

text \<open>\<^verbatim>\<open>strings.Fields\<close> of an ASCII string.\<close>

definition strings_Fields :: "string \<Rightarrow> string list" where
  "strings_Fields s = filter (\<lambda>w. w \<noteq> []) (split_space s)"

definition httpMethods :: "string list" where
  "httpMethods = [''GET'', ''HEAD'', ''POST'', ''PUT'', ''PATCH'', ''DELETE'', ''CONNECT'', ''OPTIONS'', ''TRACE'']"

datatype muxError = EmptyPattern | PatternFields | PatternMethod | NilPolicy

definition splitMuxPattern :: "string \<Rightarrow> muxError + string \<times> string" where
  "splitMuxPattern pattern =
     (if pattern = [] then Inl EmptyPattern
      else let routeFields = strings_Fields pattern in
        if length routeFields \<noteq> 2 then Inl PatternFields
        else if routeFields ! 0 \<notin> set httpMethods then Inl PatternMethod
        else Inr (routeFields ! 0, routeFields ! 1))"

section \<open>Routes\<close>

record 'p RouteMux =
  Pattern :: string
  rm_policy :: "'p option"
  rm_operationID :: OperationID
  rm_attrs :: routeAttr
  rm_poolName :: string

definition attrInjectAdaptiveMCSR :: routeAttr where
  "attrInjectAdaptiveMCSR = push_bit 0 1"

definition NewRouteMuxAttrs :: "string \<Rightarrow> 'p option \<Rightarrow> routeAttr \<Rightarrow> muxError + 'p RouteMux" where
  "NewRouteMuxAttrs pattern policy attrs =
     (if policy = None then Inl NilPolicy
      else case splitMuxPattern pattern of
             Inl e \<Rightarrow> Inl e
           | Inr _ \<Rightarrow> Inr \<lparr>Pattern = pattern, rm_policy = policy, rm_operationID = 0, rm_attrs = attrs, rm_poolName = []\<rparr>)"

definition NewRouteMux :: "string \<Rightarrow> 'p option \<Rightarrow> muxError + 'p RouteMux" where
  "NewRouteMux pattern policy = NewRouteMuxAttrs pattern policy 0"

text \<open>The fluent builder.\<close>

record 'p RouteBuilder =
  rb_pattern :: string
  rb_policy :: "'p option"
  rb_operationID :: OperationID
  rb_attrs :: routeAttr
  rb_poolName :: string

definition NewRoute :: "string \<Rightarrow> 'p option \<Rightarrow> 'p RouteBuilder" where
  "NewRoute pattern policy =
     \<lparr>rb_pattern = pattern, rb_policy = policy, rb_operationID = 0, rb_attrs = 0, rb_poolName = []\<rparr>"

definition route_Pool :: "string \<Rightarrow> 'p RouteBuilder \<Rightarrow> 'p RouteBuilder" where
  "route_Pool name b = b\<lparr>rb_poolName := name\<rparr>"

definition route_Op :: "OperationID \<Rightarrow> 'p RouteBuilder \<Rightarrow> 'p RouteBuilder" where
  "route_Op opid b = b\<lparr>rb_operationID := opid\<rparr>"

definition InjectAdaptiveMCSR :: "'p RouteBuilder \<Rightarrow> 'p RouteBuilder" where
  "InjectAdaptiveMCSR b = b\<lparr>rb_attrs := or (rb_attrs b) attrInjectAdaptiveMCSR\<rparr>"

definition MustBuild :: "'p RouteBuilder \<Rightarrow> muxError + 'p RouteMux" where
  "MustBuild b =
     (if rb_policy b = None then Inl NilPolicy
      else case splitMuxPattern (rb_pattern b) of
             Inl e \<Rightarrow> Inl e
           | Inr _ \<Rightarrow> Inr \<lparr>Pattern = rb_pattern b, rm_policy = rb_policy b, rm_operationID = rb_operationID b,
                           rm_attrs = rb_attrs b, rm_poolName = rb_poolName b\<rparr>)"

section \<open>The multiplexer and the classifier\<close>

definition route_leaf :: "'p RouteMux \<Rightarrow> 'p option trieLeaf" where
  "route_leaf r = \<lparr>leaf_policy = rm_policy r, leaf_operationID = rm_operationID r, leaf_attrs = rm_attrs r,
                   leaf_poolName = rm_poolName r\<rparr>"

record 'p MuxPolicy =
  pathTrie :: "'p option trieNode"
  uniquePolicies :: "'p option set"
  mux_policyState :: "32 word"

fun mux_add_routes :: "'p RouteMux list \<Rightarrow> 'p MuxPolicy \<Rightarrow> muxError + 'p MuxPolicy" where
  "mux_add_routes [] p = Inr p"
| "mux_add_routes (r # rs) p =
     (case splitMuxPattern (Pattern r) of
        Inl e \<Rightarrow> Inl e
      | Inr (method, path) \<Rightarrow>
          mux_add_routes rs
            (p\<lparr>uniquePolicies := insert (rm_policy r) (uniquePolicies p),
               pathTrie := routeTrie_add [method] path (route_leaf r) (pathTrie p)\<rparr>))"

definition NewMuxPolicy :: "'p RouteMux list \<Rightarrow> muxError + 'p MuxPolicy" where
  "NewMuxPolicy routes =
     mux_add_routes routes \<lparr>pathTrie = empty_node [], uniquePolicies = {}, mux_policyState = 0\<rparr>"

text \<open>The classifier skips a route whose pattern does not split.\<close>

definition classifier_step :: "'p option trieNode \<Rightarrow> 'p RouteMux \<Rightarrow> 'p option trieNode" where
  "classifier_step t r =
     (case splitMuxPattern (Pattern r) of
        Inl _ \<Rightarrow> t
      | Inr (method, path) \<Rightarrow> routeTrie_add [method] path (route_leaf r) t)"

definition NewOperationClassifier :: "'p RouteMux list \<Rightarrow> 'p option trieNode" where
  "NewOperationClassifier routes = foldl classifier_step (empty_node []) routes"

section \<open>Registration\<close>

text \<open>The entry that a route with a well-formed pattern contributes.\<close>

definition route_entry :: "'p RouteMux \<Rightarrow> 'p option routeEntry option" where
  "route_entry r =
     (case splitMuxPattern (Pattern r) of
        Inl _ \<Rightarrow> None
      | Inr (method, path) \<Rightarrow> Some (method, path, route_leaf r))"

lemma splitMuxPattern_method:
  "splitMuxPattern p = Inr (m, path) \<Longrightarrow> m \<in> set httpMethods \<and> path \<noteq> []"
proof -
  assume "splitMuxPattern p = Inr (m, path)"
  then have "m \<in> set httpMethods" "path = strings_Fields p ! 1" "length (strings_Fields p) = 2"
    by (auto simp: splitMuxPattern_def Let_def split: if_splits)
  moreover then have "path \<in> set (strings_Fields p)" by simp
  ultimately show ?thesis by (auto simp: strings_Fields_def)
qed

lemma MustBuild_wellformed: "MustBuild b = Inr r \<Longrightarrow> route_entry r \<noteq> None"
  by (auto simp: MustBuild_def route_entry_def split: if_splits sum.splits)

lemma mux_add_routes_trie:
  assumes "list_all (\<lambda>r. route_entry r \<noteq> None) rs"
  shows "mux_add_routes rs p =
    Inr (p\<lparr>pathTrie := foldl (\<lambda>t (m, path, leaf). routeTrie_add [m] path leaf t) (pathTrie p) (List.map_filter route_entry rs),
           uniquePolicies := rm_policy ` set rs \<union> uniquePolicies p\<rparr>)"
  using assms
proof (induction rs arbitrary: p)
  case (Cons r rs)
  then obtain m path where "splitMuxPattern (Pattern r) = Inr (m, path)"
    by (auto simp: route_entry_def split: sum.splits)
  with Cons show ?case by (simp add: route_entry_def)
qed (simp add: map_filter_def)

lemma NewOperationClassifier_entries:
  "NewOperationClassifier rs = build_trie (List.map_filter route_entry rs)"
proof -
  have "foldl classifier_step t rs =
      foldl (\<lambda>t (m, path, leaf). routeTrie_add [m] path leaf t) t (List.map_filter route_entry rs)" for t
    by (induction rs arbitrary: t) (auto simp: classifier_step_def route_entry_def map_filter_simps split: sum.splits)
  then show ?thesis by (simp add: NewOperationClassifier_def build_trie_def)
qed

lemma NewMuxPolicy_trie:
  assumes "list_all (\<lambda>r. route_entry r \<noteq> None) rs"
  shows "NewMuxPolicy rs =
    Inr \<lparr>pathTrie = NewOperationClassifier rs, uniquePolicies = rm_policy ` set rs, mux_policyState = 0\<rparr>"
  by (simp add: NewMuxPolicy_def mux_add_routes_trie [OF assms] NewOperationClassifier_entries build_trie_def)

text \<open>A multiplexer that is built from routes of the builder holds the trie that their route list prescribes and
  exactly their policies; the classifier of the same routes holds the same trie.\<close>
theorem NewMuxPolicy_built:
  assumes "list_all (\<lambda>r. route_entry r \<noteq> None) rs"
  shows "NewMuxPolicy rs =
    Inr \<lparr>pathTrie = NewOperationClassifier rs, uniquePolicies = rm_policy ` set rs, mux_policyState = 0\<rparr>"
  by (rule NewMuxPolicy_trie [OF assms])

text \<open>A route list with a malformed pattern makes the constructor panic.\<close>
theorem NewMuxPolicy_panics:
  assumes "\<not> list_all (\<lambda>r. route_entry r \<noteq> None) rs"
  shows "\<exists>e. NewMuxPolicy rs = Inl e"
proof -
  have "\<exists>e. mux_add_routes rs p = Inl e" for p
    using assms by (induction rs arbitrary: p) (auto simp: route_entry_def split: sum.splits)
  then show ?thesis by (simp add: NewMuxPolicy_def)
qed

theorem NewMuxPolicy_panics_witness:
  "\<exists>e. NewMuxPolicy [\<lparr>Pattern = ''/_search'', rm_policy = Some (), rm_operationID = 0, rm_attrs = 0, rm_poolName = []\<rparr>] = Inl e"
proof (rule NewMuxPolicy_panics)
  have "splitMuxPattern ''/_search'' = Inl PatternFields" by code_simp
  then show "\<not> list_all (\<lambda>r. route_entry r \<noteq> None)
      [\<lparr>Pattern = ''/_search'', rm_policy = Some (), rm_operationID = 0, rm_attrs = 0, rm_poolName = []\<rparr>]"
    by (simp add: route_entry_def)
qed

end
