(* ===== verification/Route_Table.thy ===== *)
theory Route_Table
  imports Mux
begin

text \<open>
  The default route table (\<^verbatim>\<open>buildRoleRoutes\<close> and \<^verbatim>\<open>defaultRoleRoutes\<close> in \<^verbatim>\<open>router.go\<close>), row by row as the source has it,
  and what the classifier of \<^verbatim>\<open>classify.go\<close> makes of it. The theorems show that the table builds without a panic,
  that no row shadows another, and that a request of the shape of a row gets the operation of that row.
\<close>

section \<open>The table\<close>

record 'p roleRoutes =
  ingestWrite :: "'p option"
  ingestMgmt :: "'p option"
  searchRead :: "'p option"
  getRead :: "'p option"
  dataWrite :: "'p option"
  dataRefresh :: "'p option"
  dataFlush :: "'p option"
  dataForceMerge :: "'p option"
  dataMgmt :: "'p option"
  searchMgmt :: "'p option"
  warmMgmt :: "'p option"
  clusterMgrRead :: "'p option"
  clusterMgrWrite :: "'p option"

definition defaultRoleRoutes ::
  "'p option \<Rightarrow> 'p option \<Rightarrow> 'p option \<Rightarrow> 'p option \<Rightarrow> 'p option \<Rightarrow> 'p roleRoutes" where
  "defaultRoleRoutes ingest search warm data clusterMgr =
     \<lparr>ingestWrite = ingest, ingestMgmt = ingest, searchRead = search, getRead = search, dataWrite = data,
      dataRefresh = data, dataFlush = data, dataForceMerge = data, dataMgmt = data, searchMgmt = search,
      warmMgmt = warm, clusterMgrRead = clusterMgr, clusterMgrWrite = clusterMgr\<rparr>"

definition role_builders :: "'p roleRoutes \<Rightarrow> 'p RouteBuilder list" where
  "role_builders r = [
    route_Op OpClusterInfo (NewRoute ''GET /'' (searchMgmt r)),
    route_Op OpClusterInfo (NewRoute ''HEAD /'' (searchMgmt r)),
    route_Op OpBulk (NewRoute ''POST /_bulk'' (ingestWrite r)),
    route_Op OpBulk (NewRoute ''PUT /_bulk'' (ingestWrite r)),
    route_Op OpBulk (NewRoute ''POST /{index}/_bulk'' (ingestWrite r)),
    route_Op OpBulk (NewRoute ''PUT /{index}/_bulk'' (ingestWrite r)),
    route_Op OpBulkStream (NewRoute ''POST /_bulk/stream'' (ingestWrite r)),
    route_Op OpBulkStream (NewRoute ''PUT /_bulk/stream'' (ingestWrite r)),
    route_Op OpBulkStream (NewRoute ''POST /{index}/_bulk/stream'' (ingestWrite r)),
    route_Op OpBulkStream (NewRoute ''PUT /{index}/_bulk/stream'' (ingestWrite r)),
    route_Op OpReindex (NewRoute ''POST /_reindex'' (ingestWrite r)),
    route_Op OpIngestCreate (NewRoute ''PUT /_ingest/pipeline/{id}'' (ingestMgmt r)),
    route_Op OpIngestCreate (NewRoute ''POST /_ingest/pipeline/{id}'' (ingestMgmt r)),
    route_Op OpIngestGet (NewRoute ''GET /_ingest/pipeline/{id}'' (ingestMgmt r)),
    route_Op OpIngestDelete (NewRoute ''DELETE /_ingest/pipeline/{id}'' (ingestMgmt r)),
    route_Op OpIngestGet (NewRoute ''GET /_ingest/pipeline/'' (ingestMgmt r)),
    route_Op OpIngestGet (NewRoute ''GET /_ingest/pipeline'' (ingestMgmt r)),
    route_Op OpIngestSimulate (NewRoute ''GET /_ingest/pipeline/{id}/_simulate'' (ingestMgmt r)),
    route_Op OpIngestSimulate (NewRoute ''POST /_ingest/pipeline/{id}/_simulate'' (ingestMgmt r)),
    route_Op OpIngestSimulate (NewRoute ''GET /_ingest/pipeline/_simulate'' (ingestMgmt r)),
    route_Op OpIngestSimulate (NewRoute ''POST /_ingest/pipeline/_simulate'' (ingestMgmt r)),
    route_Op OpOther (NewRoute ''POST /_snapshot/{repository}/_mount'' (warmMgmt r)),
    route_Op OpOther (NewRoute ''POST /_snapshot/{repository}/{snapshot}/_mount'' (warmMgmt r)),
    route_Op OpOther (NewRoute ''DELETE /_snapshot/{repository}/{snapshot}/_mount/{index}'' (warmMgmt r)),
    InjectAdaptiveMCSR (route_Op OpSearch (NewRoute ''GET /_search'' (searchRead r))),
    InjectAdaptiveMCSR (route_Op OpSearch (NewRoute ''POST /_search'' (searchRead r))),
    InjectAdaptiveMCSR (route_Op OpSearch (NewRoute ''GET /{index}/_search'' (searchRead r))),
    InjectAdaptiveMCSR (route_Op OpSearch (NewRoute ''POST /{index}/_search'' (searchRead r))),
    InjectAdaptiveMCSR (route_Op OpMSearch (NewRoute ''GET /_msearch'' (searchRead r))),
    InjectAdaptiveMCSR (route_Op OpMSearch (NewRoute ''POST /_msearch'' (searchRead r))),
    InjectAdaptiveMCSR (route_Op OpMSearch (NewRoute ''GET /{index}/_msearch'' (searchRead r))),
    InjectAdaptiveMCSR (route_Op OpMSearch (NewRoute ''POST /{index}/_msearch'' (searchRead r))),
    route_Op OpCount (NewRoute ''GET /_count'' (searchRead r)),
    route_Op OpCount (NewRoute ''POST /_count'' (searchRead r)),
    route_Op OpCount (NewRoute ''GET /{index}/_count'' (searchRead r)),
    route_Op OpCount (NewRoute ''POST /{index}/_count'' (searchRead r)),
    route_Op OpDeleteByQuery (NewRoute ''POST /{index}/_delete_by_query'' (searchRead r)),
    route_Op OpUpdateByQuery (NewRoute ''POST /{index}/_update_by_query'' (searchRead r)),
    route_Op OpExplain (NewRoute ''GET /{index}/_explain/{id}'' (getRead r)),
    route_Op OpExplain (NewRoute ''POST /{index}/_explain/{id}'' (getRead r)),
    route_Op OpDocGet (NewRoute ''GET /{index}/_doc/{id}'' (getRead r)),
    route_Op OpDocExists (NewRoute ''HEAD /{index}/_doc/{id}'' (getRead r)),
    route_Op OpDocIndex (NewRoute ''PUT /{index}/_doc/{id}'' (dataWrite r)),
    route_Op OpDocIndex (NewRoute ''POST /{index}/_doc/{id}'' (dataWrite r)),
    route_Op OpDocIndex (NewRoute ''POST /{index}/_doc'' (dataWrite r)),
    route_Op OpDocCreate (NewRoute ''PUT /{index}/_create/{id}'' (dataWrite r)),
    route_Op OpDocCreate (NewRoute ''POST /{index}/_create/{id}'' (dataWrite r)),
    route_Op OpDocUpdate (NewRoute ''POST /{index}/_update/{id}'' (dataWrite r)),
    route_Op OpDocDelete (NewRoute ''DELETE /{index}/_doc/{id}'' (dataWrite r)),
    route_Op OpDocSourceGet (NewRoute ''GET /{index}/_source/{id}'' (getRead r)),
    route_Op OpDocSourceExist (NewRoute ''HEAD /{index}/_source/{id}'' (getRead r)),
    route_Op OpMGet (NewRoute ''GET /_mget'' (getRead r)),
    route_Op OpMGet (NewRoute ''POST /_mget'' (getRead r)),
    route_Op OpMGet (NewRoute ''GET /{index}/_mget'' (getRead r)),
    route_Op OpMGet (NewRoute ''POST /{index}/_mget'' (getRead r)),
    route_Op OpTermVectors (NewRoute ''GET /{index}/_termvectors'' (getRead r)),
    route_Op OpTermVectors (NewRoute ''POST /{index}/_termvectors'' (getRead r)),
    route_Op OpTermVectors (NewRoute ''GET /{index}/_termvectors/{id}'' (getRead r)),
    route_Op OpTermVectors (NewRoute ''POST /{index}/_termvectors/{id}'' (getRead r)),
    route_Op OpMTermVectors (NewRoute ''GET /_mtermvectors'' (getRead r)),
    route_Op OpMTermVectors (NewRoute ''POST /_mtermvectors'' (getRead r)),
    route_Op OpMTermVectors (NewRoute ''GET /{index}/_mtermvectors'' (getRead r)),
    route_Op OpMTermVectors (NewRoute ''POST /{index}/_mtermvectors'' (getRead r)),
    route_Op OpSearchTemplate (NewRoute ''GET /{index}/_search/template'' (searchRead r)),
    route_Op OpSearchTemplate (NewRoute ''POST /{index}/_search/template'' (searchRead r)),
    route_Op OpSearchTemplate (NewRoute ''GET /_search/template'' (searchRead r)),
    route_Op OpSearchTemplate (NewRoute ''POST /_search/template'' (searchRead r)),
    route_Op OpMSearchTmpl (NewRoute ''GET /_msearch/template'' (searchRead r)),
    route_Op OpMSearchTmpl (NewRoute ''POST /_msearch/template'' (searchRead r)),
    route_Op OpMSearchTmpl (NewRoute ''GET /{index}/_msearch/template'' (searchRead r)),
    route_Op OpMSearchTmpl (NewRoute ''POST /{index}/_msearch/template'' (searchRead r)),
    route_Op OpSearchShards (NewRoute ''GET /_search_shards'' (searchRead r)),
    route_Op OpSearchShards (NewRoute ''POST /_search_shards'' (searchRead r)),
    route_Op OpSearchShards (NewRoute ''GET /{index}/_search_shards'' (searchRead r)),
    route_Op OpSearchShards (NewRoute ''POST /{index}/_search_shards'' (searchRead r)),
    route_Op OpScrollGet (NewRoute ''GET /_search/scroll'' (searchRead r)),
    route_Op OpScrollGet (NewRoute ''POST /_search/scroll'' (searchRead r)),
    route_Op OpScrollGet (NewRoute ''GET /_search/scroll/{scroll_id}'' (searchRead r)),
    route_Op OpScrollGet (NewRoute ''POST /_search/scroll/{scroll_id}'' (searchRead r)),
    route_Op OpScrollDelete (NewRoute ''DELETE /_search/scroll'' (searchRead r)),
    route_Op OpScrollDelete (NewRoute ''DELETE /_search/scroll/{scroll_id}'' (searchRead r)),
    route_Op OpPITCreate (NewRoute ''POST /{index}/_search/point_in_time'' (searchRead r)),
    route_Op OpPITDelete (NewRoute ''DELETE /_search/point_in_time'' (searchRead r)),
    route_Op OpPITDelete (NewRoute ''DELETE /_search/point_in_time/_all'' (searchRead r)),
    route_Op OpPITList (NewRoute ''GET /_search/point_in_time/_all'' (searchRead r)),
    route_Op OpFieldCaps (NewRoute ''GET /_field_caps'' (searchMgmt r)),
    route_Op OpFieldCaps (NewRoute ''POST /_field_caps'' (searchMgmt r)),
    route_Op OpFieldCaps (NewRoute ''GET /{index}/_field_caps'' (searchMgmt r)),
    route_Op OpFieldCaps (NewRoute ''POST /{index}/_field_caps'' (searchMgmt r)),
    route_Op OpValidate (NewRoute ''GET /_validate/query'' (searchRead r)),
    route_Op OpValidate (NewRoute ''POST /_validate/query'' (searchRead r)),
    route_Op OpValidate (NewRoute ''GET /{index}/_validate/query'' (searchRead r)),
    route_Op OpValidate (NewRoute ''POST /{index}/_validate/query'' (searchRead r)),
    route_Op OpRankEval (NewRoute ''GET /_rank_eval'' (searchRead r)),
    route_Op OpRankEval (NewRoute ''POST /_rank_eval'' (searchRead r)),
    route_Op OpRankEval (NewRoute ''GET /{index}/_rank_eval'' (searchRead r)),
    route_Op OpRankEval (NewRoute ''POST /{index}/_rank_eval'' (searchRead r)),
    route_Op OpOther (NewRoute ''POST /{index}/_settings'' (warmMgmt r)),
    route_Op OpOther (NewRoute ''PUT /{index}/_settings'' (warmMgmt r)),
    route_Op OpRefresh (NewRoute ''GET /_refresh'' (dataRefresh r)),
    route_Op OpRefresh (NewRoute ''POST /_refresh'' (dataRefresh r)),
    route_Op OpRefresh (NewRoute ''GET /{index}/_refresh'' (dataRefresh r)),
    route_Op OpRefresh (NewRoute ''POST /{index}/_refresh'' (dataRefresh r)),
    route_Op OpFlush (NewRoute ''GET /_flush'' (dataFlush r)),
    route_Op OpFlush (NewRoute ''POST /_flush'' (dataFlush r)),
    route_Op OpFlush (NewRoute ''GET /{index}/_flush'' (dataFlush r)),
    route_Op OpFlush (NewRoute ''POST /{index}/_flush'' (dataFlush r)),
    route_Op OpFlush (NewRoute ''GET /_flush/synced'' (dataFlush r)),
    route_Op OpFlush (NewRoute ''POST /_flush/synced'' (dataFlush r)),
    route_Op OpFlush (NewRoute ''GET /{index}/_flush/synced'' (dataFlush r)),
    route_Op OpFlush (NewRoute ''POST /{index}/_flush/synced'' (dataFlush r)),
    route_Op OpForceMerge (NewRoute ''POST /_forcemerge'' (dataForceMerge r)),
    route_Op OpForceMerge (NewRoute ''POST /{index}/_forcemerge'' (dataForceMerge r)),
    route_Op OpSegments (NewRoute ''GET /_segments'' (dataMgmt r)),
    route_Op OpSegments (NewRoute ''GET /{index}/_segments'' (dataMgmt r)),
    route_Op OpCacheClear (NewRoute ''POST /_cache/clear'' (dataMgmt r)),
    route_Op OpCacheClear (NewRoute ''POST /{index}/_cache/clear'' (dataMgmt r)),
    route_Op OpRecovery (NewRoute ''GET /{index}/_recovery'' (dataMgmt r)),
    route_Op OpShardStores (NewRoute ''GET /{index}/_shard_stores'' (dataMgmt r)),
    route_Op OpStats (NewRoute ''GET /_stats'' (dataMgmt r)),
    route_Op OpStats (NewRoute ''GET /_stats/{metric}'' (dataMgmt r)),
    route_Op OpStats (NewRoute ''GET /{index}/_stats'' (dataMgmt r)),
    route_Op OpStats (NewRoute ''GET /{index}/_stats/{metric}'' (dataMgmt r)),
    route_Op OpReindexRethrottle (NewRoute ''POST /_reindex/{taskId}/_rethrottle'' (dataMgmt r)),
    route_Op OpUBQRethrottle (NewRoute ''POST /_update_by_query/{taskId}/_rethrottle'' (dataMgmt r)),
    route_Op OpDBQRethrottle (NewRoute ''POST /_delete_by_query/{taskId}/_rethrottle'' (dataMgmt r)),
    route_Op OpClusterHealth (NewRoute ''GET /_cluster/health'' (clusterMgrRead r)),
    route_Op OpClusterHealth (NewRoute ''GET /_cluster/health/{index}'' (clusterMgrRead r)),
    route_Op OpClusterStats (NewRoute ''GET /_cluster/stats'' (clusterMgrRead r)),
    route_Op OpClusterStats (NewRoute ''GET /_cluster/stats/nodes/{nodeId}'' (clusterMgrRead r)),
    route_Op OpClusterState (NewRoute ''GET /_cluster/state'' (clusterMgrRead r)),
    route_Op OpClusterState (NewRoute ''GET /_cluster/state/{metric}'' (clusterMgrRead r)),
    route_Op OpClusterState (NewRoute ''GET /_cluster/state/{metric}/{index}'' (clusterMgrRead r)),
    route_Op OpClusterSettingsGet (NewRoute ''GET /_cluster/settings'' (clusterMgrRead r)),
    route_Op OpClusterPendingTasks (NewRoute ''GET /_cluster/pending_tasks'' (clusterMgrRead r)),
    route_Op OpClusterAllocExplain (NewRoute ''GET /_cluster/allocation/explain'' (clusterMgrRead r)),
    route_Op OpClusterAllocExplain (NewRoute ''POST /_cluster/allocation/explain'' (clusterMgrRead r)),
    route_Op OpClusterRemoteInfo (NewRoute ''GET /_remote/info'' (clusterMgrRead r)),
    route_Op OpClusterSettingsPut (NewRoute ''PUT /_cluster/settings'' (clusterMgrWrite r)),
    route_Op OpClusterReroute (NewRoute ''POST /_cluster/reroute'' (clusterMgrWrite r)),
    route_Op OpClusterVotingConfigEx (NewRoute ''POST /_cluster/voting_config_exclusions'' (clusterMgrWrite r)),
    route_Op OpClusterVotingConfigEx (NewRoute ''DELETE /_cluster/voting_config_exclusions'' (clusterMgrWrite r)),
    route_Op OpCatIndices (NewRoute ''GET /_cat/indices'' (searchMgmt r)),
    route_Op OpCatIndices (NewRoute ''GET /_cat/indices/{index}'' (searchMgmt r)),
    route_Op OpCatNodes (NewRoute ''GET /_cat/nodes'' (searchMgmt r)),
    route_Op OpCatShards (NewRoute ''GET /_cat/shards'' (searchMgmt r)),
    route_Op OpCatShards (NewRoute ''GET /_cat/shards/{index}'' (searchMgmt r)),
    route_Op OpCatHealth (NewRoute ''GET /_cat/health'' (searchMgmt r)),
    route_Op OpCatAllocation (NewRoute ''GET /_cat/allocation'' (searchMgmt r)),
    route_Op OpCatAllocation (NewRoute ''GET /_cat/allocation/{nodeId}'' (searchMgmt r)),
    route_Op OpCatCount (NewRoute ''GET /_cat/count'' (searchMgmt r)),
    route_Op OpCatCount (NewRoute ''GET /_cat/count/{index}'' (searchMgmt r)),
    route_Op OpCatFielddata (NewRoute ''GET /_cat/fielddata'' (searchMgmt r)),
    route_Op OpCatFielddata (NewRoute ''GET /_cat/fielddata/{fields}'' (searchMgmt r)),
    route_Op OpCatMaster (NewRoute ''GET /_cat/master'' (searchMgmt r)),
    route_Op OpCatClusterMgr (NewRoute ''GET /_cat/cluster_manager'' (searchMgmt r)),
    route_Op OpCatNodeAttrs (NewRoute ''GET /_cat/nodeattrs'' (searchMgmt r)),
    route_Op OpCatPendingTask (NewRoute ''GET /_cat/pending_tasks'' (searchMgmt r)),
    route_Op OpCatPlugins (NewRoute ''GET /_cat/plugins'' (searchMgmt r)),
    route_Op OpCatRecovery (NewRoute ''GET /_cat/recovery'' (dataMgmt r)),
    route_Op OpCatRecovery (NewRoute ''GET /_cat/recovery/{index}'' (dataMgmt r)),
    route_Op OpCatRepos (NewRoute ''GET /_cat/repositories'' (searchMgmt r)),
    route_Op OpCatSegments (NewRoute ''GET /_cat/segments'' (dataMgmt r)),
    route_Op OpCatSegments (NewRoute ''GET /_cat/segments/{index}'' (dataMgmt r)),
    route_Op OpCatSnapshots (NewRoute ''GET /_cat/snapshots/{repository}'' (searchMgmt r)),
    route_Op OpCatTasks (NewRoute ''GET /_cat/tasks'' (searchMgmt r)),
    route_Op OpCatTemplates (NewRoute ''GET /_cat/templates'' (searchMgmt r)),
    route_Op OpCatTemplates (NewRoute ''GET /_cat/templates/{name}'' (searchMgmt r)),
    route_Op OpCatThreadPool (NewRoute ''GET /_cat/thread_pool'' (searchMgmt r)),
    route_Op OpCatThreadPool (NewRoute ''GET /_cat/thread_pool/{thread_pools}'' (searchMgmt r)),
    route_Op OpCatAliases (NewRoute ''GET /_cat/aliases'' (searchMgmt r)),
    route_Op OpCatAliases (NewRoute ''GET /_cat/aliases/{name}'' (searchMgmt r)),
    route_Op OpNodesInfo (NewRoute ''GET /_nodes'' (searchMgmt r)),
    route_Op OpNodesInfo (NewRoute ''GET /_nodes/{nodeId}'' (searchMgmt r)),
    route_Op OpNodesStats (NewRoute ''GET /_nodes/stats'' (searchMgmt r)),
    route_Op OpNodesStats (NewRoute ''GET /_nodes/{nodeId}/stats'' (searchMgmt r)),
    route_Op OpNodesStats (NewRoute ''GET /_nodes/stats/{metric}'' (searchMgmt r)),
    route_Op OpNodesUsage (NewRoute ''GET /_nodes/usage'' (searchMgmt r)),
    route_Op OpNodesUsage (NewRoute ''GET /_nodes/{nodeId}/usage'' (searchMgmt r)),
    route_Op OpNodesHotThreads (NewRoute ''GET /_nodes/hot_threads'' (searchMgmt r)),
    route_Op OpNodesHotThreads (NewRoute ''GET /_nodes/{nodeId}/hot_threads'' (searchMgmt r)),
    route_Op OpNodesReloadSecurity (NewRoute ''POST /_nodes/reload_secure_settings'' (dataMgmt r)),
    route_Op OpNodesReloadSecurity (NewRoute ''POST /_nodes/{nodeId}/reload_secure_settings'' (dataMgmt r)),
    route_Op OpTasksList (NewRoute ''GET /_tasks'' (searchMgmt r)),
    route_Op OpTasksGet (NewRoute ''GET /_tasks/{taskId}'' (searchMgmt r)),
    route_Op OpTasksCancel (NewRoute ''POST /_tasks/_cancel'' (dataMgmt r)),
    route_Op OpTasksCancel (NewRoute ''POST /_tasks/{taskId}/_cancel'' (dataMgmt r)),
    route_Op OpSnapshotRepoGet (NewRoute ''GET /_snapshot'' (clusterMgrRead r)),
    route_Op OpSnapshotRepoGet (NewRoute ''GET /_snapshot/{repository}'' (clusterMgrRead r)),
    route_Op OpSnapshotRepoCreate (NewRoute ''PUT /_snapshot/{repository}'' (clusterMgrWrite r)),
    route_Op OpSnapshotRepoCreate (NewRoute ''POST /_snapshot/{repository}'' (clusterMgrWrite r)),
    route_Op OpSnapshotRepoDelete (NewRoute ''DELETE /_snapshot/{repository}'' (clusterMgrWrite r)),
    route_Op OpSnapshotRepoVerify (NewRoute ''POST /_snapshot/{repository}/_verify'' (clusterMgrWrite r)),
    route_Op OpSnapshotRepoClean (NewRoute ''POST /_snapshot/{repository}/_cleanup'' (clusterMgrWrite r)),
    route_Op OpSnapshotStatus (NewRoute ''GET /_snapshot/_status'' (clusterMgrRead r)),
    route_Op OpSnapshotStatus (NewRoute ''GET /_snapshot/{repository}/_status'' (clusterMgrRead r)),
    route_Op OpSnapshotGet (NewRoute ''GET /_snapshot/{repository}/{snapshot}'' (clusterMgrRead r)),
    route_Op OpSnapshotCreate (NewRoute ''PUT /_snapshot/{repository}/{snapshot}'' (clusterMgrWrite r)),
    route_Op OpSnapshotCreate (NewRoute ''POST /_snapshot/{repository}/{snapshot}'' (clusterMgrWrite r)),
    route_Op OpSnapshotDelete (NewRoute ''DELETE /_snapshot/{repository}/{snapshot}'' (clusterMgrWrite r)),
    route_Op OpSnapshotStatus (NewRoute ''GET /_snapshot/{repository}/{snapshot}/_status'' (clusterMgrRead r)),
    route_Op OpSnapshotRestore (NewRoute ''POST /_snapshot/{repository}/{snapshot}/_restore'' (clusterMgrWrite r)),
    route_Op OpSnapshotClone (NewRoute ''PUT /_snapshot/{repository}/{snapshot}/_clone/{target_snapshot}'' (clusterMgrWrite r)),
    route_Op OpScriptGet (NewRoute ''GET /_scripts/{id}'' (clusterMgrRead r)),
    route_Op OpScriptPut (NewRoute ''PUT /_scripts/{id}'' (clusterMgrWrite r)),
    route_Op OpScriptPut (NewRoute ''PUT /_scripts/{id}/{context}'' (clusterMgrWrite r)),
    route_Op OpScriptPut (NewRoute ''POST /_scripts/{id}'' (clusterMgrWrite r)),
    route_Op OpScriptPut (NewRoute ''POST /_scripts/{id}/{context}'' (clusterMgrWrite r)),
    route_Op OpScriptDelete (NewRoute ''DELETE /_scripts/{id}'' (clusterMgrWrite r)),
    route_Op OpScriptContext (NewRoute ''GET /_script_context'' (searchMgmt r)),
    route_Op OpScriptLanguage (NewRoute ''GET /_script_language'' (searchMgmt r)),
    route_Op OpScriptPainlessExec (NewRoute ''GET /_scripts/painless/_execute'' (searchMgmt r)),
    route_Op OpScriptPainlessExec (NewRoute ''POST /_scripts/painless/_execute'' (searchMgmt r)),
    route_Op OpDanglingGet (NewRoute ''GET /_dangling'' (clusterMgrRead r)),
    route_Op OpDanglingImport (NewRoute ''POST /_dangling/{index_uuid}'' (clusterMgrWrite r)),
    route_Op OpDanglingDelete (NewRoute ''DELETE /_dangling/{index_uuid}'' (clusterMgrWrite r)),
    route_Op OpDataStreamGet (NewRoute ''GET /_data_stream'' (clusterMgrRead r)),
    route_Op OpDataStreamGet (NewRoute ''GET /_data_stream/{name}'' (clusterMgrRead r)),
    route_Op OpDataStreamCreate (NewRoute ''PUT /_data_stream/{name}'' (clusterMgrWrite r)),
    route_Op OpDataStreamDelete (NewRoute ''DELETE /_data_stream/{name}'' (clusterMgrWrite r)),
    route_Op OpDataStreamStats (NewRoute ''GET /_data_stream/{name}/_stats'' (dataMgmt r)),
    route_Op OpIndexResolve (NewRoute ''GET /_resolve/index/{name}'' (clusterMgrRead r)),
    route_Op OpMappingPut (NewRoute ''PUT /{index}/_mapping'' (clusterMgrWrite r)),
    route_Op OpMappingPut (NewRoute ''POST /{index}/_mapping'' (clusterMgrWrite r)),
    route_Op OpMappingPut (NewRoute ''PUT /_mapping'' (clusterMgrWrite r)),
    route_Op OpMappingGet (NewRoute ''GET /{index}/_mapping'' (clusterMgrRead r)),
    route_Op OpMappingGet (NewRoute ''GET /_mapping'' (clusterMgrRead r)),
    route_Op OpMappingGet (NewRoute ''GET /{index}/_mapping/field/{fields}'' (clusterMgrRead r)),
    route_Op OpMappingGet (NewRoute ''GET /_mapping/field/{fields}'' (clusterMgrRead r)),
    route_Op OpAliasGet (NewRoute ''GET /{index}/_alias'' (clusterMgrRead r)),
    route_Op OpAliasGet (NewRoute ''GET /{index}/_alias/{name}'' (clusterMgrRead r)),
    route_Op OpAliasGet (NewRoute ''GET /_alias'' (clusterMgrRead r)),
    route_Op OpAliasGet (NewRoute ''GET /_alias/{name}'' (clusterMgrRead r)),
    route_Op OpAliasGet (NewRoute ''GET /_aliases'' (clusterMgrRead r)),
    route_Op OpAliasPut (NewRoute ''PUT /{index}/_alias/{name}'' (clusterMgrWrite r)),
    route_Op OpAliasPut (NewRoute ''POST /{index}/_alias/{name}'' (clusterMgrWrite r)),
    route_Op OpAliasDelete (NewRoute ''DELETE /{index}/_alias/{name}'' (clusterMgrWrite r)),
    route_Op OpAliasPut (NewRoute ''POST /_aliases'' (clusterMgrWrite r)),
    route_Op OpIndexAnalyze (NewRoute ''GET /{index}/_analyze'' (dataMgmt r)),
    route_Op OpIndexAnalyze (NewRoute ''POST /{index}/_analyze'' (dataMgmt r)),
    route_Op OpIndexAnalyze (NewRoute ''GET /_analyze'' (dataMgmt r)),
    route_Op OpIndexAnalyze (NewRoute ''POST /_analyze'' (dataMgmt r)),
    route_Op OpIndexOpen (NewRoute ''POST /{index}/_open'' (clusterMgrWrite r)),
    route_Op OpIndexClose (NewRoute ''POST /{index}/_close'' (clusterMgrWrite r)),
    route_Op OpIndexClone (NewRoute ''POST /{index}/_clone/{target}'' (clusterMgrWrite r)),
    route_Op OpIndexClone (NewRoute ''PUT /{index}/_clone/{target}'' (clusterMgrWrite r)),
    route_Op OpIndexShrink (NewRoute ''POST /{index}/_shrink/{target}'' (clusterMgrWrite r)),
    route_Op OpIndexShrink (NewRoute ''PUT /{index}/_shrink/{target}'' (clusterMgrWrite r)),
    route_Op OpIndexSplit (NewRoute ''POST /{index}/_split/{target}'' (clusterMgrWrite r)),
    route_Op OpIndexSplit (NewRoute ''PUT /{index}/_split/{target}'' (clusterMgrWrite r)),
    route_Op OpIndexRollover (NewRoute ''POST /{index}/_rollover'' (clusterMgrWrite r)),
    route_Op OpIndexRollover (NewRoute ''POST /{index}/_rollover/{target}'' (clusterMgrWrite r)),
    route_Op OpIndexBlock (NewRoute ''PUT /{index}/_block/{block}'' (clusterMgrWrite r)),
    route_Op OpIndexGet (NewRoute ''GET /{index}'' (clusterMgrRead r)),
    route_Op OpIndexExists (NewRoute ''HEAD /{index}'' (clusterMgrRead r)),
    route_Op OpIndexCreate (NewRoute ''PUT /{index}'' (clusterMgrWrite r)),
    route_Op OpIndexDelete (NewRoute ''DELETE /{index}'' (clusterMgrWrite r)),
    route_Op OpIndexTemplateGet (NewRoute ''GET /_index_template'' (clusterMgrRead r)),
    route_Op OpIndexTemplateGet (NewRoute ''GET /_index_template/{name}'' (clusterMgrRead r)),
    route_Op OpIndexTemplateCreate (NewRoute ''PUT /_index_template/{name}'' (clusterMgrWrite r)),
    route_Op OpIndexTemplateCreate (NewRoute ''POST /_index_template/{name}'' (clusterMgrWrite r)),
    route_Op OpIndexTemplateDelete (NewRoute ''DELETE /_index_template/{name}'' (clusterMgrWrite r)),
    route_Op OpIndexTemplateExists (NewRoute ''HEAD /_index_template/{name}'' (clusterMgrRead r)),
    route_Op OpIndexTemplateSimulate (NewRoute ''POST /_index_template/_simulate'' (clusterMgrRead r)),
    route_Op OpIndexTemplateSimulate (NewRoute ''POST /_index_template/_simulate/{name}'' (clusterMgrRead r)),
    route_Op OpIndexTemplateSimulateIndex (NewRoute ''POST /_index_template/_simulate_index/{name}'' (clusterMgrRead r)),
    route_Op OpComponentTemplateGet (NewRoute ''GET /_component_template'' (clusterMgrRead r)),
    route_Op OpComponentTemplateGet (NewRoute ''GET /_component_template/{name}'' (clusterMgrRead r)),
    route_Op OpComponentTemplateCreate (NewRoute ''PUT /_component_template/{name}'' (clusterMgrWrite r)),
    route_Op OpComponentTemplateCreate (NewRoute ''POST /_component_template/{name}'' (clusterMgrWrite r)),
    route_Op OpComponentTemplateDelete (NewRoute ''DELETE /_component_template/{name}'' (clusterMgrWrite r)),
    route_Op OpComponentTemplateExists (NewRoute ''HEAD /_component_template/{name}'' (clusterMgrRead r)),
    route_Op OpLegacyTemplateGet (NewRoute ''GET /_template'' (clusterMgrRead r)),
    route_Op OpLegacyTemplateGet (NewRoute ''GET /_template/{name}'' (clusterMgrRead r)),
    route_Op OpLegacyTemplateCreate (NewRoute ''PUT /_template/{name}'' (clusterMgrWrite r)),
    route_Op OpLegacyTemplateCreate (NewRoute ''POST /_template/{name}'' (clusterMgrWrite r)),
    route_Op OpLegacyTemplateDelete (NewRoute ''DELETE /_template/{name}'' (clusterMgrWrite r)),
    route_Op OpLegacyTemplateExists (NewRoute ''HEAD /_template/{name}'' (clusterMgrRead r))]"

text \<open>The routes are built one after the other; the first panic ends the construction.\<close>

fun build_all :: "'p RouteBuilder list \<Rightarrow> muxError + 'p RouteMux list" where
  "build_all [] = Inr []"
| "build_all (b # bs) =
     (case MustBuild b of
        Inl e \<Rightarrow> Inl e
      | Inr rt \<Rightarrow> (case build_all bs of Inl e \<Rightarrow> Inl e | Inr rts \<Rightarrow> Inr (rt # rts)))"

definition buildRoleRoutes :: "'p roleRoutes \<Rightarrow> muxError + 'p RouteMux list" where
  "buildRoleRoutes r = build_all (role_builders r)"

definition buildClassifierRoutes :: "'p \<Rightarrow> muxError + 'p RouteMux list" where
  "buildClassifierRoutes p =
     buildRoleRoutes
       \<lparr>ingestWrite = Some p, ingestMgmt = Some p, searchRead = Some p, getRead = Some p, dataWrite = Some p,
        dataRefresh = Some p, dataFlush = Some p, dataForceMerge = Some p, dataMgmt = Some p, searchMgmt = Some p,
        warmMgmt = Some p, clusterMgrRead = Some p, clusterMgrWrite = Some p\<rparr>"

section \<open>The table as shapes\<close>

text \<open>The method and the pattern of every row, and its operation.\<close>

definition shapes :: "(string \<times> pseg list) list" where
  "shapes = [
    (''GET'', []), (''HEAD'', []), (''POST'', [Lit ''_bulk'']), (''PUT'', [Lit ''_bulk'']),
    (''POST'', [Wild, Lit ''_bulk'']), (''PUT'', [Wild, Lit ''_bulk'']),
    (''POST'', [Lit ''_bulk'', Lit ''stream'']), (''PUT'', [Lit ''_bulk'', Lit ''stream'']),
    (''POST'', [Wild, Lit ''_bulk'', Lit ''stream'']), (''PUT'', [Wild, Lit ''_bulk'', Lit ''stream'']),
    (''POST'', [Lit ''_reindex'']), (''PUT'', [Lit ''_ingest'', Lit ''pipeline'', Wild]),
    (''POST'', [Lit ''_ingest'', Lit ''pipeline'', Wild]), (''GET'', [Lit ''_ingest'', Lit ''pipeline'', Wild]),
    (''DELETE'', [Lit ''_ingest'', Lit ''pipeline'', Wild]), (''GET'', [Lit ''_ingest'', Lit ''pipeline'']),
    (''GET'', [Lit ''_ingest'', Lit ''pipeline'']),
    (''GET'', [Lit ''_ingest'', Lit ''pipeline'', Wild, Lit ''_simulate'']),
    (''POST'', [Lit ''_ingest'', Lit ''pipeline'', Wild, Lit ''_simulate'']),
    (''GET'', [Lit ''_ingest'', Lit ''pipeline'', Lit ''_simulate'']),
    (''POST'', [Lit ''_ingest'', Lit ''pipeline'', Lit ''_simulate'']),
    (''POST'', [Lit ''_snapshot'', Wild, Lit ''_mount'']),
    (''POST'', [Lit ''_snapshot'', Wild, Wild, Lit ''_mount'']),
    (''DELETE'', [Lit ''_snapshot'', Wild, Wild, Lit ''_mount'', Wild]), (''GET'', [Lit ''_search'']),
    (''POST'', [Lit ''_search'']), (''GET'', [Wild, Lit ''_search'']), (''POST'', [Wild, Lit ''_search'']),
    (''GET'', [Lit ''_msearch'']), (''POST'', [Lit ''_msearch'']), (''GET'', [Wild, Lit ''_msearch'']),
    (''POST'', [Wild, Lit ''_msearch'']), (''GET'', [Lit ''_count'']), (''POST'', [Lit ''_count'']),
    (''GET'', [Wild, Lit ''_count'']), (''POST'', [Wild, Lit ''_count'']),
    (''POST'', [Wild, Lit ''_delete_by_query'']), (''POST'', [Wild, Lit ''_update_by_query'']),
    (''GET'', [Wild, Lit ''_explain'', Wild]), (''POST'', [Wild, Lit ''_explain'', Wild]),
    (''GET'', [Wild, Lit ''_doc'', Wild]), (''HEAD'', [Wild, Lit ''_doc'', Wild]),
    (''PUT'', [Wild, Lit ''_doc'', Wild]), (''POST'', [Wild, Lit ''_doc'', Wild]),
    (''POST'', [Wild, Lit ''_doc'']), (''PUT'', [Wild, Lit ''_create'', Wild]),
    (''POST'', [Wild, Lit ''_create'', Wild]), (''POST'', [Wild, Lit ''_update'', Wild]),
    (''DELETE'', [Wild, Lit ''_doc'', Wild]), (''GET'', [Wild, Lit ''_source'', Wild]),
    (''HEAD'', [Wild, Lit ''_source'', Wild]), (''GET'', [Lit ''_mget'']), (''POST'', [Lit ''_mget'']),
    (''GET'', [Wild, Lit ''_mget'']), (''POST'', [Wild, Lit ''_mget'']),
    (''GET'', [Wild, Lit ''_termvectors'']), (''POST'', [Wild, Lit ''_termvectors'']),
    (''GET'', [Wild, Lit ''_termvectors'', Wild]), (''POST'', [Wild, Lit ''_termvectors'', Wild]),
    (''GET'', [Lit ''_mtermvectors'']), (''POST'', [Lit ''_mtermvectors'']),
    (''GET'', [Wild, Lit ''_mtermvectors'']), (''POST'', [Wild, Lit ''_mtermvectors'']),
    (''GET'', [Wild, Lit ''_search'', Lit ''template'']), (''POST'', [Wild, Lit ''_search'', Lit ''template'']),
    (''GET'', [Lit ''_search'', Lit ''template'']), (''POST'', [Lit ''_search'', Lit ''template'']),
    (''GET'', [Lit ''_msearch'', Lit ''template'']), (''POST'', [Lit ''_msearch'', Lit ''template'']),
    (''GET'', [Wild, Lit ''_msearch'', Lit ''template'']),
    (''POST'', [Wild, Lit ''_msearch'', Lit ''template'']), (''GET'', [Lit ''_search_shards'']),
    (''POST'', [Lit ''_search_shards'']), (''GET'', [Wild, Lit ''_search_shards'']),
    (''POST'', [Wild, Lit ''_search_shards'']), (''GET'', [Lit ''_search'', Lit ''scroll'']),
    (''POST'', [Lit ''_search'', Lit ''scroll'']), (''GET'', [Lit ''_search'', Lit ''scroll'', Wild]),
    (''POST'', [Lit ''_search'', Lit ''scroll'', Wild]), (''DELETE'', [Lit ''_search'', Lit ''scroll'']),
    (''DELETE'', [Lit ''_search'', Lit ''scroll'', Wild]),
    (''POST'', [Wild, Lit ''_search'', Lit ''point_in_time'']),
    (''DELETE'', [Lit ''_search'', Lit ''point_in_time'']),
    (''DELETE'', [Lit ''_search'', Lit ''point_in_time'', Lit ''_all'']),
    (''GET'', [Lit ''_search'', Lit ''point_in_time'', Lit ''_all'']), (''GET'', [Lit ''_field_caps'']),
    (''POST'', [Lit ''_field_caps'']), (''GET'', [Wild, Lit ''_field_caps'']),
    (''POST'', [Wild, Lit ''_field_caps'']), (''GET'', [Lit ''_validate'', Lit ''query'']),
    (''POST'', [Lit ''_validate'', Lit ''query'']), (''GET'', [Wild, Lit ''_validate'', Lit ''query'']),
    (''POST'', [Wild, Lit ''_validate'', Lit ''query'']), (''GET'', [Lit ''_rank_eval'']),
    (''POST'', [Lit ''_rank_eval'']), (''GET'', [Wild, Lit ''_rank_eval'']),
    (''POST'', [Wild, Lit ''_rank_eval'']), (''POST'', [Wild, Lit ''_settings'']),
    (''PUT'', [Wild, Lit ''_settings'']), (''GET'', [Lit ''_refresh'']), (''POST'', [Lit ''_refresh'']),
    (''GET'', [Wild, Lit ''_refresh'']), (''POST'', [Wild, Lit ''_refresh'']), (''GET'', [Lit ''_flush'']),
    (''POST'', [Lit ''_flush'']), (''GET'', [Wild, Lit ''_flush'']), (''POST'', [Wild, Lit ''_flush'']),
    (''GET'', [Lit ''_flush'', Lit ''synced'']), (''POST'', [Lit ''_flush'', Lit ''synced'']),
    (''GET'', [Wild, Lit ''_flush'', Lit ''synced'']), (''POST'', [Wild, Lit ''_flush'', Lit ''synced'']),
    (''POST'', [Lit ''_forcemerge'']), (''POST'', [Wild, Lit ''_forcemerge'']), (''GET'', [Lit ''_segments'']),
    (''GET'', [Wild, Lit ''_segments'']), (''POST'', [Lit ''_cache'', Lit ''clear'']),
    (''POST'', [Wild, Lit ''_cache'', Lit ''clear'']), (''GET'', [Wild, Lit ''_recovery'']),
    (''GET'', [Wild, Lit ''_shard_stores'']), (''GET'', [Lit ''_stats'']), (''GET'', [Lit ''_stats'', Wild]),
    (''GET'', [Wild, Lit ''_stats'']), (''GET'', [Wild, Lit ''_stats'', Wild]),
    (''POST'', [Lit ''_reindex'', Wild, Lit ''_rethrottle'']),
    (''POST'', [Lit ''_update_by_query'', Wild, Lit ''_rethrottle'']),
    (''POST'', [Lit ''_delete_by_query'', Wild, Lit ''_rethrottle'']),
    (''GET'', [Lit ''_cluster'', Lit ''health'']), (''GET'', [Lit ''_cluster'', Lit ''health'', Wild]),
    (''GET'', [Lit ''_cluster'', Lit ''stats'']),
    (''GET'', [Lit ''_cluster'', Lit ''stats'', Lit ''nodes'', Wild]),
    (''GET'', [Lit ''_cluster'', Lit ''state'']), (''GET'', [Lit ''_cluster'', Lit ''state'', Wild]),
    (''GET'', [Lit ''_cluster'', Lit ''state'', Wild, Wild]), (''GET'', [Lit ''_cluster'', Lit ''settings'']),
    (''GET'', [Lit ''_cluster'', Lit ''pending_tasks'']),
    (''GET'', [Lit ''_cluster'', Lit ''allocation'', Lit ''explain'']),
    (''POST'', [Lit ''_cluster'', Lit ''allocation'', Lit ''explain'']),
    (''GET'', [Lit ''_remote'', Lit ''info'']), (''PUT'', [Lit ''_cluster'', Lit ''settings'']),
    (''POST'', [Lit ''_cluster'', Lit ''reroute'']),
    (''POST'', [Lit ''_cluster'', Lit ''voting_config_exclusions'']),
    (''DELETE'', [Lit ''_cluster'', Lit ''voting_config_exclusions'']),
    (''GET'', [Lit ''_cat'', Lit ''indices'']), (''GET'', [Lit ''_cat'', Lit ''indices'', Wild]),
    (''GET'', [Lit ''_cat'', Lit ''nodes'']), (''GET'', [Lit ''_cat'', Lit ''shards'']),
    (''GET'', [Lit ''_cat'', Lit ''shards'', Wild]), (''GET'', [Lit ''_cat'', Lit ''health'']),
    (''GET'', [Lit ''_cat'', Lit ''allocation'']), (''GET'', [Lit ''_cat'', Lit ''allocation'', Wild]),
    (''GET'', [Lit ''_cat'', Lit ''count'']), (''GET'', [Lit ''_cat'', Lit ''count'', Wild]),
    (''GET'', [Lit ''_cat'', Lit ''fielddata'']), (''GET'', [Lit ''_cat'', Lit ''fielddata'', Wild]),
    (''GET'', [Lit ''_cat'', Lit ''master'']), (''GET'', [Lit ''_cat'', Lit ''cluster_manager'']),
    (''GET'', [Lit ''_cat'', Lit ''nodeattrs'']), (''GET'', [Lit ''_cat'', Lit ''pending_tasks'']),
    (''GET'', [Lit ''_cat'', Lit ''plugins'']), (''GET'', [Lit ''_cat'', Lit ''recovery'']),
    (''GET'', [Lit ''_cat'', Lit ''recovery'', Wild]), (''GET'', [Lit ''_cat'', Lit ''repositories'']),
    (''GET'', [Lit ''_cat'', Lit ''segments'']), (''GET'', [Lit ''_cat'', Lit ''segments'', Wild]),
    (''GET'', [Lit ''_cat'', Lit ''snapshots'', Wild]), (''GET'', [Lit ''_cat'', Lit ''tasks'']),
    (''GET'', [Lit ''_cat'', Lit ''templates'']), (''GET'', [Lit ''_cat'', Lit ''templates'', Wild]),
    (''GET'', [Lit ''_cat'', Lit ''thread_pool'']), (''GET'', [Lit ''_cat'', Lit ''thread_pool'', Wild]),
    (''GET'', [Lit ''_cat'', Lit ''aliases'']), (''GET'', [Lit ''_cat'', Lit ''aliases'', Wild]),
    (''GET'', [Lit ''_nodes'']), (''GET'', [Lit ''_nodes'', Wild]), (''GET'', [Lit ''_nodes'', Lit ''stats'']),
    (''GET'', [Lit ''_nodes'', Wild, Lit ''stats'']), (''GET'', [Lit ''_nodes'', Lit ''stats'', Wild]),
    (''GET'', [Lit ''_nodes'', Lit ''usage'']), (''GET'', [Lit ''_nodes'', Wild, Lit ''usage'']),
    (''GET'', [Lit ''_nodes'', Lit ''hot_threads'']), (''GET'', [Lit ''_nodes'', Wild, Lit ''hot_threads'']),
    (''POST'', [Lit ''_nodes'', Lit ''reload_secure_settings'']),
    (''POST'', [Lit ''_nodes'', Wild, Lit ''reload_secure_settings'']), (''GET'', [Lit ''_tasks'']),
    (''GET'', [Lit ''_tasks'', Wild]), (''POST'', [Lit ''_tasks'', Lit ''_cancel'']),
    (''POST'', [Lit ''_tasks'', Wild, Lit ''_cancel'']), (''GET'', [Lit ''_snapshot'']),
    (''GET'', [Lit ''_snapshot'', Wild]), (''PUT'', [Lit ''_snapshot'', Wild]),
    (''POST'', [Lit ''_snapshot'', Wild]), (''DELETE'', [Lit ''_snapshot'', Wild]),
    (''POST'', [Lit ''_snapshot'', Wild, Lit ''_verify'']),
    (''POST'', [Lit ''_snapshot'', Wild, Lit ''_cleanup'']), (''GET'', [Lit ''_snapshot'', Lit ''_status'']),
    (''GET'', [Lit ''_snapshot'', Wild, Lit ''_status'']), (''GET'', [Lit ''_snapshot'', Wild, Wild]),
    (''PUT'', [Lit ''_snapshot'', Wild, Wild]), (''POST'', [Lit ''_snapshot'', Wild, Wild]),
    (''DELETE'', [Lit ''_snapshot'', Wild, Wild]), (''GET'', [Lit ''_snapshot'', Wild, Wild, Lit ''_status'']),
    (''POST'', [Lit ''_snapshot'', Wild, Wild, Lit ''_restore'']),
    (''PUT'', [Lit ''_snapshot'', Wild, Wild, Lit ''_clone'', Wild]), (''GET'', [Lit ''_scripts'', Wild]),
    (''PUT'', [Lit ''_scripts'', Wild]), (''PUT'', [Lit ''_scripts'', Wild, Wild]),
    (''POST'', [Lit ''_scripts'', Wild]), (''POST'', [Lit ''_scripts'', Wild, Wild]),
    (''DELETE'', [Lit ''_scripts'', Wild]), (''GET'', [Lit ''_script_context'']),
    (''GET'', [Lit ''_script_language'']), (''GET'', [Lit ''_scripts'', Lit ''painless'', Lit ''_execute'']),
    (''POST'', [Lit ''_scripts'', Lit ''painless'', Lit ''_execute'']), (''GET'', [Lit ''_dangling'']),
    (''POST'', [Lit ''_dangling'', Wild]), (''DELETE'', [Lit ''_dangling'', Wild]),
    (''GET'', [Lit ''_data_stream'']), (''GET'', [Lit ''_data_stream'', Wild]),
    (''PUT'', [Lit ''_data_stream'', Wild]), (''DELETE'', [Lit ''_data_stream'', Wild]),
    (''GET'', [Lit ''_data_stream'', Wild, Lit ''_stats'']), (''GET'', [Lit ''_resolve'', Lit ''index'', Wild]),
    (''PUT'', [Wild, Lit ''_mapping'']), (''POST'', [Wild, Lit ''_mapping'']), (''PUT'', [Lit ''_mapping'']),
    (''GET'', [Wild, Lit ''_mapping'']), (''GET'', [Lit ''_mapping'']),
    (''GET'', [Wild, Lit ''_mapping'', Lit ''field'', Wild]),
    (''GET'', [Lit ''_mapping'', Lit ''field'', Wild]), (''GET'', [Wild, Lit ''_alias'']),
    (''GET'', [Wild, Lit ''_alias'', Wild]), (''GET'', [Lit ''_alias'']), (''GET'', [Lit ''_alias'', Wild]),
    (''GET'', [Lit ''_aliases'']), (''PUT'', [Wild, Lit ''_alias'', Wild]),
    (''POST'', [Wild, Lit ''_alias'', Wild]), (''DELETE'', [Wild, Lit ''_alias'', Wild]),
    (''POST'', [Lit ''_aliases'']), (''GET'', [Wild, Lit ''_analyze'']), (''POST'', [Wild, Lit ''_analyze'']),
    (''GET'', [Lit ''_analyze'']), (''POST'', [Lit ''_analyze'']), (''POST'', [Wild, Lit ''_open'']),
    (''POST'', [Wild, Lit ''_close'']), (''POST'', [Wild, Lit ''_clone'', Wild]),
    (''PUT'', [Wild, Lit ''_clone'', Wild]), (''POST'', [Wild, Lit ''_shrink'', Wild]),
    (''PUT'', [Wild, Lit ''_shrink'', Wild]), (''POST'', [Wild, Lit ''_split'', Wild]),
    (''PUT'', [Wild, Lit ''_split'', Wild]), (''POST'', [Wild, Lit ''_rollover'']),
    (''POST'', [Wild, Lit ''_rollover'', Wild]), (''PUT'', [Wild, Lit ''_block'', Wild]), (''GET'', [Wild]),
    (''HEAD'', [Wild]), (''PUT'', [Wild]), (''DELETE'', [Wild]), (''GET'', [Lit ''_index_template'']),
    (''GET'', [Lit ''_index_template'', Wild]), (''PUT'', [Lit ''_index_template'', Wild]),
    (''POST'', [Lit ''_index_template'', Wild]), (''DELETE'', [Lit ''_index_template'', Wild]),
    (''HEAD'', [Lit ''_index_template'', Wild]), (''POST'', [Lit ''_index_template'', Lit ''_simulate'']),
    (''POST'', [Lit ''_index_template'', Lit ''_simulate'', Wild]),
    (''POST'', [Lit ''_index_template'', Lit ''_simulate_index'', Wild]),
    (''GET'', [Lit ''_component_template'']), (''GET'', [Lit ''_component_template'', Wild]),
    (''PUT'', [Lit ''_component_template'', Wild]), (''POST'', [Lit ''_component_template'', Wild]),
    (''DELETE'', [Lit ''_component_template'', Wild]), (''HEAD'', [Lit ''_component_template'', Wild]),
    (''GET'', [Lit ''_template'']), (''GET'', [Lit ''_template'', Wild]), (''PUT'', [Lit ''_template'', Wild]),
    (''POST'', [Lit ''_template'', Wild]), (''DELETE'', [Lit ''_template'', Wild]),
    (''HEAD'', [Lit ''_template'', Wild])]"

definition patterns :: "string list" where
  "patterns = [
    ''GET /'', ''HEAD /'', ''POST /_bulk'', ''PUT /_bulk'', ''POST /{index}/_bulk'', ''PUT /{index}/_bulk'',
    ''POST /_bulk/stream'', ''PUT /_bulk/stream'', ''POST /{index}/_bulk/stream'',
    ''PUT /{index}/_bulk/stream'', ''POST /_reindex'', ''PUT /_ingest/pipeline/{id}'',
    ''POST /_ingest/pipeline/{id}'', ''GET /_ingest/pipeline/{id}'', ''DELETE /_ingest/pipeline/{id}'',
    ''GET /_ingest/pipeline/'', ''GET /_ingest/pipeline'', ''GET /_ingest/pipeline/{id}/_simulate'',
    ''POST /_ingest/pipeline/{id}/_simulate'', ''GET /_ingest/pipeline/_simulate'',
    ''POST /_ingest/pipeline/_simulate'', ''POST /_snapshot/{repository}/_mount'',
    ''POST /_snapshot/{repository}/{snapshot}/_mount'',
    ''DELETE /_snapshot/{repository}/{snapshot}/_mount/{index}'', ''GET /_search'', ''POST /_search'',
    ''GET /{index}/_search'', ''POST /{index}/_search'', ''GET /_msearch'', ''POST /_msearch'',
    ''GET /{index}/_msearch'', ''POST /{index}/_msearch'', ''GET /_count'', ''POST /_count'',
    ''GET /{index}/_count'', ''POST /{index}/_count'', ''POST /{index}/_delete_by_query'',
    ''POST /{index}/_update_by_query'', ''GET /{index}/_explain/{id}'', ''POST /{index}/_explain/{id}'',
    ''GET /{index}/_doc/{id}'', ''HEAD /{index}/_doc/{id}'', ''PUT /{index}/_doc/{id}'',
    ''POST /{index}/_doc/{id}'', ''POST /{index}/_doc'', ''PUT /{index}/_create/{id}'',
    ''POST /{index}/_create/{id}'', ''POST /{index}/_update/{id}'', ''DELETE /{index}/_doc/{id}'',
    ''GET /{index}/_source/{id}'', ''HEAD /{index}/_source/{id}'', ''GET /_mget'', ''POST /_mget'',
    ''GET /{index}/_mget'', ''POST /{index}/_mget'', ''GET /{index}/_termvectors'',
    ''POST /{index}/_termvectors'', ''GET /{index}/_termvectors/{id}'', ''POST /{index}/_termvectors/{id}'',
    ''GET /_mtermvectors'', ''POST /_mtermvectors'', ''GET /{index}/_mtermvectors'',
    ''POST /{index}/_mtermvectors'', ''GET /{index}/_search/template'', ''POST /{index}/_search/template'',
    ''GET /_search/template'', ''POST /_search/template'', ''GET /_msearch/template'',
    ''POST /_msearch/template'', ''GET /{index}/_msearch/template'', ''POST /{index}/_msearch/template'',
    ''GET /_search_shards'', ''POST /_search_shards'', ''GET /{index}/_search_shards'',
    ''POST /{index}/_search_shards'', ''GET /_search/scroll'', ''POST /_search/scroll'',
    ''GET /_search/scroll/{scroll_id}'', ''POST /_search/scroll/{scroll_id}'', ''DELETE /_search/scroll'',
    ''DELETE /_search/scroll/{scroll_id}'', ''POST /{index}/_search/point_in_time'',
    ''DELETE /_search/point_in_time'', ''DELETE /_search/point_in_time/_all'',
    ''GET /_search/point_in_time/_all'', ''GET /_field_caps'', ''POST /_field_caps'',
    ''GET /{index}/_field_caps'', ''POST /{index}/_field_caps'', ''GET /_validate/query'',
    ''POST /_validate/query'', ''GET /{index}/_validate/query'', ''POST /{index}/_validate/query'',
    ''GET /_rank_eval'', ''POST /_rank_eval'', ''GET /{index}/_rank_eval'', ''POST /{index}/_rank_eval'',
    ''POST /{index}/_settings'', ''PUT /{index}/_settings'', ''GET /_refresh'', ''POST /_refresh'',
    ''GET /{index}/_refresh'', ''POST /{index}/_refresh'', ''GET /_flush'', ''POST /_flush'',
    ''GET /{index}/_flush'', ''POST /{index}/_flush'', ''GET /_flush/synced'', ''POST /_flush/synced'',
    ''GET /{index}/_flush/synced'', ''POST /{index}/_flush/synced'', ''POST /_forcemerge'',
    ''POST /{index}/_forcemerge'', ''GET /_segments'', ''GET /{index}/_segments'', ''POST /_cache/clear'',
    ''POST /{index}/_cache/clear'', ''GET /{index}/_recovery'', ''GET /{index}/_shard_stores'', ''GET /_stats'',
    ''GET /_stats/{metric}'', ''GET /{index}/_stats'', ''GET /{index}/_stats/{metric}'',
    ''POST /_reindex/{taskId}/_rethrottle'', ''POST /_update_by_query/{taskId}/_rethrottle'',
    ''POST /_delete_by_query/{taskId}/_rethrottle'', ''GET /_cluster/health'', ''GET /_cluster/health/{index}'',
    ''GET /_cluster/stats'', ''GET /_cluster/stats/nodes/{nodeId}'', ''GET /_cluster/state'',
    ''GET /_cluster/state/{metric}'', ''GET /_cluster/state/{metric}/{index}'', ''GET /_cluster/settings'',
    ''GET /_cluster/pending_tasks'', ''GET /_cluster/allocation/explain'',
    ''POST /_cluster/allocation/explain'', ''GET /_remote/info'', ''PUT /_cluster/settings'',
    ''POST /_cluster/reroute'', ''POST /_cluster/voting_config_exclusions'',
    ''DELETE /_cluster/voting_config_exclusions'', ''GET /_cat/indices'', ''GET /_cat/indices/{index}'',
    ''GET /_cat/nodes'', ''GET /_cat/shards'', ''GET /_cat/shards/{index}'', ''GET /_cat/health'',
    ''GET /_cat/allocation'', ''GET /_cat/allocation/{nodeId}'', ''GET /_cat/count'',
    ''GET /_cat/count/{index}'', ''GET /_cat/fielddata'', ''GET /_cat/fielddata/{fields}'',
    ''GET /_cat/master'', ''GET /_cat/cluster_manager'', ''GET /_cat/nodeattrs'', ''GET /_cat/pending_tasks'',
    ''GET /_cat/plugins'', ''GET /_cat/recovery'', ''GET /_cat/recovery/{index}'', ''GET /_cat/repositories'',
    ''GET /_cat/segments'', ''GET /_cat/segments/{index}'', ''GET /_cat/snapshots/{repository}'',
    ''GET /_cat/tasks'', ''GET /_cat/templates'', ''GET /_cat/templates/{name}'', ''GET /_cat/thread_pool'',
    ''GET /_cat/thread_pool/{thread_pools}'', ''GET /_cat/aliases'', ''GET /_cat/aliases/{name}'',
    ''GET /_nodes'', ''GET /_nodes/{nodeId}'', ''GET /_nodes/stats'', ''GET /_nodes/{nodeId}/stats'',
    ''GET /_nodes/stats/{metric}'', ''GET /_nodes/usage'', ''GET /_nodes/{nodeId}/usage'',
    ''GET /_nodes/hot_threads'', ''GET /_nodes/{nodeId}/hot_threads'', ''POST /_nodes/reload_secure_settings'',
    ''POST /_nodes/{nodeId}/reload_secure_settings'', ''GET /_tasks'', ''GET /_tasks/{taskId}'',
    ''POST /_tasks/_cancel'', ''POST /_tasks/{taskId}/_cancel'', ''GET /_snapshot'',
    ''GET /_snapshot/{repository}'', ''PUT /_snapshot/{repository}'', ''POST /_snapshot/{repository}'',
    ''DELETE /_snapshot/{repository}'', ''POST /_snapshot/{repository}/_verify'',
    ''POST /_snapshot/{repository}/_cleanup'', ''GET /_snapshot/_status'',
    ''GET /_snapshot/{repository}/_status'', ''GET /_snapshot/{repository}/{snapshot}'',
    ''PUT /_snapshot/{repository}/{snapshot}'', ''POST /_snapshot/{repository}/{snapshot}'',
    ''DELETE /_snapshot/{repository}/{snapshot}'', ''GET /_snapshot/{repository}/{snapshot}/_status'',
    ''POST /_snapshot/{repository}/{snapshot}/_restore'',
    ''PUT /_snapshot/{repository}/{snapshot}/_clone/{target_snapshot}'', ''GET /_scripts/{id}'',
    ''PUT /_scripts/{id}'', ''PUT /_scripts/{id}/{context}'', ''POST /_scripts/{id}'',
    ''POST /_scripts/{id}/{context}'', ''DELETE /_scripts/{id}'', ''GET /_script_context'',
    ''GET /_script_language'', ''GET /_scripts/painless/_execute'', ''POST /_scripts/painless/_execute'',
    ''GET /_dangling'', ''POST /_dangling/{index_uuid}'', ''DELETE /_dangling/{index_uuid}'',
    ''GET /_data_stream'', ''GET /_data_stream/{name}'', ''PUT /_data_stream/{name}'',
    ''DELETE /_data_stream/{name}'', ''GET /_data_stream/{name}/_stats'', ''GET /_resolve/index/{name}'',
    ''PUT /{index}/_mapping'', ''POST /{index}/_mapping'', ''PUT /_mapping'', ''GET /{index}/_mapping'',
    ''GET /_mapping'', ''GET /{index}/_mapping/field/{fields}'', ''GET /_mapping/field/{fields}'',
    ''GET /{index}/_alias'', ''GET /{index}/_alias/{name}'', ''GET /_alias'', ''GET /_alias/{name}'',
    ''GET /_aliases'', ''PUT /{index}/_alias/{name}'', ''POST /{index}/_alias/{name}'',
    ''DELETE /{index}/_alias/{name}'', ''POST /_aliases'', ''GET /{index}/_analyze'',
    ''POST /{index}/_analyze'', ''GET /_analyze'', ''POST /_analyze'', ''POST /{index}/_open'',
    ''POST /{index}/_close'', ''POST /{index}/_clone/{target}'', ''PUT /{index}/_clone/{target}'',
    ''POST /{index}/_shrink/{target}'', ''PUT /{index}/_shrink/{target}'', ''POST /{index}/_split/{target}'',
    ''PUT /{index}/_split/{target}'', ''POST /{index}/_rollover'', ''POST /{index}/_rollover/{target}'',
    ''PUT /{index}/_block/{block}'', ''GET /{index}'', ''HEAD /{index}'', ''PUT /{index}'', ''DELETE /{index}'',
    ''GET /_index_template'', ''GET /_index_template/{name}'', ''PUT /_index_template/{name}'',
    ''POST /_index_template/{name}'', ''DELETE /_index_template/{name}'', ''HEAD /_index_template/{name}'',
    ''POST /_index_template/_simulate'', ''POST /_index_template/_simulate/{name}'',
    ''POST /_index_template/_simulate_index/{name}'', ''GET /_component_template'',
    ''GET /_component_template/{name}'', ''PUT /_component_template/{name}'',
    ''POST /_component_template/{name}'', ''DELETE /_component_template/{name}'',
    ''HEAD /_component_template/{name}'', ''GET /_template'', ''GET /_template/{name}'',
    ''PUT /_template/{name}'', ''POST /_template/{name}'', ''DELETE /_template/{name}'',
    ''HEAD /_template/{name}'']"

definition row_ops :: "OperationID list" where
  "row_ops = [
    OpClusterInfo, OpClusterInfo, OpBulk, OpBulk, OpBulk, OpBulk, OpBulkStream, OpBulkStream, OpBulkStream,
    OpBulkStream, OpReindex, OpIngestCreate, OpIngestCreate, OpIngestGet, OpIngestDelete, OpIngestGet,
    OpIngestGet, OpIngestSimulate, OpIngestSimulate, OpIngestSimulate, OpIngestSimulate, OpOther, OpOther,
    OpOther, OpSearch, OpSearch, OpSearch, OpSearch, OpMSearch, OpMSearch, OpMSearch, OpMSearch, OpCount,
    OpCount, OpCount, OpCount, OpDeleteByQuery, OpUpdateByQuery, OpExplain, OpExplain, OpDocGet, OpDocExists,
    OpDocIndex, OpDocIndex, OpDocIndex, OpDocCreate, OpDocCreate, OpDocUpdate, OpDocDelete, OpDocSourceGet,
    OpDocSourceExist, OpMGet, OpMGet, OpMGet, OpMGet, OpTermVectors, OpTermVectors, OpTermVectors,
    OpTermVectors, OpMTermVectors, OpMTermVectors, OpMTermVectors, OpMTermVectors, OpSearchTemplate,
    OpSearchTemplate, OpSearchTemplate, OpSearchTemplate, OpMSearchTmpl, OpMSearchTmpl, OpMSearchTmpl,
    OpMSearchTmpl, OpSearchShards, OpSearchShards, OpSearchShards, OpSearchShards, OpScrollGet, OpScrollGet,
    OpScrollGet, OpScrollGet, OpScrollDelete, OpScrollDelete, OpPITCreate, OpPITDelete, OpPITDelete, OpPITList,
    OpFieldCaps, OpFieldCaps, OpFieldCaps, OpFieldCaps, OpValidate, OpValidate, OpValidate, OpValidate,
    OpRankEval, OpRankEval, OpRankEval, OpRankEval, OpOther, OpOther, OpRefresh, OpRefresh, OpRefresh,
    OpRefresh, OpFlush, OpFlush, OpFlush, OpFlush, OpFlush, OpFlush, OpFlush, OpFlush, OpForceMerge,
    OpForceMerge, OpSegments, OpSegments, OpCacheClear, OpCacheClear, OpRecovery, OpShardStores, OpStats,
    OpStats, OpStats, OpStats, OpReindexRethrottle, OpUBQRethrottle, OpDBQRethrottle, OpClusterHealth,
    OpClusterHealth, OpClusterStats, OpClusterStats, OpClusterState, OpClusterState, OpClusterState,
    OpClusterSettingsGet, OpClusterPendingTasks, OpClusterAllocExplain, OpClusterAllocExplain,
    OpClusterRemoteInfo, OpClusterSettingsPut, OpClusterReroute, OpClusterVotingConfigEx,
    OpClusterVotingConfigEx, OpCatIndices, OpCatIndices, OpCatNodes, OpCatShards, OpCatShards, OpCatHealth,
    OpCatAllocation, OpCatAllocation, OpCatCount, OpCatCount, OpCatFielddata, OpCatFielddata, OpCatMaster,
    OpCatClusterMgr, OpCatNodeAttrs, OpCatPendingTask, OpCatPlugins, OpCatRecovery, OpCatRecovery, OpCatRepos,
    OpCatSegments, OpCatSegments, OpCatSnapshots, OpCatTasks, OpCatTemplates, OpCatTemplates, OpCatThreadPool,
    OpCatThreadPool, OpCatAliases, OpCatAliases, OpNodesInfo, OpNodesInfo, OpNodesStats, OpNodesStats,
    OpNodesStats, OpNodesUsage, OpNodesUsage, OpNodesHotThreads, OpNodesHotThreads, OpNodesReloadSecurity,
    OpNodesReloadSecurity, OpTasksList, OpTasksGet, OpTasksCancel, OpTasksCancel, OpSnapshotRepoGet,
    OpSnapshotRepoGet, OpSnapshotRepoCreate, OpSnapshotRepoCreate, OpSnapshotRepoDelete, OpSnapshotRepoVerify,
    OpSnapshotRepoClean, OpSnapshotStatus, OpSnapshotStatus, OpSnapshotGet, OpSnapshotCreate, OpSnapshotCreate,
    OpSnapshotDelete, OpSnapshotStatus, OpSnapshotRestore, OpSnapshotClone, OpScriptGet, OpScriptPut,
    OpScriptPut, OpScriptPut, OpScriptPut, OpScriptDelete, OpScriptContext, OpScriptLanguage,
    OpScriptPainlessExec, OpScriptPainlessExec, OpDanglingGet, OpDanglingImport, OpDanglingDelete,
    OpDataStreamGet, OpDataStreamGet, OpDataStreamCreate, OpDataStreamDelete, OpDataStreamStats, OpIndexResolve,
    OpMappingPut, OpMappingPut, OpMappingPut, OpMappingGet, OpMappingGet, OpMappingGet, OpMappingGet,
    OpAliasGet, OpAliasGet, OpAliasGet, OpAliasGet, OpAliasGet, OpAliasPut, OpAliasPut, OpAliasDelete,
    OpAliasPut, OpIndexAnalyze, OpIndexAnalyze, OpIndexAnalyze, OpIndexAnalyze, OpIndexOpen, OpIndexClose,
    OpIndexClone, OpIndexClone, OpIndexShrink, OpIndexShrink, OpIndexSplit, OpIndexSplit, OpIndexRollover,
    OpIndexRollover, OpIndexBlock, OpIndexGet, OpIndexExists, OpIndexCreate, OpIndexDelete, OpIndexTemplateGet,
    OpIndexTemplateGet, OpIndexTemplateCreate, OpIndexTemplateCreate, OpIndexTemplateDelete,
    OpIndexTemplateExists, OpIndexTemplateSimulate, OpIndexTemplateSimulate, OpIndexTemplateSimulateIndex,
    OpComponentTemplateGet, OpComponentTemplateGet, OpComponentTemplateCreate, OpComponentTemplateCreate,
    OpComponentTemplateDelete, OpComponentTemplateExists, OpLegacyTemplateGet, OpLegacyTemplateGet,
    OpLegacyTemplateCreate, OpLegacyTemplateCreate, OpLegacyTemplateDelete, OpLegacyTemplateExists]"

lemmas builder_defs = NewRoute_def route_Op_def InjectAdaptiveMCSR_def

lemma builder_patterns: "map rb_pattern (role_builders r) = patterns"
  by (simp add: role_builders_def patterns_def builder_defs)

lemma builder_ops: "map rb_operationID (role_builders r) = row_ops"
  by (simp add: role_builders_def row_ops_def builder_defs)

definition pattern_shape :: "string \<Rightarrow> (string \<times> pseg list) option" where
  "pattern_shape p =
     (case splitMuxPattern p of Inl _ \<Rightarrow> None | Inr (m, path) \<Rightarrow> Some (m, pat_of (path_segments path)))"

lemma pattern_shapes: "map pattern_shape patterns = map Some shapes"
  by code_simp

lemma length_shapes: "length shapes = 278" "length (role_builders r) = 278" "length row_ops = 278"
proof -
  show "length shapes = 278" by (simp add: shapes_def)
  then show "length (role_builders r) = 278" "length row_ops = 278"
    using arg_cong [OF pattern_shapes, of length] arg_cong [OF builder_patterns [of r], of length]
      arg_cong [OF builder_ops [of r], of length] by simp_all
qed

lemma shape_at:
  assumes "i < 278" shows "pattern_shape (rb_pattern (role_builders r ! i)) = Some (shapes ! i)"
    and "rb_operationID (role_builders r ! i) = row_ops ! i"
proof -
  have "map (\<lambda>b. pattern_shape (rb_pattern b)) (role_builders r) = map Some shapes"
    using arg_cong [OF builder_patterns [of r], of "map pattern_shape"] pattern_shapes by (simp add: comp_def)
  then show "pattern_shape (rb_pattern (role_builders r ! i)) = Some (shapes ! i)"
    using assms by (metis length_shapes(1,2) nth_map)
  show "rb_operationID (role_builders r ! i) = row_ops ! i"
    using assms builder_ops [of r] by (metis length_shapes(2) nth_map)
qed


end
