(* ===== verification/Route_Classify.thy ===== *)
theory Route_Classify
  imports Route_Table "HOL-Library.Multiset"
begin

text \<open>
  The default route table at work: it builds, no row shadows another, and a request of the shape of a row reaches
  the policy and gets the operation of that row.
\<close>

section \<open>Building\<close>

definition built :: "'p RouteBuilder \<Rightarrow> 'p RouteMux" where
  "built b = \<lparr>Pattern = rb_pattern b, rm_policy = rb_policy b, rm_operationID = rb_operationID b,
              rm_attrs = rb_attrs b, rm_poolName = rb_poolName b\<rparr>"

definition no_nil :: "'p roleRoutes \<Rightarrow> bool" where
  "no_nil r \<longleftrightarrow>
     ingestWrite r \<noteq> None \<and> ingestMgmt r \<noteq> None \<and> searchRead r \<noteq> None \<and> getRead r \<noteq> None \<and>
     dataWrite r \<noteq> None \<and> dataRefresh r \<noteq> None \<and> dataFlush r \<noteq> None \<and> dataForceMerge r \<noteq> None \<and>
     dataMgmt r \<noteq> None \<and> searchMgmt r \<noteq> None \<and> warmMgmt r \<noteq> None \<and> clusterMgrRead r \<noteq> None \<and>
     clusterMgrWrite r \<noteq> None"

lemma builders_no_nil: "no_nil r \<Longrightarrow> list_all (\<lambda>b. rb_policy b \<noteq> None) (role_builders r)"
  by (simp add: role_builders_def builder_defs no_nil_def)

lemma build_all_ok:
  "list_all (\<lambda>b. rb_policy b \<noteq> None) bs \<Longrightarrow> list_all (\<lambda>b. pattern_shape (rb_pattern b) \<noteq> None) bs \<Longrightarrow>
    build_all bs = Inr (map built bs)"
  by (induction bs) (auto simp: MustBuild_def built_def pattern_shape_def split: sum.splits)

lemma builders_shaped: "list_all (\<lambda>b. pattern_shape (rb_pattern b) \<noteq> None) (role_builders r)"
  by (simp add: list_all_length length_shapes shape_at)

lemma buildRoleRoutes_ok: "no_nil r \<Longrightarrow> buildRoleRoutes r = Inr (map built (role_builders r))"
  unfolding buildRoleRoutes_def by (rule build_all_ok [OF builders_no_nil builders_shaped])

lemma built_entry:
  assumes "pattern_shape (rb_pattern b) = Some (m, pat)"
  obtains path where "route_entry (built b) = Some (m, path, route_leaf (built b))" "pat_of (path_segments path) = pat"
  using assms by (auto simp: pattern_shape_def route_entry_def built_def split: sum.splits)

text \<open>The entries of the table, one for each row.\<close>

definition route_entries :: "'p roleRoutes \<Rightarrow> 'p option routeEntry list" where
  "route_entries r = map (\<lambda>b. the (route_entry (built b))) (role_builders r)"

lemma map_filter_all: "list_all (\<lambda>x. f x \<noteq> None) xs \<Longrightarrow> List.map_filter f xs = map (\<lambda>x. the (f x)) xs"
  by (induction xs) (auto simp: map_filter_simps)

lemma built_entries: "list_all (\<lambda>rt. route_entry rt \<noteq> None) (map built (role_builders r))"
  using builders_shaped [of r] by (auto simp: list_all_iff pattern_shape_def route_entry_def built_def split: sum.splits)

lemma entries_filter: "List.map_filter route_entry (map built (role_builders r)) = route_entries r"
  using map_filter_all [OF built_entries [of r]] by (simp add: route_entries_def comp_def)

lemma entry_at:
  assumes "i < 278"
  shows "fst (route_entries r ! i) = fst (shapes ! i)" "entry_pat (route_entries r ! i) = snd (shapes ! i)"
    "snd (snd (route_entries r ! i)) = route_leaf (built (role_builders r ! i))"
proof -
  obtain m pat where mp: "shapes ! i = (m, pat)" by force
  with built_entry [of "role_builders r ! i" m pat] shape_at(1) [OF assms, of r]
  obtain path where "route_entry (built (role_builders r ! i)) = Some (m, path, route_leaf (built (role_builders r ! i)))"
      "pat_of (path_segments path) = pat"
    by metis
  moreover have "route_entries r ! i = the (route_entry (built (role_builders r ! i)))"
    using assms by (simp add: route_entries_def length_shapes)
  ultimately show "fst (route_entries r ! i) = fst (shapes ! i)" "entry_pat (route_entries r ! i) = snd (shapes ! i)"
      "snd (snd (route_entries r ! i)) = route_leaf (built (role_builders r ! i))"
    using mp by simp_all
qed

section \<open>No row shadows another\<close>

definition shape_key :: "string \<times> pseg list \<Rightarrow> int" where
  "shape_key s =
     foldl (\<lambda>h c. (h * 31 + of_char c) mod 1000003) 0
       (fst s @ concat (map (\<lambda>p. case p of Wild \<Rightarrow> ''*'' | Lit t \<Rightarrow> CHR ''/'' # t) (snd s)))"

lemma shape_keys:
  "map shape_key shapes = [
    70454, 213338, 728509, 907034, 555700, 89957, 524721, 666899, 856129, 263632, 315934, 966867, 747258,
    796304, 157567, 251493, 251493, 225175, 954797, 155952, 340779, 511151, 312843, 6795, 854547, 695066,
    570011, 626115, 493671, 549775, 673082, 412300, 632811, 337343, 139760, 980282, 90324, 222485, 695952,
    611734, 904640, 239078, 143429, 609172, 148682, 866885, 774973, 611657, 814117, 431254, 733196, 406916,
    42545, 165204, 869739, 245176, 314265, 600477, 742230, 414465, 483554, 615419, 757172, 556882, 507836,
    954229, 178451, 34425, 985382, 716707, 196284, 446391, 588144, 675947, 70275, 283715, 425468, 795183,
    189511, 83364, 584320, 903897, 903476, 564024, 247657, 184656, 573907, 1722, 68467, 361805, 756136, 478020,
    702245, 571088, 486870, 984543, 373791, 681805, 531068, 609819, 665923, 789230, 528448, 314135, 18667,
    821087, 661606, 823103, 892192, 24054, 165807, 481794, 976357, 443063, 4786, 283508, 614916, 301730, 277013,
    539022, 709676, 45971, 425140, 627779, 158616, 296354, 593390, 395078, 173337, 674667, 173323, 373040,
    564249, 115144, 669231, 893100, 622719, 24726, 285707, 420062, 732568, 898299, 523789, 237453, 785175,
    943823, 258468, 248269, 156268, 844338, 643091, 935806, 533863, 549747, 242991, 660531, 373348, 524027,
    419061, 990569, 707591, 408193, 693625, 502354, 315637, 923813, 951422, 494037, 696013, 576382, 652151,
    216663, 774895, 21715, 51520, 939994, 597159, 868351, 756822, 370144, 278198, 975235, 666506, 913533,
    319481, 233562, 904990, 359546, 145935, 910983, 61717, 505252, 177547, 151657, 895065, 168131, 524015,
    240431, 913266, 662809, 633246, 186202, 501347, 30, 831163, 766020, 739251, 916757, 237428, 927019, 955920,
    588667, 773494, 531268, 385084, 828619, 387118, 664, 477259, 381299, 31066, 891642, 778296, 686384, 246177,
    947166, 767755, 53722, 937510, 191415, 933892, 684466, 218425, 773101, 412314, 989996, 941550, 829205,
    156597, 895818, 977189, 33290, 937964, 885283, 438929, 861250, 739102, 831014, 104330, 526651, 926121,
    709709, 221798, 184110, 613502, 467605, 800616, 953634, 562609, 761660, 786834, 25874, 899747, 13724,
    425486, 628929, 349961, 848803, 75890, 723800, 291920, 937642, 715612, 183948, 948996, 99730, 543265, 544123]"
  by code_simp

text \<open>One pattern stands in the table twice, with and without a slash at its end; it is the only repetition.\<close>

lemma shapes_once: "distinct (take 15 shapes @ drop 16 shapes)"
proof -
  have "successively (<) (sort (map shape_key (take 15 shapes @ drop 16 shapes)))"
    unfolding map_append take_map [symmetric] drop_map [symmetric] shape_keys by code_simp
  then have "distinct (map shape_key (take 15 shapes @ drop 16 shapes))"
    by (metis distinct_sort strict_sorted_iff successively_conv_sorted_wrt transp_on_less)
  then show ?thesis unfolding distinct_map by blast
qed

lemma nth_drop_one:
  assumes "i < length xs" "i \<noteq> d"
  shows "(take d xs @ drop (Suc d) xs) ! (if i < d then i else i - 1) = xs ! i"
  using assms by (cases "d < length xs") (auto simp: nth_append min_def)

lemma near_distinct:
  assumes "distinct (take d xs @ drop (Suc d) xs)" "i < length xs" "j < length xs" "xs ! i = xs ! j" "i \<noteq> j"
  shows "i = d \<or> j = d"
proof (rule ccontr)
  assume no: "\<not> (i = d \<or> j = d)"
  let ?k = "\<lambda>i. if i < d then i else i - 1"
  have "?k i \<noteq> ?k j" using no assms(5) by (auto split: if_splits)
  moreover have "?k i < length (take d xs @ drop (Suc d) xs)" "?k j < length (take d xs @ drop (Suc d) xs)"
    using no assms(2,3) by auto
  ultimately have "(take d xs @ drop (Suc d) xs) ! ?k i \<noteq> (take d xs @ drop (Suc d) xs) ! ?k j"
    using nth_eq_iff_index_eq [OF assms(1)] by blast
  then show False
    using assms(2-4) no nth_drop_one [of i xs d] nth_drop_one [of j xs d] by simp
qed

lemma twins: "shapes ! 15 = shapes ! 16" "route_leaf (built (role_builders r ! 15)) = route_leaf (built (role_builders r ! 16))"
  by (simp add: shapes_def)
    (simp add: role_builders_def builder_defs built_def route_leaf_def)

lemma same_shape_same_leaf:
  assumes "i < 278" "j < 278" "shapes ! i = shapes ! j"
  shows "route_leaf (built (role_builders r ! i)) = route_leaf (built (role_builders r ! j))"
proof (cases "i = j")
  case False
  have near: "a = 15 \<or> b = 15" if "a < 278" "b < 278" "shapes ! a = shapes ! b" "a \<noteq> b" for a b
    using near_distinct [of 15 shapes a b] shapes_once that by (simp add: length_shapes)
  have "a = 16" if "a < 278" "shapes ! a = shapes ! 15" "a \<noteq> 15" for a
    using near [of a 16] that twins(1) by auto
  with near [of i j] False assms twins(2) [of r] show ?thesis by metis
qed simp

lemma length_entries: "length (route_entries r) = 278"
  by (simp add: route_entries_def length_shapes)

lemma last_route_entries:
  assumes "i < 278" "shapes ! i = (m, pat)"
  shows "last_route (route_entries r) pat m = Some (route_leaf (built (role_builders r ! i)))"
proof -
  have "route_entries r ! i \<in> set (rev (route_entries r))" using assms(1) by (simp add: length_entries)
  moreover have "entry_pat (route_entries r ! i) = pat \<and> fst (route_entries r ! i) = m"
    using assms entry_at [OF assms(1), of r] by simp
  ultimately have "find (\<lambda>e. entry_pat e = pat \<and> fst e = m) (rev (route_entries r)) \<noteq> None"
    unfolding find_None_iff by blast
  then obtain e where e: "find (\<lambda>e. entry_pat e = pat \<and> fst e = m) (rev (route_entries r)) = Some e" by blast
  then have "entry_pat e = pat" "fst e = m" "e \<in> set (route_entries r)"
    by (auto simp: find_Some_iff) (metis length_rev nth_mem set_rev)
  then obtain j where j: "j < 278" "e = route_entries r ! j" by (metis in_set_conv_nth length_entries)
  with \<open>entry_pat e = pat\<close> \<open>fst e = m\<close> assms entry_at [OF j(1), of r] have "shapes ! j = shapes ! i"
    by (metis prod.collapse prod.sel)
  with same_shape_same_leaf [of j i r] entry_at(3) [OF j(1), of r] assms(1) j show ?thesis
    by (simp add: last_route_def e)
qed

section \<open>Requests of the shape of a row\<close>

definition covered_shape :: "pseg list \<Rightarrow> bool" where
  "covered_shape ps \<longleftrightarrow> list_ex (\<lambda>s. prefix ps (snd s)) shapes"

text \<open>A literal segment of the row stands in the request; a parameter is a segment that is no literal at its place.\<close>

fun fits :: "pseg list \<Rightarrow> pseg list \<Rightarrow> string list \<Rightarrow> bool" where
  "fits pre [] [] \<longleftrightarrow> True"
| "fits pre (Lit t # ps) (s # ss) \<longleftrightarrow> s = t \<and> fits (pre @ [Lit t]) ps ss"
| "fits pre (Wild # ps) (s # ss) \<longleftrightarrow> \<not> covered_shape (pre @ [Lit s]) \<and> fits (pre @ [Wild]) ps ss"
| "fits pre _ _ \<longleftrightarrow> False"

lemma covered_entries: "covered (route_entries r) ps = covered_shape ps"
proof -
  have "map entry_pat (route_entries r) = map snd shapes"
    by (rule nth_equalityI) (simp_all add: length_entries length_shapes entry_at)
  then have "list_ex (\<lambda>p. prefix ps p) (map entry_pat (route_entries r)) = list_ex (\<lambda>p. prefix ps p) (map snd shapes)" by simp
  then show ?thesis by (simp add: covered_def covered_shape_def list_ex_iff)
qed

lemma resolve_fits:
  assumes "(m, pre @ pat) \<in> set shapes" "fits pre pat ss"
  shows "resolve (route_entries r) pre ss = Some (pre @ pat)"
  using assms
proof (induction pre pat ss rule: fits.induct)
  case (2 pre t ps s ss)
  then have "covered_shape (pre @ [Lit t])"
    by (force simp: covered_shape_def list_ex_iff intro!: bexI [of _ "(m, pre @ Lit t # ps)"])
  with 2 show ?case by (simp add: covered_entries)
next
  case (3 pre ps s ss)
  then have "covered_shape (pre @ [Wild])"
    by (force simp: covered_shape_def list_ex_iff intro!: bexI [of _ "(m, pre @ Wild # ps)"])
  with 3 show ?case by (simp add: covered_entries)
qed simp_all

lemma entries_match:
  assumes "i < 278" "shapes ! i = (m, pat)" "fits [] pat (clean_segs True (path_segments p))"
  shows "\<exists>t. routeTrie_match (build_trie (route_entries r)) m (slash # p) = Some t \<and>
    tm_leaf t = Some (route_leaf (built (role_builders r ! i)))"
proof -
  have "(m, [] @ pat) \<in> set shapes" using assms(1,2) by (metis append_Nil length_shapes(1) nth_mem)
  with assms have "routed (route_entries r) m (slash # p) = Some (route_leaf (built (role_builders r ! i)))"
    by (simp add: routed_def resolve_fits last_route_entries)
  with routeTrie_match_routed [of "route_entries r" m "slash # p"] show ?thesis by auto
qed

lemma default_row:
  assumes "no_nil r" "i < 278" "shapes ! i = (m, pat)" "fits [] pat (clean_segs True (path_segments p))"
  shows "\<exists>rts mux t. buildRoleRoutes r = Inr rts \<and> NewMuxPolicy rts = Inr mux \<and>
    routeTrie_match (pathTrie mux) m (slash # p) = Some t \<and>
    tm_leaf t = Some \<lparr>leaf_policy = rb_policy (role_builders r ! i), leaf_operationID = row_ops ! i,
                      leaf_attrs = rb_attrs (role_builders r ! i), leaf_poolName = rb_poolName (role_builders r ! i)\<rparr>"
proof -
  let ?rts = "map built (role_builders r)"
  have "NewMuxPolicy ?rts =
      Inr \<lparr>pathTrie = NewOperationClassifier ?rts, uniquePolicies = rm_policy ` set ?rts, mux_policyState = 0\<rparr>"
    by (simp only: NewMuxPolicy_trie [OF built_entries])
  moreover obtain t where "routeTrie_match (NewOperationClassifier ?rts) m (slash # p) = Some t"
      "tm_leaf t = Some (route_leaf (built (role_builders r ! i)))"
    using entries_match [OF assms(2-4), of r] by (auto simp: NewOperationClassifier_entries entries_filter)
  moreover have "route_leaf (built (role_builders r ! i)) =
      \<lparr>leaf_policy = rb_policy (role_builders r ! i), leaf_operationID = row_ops ! i,
       leaf_attrs = rb_attrs (role_builders r ! i), leaf_poolName = rb_poolName (role_builders r ! i)\<rparr>"
    using shape_at(2) [OF assms(2), of r] by (simp add: route_leaf_def built_def)
  ultimately show ?thesis using buildRoleRoutes_ok [OF assms(1)] by fastforce
qed

text \<open>The default table builds for any set of role policies, and a request of the shape of its \<^verbatim>\<open>i\<close>-th row reaches
  the policy that row names, with its attributes.\<close>
theorem default_routes_match:
  assumes "no_nil r" "i < 278" "shapes ! i = (m, pat)" "fits [] pat (clean_segs True (path_segments p))"
  shows "\<exists>rts mux t. buildRoleRoutes r = Inr rts \<and> NewMuxPolicy rts = Inr mux \<and>
    routeTrie_match (pathTrie mux) m (slash # p) = Some t \<and>
    tm_leaf t = Some \<lparr>leaf_policy = rb_policy (role_builders r ! i), leaf_operationID = row_ops ! i,
                      leaf_attrs = rb_attrs (role_builders r ! i), leaf_poolName = rb_poolName (role_builders r ! i)\<rparr>"
  by (rule default_row [OF assms])

text \<open>The classifier of the default table.\<close>

definition default_classifier :: "'p \<Rightarrow> 'p option trieNode" where
  "default_classifier p =
     (case buildClassifierRoutes p of Inr rts \<Rightarrow> NewOperationClassifier rts | Inl _ \<Rightarrow> empty_node [])"

abbreviation null_roles :: "'p \<Rightarrow> 'p roleRoutes" where
  "null_roles p \<equiv>
     \<lparr>ingestWrite = Some p, ingestMgmt = Some p, searchRead = Some p, getRead = Some p, dataWrite = Some p,
      dataRefresh = Some p, dataFlush = Some p, dataForceMerge = Some p, dataMgmt = Some p, searchMgmt = Some p,
      warmMgmt = Some p, clusterMgrRead = Some p, clusterMgrWrite = Some p\<rparr>"

lemma default_classifier_trie: "default_classifier p = build_trie (route_entries (null_roles p))"
proof -
  have "no_nil (null_roles p)" by (simp add: no_nil_def)
  from buildRoleRoutes_ok [OF this] show ?thesis
    by (simp add: default_classifier_def buildClassifierRoutes_def NewOperationClassifier_entries entries_filter)
qed

lemma Classify_row:
  assumes "i < 278" "shapes ! i = (m, pat)" "fits [] pat (clean_segs True (path_segments p))"
  shows "Classify (default_classifier q) m (slash # p) = row_ops ! i"
proof -
  obtain t where "routeTrie_match (default_classifier q) m (slash # p) = Some t"
      "tm_leaf t = Some (route_leaf (built (role_builders (null_roles q) ! i)))"
    using entries_match [OF assms, of "null_roles q"] by (auto simp: default_classifier_trie)
  then show ?thesis
    using shape_at(2) [OF assms(1), of "null_roles q"] by (simp add: Classify_def route_leaf_def built_def)
qed

lemma Classify_routed:
  "Classify (default_classifier q) m p =
     (case routed (route_entries (null_roles q)) m p of Some l \<Rightarrow> leaf_operationID l | None \<Rightarrow> OpOther)"
  using routeTrie_match_routed [of "route_entries (null_roles q)" m p]
  by (auto simp: Classify_def default_classifier_trie split: option.splits)

text \<open>A request of the shape of a row is classified as the operation of that row.\<close>
theorem classify_default:
  assumes "i < 278" "shapes ! i = (m, pat)" "fits [] pat (clean_segs True (path_segments p))"
  shows "Classify (default_classifier q) m (slash # p) = row_ops ! i"
  by (rule Classify_row [OF assms])

section \<open>Index names\<close>

lemma root_literals: "list_all (\<lambda>s. case snd s of Lit t # _ \<Rightarrow> t \<noteq> [] \<and> hd t = CHR ''_'' | _ \<Rightarrow> True) shapes"
  by (simp add: shapes_def)

lemma index_not_covered: "hd s \<noteq> CHR ''_'' \<Longrightarrow> \<not> covered_shape [Lit s]"
  using root_literals by (fastforce simp: covered_shape_def list_ex_iff list_all_iff prefix_def split: list.splits)

lemma doc_not_covered: "\<not> covered_shape [Wild, Lit ''_doc'', Lit t]"
  by (simp add: covered_shape_def shapes_def)

lemma shape_rows:
  "shapes ! 4 = (''POST'', [Wild, Lit ''_bulk''])" "shapes ! 26 = (''GET'', [Wild, Lit ''_search''])"
  "shapes ! 40 = (''GET'', [Wild, Lit ''_doc'', Wild])" "shapes ! 253 = (''GET'', [Wild])"
  "shapes ! 255 = (''PUT'', [Wild])" "shapes ! 196 = (''GET'', [Lit ''_snapshot'', Wild, Wild])"
  by (simp_all add: shapes_def)

lemma op_rows:
  "row_ops ! 4 = OpBulk" "row_ops ! 26 = OpSearch" "row_ops ! 40 = OpDocGet" "row_ops ! 253 = OpIndexGet"
  "row_ops ! 255 = OpIndexCreate" "row_ops ! 196 = OpSnapshotGet"
  by (simp_all add: row_ops_def)

lemma clean_index_path:
  assumes "tidy [idx]" "tidy ss"
  shows "clean_segs True (path_segments (join_slash (idx # ss))) = idx # ss"
proof -
  have tidy: "tidy (idx # ss)" using assms by (simp add: tidy_def)
  then have "path_segments (join_slash (idx # ss)) = idx # ss"
    unfolding tidy_def by (intro path_segments_join) blast
  with foldl_clean_fixed [OF tidy, of "[]"] show ?thesis by (simp add: clean_segs_def)
qed

text \<open>A search, a bulk request and a document read on any index whose name does not start with an underscore are
  classified as such, whatever the name and the document identifier; so is the creation of the index.\<close>
theorem index_requests:
  assumes "tidy [idx]" "hd idx \<noteq> CHR ''_''" "tidy [docid]"
  shows "Classify (default_classifier q) ''GET'' (''/'' @ idx @ ''/_search'') = OpSearch \<and>
    Classify (default_classifier q) ''POST'' (''/'' @ idx @ ''/_bulk'') = OpBulk \<and>
    Classify (default_classifier q) ''GET'' (''/'' @ idx @ ''/_doc/'' @ docid) = OpDocGet \<and>
    Classify (default_classifier q) ''PUT'' (''/'' @ idx) = OpIndexCreate"
proof -
  note clean = clean_index_path [OF assms(1)] and index = index_not_covered [OF assms(2)]
  have tidy: "tidy [''_search'']" "tidy [''_bulk'']" "tidy [''_doc'', docid]" "tidy []"
    using assms(3) by (simp_all add: tidy_def)
  show ?thesis
    using Classify_row [OF _ shape_rows(2), of "join_slash [idx, ''_search'']" q]
      Classify_row [OF _ shape_rows(1), of "join_slash [idx, ''_bulk'']" q]
      Classify_row [OF _ shape_rows(3), of "join_slash [idx, ''_doc'', docid]" q]
      Classify_row [OF _ shape_rows(5), of "join_slash [idx]" q]
      clean [OF tidy(1)] clean [OF tidy(2)] clean [OF tidy(3)] clean [OF tidy(4)]
      index doc_not_covered [of docid] by (simp add: op_rows)
qed

theorem index_requests_witness:
  "Classify (default_classifier ()) ''GET'' (''/'' @ ''logs-2024'' @ ''/_search'') = OpSearch \<and>
    Classify (default_classifier ()) ''POST'' (''/'' @ ''logs-2024'' @ ''/_bulk'') = OpBulk \<and>
    Classify (default_classifier ()) ''GET'' (''/'' @ ''logs-2024'' @ ''/_doc/'' @ ''7'') = OpDocGet \<and>
    Classify (default_classifier ()) ''PUT'' (''/'' @ ''logs-2024'') = OpIndexCreate"
  by (rule index_requests) (simp_all add: tidy_def)

lemma bare_request:
  assumes "tidy [s]" "\<not> covered_shape [Lit s]"
  shows "Classify (default_classifier q) ''PUT'' (''/'' @ s) = OpIndexCreate"
    and "Classify (default_classifier q) ''GET'' (''/'' @ s) = OpIndexGet"
  using Classify_row [OF _ shape_rows(5), of s q] Classify_row [OF _ shape_rows(4), of s q]
    clean_index_path [OF assms(1), of "[]"] assms(2) by (simp_all add: op_rows tidy_def)

text \<open>The table has no row for the settings of all indices, so the parameter row takes the request: a settings update
  is classified as the creation of an index, and a settings read or a recovery read as a read of an index.\<close>
theorem system_request_as_index:
  "Classify (default_classifier q) ''PUT'' ''/_settings'' = OpIndexCreate \<and>
    Classify (default_classifier q) ''GET'' ''/_settings'' = OpIndexGet \<and>
    Classify (default_classifier q) ''GET'' ''/_recovery'' = OpIndexGet"
proof -
  have "\<not> covered_shape [Lit ''_settings'']" "\<not> covered_shape [Lit ''_recovery'']"
    by (simp_all add: covered_shape_def shapes_def)
  then show ?thesis
    using bare_request [of "''_settings''" q] bare_request(2) [of "''_recovery''" q] by (simp add: tidy_def)
qed

lemma snapshot_fits:
  "fits [] [Lit ''_snapshot'', Wild, Wild] (clean_segs True (path_segments ''_snapshot/./nightly//snap-1''))"
proof -
  have "clean_segs True (path_segments ''_snapshot/./nightly//snap-1'') = [''_snapshot'', ''nightly'', ''snap-1'']"
    by code_simp
  then show ?thesis by (simp add: covered_shape_def shapes_def)
qed

theorem classify_default_witness:
  "Classify (default_classifier ()) ''GET'' (slash # ''_snapshot/./nightly//snap-1'') = row_ops ! 196"
  by (rule classify_default [OF _ shape_rows(6) snapshot_fits]) simp

theorem default_routes_match_witness:
  "\<exists>rts mux t. buildRoleRoutes (null_roles ()) = Inr rts \<and> NewMuxPolicy rts = Inr mux \<and>
    routeTrie_match (pathTrie mux) ''GET'' (slash # ''_snapshot/./nightly//snap-1'') = Some t \<and>
    tm_leaf t = Some \<lparr>leaf_policy = rb_policy (role_builders (null_roles ()) ! 196), leaf_operationID = row_ops ! 196,
                      leaf_attrs = rb_attrs (role_builders (null_roles ()) ! 196),
                      leaf_poolName = rb_poolName (role_builders (null_roles ()) ! 196)\<rparr>"
  by (rule default_routes_match [OF _ _ shape_rows(6) snapshot_fits]) (simp_all add: no_nil_def)

end
