(* ===== verification/Leaf_Policy.thy ===== *)
theory Leaf_Policy
  imports Pool_Theorems Pool_Status Policy_State Go_Strings
begin

text \<open>
  The policies that own a pool: \<^verbatim>\<open>RolePolicy\<close> (\<^verbatim>\<open>policy_role.go\<close>), \<^verbatim>\<open>RoundRobinPolicy\<close> (\<^verbatim>\<open>policy_roundrobin.go\<close>)
  and \<^verbatim>\<open>CoordinatorPolicy\<close> (\<^verbatim>\<open>policy_cluster_coordinator.go\<close>). A policy is its pool, which is absent until the
  policy is configured, and its state word; the connections live in the heap that all pools share. A slice
  argument is an option, so that nil and empty slices differ as they do in the source.
\<close>

section \<open>Role keys\<close>

definition RoleSeparator :: char where "RoleSeparator = CHR '',''"
definition RoleCoordinatingOnly :: string where "RoleCoordinatingOnly = ''coordinating_only''"

datatype role_error = InvalidRoleError string string

definition NormalizeRoles :: "string list \<Rightarrow> role_error + string" where
  "NormalizeRoles roles =
     (if roles = [] then Inr []
      else case find (\<lambda>role. RoleSeparator \<in> set role) roles of
             Some role \<Rightarrow> Inl (InvalidRoleError role [RoleSeparator])
           | None \<Rightarrow> Inr (strings_Join RoleSeparator (sorted_list_of_set (set roles))))"

definition NewRolePolicy :: "string list \<Rightarrow> role_error + string" where
  "NewRolePolicy roles =
     (if roles = [] then Inl (InvalidRoleError ''<empty>'' ''no roles specified'') else NormalizeRoles roles)"

definition connectionMatchesRoles :: "string \<Rightarrow> connection \<Rightarrow> bool" where
  "connectionMatchesRoles requiredRoleKey conn =
     (if requiredRoleKey = [] then False
      else if requiredRoleKey = RoleCoordinatingOnly
      then Roles conn = {} \<or> role_has (Roles conn) RoleCoordinatingOnly
      else list_all (role_has (Roles conn)) (strings_Split RoleSeparator requiredRoleKey))"

definition isCoordinatingOnly :: "connection \<Rightarrow> bool" where
  "isCoordinatingOnly conn \<longleftrightarrow> Roles conn = {} \<or> role_has (Roles conn) RoleCoordinatingOnly"

section \<open>Admitting and removing connections\<close>

text \<open>
  What the three policies do with one new connection: a ready one becomes active and starts its warmup, any other
  goes to the dead list. \<open>now\<close> is the clock.
\<close>

definition admit_ready :: "cid \<Rightarrow> world \<Rightarrow> world" where
  "admit_ready c w =
     (let w = upd_conn c (upd_lc lcActive (lcUnknown OR lcStandby)) w;
          (rounds, skip) = getWarmupParams (pool w);
          w = upd_conn c (startWarmup_conn rounds skip) w
      in appendToReadyActive c w)"

definition admit_dead :: "int \<Rightarrow> cid \<Rightarrow> world \<Rightarrow> world" where
  "admit_dead now c w =
     (let w = upd_conn c (upd_lc (lcDead OR lcNeedsWarmup) (lcReady OR lcActive OR lcStandby OR lcOverloaded)) w
      in appendToDead now c w)"

text \<open>The guard against a second admission, the membership entry and the two cases.\<close>

definition admit :: "(world \<Rightarrow> world) \<Rightarrow> int \<Rightarrow> cid \<Rightarrow> world \<Rightarrow> world" where
  "admit settle now c w =
     (if c \<in> members (pool w) then w
      else let isHealthy = isReady (state (heap w c));
               w = upd_pool (\<lambda>p. p\<lparr>members := insert c (members p)\<rparr>) w
           in if isHealthy then settle (admit_ready c w) else admit_dead now c w)"

definition settle_active :: "(nat \<Rightarrow> nat) \<Rightarrow> world \<Rightarrow> world" where
  "settle_active rnd w = enforceActiveCap rnd (upd_pool (shuffleActive rnd) w)"

text \<open>The loops that filter the two lists by URL; \<open>kept_active\<close> counts what stays below the active count.\<close>

definition kept_active :: "(cid \<Rightarrow> bool) \<Rightarrow> multiServerPool \<Rightarrow> nat" where
  "kept_active gone p = length (filter (\<lambda>c. \<not> gone c) (take (activeCount p) (ready p)))"

definition filter_ready :: "(cid \<Rightarrow> bool) \<Rightarrow> multiServerPool \<Rightarrow> multiServerPool" where
  "filter_ready gone p =
     p\<lparr>ready := filter (\<lambda>c. \<not> gone c) (ready p), activeCount := kept_active gone p,
       members := members p - {c \<in> set (ready p). gone c}\<rparr>"

definition filter_dead :: "(cid \<Rightarrow> bool) \<Rightarrow> multiServerPool \<Rightarrow> multiServerPool" where
  "filter_dead gone p =
     p\<lparr>dead := filter (\<lambda>c. \<not> gone c) (dead p), members := members p - {c \<in> set (dead p). gone c}\<rparr>"

definition gone_by_URL :: "cid list \<Rightarrow> world \<Rightarrow> cid \<Rightarrow> bool" where
  "gone_by_URL removed w c \<longleftrightarrow> URL (heap w c) \<in> set (map (\<lambda>r. URL (heap w r)) removed)"

section \<open>The role policy\<close>

definition count_matching :: "(cid \<Rightarrow> bool) \<Rightarrow> cid list \<Rightarrow> int" where
  "count_matching f cs = int (length (filter f cs))"

abbreviation opt_list :: "'a list option \<Rightarrow> 'a list" where
  "opt_list xs \<equiv> (case xs of None \<Rightarrow> [] | Some ys \<Rightarrow> ys)"

definition role_discoveryUpdateAdd :: "(nat \<Rightarrow> nat) \<Rightarrow> int \<Rightarrow> string \<Rightarrow> cid list \<Rightarrow> world \<Rightarrow> world" where
  "role_discoveryUpdateAdd rnd now key added w =
     fold (\<lambda>c w. if connectionMatchesRoles key (heap w c) then admit (settle_active rnd) now c w else w) added w"

definition role_discoveryUpdateRemove :: "cid list \<Rightarrow> world \<Rightarrow> world" where
  "role_discoveryUpdateRemove removed w =
     (let gone = gone_by_URL removed w in
      if \<not> list_ex gone (ready (pool w)) \<and> \<not> list_ex gone (dead (pool w)) then w
      else let activeCountBefore = activeCount (pool w);
               w = upd_pool (filter_ready gone) w;
               w = upd_pool (filter_dead gone) w;
               gap = int activeCountBefore - int (activeCount (pool w))
           in upd_pool (promoteStandbyGracefully gap) w)"

definition role_DiscoveryUpdate ::
    "(nat \<Rightarrow> nat) \<Rightarrow> int \<Rightarrow> string \<Rightarrow> cid list option \<Rightarrow> cid list option \<Rightarrow> int32 \<times> world \<Rightarrow> int32 \<times> world" where
  "role_DiscoveryUpdate rnd now key added removed = (\<lambda>(ps, w).
     if ps AND psEnvDisabled \<noteq> 0 then (ps, w)
     else let matches = (\<lambda>c. connectionMatchesRoles key (heap w c));
              targetPoolSize = int (length (ready (pool w))) + int (length (dead (pool w)))
                + count_matching matches (opt_list added) - count_matching matches (opt_list removed);
              w = upd_pool (recalculateWarmupParams targetPoolSize) w;
              w = (case added of None \<Rightarrow> w | Some cs \<Rightarrow> role_discoveryUpdateAdd rnd now key cs w);
              w = (case removed of None \<Rightarrow> w | Some cs \<Rightarrow> role_discoveryUpdateRemove cs w)
          in (psSetEnabled (hasAvailableConns w) [] ps, w))"

section \<open>The coordinator and the round-robin policy\<close>

text \<open>
  These two take the pool's lock once. They differ in the connections they admit, in the projected size and in the
  guard of the removal; \<open>gone\<close> is evaluated after the additions, as in the source.
\<close>

definition rr_remove :: "cid list \<Rightarrow> world \<Rightarrow> world" where
  "rr_remove removed w =
     (if removed = [] then w
      else let gone = gone_by_URL removed w;
               activeCountBefore = activeCount (pool w);
               w = upd_pool (filter_ready gone) w;
               w = upd_pool (filter_dead gone) w;
               gap = int activeCountBefore - int (activeCount (pool w))
           in upd_pool (promoteStandbyGracefully gap) w)"

definition rr_DiscoveryUpdate ::
    "(nat \<Rightarrow> nat) \<Rightarrow> int \<Rightarrow> cid list option \<Rightarrow> cid list option \<Rightarrow> int32 \<times> world \<Rightarrow> int32 \<times> world" where
  "rr_DiscoveryUpdate rnd now added removed = (\<lambda>(ps, w).
     if ps AND psEnvDisabled \<noteq> 0 then (ps, w)
     else if added = None \<and> removed = None then (ps, w)
     else let targetPoolSize = int (length (ready (pool w))) + int (length (dead (pool w)))
                + int (length (opt_list added)) - int (length (opt_list removed));
              w = upd_pool (recalculateWarmupParams targetPoolSize) w;
              w = fold (\<lambda>c w. if isDedicatedClusterManager (Roles (heap w c)) then w else admit id now c w)
                    (opt_list added) w;
              w = (if added \<noteq> None then settle_active rnd w else w);
              w = (case removed of None \<Rightarrow> w | Some cs \<Rightarrow> rr_remove cs w)
          in (psSetEnabled (hasAvailableConns w) [] ps, w))"

definition coordinator_remove :: "cid list \<Rightarrow> world \<Rightarrow> world" where
  "coordinator_remove removed w =
     (let gone = gone_by_URL removed w;
          activeCountBefore = activeCount (pool w);
          w = upd_pool (filter_ready gone) w;
          gap = int activeCountBefore - int (activeCount (pool w));
          w = upd_pool (promoteStandbyGracefully gap) w
      in upd_pool (filter_dead gone) w)"

definition coordinator_DiscoveryUpdate ::
    "(nat \<Rightarrow> nat) \<Rightarrow> int \<Rightarrow> cid list option \<Rightarrow> cid list option \<Rightarrow> int32 \<times> world \<Rightarrow> int32 \<times> world" where
  "coordinator_DiscoveryUpdate rnd now added removed = (\<lambda>(ps, w).
     if ps AND psEnvDisabled \<noteq> 0 then (ps, w)
     else if added = None \<and> removed = None then (ps, w)
     else let coord = (\<lambda>c. isCoordinatingOnly (heap w c));
              targetPoolSize = int (length (ready (pool w))) + int (length (dead (pool w)))
                + count_matching coord (opt_list added) - count_matching coord (opt_list removed);
              w = upd_pool (recalculateWarmupParams targetPoolSize) w;
              w = fold (\<lambda>c w. if \<not> isCoordinatingOnly (heap w c) then w else admit id now c w) (opt_list added) w;
              w = (if added \<noteq> None then settle_active rnd w else w);
              w = (case removed of None \<Rightarrow> w | Some cs \<Rightarrow> coordinator_remove cs w)
          in (psSetEnabled (hasAvailableConns w) [] ps, w))"

section \<open>Evaluation\<close>

text \<open>
  The common \<^verbatim>\<open>Eval\<close> of the three: nothing when an operator has disabled the policy or discovery has not enabled
  it, and otherwise the next connection of the pool. A nil pool is \<^verbatim>\<open>None\<close>; the role and the coordinator policy do not
  test for it, but their enabled bit is only set once the pool exists.
\<close>

definition leaf_Eval ::
    "(world \<Rightarrow> (pool_error + cid) \<times> world) \<Rightarrow> int32 \<Rightarrow> world \<Rightarrow> (pool_error + cid option) \<times> world" where
  "leaf_Eval nxt ps w =
     (if ps AND psEnvDisabled \<noteq> 0 then (Inr None, w)
      else if ps AND psEnabled = 0 then (Inr None, w)
      else case nxt w of
             (Inl e, w) \<Rightarrow> (Inl e, w)
           | (Inr c, w) \<Rightarrow> (Inr (Some c), w))"

section \<open>Identity and membership\<close>

text \<open>No pool operation touches the URL or the roles of a connection.\<close>

definition same_identity :: "world \<Rightarrow> world \<Rightarrow> bool" where
  "same_identity w w' \<longleftrightarrow> (\<forall>x. URL (heap w' x) = URL (heap w x) \<and> Roles (heap w' x) = Roles (heap w x))"

lemma same_identity_refl [simp, intro]: "same_identity w w"
  by (simp add: same_identity_def)

lemma same_identity_trans: "same_identity w w1 \<Longrightarrow> same_identity w1 w2 \<Longrightarrow> same_identity w w2"
  by (simp add: same_identity_def)

lemma identity_fields [simp]:
  "URL (upd_lc a b c) = URL c" "Roles (upd_lc a b c) = Roles c"
  "URL (startWarmup_conn r k c) = URL c" "Roles (startWarmup_conn r k c) = Roles c"
  "URL (storeDeadSince t c) = URL c" "Roles (storeDeadSince t c) = Roles c"
  "URL (demote_to_standby c) = URL c" "Roles (demote_to_standby c) = Roles c"
  by (simp_all add: upd_lc_def startWarmup_conn_def storeDeadSince_def demote_to_standby_def clearWarmup_conn_def)

lemma same_identity_upd_pool [simp]: "same_identity w (upd_pool f w') = same_identity w w'"
  by (simp add: same_identity_def pool_simps)

lemma same_identity_upd_conn:
  "(\<And>x. URL (f x) = URL x \<and> Roles (f x) = Roles x) \<Longrightarrow> same_identity w (upd_conn c f w)"
  by (auto simp: same_identity_def pool_simps)

lemma same_identity_appends [simp]:
  "same_identity w (appendToReadyActive c w')  = same_identity w w'"
  by (simp add: appendToReadyActive_def Let_def)

lemma same_identity_appendToDead: "same_identity w (appendToDead now c w)"
  by (auto simp: same_identity_def appendToDead_def Let_def pool_simps)

lemma fold_demote_identity:
  "URL (heap (fold (\<lambda>i w. upd_conn (g i) demote_to_standby w) is w) x) = URL (heap w x)"
  "Roles (heap (fold (\<lambda>i w. upd_conn (g i) demote_to_standby w) is w) x) = Roles (heap w x)"
  using fold_upd_conn_keeps [of "\<lambda>c. URL c = URL (heap w x)" demote_to_standby w x g "is"]
    fold_upd_conn_keeps [of "\<lambda>c. Roles c = Roles (heap w x)" demote_to_standby w x g "is"] by simp_all

lemma same_identity_enforceActiveCap: "same_identity w (enforceActiveCap rnd w)"
  by (simp add: enforceActiveCap_def Let_def case_prod_unfold same_identity_def pool_simps fold_demote_identity)

lemma same_identity_settle: "same_identity w (settle_active rnd w)"
  unfolding settle_active_def
  by (rule same_identity_trans [OF _ same_identity_enforceActiveCap]) simp

lemma members_enforceActiveCap [simp]: "members (pool (enforceActiveCap rnd w)) = members (pool w)"
  by (simp add: enforceActiveCap_def Let_def case_prod_unfold pool_simps fold_upd_conn_pool)

lemma members_settle [simp]: "members (pool (settle_active rnd w)) = members (pool w)"
  by (simp add: settle_active_def pool_simps)

lemma pool_inv_add_up:
  assumes "pool_inv w" "c \<notin> members (pool w)" "conn_up (heap v c)" "\<And>x. x \<noteq> c \<Longrightarrow> heap v x = heap w x"
    and "set (ready (pool v)) = insert c (set (ready (pool w)))" "dead (pool v) = dead (pool w)"
    and "members (pool v) = insert c (members (pool w))" "activeCount (pool v) \<le> length (ready (pool v))"
  shows "pool_inv v"
proof -
  have fresh: "c \<notin> set (ready (pool w)) \<union> set (dead (pool w))" using assms(1,2) by (auto simp: pool_inv_def Let_def)
  then have "\<forall>x\<in>set (ready (pool w)). conn_up (heap v x)" "\<forall>x\<in>set (dead (pool w)). conn_down (heap v x)"
    using assms(1,4) by (auto simp: pool_inv_def Let_def) (metis assms(4))+
  with assms(1,3,5-8) fresh show ?thesis unfolding pool_inv_def Let_def by auto
qed

lemma pool_inv_add_down:
  assumes "pool_inv w" "c \<notin> members (pool w)" "conn_down (heap v c)" "\<And>x. x \<noteq> c \<Longrightarrow> heap v x = heap w x"
    and "ready (pool v) = ready (pool w)" "dead (pool v) = dead (pool w) @ [c]"
    and "members (pool v) = insert c (members (pool w))" "activeCount (pool v) = activeCount (pool w)"
  shows "pool_inv v"
proof -
  have fresh: "c \<notin> set (ready (pool w)) \<union> set (dead (pool w))" using assms(1,2) by (auto simp: pool_inv_def Let_def)
  then have "\<forall>x\<in>set (ready (pool w)). conn_up (heap v x)" "\<forall>x\<in>set (dead (pool w)). conn_down (heap v x)"
    using assms(1,4) by (auto simp: pool_inv_def Let_def) (metis assms(4))+
  with assms(1,3,5-8) fresh show ?thesis unfolding pool_inv_def Let_def by auto
qed

abbreviation enrolled :: "cid \<Rightarrow> world \<Rightarrow> world" where
  "enrolled c \<equiv> upd_pool (\<lambda>p. p\<lparr>members := insert c (members p)\<rparr>)"

text \<open>A ready connection that is offered to a pool carries no time of death.\<close>

definition admissible :: "world \<Rightarrow> cid \<Rightarrow> bool" where
  "admissible w c \<longleftrightarrow> (isReady (state (heap w c)) \<longrightarrow> deadSinceNano (heap w c) = 0)"

lemma admit_ready_inv:
  assumes "pool_inv w" "c \<notin> members (pool w)" "deadSinceNano (heap w c) = 0"
  shows "pool_inv (admit_ready c (enrolled c w))"
proof (rule pool_inv_add_up [OF assms(1,2)])
  show "conn_up (heap (admit_ready c (enrolled c w)) c)"
    using assms(3)
    by (auto simp: admit_ready_def case_prod_unfold Let_def pool_simps appendToReadyActive_def mode_simps)
qed (use pool_invD(1) [OF assms(1)] in \<open>auto simp: admit_ready_def case_prod_unfold Let_def pool_simps
    appendToReadyActive_def set_insert_active\<close>)

lemma admit_dead_inv:
  assumes "pool_inv w" "c \<notin> members (pool w)" "now \<noteq> 0"
  shows "pool_inv (admit_dead now c (enrolled c w))"
proof (rule pool_inv_add_down [OF assms(1,2)])
  show "conn_down (heap (admit_dead now c (enrolled c w)) c)"
    using assms(3)
    by (auto simp: admit_dead_def Let_def pool_simps appendToDead_def mode_simps deadSinceIsZero_def timeToNano_def)
qed (auto simp: admit_dead_def Let_def pool_simps appendToDead_def)

lemma admit_steps [pool_simps]:
  "members (pool (admit_ready c w)) = members (pool w)" "members (pool (admit_dead now c w)) = members (pool w)"
  "x \<noteq> c \<Longrightarrow> heap (admit_ready c w) x = heap w x" "x \<noteq> c \<Longrightarrow> heap (admit_dead now c w) x = heap w x"
  by (auto simp: admit_ready_def admit_dead_def case_prod_unfold Let_def pool_simps appendToDead_def
      appendToReadyActive_def)

lemma admit_steps_identity: "same_identity w (admit_ready c w)" "same_identity w (admit_dead now c w)"
  by (auto simp: admit_ready_def admit_dead_def case_prod_unfold Let_def same_identity_def pool_simps appendToDead_def
      appendToReadyActive_def)

text \<open>What an admission needs of the step that settles the active partition.\<close>

locale settling =
  fixes settle :: "world \<Rightarrow> world"
  assumes settle_identity: "same_identity w (settle w)"
    and settle_members: "members (pool (settle w)) = members (pool w)"
    and settle_inv: "pool_inv w \<Longrightarrow> pool_inv (settle w)"
    and settle_outside: "pool_inv w \<Longrightarrow> x \<notin> members (pool w) \<Longrightarrow> heap (settle w) x = heap w x"
begin

lemma admit_identity: "same_identity w (admit settle now c w)"
  using same_identity_trans [OF admit_steps_identity(1) [of "enrolled c w" c] settle_identity]
    admit_steps_identity(2) [of "enrolled c w" now c]
  by (auto simp: admit_def Let_def same_identity_def pool_simps)

lemma admit_members: "members (pool (admit settle now c w)) = insert c (members (pool w))"
  by (auto simp: admit_def Let_def settle_members pool_simps)

lemma admit_member: "c \<in> members (pool w) \<Longrightarrow> admit settle now c w = w"
  by (simp add: admit_def)

lemma admit_inv:
  assumes "pool_inv w" "now \<noteq> 0" "admissible w c"
  shows "pool_inv (admit settle now c w)"
  using assms admit_ready_inv [OF assms(1)] admit_dead_inv [OF assms(1)] settle_inv
  by (auto simp: admit_def Let_def admissible_def)

lemma admit_outside:
  assumes "pool_inv w" "admissible w c" "x \<noteq> c" "x \<notin> members (pool w)"
  shows "heap (admit settle now c w) x = heap w x"
  using assms admit_ready_inv [OF assms(1)] settle_outside [of "admit_ready c (enrolled c w)" x]
  by (auto simp: admit_def Let_def admissible_def pool_simps)

text \<open>Admitting a list of connections, each under a condition on its roles.\<close>

lemma admit_list:
  assumes "pool_inv w" "now \<noteq> 0" "\<And>c. c \<in> set cs \<Longrightarrow> c \<in> members (pool w) \<or> admissible w c"
    and "\<And>x y. Roles x = Roles y \<Longrightarrow> P x = P y"
  shows "let w' = fold (\<lambda>c w. if P (heap w c) then admit settle now c w else w) cs w in
    pool_inv w' \<and> same_identity w w' \<and> members (pool w') = members (pool w) \<union> {c \<in> set cs. P (heap w c)}"
  using assms(1,3)
proof (induction cs arbitrary: w)
  case (Cons c cs)
  let ?w = "if P (heap w c) then admit settle now c w else w"
  have inv: "pool_inv ?w"
    using Cons.prems(1) Cons.prems(2) [of c] admit_inv [OF Cons.prems(1) assms(2), of c]
    by (cases "c \<in> members (pool w)") (simp_all add: admit_member)
  have ident: "same_identity w ?w" by (simp add: admit_identity)
  have mem: "members (pool ?w) = members (pool w) \<union> (if P (heap w c) then {c} else {})" by (simp add: admit_members)
  have later: "x \<in> members (pool ?w) \<or> admissible ?w x" if "x \<in> set cs" for x
  proof (cases "x = c \<or> x \<in> members (pool w) \<or> \<not> P (heap w c) \<or> c \<in> members (pool w)")
    case True
    with that Cons.prems(2) [of x] Cons.prems(2) [of c] show ?thesis by (auto simp: mem admit_member)
  next
    case False
    then have "heap ?w x = heap w x" using Cons.prems admit_outside [of w c x now] by auto
    with that Cons.prems(2) [of x] False show ?thesis by (auto simp: admissible_def)
  qed
  have P: "P (heap ?w x) = P (heap w x)" for x
    using ident assms(4) [of "heap ?w x" "heap w x"] unfolding same_identity_def by blast
  from Cons.IH [OF inv later] show ?case
    using same_identity_trans [OF ident] by (auto simp: Let_def mem P simp del: if_split)
qed simp

end

lemma enforceActiveCap_outside:
  assumes "activeCount (pool w) \<le> length (ready (pool w))" "x \<notin> set (ready (pool w))"
  shows "heap (enforceActiveCap rnd w) x = heap w x"
proof (cases "enforceActiveCap rnd w = w")
  case False
  then obtain ys where "set ys \<subseteq> set (ready (pool w))"
      "heap (enforceActiveCap rnd w) = heap (fold (\<lambda>c w. upd_conn c demote_to_standby w) ys w)"
    using enforceActiveCap_idle [of w rnd] enforceActiveCap_run(7) [OF assms(1), of rnd] by (meson not_le)
  with fold_upd_conn_other [of x "\<lambda>c. c" ys demote_to_standby w] assms(2) show ?thesis by auto
qed simp

lemma pool_inv_shuffle: "pool_inv w \<Longrightarrow> pool_inv (upd_pool (shuffleActive rnd) w)"
proof -
  assume inv: "pool_inv w"
  show ?thesis
    by (rule pool_inv_lists [OF inv])
      (simp_all add: pool_simps shuffleActive_sets [OF pool_invD(1) [OF inv]] pool_invD(1) [OF inv])
qed

lemma pool_inv_settle: "pool_inv w \<Longrightarrow> pool_inv (settle_active rnd w)"
  by (simp add: settle_active_def pool_inv_enforceActiveCap pool_inv_shuffle)

interpretation settled: settling "settle_active rnd"
proof
  fix w x assume inv: "pool_inv w" and "x \<notin> members (pool w)"
  then have "x \<notin> set (ready (pool w))" using pool_invD(3) by blast
  then show "heap (settle_active rnd w) x = heap w x"
    using enforceActiveCap_outside [of "upd_pool (shuffleActive rnd) w" x rnd] pool_invD(1) [OF inv]
    by (simp add: settle_active_def pool_simps shuffleActive_sets)
qed (simp_all add: same_identity_settle pool_inv_settle)

interpretation unsettled: settling id
  by unfold_locales simp_all

section \<open>Removal\<close>

lemma filter_ready_simps [pool_simps]:
  "ready (filter_ready g p) = filter (\<lambda>c. \<not> g c) (ready p)" "activeCount (filter_ready g p) = kept_active g p"
  "dead (filter_ready g p) = dead p" "members (filter_ready g p) = members p - {c \<in> set (ready p). g c}"
  "ready (filter_dead g p) = ready p" "activeCount (filter_dead g p) = activeCount p"
  "dead (filter_dead g p) = filter (\<lambda>c. \<not> g c) (dead p)" "members (filter_dead g p) = members p - {c \<in> set (dead p). g c}"
  by (simp_all add: filter_ready_def filter_dead_def)

lemma kept_active_le: "kept_active g p \<le> length (filter (\<lambda>c. \<not> g c) (ready p))"
proof -
  have "filter (\<lambda>c. \<not> g c) (ready p) =
      filter (\<lambda>c. \<not> g c) (take (activeCount p) (ready p)) @ filter (\<lambda>c. \<not> g c) (drop (activeCount p) (ready p))"
    by (metis append_take_drop_id filter_append)
  then show ?thesis by (simp add: kept_active_def)
qed

lemma promoteStandbyGracefully_simps [pool_simps]:
  "ready (promoteStandbyGracefully n p) = ready p" "dead (promoteStandbyGracefully n p) = dead p"
  "activeCount (promoteStandbyGracefully n p) = activeCount p" "members (promoteStandbyGracefully n p) = members p"
  by (simp_all add: promoteStandbyGracefully_def Let_def)

text \<open>The pool without the connections that a predicate marks as gone.\<close>

definition without :: "(cid \<Rightarrow> bool) \<Rightarrow> world \<Rightarrow> world \<Rightarrow> bool" where
  "without g w v \<longleftrightarrow> heap v = heap w \<and> ready (pool v) = filter (\<lambda>c. \<not> g c) (ready (pool w)) \<and>
     dead (pool v) = filter (\<lambda>c. \<not> g c) (dead (pool w)) \<and> activeCount (pool v) = kept_active g (pool w) \<and>
     members (pool v) = members (pool w) - {c \<in> set (ready (pool w)) \<union> set (dead (pool w)). g c}"

lemma without_inv:
  assumes "pool_inv w" "without g w v"
  shows "pool_inv v \<and> members (pool v) = {c \<in> members (pool w). \<not> g c}"
  using assms kept_active_le [of g "pool w"] unfolding pool_inv_def without_def Let_def by auto

lemma none_gone:
  assumes "\<not> list_ex g (ready p)" "\<not> list_ex g (dead p)" "activeCount p \<le> length (ready p)"
  shows "filter (\<lambda>c. \<not> g c) (ready p) = ready p" "filter (\<lambda>c. \<not> g c) (dead p) = dead p" "kept_active g p = activeCount p"
    "{c \<in> set (ready p) \<union> set (dead p). g c} = {}"
proof -
  have "filter (\<lambda>c. \<not> g c) (take (activeCount p) (ready p)) = take (activeCount p) (ready p)"
    using assms(1) by (auto simp: filter_id_conv list_ex_iff dest: in_set_takeD)
  then show "kept_active g p = activeCount p" using assms(3) by (simp add: kept_active_def min_def)
qed (use assms in \<open>auto simp: filter_id_conv list_ex_iff\<close>)

lemma removes_without:
  assumes "pool_inv w"
  shows "without (gone_by_URL cs w) w (role_discoveryUpdateRemove cs w)"
    and "without (gone_by_URL cs w) w (rr_remove cs w)"
    and "without (gone_by_URL cs w) w (coordinator_remove cs w)"
proof -
  note ac = pool_invD(1) [OF assms]
  show "without (gone_by_URL cs w) w (role_discoveryUpdateRemove cs w)"
    using none_gone [of "gone_by_URL cs w" "pool w"] ac
    by (auto simp: without_def role_discoveryUpdateRemove_def Let_def pool_simps)
  show "without (gone_by_URL cs w) w (coordinator_remove cs w)"
    by (auto simp: without_def coordinator_remove_def Let_def pool_simps)
  have "\<not> list_ex (gone_by_URL [] w) xs" for xs by (simp add: gone_by_URL_def list_ex_iff)
  then show "without (gone_by_URL cs w) w (rr_remove cs w)"
    using none_gone [of "gone_by_URL [] w" "pool w"] ac
    by (auto simp: without_def rr_remove_def Let_def pool_simps)
qed

section \<open>Discovery updates\<close>

lemma recalculateWarmupParams_simps [pool_simps]:
  "ready (recalculateWarmupParams n p) = ready p" "dead (recalculateWarmupParams n p) = dead p"
  "activeCount (recalculateWarmupParams n p) = activeCount p" "members (recalculateWarmupParams n p) = members p"
  by (simp_all add: recalculateWarmupParams_def Let_def)

lemma pool_inv_recalculate: "pool_inv (upd_pool (recalculateWarmupParams n) w) = pool_inv w"
  by (simp add: pool_inv_def Let_def pool_simps)

text \<open>
  The result of an update from a set of offered connections: who stays is decided by URL after the additions.
\<close>

definition updated :: "(connection \<Rightarrow> bool) \<Rightarrow> cid list \<Rightarrow> cid list \<Rightarrow> world \<Rightarrow> int32 \<times> world \<Rightarrow> bool" where
  "updated P added removed w r \<longleftrightarrow>
     pool_inv (snd r) \<and> same_identity w (snd r) \<and>
     members (pool (snd r)) = {c \<in> members (pool w) \<union> {c \<in> set added. P (heap w c)}. \<not> gone_by_URL removed w c} \<and>
     psIsEnabled (fst r) = hasAvailableConns (snd r)"

lemma gone_same: "same_identity w v \<Longrightarrow> gone_by_URL cs v c = gone_by_URL cs w c"
  by (simp add: same_identity_def gone_by_URL_def)

lemma updated_intro:
  assumes "pool_inv v" "same_identity w v" "members (pool v) = members (pool w) \<union> {c \<in> set added. P (heap w c)}"
    and "without (gone_by_URL removed v) v u" "ps AND psEnvDisabled = 0"
  shows "updated P added removed w (psSetEnabled (hasAvailableConns u) [] ps, u)"
proof -
  have "same_identity w u" using assms(2,4) by (simp add: same_identity_def without_def)
  moreover have "psIsEnabled (psSetEnabled (hasAvailableConns u) [] ps) = hasAvailableConns u"
    using assms(5) and_flag [OF bit_ps(4), of ps] by (simp add: psIsEnabled_bits bit_psSetEnabled_alone)
  ultimately show ?thesis
    using without_inv [OF assms(1,4)] assms(3) gone_same [OF assms(2)] by (auto simp: updated_def)
qed


lemma matches_cong: "Roles x = Roles y \<Longrightarrow> connectionMatchesRoles key x = connectionMatchesRoles key y"
  by (simp add: connectionMatchesRoles_def)

lemma role_updated:
  assumes "pool_inv w" "now \<noteq> 0" "ps AND psEnvDisabled = 0"
    and "\<And>c. c \<in> set added \<Longrightarrow> c \<in> members (pool w) \<or> admissible w c"
  shows "updated (connectionMatchesRoles key) added removed w
    (role_DiscoveryUpdate rnd now key (Some added) (Some removed) (ps, w))"
proof -
  let ?n = "int (length (ready (pool w))) + int (length (dead (pool w)))
    + count_matching (\<lambda>c. connectionMatchesRoles key (heap w c)) added
    - count_matching (\<lambda>c. connectionMatchesRoles key (heap w c)) removed"
  let ?w = "upd_pool (recalculateWarmupParams ?n) w"
  let ?v = "role_discoveryUpdateAdd rnd now key added ?w"
  have "pool_inv ?v \<and> same_identity ?w ?v \<and>
      members (pool ?v) = members (pool ?w) \<union> {c \<in> set added. connectionMatchesRoles key (heap ?w c)}"
    using settled.admit_list [where P = "connectionMatchesRoles key" and w = ?w and cs = added and now = now and rnd = rnd,
        OF _ assms(2) _ matches_cong] assms(1,4)
    by (simp add: role_discoveryUpdateAdd_def Let_def pool_inv_recalculate pool_simps admissible_def)
  then have v: "pool_inv ?v" "same_identity w ?v"
      "members (pool ?v) = members (pool w) \<union> {c \<in> set added. connectionMatchesRoles key (heap w c)}"
    by (simp_all add: same_identity_def pool_simps)
  show ?thesis
    using updated_intro [OF v removes_without(1) [OF v(1)] assms(3)] assms(3)
    by (simp add: role_DiscoveryUpdate_def Let_def)
qed

lemma rr_updated:
  assumes "pool_inv w" "now \<noteq> 0" "ps AND psEnvDisabled = 0"
    and "\<And>c. c \<in> set added \<Longrightarrow> c \<in> members (pool w) \<or> admissible w c"
  shows "updated (\<lambda>c. \<not> isDedicatedClusterManager (Roles c)) added removed w
    (rr_DiscoveryUpdate rnd now (Some added) (Some removed) (ps, w))"
proof -
  let ?n = "int (length (ready (pool w))) + int (length (dead (pool w))) + int (length added) - int (length removed)"
  let ?w = "upd_pool (recalculateWarmupParams ?n) w"
  let ?v = "fold (\<lambda>c w. if \<not> isDedicatedClusterManager (Roles (heap w c)) then admit id now c w else w) added ?w"
  have swap: "fold (\<lambda>c w. if isDedicatedClusterManager (Roles (heap w c)) then w else admit id now c w) added ?w = ?v"
    by (rule fold_cong) auto
  have "pool_inv ?v \<and> same_identity ?w ?v \<and>
      members (pool ?v) = members (pool ?w) \<union> {c \<in> set added. \<not> isDedicatedClusterManager (Roles (heap ?w c))}"
    using unsettled.admit_list [of ?w now added "\<lambda>c. \<not> isDedicatedClusterManager (Roles c)"] assms
    by (simp add: Let_def pool_inv_recalculate pool_simps admissible_def)
  then have v: "pool_inv (settle_active rnd ?v)" "same_identity w (settle_active rnd ?v)"
      "members (pool (settle_active rnd ?v)) =
        members (pool w) \<union> {c \<in> set added. \<not> isDedicatedClusterManager (Roles (heap w c))}"
    using same_identity_settle [of ?v rnd] by (simp_all add: same_identity_def pool_simps pool_inv_settle)
  show ?thesis
    using updated_intro [OF v removes_without(2) [OF v(1)] assms(3)] assms(3)
    by (simp add: rr_DiscoveryUpdate_def Let_def swap)
qed

lemma coordinator_updated:
  assumes "pool_inv w" "now \<noteq> 0" "ps AND psEnvDisabled = 0"
    and "\<And>c. c \<in> set added \<Longrightarrow> c \<in> members (pool w) \<or> admissible w c"
  shows "updated isCoordinatingOnly added removed w
    (coordinator_DiscoveryUpdate rnd now (Some added) (Some removed) (ps, w))"
proof -
  let ?n = "int (length (ready (pool w))) + int (length (dead (pool w)))
    + count_matching (\<lambda>c. isCoordinatingOnly (heap w c)) added - count_matching (\<lambda>c. isCoordinatingOnly (heap w c)) removed"
  let ?w = "upd_pool (recalculateWarmupParams ?n) w"
  let ?v = "fold (\<lambda>c w. if isCoordinatingOnly (heap w c) then admit id now c w else w) added ?w"
  have swap: "fold (\<lambda>c w. if \<not> isCoordinatingOnly (heap w c) then w else admit id now c w) added ?w = ?v"
    by (rule fold_cong) auto
  have "pool_inv ?v \<and> same_identity ?w ?v \<and>
      members (pool ?v) = members (pool ?w) \<union> {c \<in> set added. isCoordinatingOnly (heap ?w c)}"
    using unsettled.admit_list [of ?w now added isCoordinatingOnly] assms
    by (simp add: Let_def pool_inv_recalculate pool_simps admissible_def isCoordinatingOnly_def)
  then have v: "pool_inv (settle_active rnd ?v)" "same_identity w (settle_active rnd ?v)"
      "members (pool (settle_active rnd ?v)) = members (pool w) \<union> {c \<in> set added. isCoordinatingOnly (heap w c)}"
    using same_identity_settle [of ?v rnd] by (simp_all add: same_identity_def pool_simps pool_inv_settle)
  show ?thesis
    using updated_intro [OF v removes_without(3) [OF v(1)] assms(3)] assms(3)
    by (simp add: coordinator_DiscoveryUpdate_def Let_def swap)
qed

text \<open>C31. A discovery cycle leaves each of the three policies with a sound pool. Its members are the old ones and
  the offered ones that the policy accepts (by role, every node that is not a dedicated cluster manager, or
  coordinating-only nodes), less every connection whose URL is among the removed ones; no connection changes
  its URL or roles; and the policy is enabled exactly when its pool has a connection to route to.\<close>
theorem discovery_updates_pool:
  assumes "pool_inv w" "now \<noteq> 0" "ps AND psEnvDisabled = 0"
    and "\<And>c. c \<in> set added \<Longrightarrow> c \<in> members (pool w) \<or> admissible w c"
  shows "updated (connectionMatchesRoles key) added removed w
      (role_DiscoveryUpdate rnd now key (Some added) (Some removed) (ps, w)) \<and>
    updated (\<lambda>c. \<not> isDedicatedClusterManager (Roles c)) added removed w
      (rr_DiscoveryUpdate rnd now (Some added) (Some removed) (ps, w)) \<and>
    updated isCoordinatingOnly added removed w
      (coordinator_DiscoveryUpdate rnd now (Some added) (Some removed) (ps, w))"
  using role_updated [OF assms] rr_updated [OF assms] coordinator_updated [OF assms] by blast

lemma sample_offered: "c \<in> set [5] \<Longrightarrow> c \<in> members (pool sample_world) \<or> admissible sample_world c"
  by (simp add: admissible_def sample_world_def sample_heap_def isReady_def Let_def sample_lc [unfolded lc_of_def]
      bit_simps bit_flags)

theorem discovery_updates_pool_witness:
  "updated (connectionMatchesRoles ''data'') [5] [4] sample_world
      (role_DiscoveryUpdate (\<lambda>i. i) 9 ''data'' (Some [5]) (Some [4]) (0, sample_world)) \<and>
    updated (\<lambda>c. \<not> isDedicatedClusterManager (Roles c)) [5] [4] sample_world
      (rr_DiscoveryUpdate (\<lambda>i. i) 9 (Some [5]) (Some [4]) (0, sample_world)) \<and>
    updated isCoordinatingOnly [5] [4] sample_world
      (coordinator_DiscoveryUpdate (\<lambda>i. i) 9 (Some [5]) (Some [4]) (0, sample_world))"
  by (rule discovery_updates_pool [OF pool_inv_sample _ _ sample_offered]) simp_all

lemma updated_not_in_pool:
  assumes "updated P added removed w r" "gone_by_URL removed w c"
  shows "\<not> in_pool c (pool (snd r))"
  using assms pool_invD(3,4) [of "snd r"] by (auto simp: updated_def in_pool_def)

text \<open>A node that was replaced at its address is offered and removed in the same cycle. The removal goes by
  URL and comes after the addition, so it takes the new connection out again: no policy keeps it.\<close>
theorem replaced_node_dropped:
  assumes "pool_inv w" "now \<noteq> 0" "ps AND psEnvDisabled = 0"
    and "\<And>c. c \<in> set added \<Longrightarrow> c \<in> members (pool w) \<or> admissible w c"
    and "new \<in> set added" "old \<in> set removed" "URL (heap w new) = URL (heap w old)"
  shows "\<not> in_pool new (pool (snd (role_DiscoveryUpdate rnd now key (Some added) (Some removed) (ps, w)))) \<and>
    \<not> in_pool new (pool (snd (rr_DiscoveryUpdate rnd now (Some added) (Some removed) (ps, w)))) \<and>
    \<not> in_pool new (pool (snd (coordinator_DiscoveryUpdate rnd now (Some added) (Some removed) (ps, w))))"
proof -
  have "gone_by_URL removed w new" using assms(6,7) by (auto simp: gone_by_URL_def)
  then show ?thesis
    using updated_not_in_pool role_updated [OF assms(1-4)] rr_updated [OF assms(1-4)] coordinator_updated [OF assms(1-4)]
    by blast
qed

theorem replaced_node_dropped_witness:
  "\<not> in_pool 5 (pool (snd (role_DiscoveryUpdate (\<lambda>i. i) 9 ''data'' (Some [5]) (Some [4]) (0, sample_world)))) \<and>
    \<not> in_pool 5 (pool (snd (rr_DiscoveryUpdate (\<lambda>i. i) 9 (Some [5]) (Some [4]) (0, sample_world)))) \<and>
    \<not> in_pool 5 (pool (snd (coordinator_DiscoveryUpdate (\<lambda>i. i) 9 (Some [5]) (Some [4]) (0, sample_world))))"
  by (rule replaced_node_dropped [OF pool_inv_sample _ _ sample_offered, where new = 5 and old = 4])
    (simp_all add: sample_world_def sample_heap_def)

section \<open>Role keys\<close>

lemma NormalizeRoles_Inr:
  assumes "NormalizeRoles roles = Inr key" "roles \<noteq> []"
  shows "key = strings_Join RoleSeparator (sorted_list_of_set (set roles))"
    and "strings_Split RoleSeparator key = sorted_list_of_set (set roles)"
proof -
  show key: "key = strings_Join RoleSeparator (sorted_list_of_set (set roles))"
    using assms by (auto simp: NormalizeRoles_def split: option.splits)
  have "RoleSeparator \<notin> set role" if "role \<in> set roles" for role
    using assms that by (auto simp: NormalizeRoles_def find_None_iff split: option.splits)
  then show "strings_Split RoleSeparator key = sorted_list_of_set (set roles)"
    unfolding key using assms(2) by (intro split_join) auto
qed

text \<open>The key of a role policy is canonical and loses nothing: it does not depend on the order or the
  repetitions of the roles, and splitting it gives the roles back. A connection matches a key exactly when it
  has all of the roles, the empty key and the coordinating-only key apart.\<close>
theorem role_key_canonical:
  assumes "NormalizeRoles roles = Inr key" "roles \<noteq> []"
  shows "set (strings_Split RoleSeparator key) = set roles \<and>
    (set roles' = set roles \<longrightarrow> NormalizeRoles roles' = Inr key) \<and>
    (key \<noteq> [] \<longrightarrow> key \<noteq> RoleCoordinatingOnly \<longrightarrow> connectionMatchesRoles key conn = (set roles \<subseteq> Roles conn))"
proof (intro conjI impI)
  note k = NormalizeRoles_Inr [OF assms]
  show "set (strings_Split RoleSeparator key) = set roles" by (simp add: k(2))
  show "NormalizeRoles roles' = Inr key" if "set roles' = set roles"
    using assms that by (auto simp: NormalizeRoles_def find_None_iff find_Some_iff k(1) split: option.splits)
  show "connectionMatchesRoles key conn = (set roles \<subseteq> Roles conn)" if "key \<noteq> []" "key \<noteq> RoleCoordinatingOnly"
    using that by (auto simp: connectionMatchesRoles_def k(2) list_all_iff role_has_def)
qed

theorem role_key_canonical_witness:
  "set (strings_Split RoleSeparator ''data,ingest'') = set [''ingest'', ''data'', ''ingest''] \<and>
    NormalizeRoles [''data'', ''ingest''] = Inr ''data,ingest'' \<and>
    connectionMatchesRoles ''data,ingest'' blank_connection = (set [''ingest'', ''data'', ''ingest''] \<subseteq> Roles blank_connection)"
proof -
  have "NormalizeRoles [''ingest'', ''data'', ''ingest''] = Inr ''data,ingest''" by code_simp
  from role_key_canonical [OF this, of "[''data'', ''ingest'']" blank_connection] show ?thesis
    by (auto simp: RoleCoordinatingOnly_def)
qed

end
