(* ===== verification/Http_Request.thy ===== *)
theory Http_Request
  imports Go_Strings
begin

text \<open>
  Requests as the transport rewrites them (\<^verbatim>\<open>opensearchtransport.go\<close>): the base path and host of the selected
  node, default headers and credentials, the adaptive shard limit in the query string, and the routing value
  read out of it. A request is a record of the fields of \<^verbatim>\<open>http.Request\<close> that this code reads or writes; a
  header is a map from canonical names to values. A body is absent, unread, or closed by a round trip.
\<close>

section \<open>Requests and URLs\<close>

type_synonym header = "string \<Rightarrow> string list option"

record url =
  u_Scheme :: string
  u_Host :: string
  u_Path :: string
  u_User :: "(string \<times> string) option"

datatype body = Unread string | Closed

text \<open>
  \<open>GetBody\<close> is absent, fails, or gives a fresh reader over the content. \<^verbatim>\<open>nil\<close> and \<^verbatim>\<open>http.NoBody\<close> are \<open>None\<close>.
\<close>

record request =
  req_Method :: string
  req_Scheme :: string
  req_Host :: string
  req_Path :: string
  req_RawPath :: string
  req_RawQuery :: string
  req_Header :: header
  req_Body :: "body option"
  req_GetBody :: "(string + string) option"
  req_ContentLength :: int

section \<open>Headers\<close>

definition is_upper :: "char \<Rightarrow> bool" where
  "is_upper c \<longleftrightarrow> 65 \<le> (of_char c :: nat) \<and> of_char c \<le> (90 :: nat)"

definition is_lower :: "char \<Rightarrow> bool" where
  "is_lower c \<longleftrightarrow> 97 \<le> (of_char c :: nat) \<and> of_char c \<le> (122 :: nat)"

definition to_upper :: "char \<Rightarrow> char" where
  "to_upper c = (if is_lower c then char_of ((of_char c :: nat) - 32) else c)"

definition to_lower :: "char \<Rightarrow> char" where
  "to_lower c = (if is_upper c then char_of ((of_char c :: nat) + 32) else c)"

text \<open>\<^verbatim>\<open>http.CanonicalHeaderKey\<close>: unchanged when a byte is not a token byte.\<close>

definition token_byte :: "char \<Rightarrow> bool" where
  "token_byte c \<longleftrightarrow> is_upper c \<or> is_lower c \<or> digit c \<or> c \<in> set ''!#$%&*+-.^_`|~'' \<or> c = CHR 0x27"

fun canonical_from :: "bool \<Rightarrow> string \<Rightarrow> string" where
  "canonical_from start [] = []"
| "canonical_from start (c # cs) = (if start then to_upper c else to_lower c) # canonical_from (c = CHR ''-'') cs"

definition CanonicalHeaderKey :: "string \<Rightarrow> string" where
  "CanonicalHeaderKey k = (if list_all token_byte k then canonical_from True k else k)"

definition header_Set :: "string \<Rightarrow> string \<Rightarrow> header \<Rightarrow> header" where
  "header_Set k v h = h(CanonicalHeaderKey k \<mapsto> [v])"

definition header_Add :: "string \<Rightarrow> string \<Rightarrow> header \<Rightarrow> header" where
  "header_Add k v h =
     h(CanonicalHeaderKey k \<mapsto> (case h (CanonicalHeaderKey k) of None \<Rightarrow> [] | Some vs \<Rightarrow> vs) @ [v])"

text \<open>\<^verbatim>\<open>base64.StdEncoding\<close>, for \<^verbatim>\<open>Request.SetBasicAuth\<close>.\<close>

definition base64_digit :: "nat \<Rightarrow> char" where
  "base64_digit n = ''ABCDEFGHIJKLMNOPQRSTUVWXYZabcdefghijklmnopqrstuvwxyz0123456789+/'' ! (n mod 64)"

fun base64 :: "nat list \<Rightarrow> string" where
  "base64 [] = []"
| "base64 [a] = [base64_digit (a div 4), base64_digit (a mod 4 * 16), CHR ''='', CHR ''='']"
| "base64 [a, b] = [base64_digit (a div 4), base64_digit (a mod 4 * 16 + b div 16), base64_digit (b mod 16 * 4), CHR ''='']"
| "base64 (a # b # c # rest) =
     [base64_digit (a div 4), base64_digit (a mod 4 * 16 + b div 16), base64_digit (b mod 16 * 4 + c div 64),
      base64_digit (c mod 64)] @ base64 rest"

definition SetBasicAuth :: "string \<Rightarrow> string \<Rightarrow> request \<Rightarrow> request" where
  "SetBasicAuth user password req =
     req\<lparr>req_Header := header_Set ''Authorization''
       (''Basic '' @ base64 (map of_char (user @ '':'' @ password))) (req_Header req)\<rparr>"

section \<open>Decorating a request\<close>

record transport_identity =
  username :: string
  password :: string
  userAgent :: string
  global_header :: "(string \<times> string list) list"

fun base_len :: "string \<Rightarrow> nat \<Rightarrow> nat" where
  "base_len path 0 = 0"
| "base_len path (Suc n) = (if path ! n = CHR ''/'' then base_len path n else Suc n)"

definition setReqURL :: "url \<Rightarrow> request \<Rightarrow> request" where
  "setReqURL u req =
     (let req = req\<lparr>req_Scheme := u_Scheme u, req_Host := u_Host u\<rparr>;
          baseLen = base_len (u_Path u) (length (u_Path u))
      in if baseLen = 0 then req
         else let base = take baseLen (u_Path u);
                  req = req\<lparr>req_Path := base @ req_Path req\<rparr>
              in if req_RawPath req \<noteq> [] then req\<lparr>req_RawPath := base @ req_RawPath req\<rparr> else req)"

definition setReqAuth :: "transport_identity \<Rightarrow> url \<Rightarrow> request \<Rightarrow> request" where
  "setReqAuth c u req =
     (if req_Header req ''Authorization'' = None
      then case u_User u of
             Some (user, pw) \<Rightarrow> SetBasicAuth user pw req
           | None \<Rightarrow> if username c \<noteq> [] \<and> password c \<noteq> [] then SetBasicAuth (username c) (password c) req else req
      else req)"

definition setReqUserAgent :: "transport_identity \<Rightarrow> request \<Rightarrow> request" where
  "setReqUserAgent c req = req\<lparr>req_Header := header_Set ''User-Agent'' (userAgent c) (req_Header req)\<rparr>"

text \<open>The loop over \<^verbatim>\<open>c.header\<close>, in the order in which the map is enumerated.\<close>

definition add_missing :: "string \<times> string list \<Rightarrow> header \<Rightarrow> header" where
  "add_missing kv h =
     (case kv of (k, v) \<Rightarrow> if h (CanonicalHeaderKey k) = None then fold (header_Add k) v h else h)"

definition setReqGlobalHeader :: "transport_identity \<Rightarrow> request \<Rightarrow> request" where
  "setReqGlobalHeader c req = req\<lparr>req_Header := fold add_missing (global_header c) (req_Header req)\<rparr>"

text \<open>A signer that is not nil is a function that may fail.\<close>

type_synonym signer = "request \<Rightarrow> string + request"

definition signRequest :: "signer option \<Rightarrow> request \<Rightarrow> string + request" where
  "signRequest s req = (case s of Some f \<Rightarrow> f req | None \<Rightarrow> Inr req)"

definition prepareInternalRequest ::
    "transport_identity \<Rightarrow> signer option \<Rightarrow> url \<Rightarrow> (request \<Rightarrow> request) option \<Rightarrow> request \<Rightarrow> string + request" where
  "prepareInternalRequest c s u applyModifier req =
     (let req = setReqURL u req;
          req = setReqUserAgent c req;
          req = setReqGlobalHeader c req;
          req = setReqAuth c u req;
          req = (case applyModifier of Some f \<Rightarrow> f req | None \<Rightarrow> req)
      in case signRequest s req of
           Inl e \<Rightarrow> Inl (''failed to sign request: '' @ e)
         | Inr req \<Rightarrow> Inr req)"

section \<open>The query string\<close>

text \<open>
  The linear scan of both functions: \<open>scan anchors needle prev raw\<close> looks for the needle where the byte before
  is an anchor (\<open>prev\<close> is absent at the start) and gives the rest of the string behind it.
\<close>

fun scan :: "char set \<Rightarrow> string \<Rightarrow> char option \<Rightarrow> string \<Rightarrow> string option" where
  "scan anchors needle prev raw =
     (if length raw < length needle then None
      else if take (length needle) raw = needle \<and> (case prev of None \<Rightarrow> True | Some c \<Rightarrow> c \<in> anchors)
      then Some (drop (length needle) raw)
      else case raw of [] \<Rightarrow> None | c # cs \<Rightarrow> scan anchors needle (Some c) cs)"

declare scan.simps [simp del]

definition maxConcurrentShardRequestsParam :: string where
  "maxConcurrentShardRequestsParam = ''max_concurrent_shard_requests''"

definition strconv_Itoa :: "int \<Rightarrow> string" where
  "strconv_Itoa n = (if n < 0 then CHR ''-'' # decimal (nat (- n)) else decimal (nat n))"

definition appendAdaptiveConcurrency :: "int \<Rightarrow> request \<Rightarrow> request" where
  "appendAdaptiveConcurrency value req =
     (let raw = req_RawQuery req;
          needle = maxConcurrentShardRequestsParam @ ''=''
      in if scan {CHR ''&''} needle None raw \<noteq> None then req
         else let param = needle @ strconv_Itoa value
              in req\<lparr>req_RawQuery := (if raw = [] then param else raw @ ''&'' @ param)\<rparr>)"

text \<open>\<^verbatim>\<open>url.QueryUnescape\<close>: a plus is a space, a percent sign needs two hexadecimal digits.\<close>

definition hex_value :: "char \<Rightarrow> nat option" where
  "hex_value c =
     (if digit c then Some (of_char c - 48)
      else if 97 \<le> (of_char c :: nat) \<and> of_char c \<le> (102 :: nat) then Some (of_char c - 87)
      else if 65 \<le> (of_char c :: nat) \<and> of_char c \<le> (70 :: nat) then Some (of_char c - 55)
      else None)"

fun QueryUnescape :: "string \<Rightarrow> string option" where
  "QueryUnescape [] = Some []"
| "QueryUnescape (c # cs) =
     (if c = CHR ''%'' then
        (case cs of
           a # b # rest \<Rightarrow>
             (case (hex_value a, hex_value b) of
                (Some x, Some y) \<Rightarrow> map_option (\<lambda>s. char_of (16 * x + y) # s) (QueryUnescape rest)
              | _ \<Rightarrow> None)
         | _ \<Rightarrow> None)
      else map_option (\<lambda>s. (if c = CHR ''+'' then CHR '' '' else c) # s) (QueryUnescape cs))"

definition routingParam :: string where "routingParam = ''routing''"
definition routingValueSeparator :: string where "routingValueSeparator = '',''"

definition extractRouting :: "request \<Rightarrow> string" where
  "extractRouting req =
     (case scan {CHR ''&'', CHR ''?''} (routingParam @ ''='') None (req_RawQuery req) of
        None \<Rightarrow> []
      | Some rest \<Rightarrow>
          let val = takeWhile (\<lambda>c. c \<noteq> CHR ''&'') rest in
          if val = [] then []
          else if CHR ''%'' \<notin> set val then val
          else case QueryUnescape val of None \<Rightarrow> val | Some decoded \<Rightarrow> decoded)"

text \<open>The loop of \<^verbatim>\<open>splitRoutingValues\<close>, which cuts the value at each comma.\<close>

function splitRoutingValues :: "string \<Rightarrow> string list" where
  "splitRoutingValues v =
     (if CHR '','' \<in> set v
      then let k = takeWhile (\<lambda>c. c \<noteq> CHR '','') v;
               rest = splitRoutingValues (tl (dropWhile (\<lambda>c. c \<noteq> CHR '','') v))
           in if k \<noteq> [] then k # rest else rest
      else if v \<noteq> [] then [v] else [])"
  by pat_completeness auto
termination
proof (relation "measure length")
  fix v :: string
  assume "CHR '','' \<in> set v"
  then have "dropWhile (\<lambda>c. c \<noteq> CHR '','') v \<noteq> []" by (auto simp: dropWhile_eq_Nil_conv)
  then have "length (tl (dropWhile (\<lambda>c. c \<noteq> CHR '','') v)) < length (dropWhile (\<lambda>c. c \<noteq> CHR '','') v)" by simp
  also have "\<dots> \<le> length v" by (rule length_dropWhile_le)
  finally show "(tl (dropWhile (\<lambda>c. c \<noteq> CHR '','') v), v) \<in> measure length" by simp
qed simp

declare splitRoutingValues.simps [simp del]

section \<open>The scan and the parameters\<close>

text \<open>The parameters of a query string that begin with a needle.\<close>

definition first_param :: "string \<Rightarrow> string list \<Rightarrow> string option" where
  "first_param needle ps = map_option (drop (length needle)) (find (\<lambda>p. take (length needle) p = needle) ps)"

lemma split_Cons_sep: "strings_Split sep (sep # cs) = [] # strings_Split sep cs"
  by simp

lemma split_Cons_other:
  "c \<noteq> sep \<Longrightarrow> strings_Split sep (c # cs) = (c # hd (strings_Split sep cs)) # tl (strings_Split sep cs)"
  using split_nonempty [of sep cs] by (auto split: list.splits)

lemma hd_split: "hd (strings_Split sep s) = takeWhile (\<lambda>c. c \<noteq> sep) s"
  by (induction s) (simp_all add: split_Cons_other del: strings_Split.simps(2) split: if_splits, simp)

lemma take_takeWhile:
  assumes "sep \<notin> set needle"
  shows "take (length needle) (takeWhile (\<lambda>c. c \<noteq> sep) s) = needle \<longleftrightarrow> take (length needle) s = needle"
  using assms
proof (induction needle arbitrary: s)
  case (Cons a needle) then show ?case by (cases s) auto
qed simp

lemma drop_takeWhile:
  assumes "sep \<notin> set needle" "take (length needle) s = needle"
  shows "drop (length needle) (takeWhile (\<lambda>c. c \<noteq> sep) s) = takeWhile (\<lambda>c. c \<noteq> sep) (drop (length needle) s)"
  using assms
proof (induction needle arbitrary: s)
  case (Cons a needle) then show ?case by (cases s) auto
qed simp

lemma segment_length: "p \<in> set (strings_Split sep s) \<Longrightarrow> length p \<le> length s"
proof (induction s arbitrary: p)
  case (Cons c s)
  obtain w ws where w: "strings_Split sep s = w # ws" using split_nonempty by (metis list.exhaust)
  with Cons.IH have "length p \<le> length s" if "p \<in> set (w # ws)" for p using that by metis
  moreover have "p \<in> set (w # ws) \<or> p = [] \<or> p = c # w"
    using Cons.prems w by (auto split: if_splits)
  ultimately show ?case by (auto simp: le_SucI)
qed simp

lemma scan_params:
  assumes "CHR ''&'' \<notin> set needle" "needle \<noteq> []" "\<And>c. c \<in> anchors \<Longrightarrow> c \<in> set raw \<Longrightarrow> c = CHR ''&''"
    and "CHR ''&'' \<in> anchors"
  shows "map_option (takeWhile (\<lambda>c. c \<noteq> CHR ''&'')) (scan anchors needle prev raw) =
    first_param needle ((if (case prev of None \<Rightarrow> True | Some c \<Rightarrow> c \<in> anchors) then id else tl) (strings_Split (CHR ''&'') raw))"
  using assms(3)
proof (induction raw arbitrary: prev)
  case Nil
  with assms(2) show ?case by (auto simp: scan.simps [of _ _ _ "[]"] first_param_def)
next
  case (Cons c cs)
  let ?start = "case prev of None \<Rightarrow> True | Some c \<Rightarrow> c \<in> anchors"
  let ?segs = "strings_Split (CHR ''&'') (c # cs)"
  have hd: "hd ?segs = takeWhile (\<lambda>c. c \<noteq> CHR ''&'') (c # cs)" by (rule hd_split)
  have segs: "?segs = hd ?segs # tl ?segs" using split_nonempty by (metis list.collapse)
  have match: "take (length needle) (hd ?segs) = needle \<longleftrightarrow> take (length needle) (c # cs) = needle"
    unfolding hd using take_takeWhile [OF assms(1)] .
  show ?case
  proof (cases "length (c # cs) < length needle")
    case True
    have "take (length needle) p \<noteq> needle" if "p \<in> set ?segs" for p
    proof
      assume "take (length needle) p = needle"
      from arg_cong [OF this, of length] segment_length [OF that] True show False by simp
    qed
    moreover have "set (tl ?segs) \<subseteq> set ?segs" by (metis list.set_sel(2) split_nonempty subsetI)
    ultimately have "find (\<lambda>p. take (length needle) p = needle) ((if ?start then id else tl) ?segs) = None"
      by (auto simp: find_None_iff simp del: strings_Split.simps)
    with True show ?thesis by (simp add: scan.simps [of _ _ _ "c # cs"] first_param_def del: strings_Split.simps)
  next
    case long: False
    show ?thesis
    proof (cases "take (length needle) (c # cs) = needle \<and> ?start")
      case True
      then have "first_param needle ?segs = Some (takeWhile (\<lambda>c. c \<noteq> CHR ''&'') (drop (length needle) (c # cs)))"
        unfolding first_param_def
        by (subst segs) (use match drop_takeWhile [OF assms(1)] hd in \<open>simp del: strings_Split.simps takeWhile.simps\<close>)
      moreover have "scan anchors needle prev (c # cs) = Some (drop (length needle) (c # cs))"
        using True long by (simp add: scan.simps [of _ _ _ "c # cs"])
      ultimately show ?thesis using True by (simp del: strings_Split.simps drop_Cons')
    next
      case False
      have step: "scan anchors needle prev (c # cs) = scan anchors needle (Some c) cs"
        using False long by (auto simp: scan.simps [of _ _ prev "c # cs"])
      have anchor: "c \<in> anchors \<longleftrightarrow> c = CHR ''&''" using Cons.prems [of c] assms(4) by auto
      have rest: "(if c \<in> anchors then id else tl) (strings_Split (CHR ''&'') cs) = tl ?segs"
        unfolding anchor by (cases "c = CHR ''&''") (simp_all add: split_Cons_sep split_Cons_other del: strings_Split.simps(2))
      have "first_param needle ((if ?start then id else tl) ?segs) = first_param needle (tl ?segs)"
      proof (cases ?start)
        case True
        with False match have "take (length needle) (hd ?segs) \<noteq> needle" by simp
        then have "find (\<lambda>p. take (length needle) p = needle) (hd ?segs # tl ?segs) = find (\<lambda>p. take (length needle) p = needle) (tl ?segs)"
          by simp
        then show ?thesis using True segs by (simp add: first_param_def del: strings_Split.simps)
      qed simp
      then show ?thesis unfolding step using Cons.IH [of "Some c"] Cons.prems rest by simp
    qed
  qed
qed

lemma scan_none_iff:
  assumes "CHR ''&'' \<notin> set needle" "needle \<noteq> []"
  shows "scan {CHR ''&''} needle None raw = None \<longleftrightarrow>
    (\<forall>p \<in> set (strings_Split (CHR ''&'') raw). take (length needle) p \<noteq> needle)"
proof -
  have "map_option (takeWhile (\<lambda>c. c \<noteq> CHR ''&'')) (scan {CHR ''&''} needle None raw) =
      first_param needle (strings_Split (CHR ''&'') raw)"
    using scan_params [OF assms, of "{CHR ''&''}" raw None] by simp
  then have "scan {CHR ''&''} needle None raw = None \<longleftrightarrow> first_param needle (strings_Split (CHR ''&'') raw) = None"
    by (metis option.map_disc_iff)
  then show ?thesis by (auto simp: first_param_def find_None_iff)
qed

section \<open>Theorems on the query string\<close>

text \<open>The value of a routing parameter as the code reads it.\<close>

definition routing_decode :: "string \<Rightarrow> string" where
  "routing_decode v = (if CHR ''%'' \<notin> set v then v else case QueryUnescape v of None \<Rightarrow> v | Some d \<Rightarrow> d)"

text \<open>The scan for the routing value is the parameter list: for a query string without a question mark the
  value is what the first parameter named \<^verbatim>\<open>routing\<close> holds, and it is empty when there is none.\<close>
theorem extractRouting_params:
  assumes "CHR ''?'' \<notin> set (req_RawQuery req)"
  shows "extractRouting req =
    (case first_param ''routing='' (strings_Split (CHR ''&'') (req_RawQuery req)) of
       None \<Rightarrow> [] | Some v \<Rightarrow> routing_decode v)"
proof -
  have "map_option (takeWhile (\<lambda>c. c \<noteq> CHR ''&'')) (scan {CHR ''&'', CHR ''?''} ''routing='' None (req_RawQuery req)) =
      first_param ''routing='' (strings_Split (CHR ''&'') (req_RawQuery req))"
    using scan_params [of "''routing=''" "{CHR ''&'', CHR ''?''}" "req_RawQuery req" None] assms by auto
  from this [symmetric] show ?thesis
    by (auto simp: extractRouting_def routing_decode_def routingParam_def Let_def split: option.splits)
qed

definition sample_request :: request where
  "sample_request = \<lparr>req_Method = ''GET'', req_Scheme = ''http'', req_Host = ''a'', req_Path = ''/i/_search'',
     req_RawPath = [], req_RawQuery = ''q=x&routing=u%2Cv&routing=w'', req_Header = Map.empty, req_Body = None,
     req_GetBody = None, req_ContentLength = 0\<rparr>"

theorem extractRouting_params_witness: "extractRouting sample_request = ''u,v''"
  by (subst extractRouting_params) code_simp+

text \<open>The keys of a multi-key routing value are its comma-separated segments that are not empty.\<close>
theorem splitRoutingValues_segments:
  "splitRoutingValues v = filter (\<lambda>k. k \<noteq> []) (strings_Split (CHR '','') v)"
proof (induction v rule: splitRoutingValues.induct)
  case (1 v)
  show ?case
  proof (cases "CHR '','' \<in> set v")
    case True
    then obtain k rest where v: "v = k @ CHR '','' # rest" and k: "CHR '','' \<notin> set k" by (meson split_list_first)
    then have k': "takeWhile (\<lambda>c. c \<noteq> CHR '','') v = k" "dropWhile (\<lambda>c. c \<noteq> CHR '','') v = CHR '','' # rest"
      by (auto simp: takeWhile_append dropWhile_append)
    have "strings_Split (CHR '','') v = k # strings_Split (CHR '','') rest" unfolding v by (rule split_prefix [OF k])
    then show ?thesis using 1 True by (simp add: splitRoutingValues.simps [of v] k' Let_def)
  next
    case False
    then show ?thesis by (simp add: splitRoutingValues.simps [of v] split_plain)
  qed
qed

text \<open>A plus sign is left as it is when the value has no percent sign, and becomes a space when it has one: the
  same routing value is read differently depending on an unrelated escape, although the server decodes both.\<close>
theorem routing_plus_inconsistent:
  assumes "CHR ''%'' \<notin> set v" "CHR ''&'' \<notin> set v" "CHR ''?'' \<notin> set v" "CHR ''+'' \<in> set v"
  shows "extractRouting (req\<lparr>req_RawQuery := ''routing='' @ v\<rparr>) = v \<and> QueryUnescape v \<noteq> Some v
    \<and> extractRouting (req\<lparr>req_RawQuery := ''routing='' @ v @ ''%21''\<rparr>) \<noteq> v @ ''!''"
proof -
  have split: "strings_Split (CHR ''&'') (''routing='' @ v @ t) = [''routing='' @ v @ t]" if "CHR ''&'' \<notin> set t" for t
    using assms(2) that by (intro split_plain) auto
  have read: "extractRouting (req\<lparr>req_RawQuery := ''routing='' @ v @ t\<rparr>) = routing_decode (v @ t)"
    if "CHR ''&'' \<notin> set t" "CHR ''?'' \<notin> set t" for t
    using assms(3) that split [OF that(1)] by (subst extractRouting_params) (auto simp: first_param_def)
  have plus: "QueryUnescape (v @ t) = map_option (\<lambda>s. map (\<lambda>c. if c = CHR ''+'' then CHR '' '' else c) v @ s) (QueryUnescape t)" for t
    using assms(1) by (induction v) (cases "QueryUnescape t"; auto simp: option.map_comp comp_def)+
  have "map (\<lambda>c. if c = CHR ''+'' then CHR '' '' else c) v \<noteq> v"
    using split_list [OF assms(4)] by auto
  moreover have "QueryUnescape ''%21'' = Some ''!''" by code_simp
  ultimately show ?thesis
    using read [of "[]"] read [of "''%21''"] plus [of "[]"] plus [of "''%21''"] assms(1) by (auto simp: routing_decode_def)
qed

theorem routing_plus_inconsistent_witness:
  "extractRouting (sample_request\<lparr>req_RawQuery := ''routing='' @ ''a+b''\<rparr>) = ''a+b''"
  using routing_plus_inconsistent [of "''a+b''" sample_request] by simp

section \<open>The adaptive shard limit\<close>

lemma split_append_sep: "strings_Split sep (a @ sep # b) = strings_Split sep a @ strings_Split sep b"
proof (induction a)
  case (Cons c a)
  then show ?case using split_nonempty [of sep a] by (auto split: list.splits)
qed simp

abbreviation mcsr_needle :: string where
  "mcsr_needle \<equiv> maxConcurrentShardRequestsParam @ ''=''"

definition has_mcsr :: "string \<Rightarrow> bool" where
  "has_mcsr raw \<longleftrightarrow> list_ex (\<lambda>p. take (length mcsr_needle) p = mcsr_needle) (strings_Split (CHR ''&'') raw)"

lemma mcsr_plain: "CHR ''&'' \<notin> set mcsr_needle" "mcsr_needle \<noteq> []"
  by (simp_all add: maxConcurrentShardRequestsParam_def)

lemma scan_mcsr: "scan {CHR ''&''} mcsr_needle None raw \<noteq> None \<longleftrightarrow> has_mcsr raw"
  unfolding scan_none_iff [OF mcsr_plain] has_mcsr_def by (auto simp: list_ex_iff)

lemma Itoa_plain: "CHR ''&'' \<notin> set (strconv_Itoa v)"
proof -
  have "CHR ''&'' \<notin> set (decimal n)" for n using decimal_digits [of n] by force
  then show ?thesis by (simp add: strconv_Itoa_def)
qed

lemma mcsr_param_split: "strings_Split (CHR ''&'') (mcsr_needle @ strconv_Itoa v) = [mcsr_needle @ strconv_Itoa v]"
  using mcsr_plain(1) Itoa_plain by (intro split_plain) auto

text \<open>The adaptive limit never overrides the caller and is added at most once: a query string that has the
  parameter stays as it is, any other one gets it as its last parameter and keeps the others, and a second
  call, with whatever value, changes nothing.\<close>
theorem appendAdaptiveConcurrency_once:
  "let req' = appendAdaptiveConcurrency v req; raw = req_RawQuery req in
     (if has_mcsr raw then req' = req
      else strings_Split (CHR ''&'') (req_RawQuery req') =
        (if raw = [] then [] else strings_Split (CHR ''&'') raw) @ [mcsr_needle @ strconv_Itoa v]) \<and>
     appendAdaptiveConcurrency v' req' = req'"
proof -
  let ?raw = "req_RawQuery req" and ?p = "mcsr_needle @ strconv_Itoa v"
  have app: "appendAdaptiveConcurrency u r = (if has_mcsr (req_RawQuery r) then r else
      r\<lparr>req_RawQuery := (if req_RawQuery r = [] then mcsr_needle @ strconv_Itoa u
        else req_RawQuery r @ ''&'' @ mcsr_needle @ strconv_Itoa u)\<rparr>)" for u r
    by (simp only: appendAdaptiveConcurrency_def Let_def scan_mcsr append_assoc)
  let ?raw' = "if ?raw = [] then ?p else ?raw @ ''&'' @ ?p"
  have split: "strings_Split (CHR ''&'') ?raw' = (if ?raw = [] then [] else strings_Split (CHR ''&'') ?raw) @ [?p]"
    using mcsr_param_split [of v] split_append_sep [of "CHR ''&''" ?raw ?p] by simp
  then have "has_mcsr ?raw'" unfolding has_mcsr_def split by simp
  then show ?thesis using split by (simp add: app Let_def)
qed

section \<open>Headers and credentials\<close>

text \<open>The values that the configured headers offer for a name: the first entry that spells it and is not empty.\<close>

definition configured :: "(string \<times> string list) list \<Rightarrow> string \<Rightarrow> string list option" where
  "configured hs k = map_option snd (find (\<lambda>(k', vs). CanonicalHeaderKey k' = k \<and> vs \<noteq> []) hs)"

lemma fold_header_Add:
  "fold (header_Add k) vs h = (if vs = [] then h
     else h(CanonicalHeaderKey k \<mapsto> (case h (CanonicalHeaderKey k) of None \<Rightarrow> [] | Some us \<Rightarrow> us) @ vs))"
  by (induction vs arbitrary: h) (auto simp: header_Add_def fun_eq_iff split: option.splits)

lemma fold_add_missing:
  "fold add_missing hs h k = (case h k of Some v \<Rightarrow> Some v | None \<Rightarrow> configured hs k)"
proof (induction hs arbitrary: h)
  case Nil then show ?case by (simp add: configured_def split: option.splits)
next
  case (Cons e hs)
  obtain k' vs where e: "e = (k', vs)" by (cases e)
  have "add_missing e h = (if h (CanonicalHeaderKey k') = None \<and> vs \<noteq> [] then h(CanonicalHeaderKey k' \<mapsto> vs) else h)"
    by (simp add: add_missing_def e fold_header_Add)
  then show ?case using Cons.IH by (auto simp: configured_def e split: option.splits)
qed

text \<open>Configured headers are defaults: a header the caller set keeps its values, and a missing one gets the
  values configured under any spelling of its name, whatever the order in which they are visited brings first.\<close>
theorem global_header_defaults:
  "req_Header (setReqGlobalHeader c req) k =
     (case req_Header req k of Some v \<Rightarrow> Some v | None \<Rightarrow> configured (global_header c) k)"
  by (simp add: setReqGlobalHeader_def fold_add_missing)

text \<open>The part of a URL's path that is prepended to each request.\<close>

definition base_of :: "url \<Rightarrow> string" where
  "base_of u = take (base_len (u_Path u) (length (u_Path u))) (u_Path u)"

lemma setReqURL_fields [simp]:
  "req_Path (setReqURL u req) = base_of u @ req_Path req"
  "req_Host (setReqURL u req) = u_Host u" "req_Scheme (setReqURL u req) = u_Scheme u"
  "req_Header (setReqURL u req) = req_Header req" "req_RawQuery (setReqURL u req) = req_RawQuery req"
  "req_Body (setReqURL u req) = req_Body req" "req_GetBody (setReqURL u req) = req_GetBody req"
  "req_Method (setReqURL u req) = req_Method req"
  by (simp_all add: setReqURL_def base_of_def Let_def)

lemma setReqAuth_fields [simp]:
  "req_Path (setReqAuth c u req) = req_Path req" "req_Host (setReqAuth c u req) = req_Host req"
  "req_Scheme (setReqAuth c u req) = req_Scheme req" "req_RawQuery (setReqAuth c u req) = req_RawQuery req"
  "req_Body (setReqAuth c u req) = req_Body req" "req_GetBody (setReqAuth c u req) = req_GetBody req"
  "req_Method (setReqAuth c u req) = req_Method req" "req_RawPath (setReqAuth c u req) = req_RawPath req"
  by (simp_all add: setReqAuth_def SetBasicAuth_def split: option.splits)

lemma base_len_le: "base_len p n \<le> n"
  by (induction n) auto

lemma base_len_last: "base_len p n = Suc k \<Longrightarrow> p ! k \<noteq> CHR ''/''"
  by (induction n) (auto split: if_splits)

lemma base_len_slashes: "base_len p n \<le> i \<Longrightarrow> i < n \<Longrightarrow> p ! i = CHR ''/''"
  by (induction n) (auto split: if_splits simp: less_Suc_eq)

lemma base_of_trim: "base_of u = rev (dropWhile (\<lambda>c. c = CHR ''/'') (rev (u_Path u)))"
proof -
  let ?p = "u_Path u" and ?n = "base_len (u_Path u) (length (u_Path u))"
  have n: "?n \<le> length ?p" by (rule base_len_le)
  have "drop ?n ?p = replicate (length ?p - ?n) (CHR ''/'')"
    using base_len_slashes [of ?p "length ?p"] n by (intro nth_equalityI) auto
  then have p: "?p = take ?n ?p @ replicate (length ?p - ?n) (CHR ''/'')" by (metis append_take_drop_id)
  have last: "dropWhile (\<lambda>c. c = CHR ''/'') (rev (take ?n ?p)) = rev (take ?n ?p)"
  proof (cases ?n)
    case (Suc k)
    then have "rev (take ?n ?p) = ?p ! k # rev (take k ?p)" using n by (simp add: take_Suc_conv_app_nth)
    then show ?thesis using base_len_last [OF Suc] by simp
  qed simp
  have "dropWhile (\<lambda>c. c = CHR ''/'') (rev ?p) = rev (take ?n ?p)"
    by (subst p) (simp add: dropWhile_append last)
  then show ?thesis by (simp add: base_of_def)
qed

lemma Authorization_canonical: "CanonicalHeaderKey ''Authorization'' = ''Authorization''"
  by code_simp

lemma setReqAuth_Header:
  "req_Header (setReqAuth c u req) k =
     (if k = ''Authorization'' \<and> req_Header req k = None
      then case u_User u of
             Some (user, pw) \<Rightarrow> Some [''Basic '' @ base64 (map of_char (user @ '':'' @ pw))]
           | None \<Rightarrow> if username c \<noteq> [] \<and> password c \<noteq> []
                     then Some [''Basic '' @ base64 (map of_char (username c @ '':'' @ password c))] else None
      else req_Header req k)"
  by (auto simp: setReqAuth_def SetBasicAuth_def header_Set_def Authorization_canonical split: option.splits)

end
