(* ===== verification/Shard_Placement.thy ===== *)
theory Shard_Placement
  imports Complex_Main Go_Strings "HOL-Library.AList"
begin

text \<open>
  Where the shards of an index live and what the client remembers of it. \<^verbatim>\<open>discovery.go\<close> turns the rows of
  \<^verbatim>\<open>/_cat/shards\<close> into a placement per index and adds the routing metadata; \<^verbatim>\<open>index_routing_cache.go\<close> keeps a slot
  per index with the placement, the request rate and the fan-out that follows from them.

  A Go map is an association list with distinct keys: \<^verbatim>\<open>len\<close> is its length, and a loop over the map visits it in
  list order, which stands for any order. Counters that are \<^verbatim>\<open>float64\<close> in the source are real numbers.
\<close>

type_synonym ('k, 'v) gomap = "('k \<times> 'v) list"

section \<open>Placement from the rows\<close>

record catShardsEntry =
  ce_Index :: string
  ce_Shard :: string
  ce_PriRep :: string
  ce_State :: string
  ce_Node :: string

record shardNodeInfo =
  Primaries :: int
  Replicas :: int

record shardNodes =
  Primary :: string
  replicaNodes :: "string list"

record indexShardPlacement =
  Nodes :: "(string, shardNodeInfo) gomap"
  NumberOfPrimaryShards :: int
  RoutingNumShards :: int
  ShardToNodes :: "(int, shardNodes) gomap"

definition shardStateStarted :: string where "shardStateStarted = ''STARTED''"
definition shardTypePrimary :: string where "shardTypePrimary = ''p''"
definition shardTypeReplica :: string where "shardTypeReplica = ''r''"

abbreviation lookup_or :: "'v \<Rightarrow> ('k, 'v) gomap \<Rightarrow> 'k \<Rightarrow> 'v" where
  "lookup_or d m k \<equiv> (case map_of m k of None \<Rightarrow> d | Some v \<Rightarrow> v)"

abbreviation no_copies :: shardNodes where "no_copies \<equiv> \<lparr>Primary = [], replicaNodes = []\<rparr>"
abbreviation no_info :: shardNodeInfo where "no_info \<equiv> \<lparr>Primaries = 0, Replicas = 0\<rparr>"

abbreviation no_placement :: indexShardPlacement where
  "no_placement \<equiv> \<lparr>Nodes = [], NumberOfPrimaryShards = 0, RoutingNumShards = 0, ShardToNodes = []\<rparr>"

text \<open>One row into the placement of its index. The shard number may not parse.\<close>

definition add_row :: "catShardsEntry \<Rightarrow> indexShardPlacement \<Rightarrow> indexShardPlacement" where
  "add_row e p =
     (let info = lookup_or no_info (Nodes p) (ce_Node e);
          copies = (\<lambda>n. lookup_or no_copies (ShardToNodes p) n)
      in if ce_PriRep e = shardTypePrimary then
           p\<lparr>Nodes := AList.update (ce_Node e) (info\<lparr>Primaries := Primaries info + 1\<rparr>) (Nodes p),
             ShardToNodes := (case strconv_Atoi (ce_Shard e) of
                 None \<Rightarrow> ShardToNodes p
               | Some n \<Rightarrow> AList.update n ((copies n)\<lparr>Primary := ce_Node e\<rparr>) (ShardToNodes p))\<rparr>
         else if ce_PriRep e = shardTypeReplica then
           p\<lparr>Nodes := AList.update (ce_Node e) (info\<lparr>Replicas := Replicas info + 1\<rparr>) (Nodes p),
             ShardToNodes := (case strconv_Atoi (ce_Shard e) of
                 None \<Rightarrow> ShardToNodes p
               | Some n \<Rightarrow> AList.update n ((copies n)\<lparr>replicaNodes := replicaNodes (copies n) @ [ce_Node e]\<rparr>) (ShardToNodes p))\<rparr>
         else p\<lparr>Nodes := AList.update (ce_Node e) info (Nodes p)\<rparr>)"

record placement_acc =
  acc_result :: "(string, indexShardPlacement) gomap"
  acc_primaries :: "(string, int list) gomap"

definition add_entry :: "catShardsEntry \<Rightarrow> placement_acc \<Rightarrow> placement_acc" where
  "add_entry e a =
     (if ce_Index e = [] then a
      else let a = (if ce_PriRep e = shardTypePrimary
                    then case strconv_Atoi (ce_Shard e) of
                           None \<Rightarrow> a
                         | Some n \<Rightarrow> a\<lparr>acc_primaries := AList.update (ce_Index e)
                             (List.insert n (lookup_or [] (acc_primaries a) (ce_Index e))) (acc_primaries a)\<rparr>
                    else a)
           in if ce_Node e = [] then a
              else if ce_State e \<noteq> shardStateStarted then a
              else a\<lparr>acc_result := AList.update (ce_Index e)
                (add_row e (lookup_or no_placement (acc_result a) (ce_Index e))) (acc_result a)\<rparr>)"

definition count_primaries :: "(string, int list) gomap \<Rightarrow> string \<Rightarrow> indexShardPlacement \<Rightarrow> indexShardPlacement" where
  "count_primaries prims i p =
     p\<lparr>NumberOfPrimaryShards :=
        (case map_of prims i of
           Some ns \<Rightarrow> int (length ns)
         | None \<Rightarrow> int (length (filter (\<lambda>(n, c). Primary c \<noteq> []) (ShardToNodes p))))\<rparr>"

definition getShardPlacement :: "catShardsEntry list \<Rightarrow> (string, indexShardPlacement) gomap" where
  "getShardPlacement es =
     (let a = fold add_entry es \<lparr>acc_result = [], acc_primaries = []\<rparr>
      in map (\<lambda>(i, p). (i, count_primaries (acc_primaries a) i p)) (acc_result a))"

section \<open>Slots\<close>

record indexShardMap =
  sm_NumberOfPrimaryShards :: int
  sm_RoutingNumShards :: int
  sm_Shards :: "(int, shardNodes) gomap"

record indexSlot =
  requestDecay :: real
  fanOut :: int
  shardNodeCount :: int
  shardNodeNames :: "(string, shardNodeInfo) gomap option"
  shardMap :: "indexShardMap option"
  smoothedMaxBucket :: real
  smoothedMaxBucketNano :: int
  idleSince :: int

type_synonym routingFeatures = "32 word"

definition routingSkipShardExact :: routingFeatures where "routingSkipShardExact = push_bit 0 1"
definition routingSkipAdaptiveConcurrency :: routingFeatures where "routingSkipAdaptiveConcurrency = push_bit 1 1"

definition shardExactEnabled :: "routingFeatures \<Rightarrow> bool" where
  "shardExactEnabled f \<longleftrightarrow> and f routingSkipShardExact = 0"

definition adaptiveConcurrencyEnabled :: "routingFeatures \<Rightarrow> bool" where
  "adaptiveConcurrencyEnabled f \<longleftrightarrow> and f routingSkipAdaptiveConcurrency = 0"

record adaptiveConcurrencyConfig =
  minVal :: int
  maxVal :: int

definition adaptiveConcurrencyMinDefault :: int where "adaptiveConcurrencyMinDefault = 5"
definition adaptiveConcurrencyMaxDefault :: int where "adaptiveConcurrencyMaxDefault = 256"

definition effectiveMin :: "adaptiveConcurrencyConfig \<Rightarrow> int" where
  "effectiveMin c = (if minVal c > 0 then minVal c else adaptiveConcurrencyMinDefault)"

definition effectiveMax :: "adaptiveConcurrencyConfig \<Rightarrow> int" where
  "effectiveMax c = (if maxVal c > 0 then maxVal c else adaptiveConcurrencyMaxDefault)"

definition computeAdaptiveConcurrency :: "int \<Rightarrow> adaptiveConcurrencyConfig \<Rightarrow> routingFeatures \<Rightarrow> int" where
  "computeAdaptiveConcurrency cwnd cfg features =
     (if \<not> adaptiveConcurrencyEnabled features then 0
      else let value = min cwnd (effectiveMax cfg) in max value (effectiveMin cfg))"

definition parseShardRequests :: "string \<Rightarrow> routingFeatures \<Rightarrow> adaptiveConcurrencyConfig \<times> routingFeatures" where
  "parseShardRequests value features =
     (let value = strings_TrimSpace value;
          none = \<lparr>minVal = 0, maxVal = 0\<rparr>;
          positive = (\<lambda>s. case strconv_Atoi s of Some v \<Rightarrow> if v > 0 then v else 0 | None \<Rightarrow> 0)
      in if value = [] then (none, features)
         else case strconv_ParseBool value of
                Some b \<Rightarrow> (none, if b then and features (not routingSkipAdaptiveConcurrency)
                               else or features routingSkipAdaptiveConcurrency)
              | None \<Rightarrow>
                  (case strings_Cut (CHR '':'') value of (minStr, maxStr, hasColon) \<Rightarrow>
                     if \<not> hasColon then
                       (if positive value > 0
                        then (\<lparr>minVal = positive value, maxVal = 0\<rparr>, and features (not routingSkipAdaptiveConcurrency))
                        else (none, features))
                     else (\<lparr>minVal = (if minStr \<noteq> [] then positive minStr else 0),
                            maxVal = (if maxStr \<noteq> [] then positive maxStr else 0)\<rparr>,
                           and features (not routingSkipAdaptiveConcurrency))))"

record indexSlotCache =
  entries :: "(string, indexSlot) gomap"
  highWaterMark :: int
  minFanOut :: int
  maxFanOut :: int
  fanOut_overrides :: "(string, int) gomap"
  idleEvictionTTL :: int
  decayFactor :: real
  fanOutPerReq :: real
  cache_features :: routingFeatures
  adaptiveConcurrency :: adaptiveConcurrencyConfig

definition defaultMinFanOut :: int where "defaultMinFanOut = 1"
definition defaultMaxFanOut :: int where "defaultMaxFanOut = 32"
definition defaultIdleEvictionTTL :: int where "defaultIdleEvictionTTL = 90 * 60 * 1000000000"
definition defaultDecayFactor :: real where "defaultDecayFactor = 999 / 1000"
definition defaultFanOutPerRequest :: real where "defaultFanOutPerRequest = 500"

text \<open>The configuration has the fields of the cache it makes; its entries are ignored.\<close>

definition newIndexSlotCache :: "indexSlotCache \<Rightarrow> indexSlotCache" where
  "newIndexSlotCache cfg =
     cfg\<lparr>entries := [], highWaterMark := 0,
         minFanOut := (if minFanOut cfg \<le> 0 then defaultMinFanOut else minFanOut cfg),
         maxFanOut := (if maxFanOut cfg \<le> 0 then defaultMaxFanOut else maxFanOut cfg),
         idleEvictionTTL := (if idleEvictionTTL cfg \<le> 0 then defaultIdleEvictionTTL else idleEvictionTTL cfg),
         decayFactor := (if decayFactor cfg \<le> 0 \<or> decayFactor cfg \<ge> 1 then defaultDecayFactor else decayFactor cfg),
         fanOutPerReq := (if fanOutPerReq cfg \<le> 0 then defaultFanOutPerRequest else fanOutPerReq cfg)\<rparr>"

text \<open>The decaying counters, without contention.\<close>

definition decay_increment :: "real \<Rightarrow> real \<Rightarrow> real" where
  "decay_increment d v = v * d + 1"

definition decay_decay :: "real \<Rightarrow> real \<Rightarrow> real" where
  "decay_decay d v = v * d"

definition new_slot :: "indexSlotCache \<Rightarrow> indexSlot" where
  "new_slot c = \<lparr>requestDecay = decay_increment (decayFactor c) 0, fanOut = minFanOut c, shardNodeCount = 0,
     shardNodeNames = None, shardMap = None, smoothedMaxBucket = 0, smoothedMaxBucketNano = 0, idleSince = 0\<rparr>"

definition slotFor :: "indexSlotCache \<Rightarrow> string \<Rightarrow> indexSlot option" where
  "slotFor c i = map_of (entries c) i"

definition slot_getOrCreate :: "string \<Rightarrow> indexSlotCache \<Rightarrow> indexSlot \<times> indexSlotCache" where
  "slot_getOrCreate i c =
     (let slot = (case slotFor c i of
            Some slot \<Rightarrow> slot\<lparr>requestDecay := decay_increment (decayFactor c) (requestDecay slot), idleSince := 0\<rparr>
          | None \<Rightarrow> new_slot c)
      in (slot, c\<lparr>entries := AList.update i slot (entries c)\<rparr>))"

definition clampFanOut :: "int \<Rightarrow> int \<Rightarrow> int" where
  "clampFanOut f activeNodeCount =
     (if activeNodeCount > 0 \<and> f > activeNodeCount then activeNodeCount else if f < 1 then 1 else f)"

text \<open>Go's conversion of a floating point number to an integer truncates.\<close>

definition trunc :: "real \<Rightarrow> int" where
  "trunc x = (if x \<ge> 0 then \<lfloor>x\<rfloor> else \<lceil>x\<rceil>)"

definition effectiveFanOut :: "indexSlotCache \<Rightarrow> indexSlot \<Rightarrow> string \<Rightarrow> int \<Rightarrow> int" where
  "effectiveFanOut c slot i activeNodeCount =
     (case map_of (fanOut_overrides c) i of
        Some override \<Rightarrow> clampFanOut override activeNodeCount
      | None \<Rightarrow>
          let rateFanOut = trunc (requestDecay slot / fanOutPerReq c) + 1;
              shardFloor = shardNodeCount slot;
              f = max (minFanOut c) (max shardFloor rateFanOut);
              f = (if maxFanOut c > 0 \<and> f > maxFanOut c then maxFanOut c else f)
          in clampFanOut f activeNodeCount)"

section \<open>Merging a new placement\<close>

definition carriesForward :: "(int, 'v) gomap \<Rightarrow> (int, 'v) gomap \<Rightarrow> bool" where
  "carriesForward old nxt \<longleftrightarrow> list_ex (\<lambda>(k, v). map_of nxt k = None) old"

text \<open>\<^verbatim>\<open>maps.Copy(dst, src)\<close>.\<close>

definition maps_Copy :: "('k, 'v) gomap \<Rightarrow> ('k, 'v) gomap \<Rightarrow> ('k, 'v) gomap" where
  "maps_Copy dst src = fold (\<lambda>(k, v). AList.update k v) src dst"

text \<open>One round of the loop of \<^verbatim>\<open>mergeShardMap\<close>: the map it would store over \<open>old\<close>.\<close>

definition merged_map :: "indexShardPlacement \<Rightarrow> indexShardMap option \<Rightarrow> indexShardMap" where
  "merged_map p old =
     (let merged = (case old of
            Some o' \<Rightarrow> if carriesForward (sm_Shards o') (ShardToNodes p)
                      then maps_Copy (maps_Copy [] (sm_Shards o')) (ShardToNodes p) else ShardToNodes p
          | None \<Rightarrow> ShardToNodes p);
          isCompletePlacement = (int (length (ShardToNodes p)) \<ge> NumberOfPrimaryShards p);
          merged = (if NumberOfPrimaryShards p > 0 \<and> isCompletePlacement \<and> int (length merged) > NumberOfPrimaryShards p
                    then filter (\<lambda>(k, v). \<not> k \<ge> NumberOfPrimaryShards p) merged else merged)
      in \<lparr>sm_NumberOfPrimaryShards = NumberOfPrimaryShards p, sm_RoutingNumShards = RoutingNumShards p, sm_Shards = merged\<rparr>)"

text \<open>
  The bounded loop: \<open>env\<close> is what other goroutines store before each compare-and-swap, \<open>None\<close> when they store
  nothing. Pointers are fresh, so a store by another goroutine always makes the swap fail.
\<close>

fun merge_rounds :: "nat \<Rightarrow> indexShardMap option list \<Rightarrow> indexShardPlacement \<Rightarrow> indexShardMap option \<Rightarrow> indexShardMap option" where
  "merge_rounds 0 env p m = m"
| "merge_rounds (Suc n) env p m =
     (case env of
        Some other # env' \<Rightarrow> merge_rounds n env' p (Some other)
      | _ \<Rightarrow> Some (merged_map p m))"

definition mergeShardMap :: "indexShardMap option list \<Rightarrow> indexShardPlacement \<Rightarrow> indexSlot \<Rightarrow> indexSlot" where
  "mergeShardMap env p slot =
     (if ShardToNodes p = [] then slot else slot\<lparr>shardMap := merge_rounds 3 env p (shardMap slot)\<rparr>)"

section \<open>Discovery cycle of the cache\<close>

text \<open>What the cycle does to one slot: \<open>None\<close> when it is evicted.\<close>

definition refresh_slot ::
    "indexSlotCache \<Rightarrow> (string, indexShardPlacement) gomap option \<Rightarrow> int \<Rightarrow> int \<Rightarrow> string \<Rightarrow> indexSlot \<Rightarrow> indexSlot option" where
  "refresh_slot c placements activeNodeCount nowNano i slot =
     (let slot = (case placements of
            None \<Rightarrow> slot
          | Some ps \<Rightarrow>
              (case map_of ps i of
                 Some p \<Rightarrow> mergeShardMap [] p (slot\<lparr>shardNodeCount := int (length (Nodes p)), shardNodeNames := Some (Nodes p)\<rparr>)
               | None \<Rightarrow> slot\<lparr>shardNodeCount := 0, shardNodeNames := None\<rparr>));
          slot = slot\<lparr>requestDecay := decay_decay (decayFactor c) (requestDecay slot)\<rparr>;
          slot = slot\<lparr>fanOut := effectiveFanOut c slot i activeNodeCount\<rparr>
      in if requestDecay slot < 1 then
           (if idleSince slot = 0 then Some (slot\<lparr>idleSince := nowNano\<rparr>)
            else if nowNano - idleSince slot > idleEvictionTTL c then None
            else Some slot)
         else Some (slot\<lparr>idleSince := 0\<rparr>))"

text \<open>Compaction copies the surviving entries into a fresh map and resets the high-water mark.\<close>

definition updateFromDiscovery ::
    "(string, indexShardPlacement) gomap option \<Rightarrow> int \<Rightarrow> int \<Rightarrow> indexSlotCache \<Rightarrow> indexSlotCache" where
  "updateFromDiscovery placements activeNodeCount nowNano c =
     (let live = List.map_filter
            (\<lambda>(i, slot). map_option (Pair i) (refresh_slot c placements activeNodeCount nowNano i slot)) (entries c);
          liveCount = int (length live);
          hwm = highWaterMark c
      in c\<lparr>entries := live,
           highWaterMark := (if liveCount > hwm then liveCount
                             else if hwm > 0 \<and> liveCount \<le> hwm div 2 then liveCount else hwm)\<rparr>)"

text \<open>The node names and the record of one node of a slot.\<close>

definition shardNodeNameSet :: "indexSlot \<Rightarrow> string set" where
  "shardNodeNameSet slot = (case shardNodeNames slot of None \<Rightarrow> {} | Some m \<Rightarrow> set (map fst m))"

definition shardNodeInfoFor :: "indexSlot \<Rightarrow> string \<Rightarrow> shardNodeInfo option" where
  "shardNodeInfoFor slot name = (case shardNodeNames slot of None \<Rightarrow> None | Some m \<Rightarrow> map_of m name)"

section \<open>Routing metadata\<close>

record indexRoutingMeta =
  meta_RoutingNumShards :: int
  meta_NumberOfShards :: int

text \<open>The cached metadata of an index, when its slot has a usable one.\<close>

definition cached_meta :: "indexSlotCache option \<Rightarrow> string \<Rightarrow> indexShardMap option" where
  "cached_meta cache i =
     (case cache of
        None \<Rightarrow> None
      | Some c \<Rightarrow>
          (case slotFor c i of
             None \<Rightarrow> None
           | Some slot \<Rightarrow>
               (case shardMap slot of
                  None \<Rightarrow> None
                | Some sm \<Rightarrow> if sm_RoutingNumShards sm = 0 then None else Some sm)))"

definition carry_meta :: "indexShardMap \<Rightarrow> indexShardPlacement \<Rightarrow> indexShardPlacement" where
  "carry_meta sm p =
     (let p = p\<lparr>RoutingNumShards := sm_RoutingNumShards sm\<rparr>
      in if sm_NumberOfPrimaryShards sm > 0 then p\<lparr>NumberOfPrimaryShards := sm_NumberOfPrimaryShards sm\<rparr> else p)"

definition fetch_meta :: "indexRoutingMeta \<Rightarrow> indexShardPlacement \<Rightarrow> indexShardPlacement" where
  "fetch_meta meta p =
     (let p = p\<lparr>RoutingNumShards := meta_RoutingNumShards meta\<rparr>
      in if meta_NumberOfShards meta > 0 then p\<lparr>NumberOfPrimaryShards := meta_NumberOfShards meta\<rparr> else p)"

text \<open>
  \<open>fetch names\<close> is the outcome of the metadata request for the indexes that need it: \<open>None\<close> when it fails. The
  router is present.
\<close>

definition fetchRoutingNumShards ::
    "indexSlotCache option \<Rightarrow> (string list \<Rightarrow> (string, indexRoutingMeta) gomap option) \<Rightarrow>
      (string, indexShardPlacement) gomap \<Rightarrow> (string, indexShardPlacement) gomap" where
  "fetchRoutingNumShards cache fetch placements =
     (let needFetch = filter (\<lambda>i. cached_meta cache i = None) (map fst placements);
          placements = map (\<lambda>(i, p). (i, case cached_meta cache i of None \<Rightarrow> p | Some sm \<Rightarrow> carry_meta sm p)) placements
      in if needFetch = [] then placements
         else case fetch needFetch of
                None \<Rightarrow> placements
              | Some metas \<Rightarrow>
                  map (\<lambda>(i, p). (i, case map_of metas i of None \<Rightarrow> p | Some m \<Rightarrow> fetch_meta m p)) placements)"

text \<open>
  The smoothed RTT bucket of a slot, at time \<open>now\<close> and without contention: fast growth towards a higher
  observation, a slow linear step down otherwise.
\<close>

definition miadMIHalfLife :: real where "miadMIHalfLife = 2"
definition miadADRate :: real where "miadADRate = 3 / 100"

definition updateSmoothedMaxBucket :: "int \<Rightarrow> real \<Rightarrow> indexSlot \<Rightarrow> indexSlot" where
  "updateSmoothedMaxBucket now observed slot =
     (let miLambda = ln 2 / miadMIHalfLife;
          oldVal = smoothedMaxBucket slot;
          oldNano = smoothedMaxBucketNano slot;
          dt = real_of_int (now - oldNano) / 10 ^ 9;
          newVal = (if dt < 0 \<or> oldNano = 0 then max 1 observed
                    else let v = (if observed \<ge> oldVal then observed - (observed - oldVal) * exp (- miLambda * dt)
                                  else max (oldVal - miadADRate * dt) observed)
                         in if v < 1 then 1 else v)
      in slot\<lparr>smoothedMaxBucket := newVal, smoothedMaxBucketNano := now\<rparr>)"

section \<open>The placement of an index\<close>

text \<open>The rows that place a shard of an index, and what they say of one shard and of one node.\<close>

definition started_rows :: "string \<Rightarrow> catShardsEntry list \<Rightarrow> catShardsEntry list" where
  "started_rows i es = filter (\<lambda>e. ce_Index e = i \<and> ce_Node e \<noteq> [] \<and> ce_State e = shardStateStarted) es"

definition copies_of :: "string \<Rightarrow> int \<Rightarrow> catShardsEntry list \<Rightarrow> catShardsEntry list" where
  "copies_of kind n rows = filter (\<lambda>e. ce_PriRep e = kind \<and> strconv_Atoi (ce_Shard e) = Some n) rows"

definition shard_spec :: "catShardsEntry list \<Rightarrow> int \<Rightarrow> shardNodes option" where
  "shard_spec rows n =
     (let ps = copies_of shardTypePrimary n rows; rs = copies_of shardTypeReplica n rows
      in if ps = [] \<and> rs = [] then None
         else Some \<lparr>Primary = (if ps = [] then [] else ce_Node (last ps)), replicaNodes = map ce_Node rs\<rparr>)"

definition rows_on :: "string \<Rightarrow> string \<Rightarrow> catShardsEntry list \<Rightarrow> int" where
  "rows_on kind node rows = int (length (filter (\<lambda>e. ce_PriRep e = kind \<and> ce_Node e = node) rows))"

definition node_spec :: "catShardsEntry list \<Rightarrow> string \<Rightarrow> shardNodeInfo option" where
  "node_spec rows node =
     (if node \<in> ce_Node ` set rows
      then Some \<lparr>Primaries = rows_on shardTypePrimary node rows, Replicas = rows_on shardTypeReplica node rows\<rparr> else None)"

definition primary_numbers :: "string \<Rightarrow> catShardsEntry list \<Rightarrow> int set" where
  "primary_numbers i es =
     {n. \<exists>e \<in> set es. ce_Index e = i \<and> ce_PriRep e = shardTypePrimary \<and> strconv_Atoi (ce_Shard e) = Some n}"

lemma kinds_differ [simp]: "shardTypePrimary \<noteq> shardTypeReplica" "shardTypeReplica \<noteq> shardTypePrimary"
  by (simp_all add: shardTypePrimary_def shardTypeReplica_def)

lemma add_row_shards:
  "map_of (ShardToNodes (add_row e p)) n =
     (if strconv_Atoi (ce_Shard e) = Some n \<and> ce_PriRep e = shardTypePrimary
      then Some ((lookup_or no_copies (ShardToNodes p) n)\<lparr>Primary := ce_Node e\<rparr>)
      else if strconv_Atoi (ce_Shard e) = Some n \<and> ce_PriRep e = shardTypeReplica
      then Some ((lookup_or no_copies (ShardToNodes p) n)\<lparr>replicaNodes := replicaNodes (lookup_or no_copies (ShardToNodes p) n) @ [ce_Node e]\<rparr>)
      else map_of (ShardToNodes p) n)"
  by (auto simp: add_row_def Let_def update_conv split: option.splits)

lemma add_row_nodes:
  "map_of (Nodes (add_row e p)) node =
     (if ce_Node e = node
      then let info = lookup_or no_info (Nodes p) node in
        Some (if ce_PriRep e = shardTypePrimary then info\<lparr>Primaries := Primaries info + 1\<rparr>
              else if ce_PriRep e = shardTypeReplica then info\<lparr>Replicas := Replicas info + 1\<rparr> else info)
      else map_of (Nodes p) node)"
  by (auto simp: add_row_def Let_def update_conv)

lemma rows_shards: "map_of (ShardToNodes (fold add_row rows no_placement)) n = shard_spec rows n"
  by (induction rows rule: rev_induct) (simp_all add: add_row_shards shard_spec_def copies_of_def Let_def)

lemma rows_nodes: "map_of (Nodes (fold add_row rows no_placement)) node = node_spec rows node"
  by (induction rows rule: rev_induct) (auto simp: add_row_nodes node_spec_def rows_on_def Let_def filter_empty_conv image_iff)

lemma rows_routing: "RoutingNumShards (fold add_row rows p) = RoutingNumShards p"
  by (induction rows arbitrary: p) (simp_all add: add_row_def Let_def)

lemma add_entry_result:
  "map_of (acc_result (add_entry e a)) i =
     (if i \<noteq> [] \<and> ce_Index e = i \<and> ce_Node e \<noteq> [] \<and> ce_State e = shardStateStarted
      then Some (add_row e (lookup_or no_placement (acc_result a) i)) else map_of (acc_result a) i)"
  by (auto simp: add_entry_def Let_def update_conv split: option.splits)

lemma add_entry_primaries:
  "map_of (acc_primaries (add_entry e a)) i =
     (if i \<noteq> [] \<and> ce_Index e = i \<and> ce_PriRep e = shardTypePrimary
      then (case strconv_Atoi (ce_Shard e) of
              None \<Rightarrow> map_of (acc_primaries a) i
            | Some n \<Rightarrow> Some (List.insert n (lookup_or [] (acc_primaries a) i)))
      else map_of (acc_primaries a) i)"
  by (auto simp: add_entry_def Let_def update_conv split: option.splits)

abbreviation no_acc :: placement_acc where "no_acc \<equiv> \<lparr>acc_result = [], acc_primaries = []\<rparr>"

lemma entries_result:
  "map_of (acc_result (fold add_entry es no_acc)) i =
     (if i = [] \<or> started_rows i es = [] then None else Some (fold add_row (started_rows i es) no_placement))"
  by (induction es rule: rev_induct) (auto simp: add_entry_result started_rows_def)

lemma primary_numbers_snoc:
  "primary_numbers i (es @ [e]) =
     (if ce_Index e = i \<and> ce_PriRep e = shardTypePrimary
      then case strconv_Atoi (ce_Shard e) of None \<Rightarrow> primary_numbers i es | Some n \<Rightarrow> insert n (primary_numbers i es)
      else primary_numbers i es)"
  by (auto simp: primary_numbers_def split: option.splits)

lemma entries_primaries:
  assumes "i \<noteq> []"
  shows "case map_of (acc_primaries (fold add_entry es no_acc)) i of
      None \<Rightarrow> primary_numbers i es = {} | Some ns \<Rightarrow> distinct ns \<and> set ns = primary_numbers i es \<and> ns \<noteq> []"
proof (induction es rule: rev_induct)
  case (snoc e es)
  then show ?case using assms by (auto simp: add_entry_primaries primary_numbers_snoc List.insert_def split: option.splits if_splits)
qed (simp add: primary_numbers_def)

lemma primary_entry:
  assumes "(n, c) \<in> set (ShardToNodes (fold add_row (started_rows i es) no_placement))" "Primary c \<noteq> []"
    and "distinct (map fst (ShardToNodes (fold add_row (started_rows i es) no_placement)))"
  shows "n \<in> primary_numbers i es"
proof -
  have "shard_spec (started_rows i es) n = Some c" using assms(1,3) rows_shards [of "started_rows i es" n] by simp
  then have "copies_of shardTypePrimary n (started_rows i es) \<noteq> []"
    using assms(2) by (auto simp: shard_spec_def Let_def split: if_splits)
  then show ?thesis by (auto simp: copies_of_def started_rows_def primary_numbers_def filter_empty_conv)
qed

lemma distinct_rows: "distinct (map fst (ShardToNodes p)) \<Longrightarrow> distinct (map fst (ShardToNodes (fold add_row rows p)))"
  by (induction rows arbitrary: p) (auto simp: add_row_def Let_def distinct_update split: option.splits)

lemma map_of_map_pair: "map_of (map (\<lambda>(i, p). (i, f i p)) m) i = map_option (f i) (map_of m i)"
  by (induction m) auto

text \<open>C32. The placement of an index is what the rows say: it exists when a copy has started on a node; each
  shard has the node of its last started primary row and the nodes of its started replicas in order, and each
  node its number of primaries and replicas; the number of primary shards counts the distinct primary numbers
  of all rows, so a shard that is relocating is counted though no started row places it.\<close>
theorem getShardPlacement_rows:
  "case map_of (getShardPlacement es) i of
     None \<Rightarrow> i = [] \<or> started_rows i es = []
   | Some p \<Rightarrow> i \<noteq> [] \<and> started_rows i es \<noteq> [] \<and> NumberOfPrimaryShards p = int (card (primary_numbers i es)) \<and>
       map_of (ShardToNodes p) = shard_spec (started_rows i es) \<and> map_of (Nodes p) = node_spec (started_rows i es) \<and>
       RoutingNumShards p = 0"
proof (cases "i = [] \<or> started_rows i es = []")
  case True
  then show ?thesis by (simp add: getShardPlacement_def Let_def map_of_map_pair entries_result)
next
  case False
  let ?a = "fold add_entry es no_acc" and ?p = "fold add_row (started_rows i es) no_placement"
  have some: "map_of (getShardPlacement es) i = Some (count_primaries (acc_primaries ?a) i ?p)"
    using False by (simp add: getShardPlacement_def Let_def map_of_map_pair entries_result)
  have "NumberOfPrimaryShards (count_primaries (acc_primaries ?a) i ?p) = int (card (primary_numbers i es))"
  proof (cases "map_of (acc_primaries ?a) i")
    case None
    then have "primary_numbers i es = {}" using entries_primaries [of i es] False by simp
    moreover have "filter (\<lambda>(n, c). Primary c \<noteq> []) (ShardToNodes ?p) = []"
      using primary_entry [of _ _ i es] distinct_rows [of no_placement "started_rows i es"] \<open>primary_numbers i es = {}\<close>
      by (auto simp: filter_empty_conv)
    ultimately show ?thesis using None by (simp add: count_primaries_def)
  next
    case (Some ns)
    then show ?thesis using entries_primaries [of i es] False by (auto simp: count_primaries_def distinct_card [symmetric])
  qed
  then show ?thesis
    unfolding some using False rows_shards [of "started_rows i es"] rows_nodes [of "started_rows i es"]
    by (auto simp: count_primaries_def rows_routing fun_eq_iff)
qed

section \<open>Merging keeps what is still valid\<close>

lemma map_of_Copy:
  "distinct (map fst src) \<Longrightarrow> map_of (maps_Copy dst src) k = (case map_of src k of Some v \<Rightarrow> Some v | None \<Rightarrow> map_of dst k)"
proof (induction src arbitrary: dst)
  case (Cons e src)
  obtain k' v where e: "e = (k', v)" by (cases e)
  then have "map_of src k' = None" using Cons.prems by (simp add: map_of_eq_None_iff)
  then show ?case using Cons.IH [of "AList.update k' v dst"] Cons.prems
    by (auto simp: maps_Copy_def e update_conv split: option.splits)
qed (simp add: maps_Copy_def)

lemma distinct_Copy: "distinct (map fst dst) \<Longrightarrow> distinct (map fst (maps_Copy dst src))"
  unfolding maps_Copy_def by (induction src arbitrary: dst) (auto simp: distinct_update split: prod.splits)

lemma map_of_filter_key: "map_of (filter (\<lambda>(k, v). P k) m) k = (if P k then map_of m k else None)"
  by (induction m) auto

text \<open>Whether a merge drops the shards beyond the primary count: the placement covers every primary and
  the merged map has more shards than that.\<close>

definition prunes :: "indexShardPlacement \<Rightarrow> indexShardMap option \<Rightarrow> bool" where
  "prunes p old \<longleftrightarrow>
     0 < NumberOfPrimaryShards p \<and> NumberOfPrimaryShards p \<le> int (length (ShardToNodes p)) \<and>
     NumberOfPrimaryShards p < int (card (set (map fst (ShardToNodes p)) \<union>
       (case old of None \<Rightarrow> {} | Some o' \<Rightarrow> set (map fst (sm_Shards o')))))"

definition old_shards :: "indexShardMap option \<Rightarrow> (int, shardNodes) gomap" where
  "old_shards old = (case old of None \<Rightarrow> [] | Some o' \<Rightarrow> sm_Shards o')"

definition joined :: "indexShardPlacement \<Rightarrow> indexShardMap option \<Rightarrow> (int, shardNodes) gomap" where
  "joined p old =
     (if carriesForward (old_shards old) (ShardToNodes p)
      then maps_Copy (maps_Copy [] (old_shards old)) (ShardToNodes p) else ShardToNodes p)"

lemma joined_lookup:
  assumes "distinct (map fst (ShardToNodes p))" "distinct (map fst (old_shards old))"
  shows "map_of (joined p old) k = (case map_of (ShardToNodes p) k of Some v \<Rightarrow> Some v | None \<Rightarrow> map_of (old_shards old) k)"
    and "distinct (map fst (joined p old))"
proof -
  have stay: "map_of (old_shards old) k = None"
    if "\<not> carriesForward (old_shards old) (ShardToNodes p)" "map_of (ShardToNodes p) k = None"
    using that by (auto simp: carriesForward_def list_ex_iff map_of_eq_None_iff)
  show "map_of (joined p old) k = (case map_of (ShardToNodes p) k of Some v \<Rightarrow> Some v | None \<Rightarrow> map_of (old_shards old) k)"
    using stay by (auto simp: joined_def map_of_Copy [OF assms(1)] map_of_Copy [OF assms(2)] split: option.splits)
  show "distinct (map fst (joined p old))"
    using assms(1) by (simp add: joined_def distinct_Copy)
qed

lemma joined_length:
  assumes "distinct (map fst (ShardToNodes p))" "distinct (map fst (old_shards old))"
  shows "length (joined p old) = card (set (map fst (ShardToNodes p)) \<union> set (map fst (old_shards old)))"
proof -
  have keys: "k \<in> fst ` set m \<longleftrightarrow> map_of m k \<noteq> None" for k and m :: "(int, shardNodes) gomap"
    by (metis map_of_eq_None_iff)
  have "set (map fst (joined p old)) = set (map fst (ShardToNodes p)) \<union> set (map fst (old_shards old))"
    by (simp add: set_eq_iff keys joined_lookup(1) [OF assms] split: option.splits)
  then show ?thesis using joined_lookup(2) [OF assms] by (metis distinct_card length_map)
qed

lemma merged_map_shards:
  "sm_Shards (merged_map p old) =
     (if 0 < NumberOfPrimaryShards p \<and> NumberOfPrimaryShards p \<le> int (length (ShardToNodes p)) \<and>
         NumberOfPrimaryShards p < int (length (joined p old))
      then filter (\<lambda>(k, v). \<not> k \<ge> NumberOfPrimaryShards p) (joined p old) else joined p old)"
  by (auto simp: merged_map_def joined_def old_shards_def Let_def carriesForward_def split: option.splits)

text \<open>Merging a new placement into the shard map of an index. New data wins, a shard that the new
  placement lacks keeps its old nodes (it may be relocating), and only a placement that covers every primary
  shard drops the numbers beyond the primary count; the routing numbers are the new ones.\<close>
theorem merged_map_lookup:
  assumes "distinct (map fst (ShardToNodes p))" "distinct (map fst (old_shards old))"
  shows "map_of (sm_Shards (merged_map p old)) k =
      (if prunes p old \<and> NumberOfPrimaryShards p \<le> k then None
       else case map_of (ShardToNodes p) k of Some v \<Rightarrow> Some v | None \<Rightarrow> map_of (old_shards old) k) \<and>
    sm_NumberOfPrimaryShards (merged_map p old) = NumberOfPrimaryShards p \<and>
    sm_RoutingNumShards (merged_map p old) = RoutingNumShards p"
proof -
  have "int (length (joined p old)) = int (card (set (map fst (ShardToNodes p)) \<union>
       (case old of None \<Rightarrow> {} | Some o' \<Rightarrow> set (map fst (sm_Shards o')))))"
    unfolding joined_length [OF assms] by (simp add: old_shards_def split: option.splits)
  then show ?thesis
    unfolding merged_map_shards prunes_def
    by (auto simp: map_of_filter_key [of "\<lambda>k. \<not> k \<ge> NumberOfPrimaryShards p"] joined_lookup(1) [OF assms] merged_map_def Let_def)
qed

definition sample_placement :: indexShardPlacement where
  "sample_placement = \<lparr>Nodes = [], NumberOfPrimaryShards = 2, RoutingNumShards = 64,
     ShardToNodes = [(0, \<lparr>Primary = ''a'', replicaNodes = []\<rparr>)]\<rparr>"

definition sample_shard_map :: indexShardMap where
  "sample_shard_map = \<lparr>sm_NumberOfPrimaryShards = 2, sm_RoutingNumShards = 64,
     sm_Shards = [(0, \<lparr>Primary = ''b'', replicaNodes = []\<rparr>), (1, \<lparr>Primary = ''c'', replicaNodes = []\<rparr>)]\<rparr>"

theorem merged_map_lookup_witness:
  "map_of (sm_Shards (merged_map sample_placement (Some sample_shard_map))) 1 = Some \<lparr>Primary = ''c'', replicaNodes = []\<rparr>"
  by (subst merged_map_lookup [THEN conjunct1])
    (simp_all add: sample_placement_def sample_shard_map_def old_shards_def prunes_def)

section \<open>Fan-out and limits\<close>

text \<open>The fan-out of an index is at least one and at most the number of active nodes when that is known.
  Without an override it stays within the configured maximum, and within these bounds it covers every node
  that hosts a shard and never falls below the configured minimum.\<close>
theorem effectiveFanOut_bounds:
  "let f = effectiveFanOut c slot i n in
     1 \<le> f \<and> (0 < n \<longrightarrow> f \<le> n) \<and>
     (map_of (fanOut_overrides c) i = None \<longrightarrow> 0 < maxFanOut c \<longrightarrow>
        f \<le> maxFanOut c \<and>
        (shardNodeCount slot \<le> maxFanOut c \<longrightarrow> shardNodeCount slot \<le> n \<longrightarrow> shardNodeCount slot \<le> f) \<and>
        (minFanOut c \<le> maxFanOut c \<longrightarrow> minFanOut c \<le> n \<longrightarrow> minFanOut c \<le> f))"
  by (auto simp: effectiveFanOut_def clampFanOut_def Let_def split: option.splits)

definition sample_cache :: indexSlotCache where
  "sample_cache = newIndexSlotCache \<lparr>entries = [], highWaterMark = 0, minFanOut = 2, maxFanOut = 0, fanOut_overrides = [],
     idleEvictionTTL = 0, decayFactor = 0, fanOutPerReq = 0, cache_features = 0,
     adaptiveConcurrency = \<lparr>minVal = 0, maxVal = 0\<rparr>\<rparr>"

theorem effectiveFanOut_bounds_witness:
  "2 \<le> effectiveFanOut sample_cache (new_slot sample_cache) ''i'' 3 \<and> effectiveFanOut sample_cache (new_slot sample_cache) ''i'' 3 \<le> 3"
  using effectiveFanOut_bounds [of sample_cache "new_slot sample_cache" "''i''" 3]
  by (simp add: Let_def sample_cache_def newIndexSlotCache_def defaultMaxFanOut_def)

text \<open>A maximum of zero does not lift the cap: the constructor replaces it by the default.\<close>
theorem maxFanOut_never_uncapped: "0 < maxFanOut (newIndexSlotCache cfg)"
  by (simp add: newIndexSlotCache_def defaultMaxFanOut_def)

text \<open>The adaptive limit lies between the configured bounds, and is zero when the feature is off.\<close>
theorem computeAdaptiveConcurrency_bounds:
  "let v = computeAdaptiveConcurrency cwnd cfg features in
     if adaptiveConcurrencyEnabled features
     then effectiveMin cfg \<le> v \<and> v \<le> max (effectiveMin cfg) (effectiveMax cfg) else v = 0"
  by (auto simp: computeAdaptiveConcurrency_def Let_def)

text \<open>A configured maximum below the minimum is not honoured. With the documented form \<^verbatim>\<open>:3\<close>, which leaves
  the minimum at its default, every search gets a limit of five.\<close>
theorem adaptive_limit_above_max:
  "let (cfg, features) = parseShardRequests '':3'' 0 in
     maxVal cfg = 3 \<and> adaptiveConcurrencyEnabled features \<and> computeAdaptiveConcurrency cwnd cfg features = 5"
proof -
  have "parseShardRequests '':3'' 0 = (\<lparr>minVal = 0, maxVal = 3\<rparr>, 0)" by code_simp
  moreover have "adaptiveConcurrencyEnabled 0" by (simp add: adaptiveConcurrencyEnabled_def)
  ultimately show ?thesis
    by (simp add: computeAdaptiveConcurrency_def effectiveMin_def effectiveMax_def adaptiveConcurrencyMinDefault_def Let_def)
qed

section \<open>Routing metadata\<close>

definition discovery_cycle ::
    "(string list \<Rightarrow> (string, indexRoutingMeta) gomap option) \<Rightarrow> catShardsEntry list \<Rightarrow> int \<Rightarrow> int \<Rightarrow> indexSlotCache \<Rightarrow> indexSlotCache" where
  "discovery_cycle fetch es activeNodeCount nowNano c =
     updateFromDiscovery (Some (fetchRoutingNumShards (Some c) fetch (getShardPlacement es))) activeNodeCount nowNano c"

lemma keys_map_filter: "fst ` set (List.map_filter (\<lambda>(i, x). map_option (Pair i) (f i x)) m) \<subseteq> fst ` set m"
  by (induction m) (auto simp: map_filter_simps split: option.splits)

lemma map_of_map_filter:
  "distinct (map fst m) \<Longrightarrow>
     map_of (List.map_filter (\<lambda>(i, x). map_option (Pair i) (f i x)) m) i = Option.bind (map_of m i) (f i)"
proof (induction m)
  case (Cons e m)
  obtain k x where e: "e = (k, x)" by (cases e)
  have "map_of (List.map_filter (\<lambda>(i, x). map_option (Pair i) (f i x)) m) k = None"
    using Cons.prems keys_map_filter [of f m] by (auto simp: e map_of_eq_None_iff)
  then show ?case using Cons by (auto simp: e map_filter_simps split: option.splits)
qed (simp add: map_filter_simps)

lemma slotFor_updateFromDiscovery:
  "distinct (map fst (entries c)) \<Longrightarrow>
     slotFor (updateFromDiscovery ps n now c) i = Option.bind (slotFor c i) (refresh_slot c ps n now i)"
  using map_of_map_filter [of "entries c" "refresh_slot c ps n now" i]
  by (simp add: slotFor_def updateFromDiscovery_def Let_def)

definition routing_numbers :: "indexSlot \<Rightarrow> (int \<times> int) option" where
  "routing_numbers slot = map_option (\<lambda>sm. (sm_RoutingNumShards sm, sm_NumberOfPrimaryShards sm)) (shardMap slot)"

lemma mergeShardMap_alone:
  "shardMap (mergeShardMap [] p slot) = (if ShardToNodes p = [] then shardMap slot else Some (merged_map p (shardMap slot)))"
  by (simp add: mergeShardMap_def numeral_3_eq_3)

lemma merged_numbers:
  "sm_RoutingNumShards (merged_map p old) = RoutingNumShards p" "sm_NumberOfPrimaryShards (merged_map p old) = NumberOfPrimaryShards p"
  by (simp_all add: merged_map_def Let_def)

text \<open>The metadata request answers for the indexes it names only.\<close>

definition only_asked :: "(string list \<Rightarrow> (string, indexRoutingMeta) gomap option) \<Rightarrow> string \<Rightarrow> bool" where
  "only_asked fetch i \<longleftrightarrow> (\<forall>names metas. fetch names = Some metas \<longrightarrow> i \<notin> set names \<longrightarrow> map_of metas i = None)"

lemma fetch_keeps_cached:
  assumes "cached_meta cache i = Some sm" "0 < sm_NumberOfPrimaryShards sm"
    and "map_of (fetchRoutingNumShards cache fetch ps) i = Some p"
    and "only_asked fetch i"
  shows "RoutingNumShards p = sm_RoutingNumShards sm \<and> NumberOfPrimaryShards p = sm_NumberOfPrimaryShards sm"
proof -
  have "i \<notin> set (filter (\<lambda>i. cached_meta cache i = None) (map fst ps))" using assms(1) by simp
  then have "map_option (\<lambda>p. case map_of metas i of None \<Rightarrow> p | Some m \<Rightarrow> fetch_meta m p) x = x"
    if "fetch (filter (\<lambda>i. cached_meta cache i = None) (map fst ps)) = Some metas" for metas x
    using assms(4) that \<open>i \<notin> _\<close> unfolding only_asked_def by (auto simp: option.map_ident)
  then have "map_of (fetchRoutingNumShards cache fetch ps) i = map_option (carry_meta sm) (map_of ps i)"
    using assms(1) by (auto simp: fetchRoutingNumShards_def Let_def map_of_map_pair simp del: map_map split: option.splits)
  then obtain q where "p = carry_meta sm q" using assms(3) by (metis map_option_eq_Some)
  then show ?thesis using assms(2) by (simp add: carry_meta_def Let_def)
qed

lemma refresh_numbers:
  assumes "shardMap slot = Some sm" "sm_RoutingNumShards sm \<noteq> 0" "0 < sm_NumberOfPrimaryShards sm" "slotFor c i = Some slot"
    and "only_asked fetch i"
    and "refresh_slot c (Some (fetchRoutingNumShards (Some c) fetch ps)) n now i slot = Some slot'"
  shows "routing_numbers slot' = routing_numbers slot"
proof -
  have cached: "cached_meta (Some c) i = Some sm" using assms(1,2,4) by (simp add: cached_meta_def)
  let ?ps = "fetchRoutingNumShards (Some c) fetch ps"
  let ?placed = "case map_of ?ps i of
      Some p \<Rightarrow> mergeShardMap [] p (slot\<lparr>shardNodeCount := int (length (Nodes p)), shardNodeNames := Some (Nodes p)\<rparr>)
    | None \<Rightarrow> slot\<lparr>shardNodeCount := 0, shardNodeNames := None\<rparr>"
  have "shardMap slot' = shardMap ?placed"
    using assms(6) by (auto simp: refresh_slot_def Let_def split: if_splits)
  moreover have "routing_numbers ?placed = routing_numbers slot"
  proof (cases "map_of ?ps i")
    case (Some p)
    then show ?thesis
      using fetch_keeps_cached [OF cached assms(3) Some assms(5)] assms(1)
      by (simp add: routing_numbers_def mergeShardMap_alone merged_numbers)
  qed (simp add: routing_numbers_def)
  ultimately show ?thesis by (simp add: routing_numbers_def)
qed

text \<open>A request for the index, then a discovery cycle.\<close>

definition busy_cycle ::
    "(string list \<Rightarrow> (string, indexRoutingMeta) gomap option) \<Rightarrow> string \<Rightarrow> catShardsEntry list \<times> int \<times> int \<Rightarrow> indexSlotCache \<Rightarrow> indexSlotCache" where
  "busy_cycle fetch i cyc c = (case cyc of (es, n, now) \<Rightarrow> discovery_cycle fetch es n now (snd (slot_getOrCreate i c)))"

definition slots_distinct :: "indexSlotCache \<Rightarrow> bool" where
  "slots_distinct c \<longleftrightarrow> distinct (map fst (entries c))"

lemma slots_distinct_cycle: "slots_distinct c \<Longrightarrow> slots_distinct (busy_cycle fetch i cyc c)"
proof -
  have "distinct (map fst (List.map_filter (\<lambda>(i, x). map_option (Pair i) (f i x)) m))" if "distinct (map fst m)"
    for m :: "(string, indexSlot) gomap" and f :: "string \<Rightarrow> indexSlot \<Rightarrow> indexSlot option"
    using that
  proof (induction m)
    case (Cons e m)
    obtain k x where e: "e = (k, x)" by (cases e)
    with Cons.prems have "k \<notin> fst ` set (List.map_filter (\<lambda>(i, x). map_option (Pair i) (f i x)) m)"
      using keys_map_filter [of f m] by auto
    then show ?case using Cons by (auto simp: e map_filter_simps split: option.splits)
  qed (simp add: map_filter_simps)
  then show "slots_distinct c \<Longrightarrow> slots_distinct (busy_cycle fetch i cyc c)"
    by (auto simp: slots_distinct_def busy_cycle_def discovery_cycle_def updateFromDiscovery_def slot_getOrCreate_def Let_def
        distinct_update split: prod.splits)
qed

lemma busy_cycle_numbers:
  assumes "slots_distinct c" "slotFor c i = Some slot" "routing_numbers slot = Some (r, n)" "r \<noteq> 0" "0 < n"
    and "only_asked fetch i"
  shows "\<exists>slot'. slotFor (busy_cycle fetch i cyc c) i = Some slot' \<and> routing_numbers slot' = Some (r, n)"
proof -
  obtain es k now where cyc: "cyc = (es, k, now)" by (cases cyc)
  let ?c = "snd (slot_getOrCreate i c)"
  let ?s = "slot\<lparr>requestDecay := decay_increment (decayFactor c) (requestDecay slot), idleSince := 0\<rparr>"
  let ?ps = "Some (fetchRoutingNumShards (Some ?c) fetch (getShardPlacement es))"
  have s: "slotFor ?c i = Some ?s"
    using assms(2) by (simp add: slot_getOrCreate_def slotFor_def Let_def update_conv)
  obtain sm where sm: "shardMap ?s = Some sm" "sm_RoutingNumShards sm \<noteq> 0" "0 < sm_NumberOfPrimaryShards sm"
    using assms(3-5) by (auto simp: routing_numbers_def)
  have "refresh_slot ?c ?ps k now i ?s \<noteq> None"
    by (auto simp: refresh_slot_def mergeShardMap_def Let_def split: option.splits)
  then obtain slot' where slot': "refresh_slot ?c ?ps k now i ?s = Some slot'" by auto
  have "slotFor (busy_cycle fetch i cyc c) i = Some slot'"
    using slotFor_updateFromDiscovery [of ?c ?ps k now i] assms(1) s slot'
    by (simp add: busy_cycle_def cyc discovery_cycle_def slots_distinct_def slot_getOrCreate_def Let_def distinct_update)
  moreover have "routing_numbers slot' = Some (r, n)"
    using refresh_numbers [OF sm s assms(6) slot'] assms(3) by (simp add: routing_numbers_def)
  ultimately show ?thesis by blast
qed

text \<open>The routing numbers of an index are never read again. Once a slot has them, they survive every discovery
  cycle, whatever the cluster reports, as long as the index is in use: an index that was deleted and created
  again with another number of shards is routed by the old numbers.\<close>
theorem routing_numbers_never_refreshed:
  assumes "slots_distinct c" "slotFor c i = Some slot" "routing_numbers slot = Some (r, n)" "r \<noteq> 0" "0 < n"
    and "only_asked fetch i"
  shows "\<exists>slot'. slotFor (fold (busy_cycle fetch i) cycles c) i = Some slot' \<and> routing_numbers slot' = Some (r, n)"
  using assms(1-3)
proof (induction cycles arbitrary: c slot)
  case (Cons cyc cycles)
  from busy_cycle_numbers [OF Cons.prems assms(4-6)] obtain slot' where
    "slotFor (busy_cycle fetch i cyc c) i = Some slot'" "routing_numbers slot' = Some (r, n)" by blast
  from Cons.IH [OF slots_distinct_cycle [OF Cons.prems(1)] this] show ?case by simp
qed auto

definition sample_slots :: indexSlotCache where
  "sample_slots = sample_cache\<lparr>entries := [(''i'', (new_slot sample_cache)\<lparr>shardMap := Some sample_shard_map\<rparr>)]\<rparr>"

theorem routing_numbers_never_refreshed_witness:
  "\<exists>slot'. slotFor (fold (busy_cycle (\<lambda>_. None) ''i'')
       [([\<lparr>ce_Index = ''i'', ce_Shard = ''0'', ce_PriRep = ''p'', ce_State = ''STARTED'', ce_Node = ''a''\<rparr>], 3, 9)] sample_slots) ''i'' = Some slot'
     \<and> routing_numbers slot' = Some (64, 2)"
  by (rule routing_numbers_never_refreshed [where slot = "(new_slot sample_cache)\<lparr>shardMap := Some sample_shard_map\<rparr>"])
    (simp_all add: sample_slots_def slots_distinct_def slotFor_def routing_numbers_def sample_shard_map_def only_asked_def)

section \<open>Smoothing\<close>

text \<open>A smoothed bucket follows the observations: an update lands between the old value and the observation,
  never below one, and the first observation is taken as it is.\<close>
theorem updateSmoothedMaxBucket_between:
  assumes "1 \<le> observed" "1 \<le> smoothedMaxBucket slot"
  shows "let v = smoothedMaxBucket (updateSmoothedMaxBucket now observed slot); old = smoothedMaxBucket slot in
    1 \<le> v \<and> min old observed \<le> v \<and> v \<le> max old observed \<and>
    (smoothedMaxBucketNano slot = 0 \<longrightarrow> v = observed)"
proof -
  let ?old = "smoothedMaxBucket slot" and ?dt = "real_of_int (now - smoothedMaxBucketNano slot) / 10 ^ 9"
  let ?e = "exp (- (ln 2 / miadMIHalfLife) * ?dt)"
  have e: "0 \<le> ?e" "0 \<le> ?dt \<Longrightarrow> ?e \<le> 1" by (simp_all add: miadMIHalfLife_def)
  have up: "?old \<le> observed - (observed - ?old) * ?e \<and> observed - (observed - ?old) * ?e \<le> observed"
    if "?old \<le> observed" "0 \<le> ?dt"
  proof -
    have "(observed - ?old) * ?e \<le> (observed - ?old) * 1" using that e by (intro mult_left_mono) auto
    moreover have "0 \<le> (observed - ?old) * ?e" using that e by (intro mult_nonneg_nonneg) auto
    ultimately show ?thesis by simp
  qed
  have down: "?old - miadADRate * ?dt \<le> ?old" if "0 \<le> ?dt"
    using that by (simp add: miadADRate_def)
  show ?thesis
    using assms up down by (auto simp: updateSmoothedMaxBucket_def Let_def not_less)
qed

theorem updateSmoothedMaxBucket_between_witness:
  "smoothedMaxBucket (updateSmoothedMaxBucket 5 8 ((new_slot sample_cache)\<lparr>smoothedMaxBucket := 3\<rparr>)) = 8"
  using updateSmoothedMaxBucket_between [of 8 "(new_slot sample_cache)\<lparr>smoothedMaxBucket := 3\<rparr>" 5]
  by (simp add: Let_def new_slot_def)

end
