(* ===== verification/Scoring.thy ===== *)
theory Scoring
  imports Rendezvous Shard_Hash Shard_Placement Http_Request
begin

text \<open>
  The choice of a connection by score: shard costs (\<^verbatim>\<open>shard_cost_config.go\<close>), candidates for one or several
  routing keys (\<^verbatim>\<open>shard_routing.go\<close>), the scored selection (\<^verbatim>\<open>policy_index_router.go\<close>) and the router that puts
  them together for a thread pool (\<^verbatim>\<open>policy_pool_router.go\<close>).

  Scores are real numbers; \<^verbatim>\<open>math.MaxFloat64\<close>, the score of an overloaded node, and the infinity that marks a
  tried candidate are \<open>None\<close>, since neither is below the sentinel of the search. \<open>bk\<close> is the median RTT bucket
  of a connection, and \<open>srt\<close> is \<^verbatim>\<open>slices.SortFunc\<close>.
\<close>

unbundle bit_operations_syntax

section \<open>Costs\<close>

datatype shardCostIndex = shardCostUnknown | shardCostReplica | shardCostPrimary | shardCostInitializing | shardCostRelocating

type_synonym shardCostMultiplier = "shardCostIndex \<Rightarrow> real"

definition costUnknown :: real where "costUnknown = 32"

fun shardCostForReads :: shardCostMultiplier where
  "shardCostForReads shardCostUnknown = costUnknown"
| "shardCostForReads shardCostReplica = 1"
| "shardCostForReads shardCostPrimary = 2"
| "shardCostForReads shardCostInitializing = 16"
| "shardCostForReads shardCostRelocating = 8"

fun shardCostForWrites :: shardCostMultiplier where
  "shardCostForWrites shardCostUnknown = costUnknown"
| "shardCostForWrites shardCostReplica = 8"
| "shardCostForWrites shardCostPrimary = 1"
| "shardCostForWrites shardCostInitializing = 24"
| "shardCostForWrites shardCostRelocating = 16"

definition forNode :: "shardCostMultiplier \<Rightarrow> shardNodeInfo option \<Rightarrow> real" where
  "forNode m node =
     (case node of
        None \<Rightarrow> m shardCostUnknown
      | Some n \<Rightarrow>
          if Primaries n + Replicas n = 0 then m shardCostUnknown
          else if Primaries n = 0 then m shardCostReplica
          else if Replicas n = 0 then m shardCostPrimary
          else min (m shardCostReplica) (m shardCostPrimary))"

definition forShard :: "shardCostMultiplier \<Rightarrow> shardNodes option \<Rightarrow> string \<Rightarrow> real" where
  "forShard m shard connName =
     (case shard of
        None \<Rightarrow> m shardCostUnknown
      | Some s \<Rightarrow>
          if Primary s = connName then m shardCostPrimary
          else if connName \<in> set (replicaNodes s) then m shardCostReplica
          else m shardCostUnknown)"

definition calcShardPrimaryPct :: "shardNodes option \<Rightarrow> string \<Rightarrow> real" where
  "calcShardPrimaryPct shard connName =
     (case shard of Some s \<Rightarrow> if Primary s = connName then 1 else 0 | None \<Rightarrow> 0)"

definition calcNodePrimaryPct :: "shardNodeInfo option \<Rightarrow> real" where
  "calcNodePrimaryPct node =
     (case node of
        None \<Rightarrow> 0
      | Some n \<Rightarrow> if Primaries n + Replicas n = 0 then 0
                  else real_of_int (Primaries n) / real_of_int (Primaries n + Replicas n))"

section \<open>Scores\<close>

definition connBaseScore :: "int \<Rightarrow> connection \<Rightarrow> string \<Rightarrow> bool \<Rightarrow> (real \<times> real) option" where
  "connBaseScore bucket conn poolName poolInfoReady =
     (if poolName \<noteq> [] \<and> isPoolOverloaded (pools conn) poolName then None
      else let cwnd = real_of_int (loadCwnd (pools conn) (loadAllocatedProcessors conn) poolName poolInfoReady);
               inFlight = real_of_int (loadInFlight (pools conn) poolName)
           in Some (real_of_int bucket, (inFlight + 1) / cwnd))"

definition calcConnDefaultScore :: "int \<Rightarrow> connection \<Rightarrow> real \<Rightarrow> string \<Rightarrow> bool \<Rightarrow> real option" where
  "calcConnDefaultScore bucket conn shardCost poolName poolInfoReady =
     map_option (\<lambda>(rt, utilization). rt * utilization * shardCost) (connBaseScore bucket conn poolName poolInfoReady)"

text \<open>A score function of the connection with its bucket, the static cost, the share of primaries and the pool.\<close>

type_synonym connScoreFunc = "int \<Rightarrow> connection \<Rightarrow> real \<Rightarrow> real \<Rightarrow> string \<Rightarrow> bool \<Rightarrow> real option"

text \<open>\<^verbatim>\<open>math.Pow\<close> on a base between zero and one and an exponent that is not negative.\<close>

definition math_Pow :: "real \<Rightarrow> real \<Rightarrow> real" where
  "math_Pow x y = (if y = 0 then 1 else x powr y)"

definition newReadScoreFunc :: "real \<Rightarrow> real \<Rightarrow> real \<Rightarrow> connScoreFunc" where
  "newReadScoreFunc base amplify exponent bucket conn shardCost primaryPct poolName poolInfoReady =
     (case connBaseScore bucket conn poolName poolInfoReady of
        None \<Rightarrow> None
      | Some (rt, utilization) \<Rightarrow>
          let cost = (if primaryPct > 0 then
                let writePC = deref (pools conn) (getForScoring (pools conn) ''write'');
                    writeCwnd = (if pc_cwnd writePC < 1 then 1 else real_of_int (pc_cwnd writePC));
                    writeUtil = real_of_int (pc_inFlight writePC) / writeCwnd;
                    writeUtil = min (max writeUtil 0) 1;
                    dynamicCost = base + amplify * math_Pow writeUtil exponent
                in (1 - primaryPct) * shardCost + primaryPct * dynamicCost
              else shardCost)
          in Some (rt * utilization * cost))"

section \<open>Selection\<close>

text \<open>The index of the lowest score, the first one on ties.\<close>

fun lowest :: "nat \<Rightarrow> real option list \<Rightarrow> (nat \<times> real) option \<Rightarrow> nat option" where
  "lowest i [] best = map_option fst best"
| "lowest i (None # ss) best = lowest (Suc i) ss best"
| "lowest i (Some s # ss) best =
     lowest (Suc i) ss (case best of None \<Rightarrow> Some (i, s) | Some (j, t) \<Rightarrow> if s < t then Some (i, s) else best)"

type_synonym conn_heap = "cid \<Rightarrow> connection"

text \<open>The loop over the candidates: \<open>Inl\<close> the connection it returns, \<open>Inr\<close> the best warming one.\<close>

fun select_loop :: "nat \<Rightarrow> cid list \<Rightarrow> real option list \<Rightarrow> int \<Rightarrow> cid option \<Rightarrow> conn_heap \<Rightarrow> (cid + cid option) \<times> conn_heap" where
  "select_loop 0 cands scores bestSkip bestWarming h = (Inr bestWarming, h)"
| "select_loop (Suc n) cands scores bestSkip bestWarming h =
     (case lowest 0 scores None of
        None \<Rightarrow> (Inr bestWarming, h)
      | Some i \<Rightarrow>
          let c = cands ! i; scores = scores[i := None] in
          if \<not> isWarmingUp (state (h c)) then (Inl c, h)
          else let (r, conn) = tryWarmupSkip_conn (h c); h = h(c := conn) in
            case r of
              warmupAccepted \<Rightarrow> (Inl c, h)
            | warmupInactive \<Rightarrow> (Inl c, h)
            | warmupSkipped \<Rightarrow>
                let remSkip = wm_skipCount (roundManager (state (h c))) in
                if remSkip \<le> bestSkip then select_loop n cands scores remSkip (Some c) h
                else select_loop n cands scores bestSkip bestWarming h)"

definition connScore ::
    "(cid \<Rightarrow> int) \<Rightarrow> indexSlot option \<Rightarrow> shardNodes option \<Rightarrow> shardCostMultiplier \<Rightarrow> string \<Rightarrow> bool \<Rightarrow> connScoreFunc option \<Rightarrow>
      conn_heap \<Rightarrow> cid \<Rightarrow> real option" where
  "connScore bk slot shard costs poolName poolInfoReady scoreFunc h c =
     (let (sc, primaryPct) =
        (case shard of
           Some s \<Rightarrow> (forShard costs (Some s) (Name (h c)), calcShardPrimaryPct (Some s) (Name (h c)))
         | None \<Rightarrow>
             (case slot of
                Some sl \<Rightarrow> let nodeInfo = shardNodeInfoFor sl (Name (h c)) in (forNode costs nodeInfo, calcNodePrimaryPct nodeInfo)
              | None \<Rightarrow> (costUnknown, 0)))
      in case scoreFunc of
           Some f \<Rightarrow> f (bk c) (h c) sc primaryPct poolName poolInfoReady
         | None \<Rightarrow> calcConnDefaultScore (bk c) (h c) sc poolName poolInfoReady)"

text \<open>\<open>extraCost\<close> is parallel to the candidates when it is not nil.\<close>

definition connScoreSelect ::
    "(cid \<Rightarrow> int) \<Rightarrow> cid list \<Rightarrow> indexSlot option \<Rightarrow> shardNodes option \<Rightarrow> shardCostMultiplier \<Rightarrow> string \<Rightarrow> bool \<Rightarrow>
      connScoreFunc option \<Rightarrow> real list option \<Rightarrow> conn_heap \<Rightarrow> cid option \<times> conn_heap" where
  "connScoreSelect bk candidates slot shard costs poolName poolInfoReady scoreFunc extraCost h =
     (if candidates = [] then (None, h)
      else let scores = map (connScore bk slot shard costs poolName poolInfoReady scoreFunc h) candidates;
               scores = (case extraCost of None \<Rightarrow> scores | Some xs \<Rightarrow> map2 (\<lambda>s x. map_option (\<lambda>v. v + x) s) scores xs);
               (r, h) = select_loop (length candidates) candidates scores (2 ^ 63 - 1) None h
           in case r of
                Inl c \<Rightarrow> (Some c, h)
              | Inr (Some c) \<Rightarrow> (Some c, h)
              | Inr None \<Rightarrow> (Some (candidates ! 0), h))"

section \<open>Sorting by round trip time\<close>

text \<open>
  The insertion sort: \<open>shift_in\<close> walks the sorted part from its right end, so the list it takes is reversed.
\<close>

fun shift_in :: "(cid \<Rightarrow> int) \<Rightarrow> conn_heap \<Rightarrow> cid \<Rightarrow> cid list \<Rightarrow> cid list" where
  "shift_in bk h key [] = [key]"
| "shift_in bk h key (j # js) =
     (if bk j < bk key \<or> (bk j = bk key \<and> URL (h j) \<le> URL (h key)) then key # j # js else j # shift_in bk h key js)"

definition sortConnectionsByRTT :: "(cid \<Rightarrow> int) \<Rightarrow> conn_heap \<Rightarrow> cid list \<Rightarrow> cid list" where
  "sortConnectionsByRTT bk h conns = rev (fold (shift_in bk h) conns [])"

section \<open>Candidates for routing keys\<close>

definition go_bytes :: "string \<Rightarrow> go_string" where
  "go_bytes s = map of_char s"

definition usable_shard_map :: "indexSlot \<Rightarrow> indexShardMap option" where
  "usable_shard_map slot =
     (case shardMap slot of
        None \<Rightarrow> None
      | Some sm \<Rightarrow> if sm_NumberOfPrimaryShards sm = 0 \<or> sm_RoutingNumShards sm = 0 \<or> length (sm_Shards sm) = 0 then None
                   else Some sm)"

definition copy_nodes :: "shardNodes \<Rightarrow> string list" where
  "copy_nodes s = (if Primary s \<noteq> [] then [Primary s] else []) @ replicaNodes s"

text \<open>The candidates, the shard number and the nodes of the shard; minus one and no shard when it does not apply.\<close>

definition calcSingleKeyCost ::
    "routingFeatures \<Rightarrow> indexSlot \<Rightarrow> string \<Rightarrow> conn_heap \<Rightarrow> cid list \<Rightarrow> go_panic + cid list \<times> int \<times> shardNodes option" where
  "calcSingleKeyCost features slot routingValue h conns =
     (if \<not> shardExactEnabled features then Inr ([], -1, None)
      else if routingValue = [] then Inr ([], -1, None)
      else case usable_shard_map slot of
             None \<Rightarrow> Inr ([], -1, None)
           | Some sm \<Rightarrow>
               (case shardForRouting (go_bytes routingValue) (sm_RoutingNumShards sm) (sm_NumberOfPrimaryShards sm) of
                  Inl e \<Rightarrow> Inl e
                | Inr shardNum \<Rightarrow>
                    (case map_of (sm_Shards sm) shardNum of
                       None \<Rightarrow> Inr ([], -1, None)
                     | Some shardCopy \<Rightarrow>
                         let cs = filter (\<lambda>c. \<not> needsCatUpdate (state (h c)) \<and> Name (h c) \<in> set (copy_nodes shardCopy)) conns
                         in if copy_nodes shardCopy = [] then Inr ([], -1, None)
                            else if cs = [] then Inr ([], -1, None)
                            else Inr (cs, shardNum, Some shardCopy))))"

text \<open>The shards that the keys name, in order; a key whose shard is not placed counts for no node.\<close>

fun key_shards :: "indexShardMap \<Rightarrow> string list \<Rightarrow> go_panic + shardNodes list" where
  "key_shards sm [] = Inr []"
| "key_shards sm (k # ks) =
     (case shardForRouting (go_bytes k) (sm_RoutingNumShards sm) (sm_NumberOfPrimaryShards sm) of
        Inl e \<Rightarrow> Inl e
      | Inr shardNum \<Rightarrow>
          (case key_shards sm ks of
             Inl e \<Rightarrow> Inl e
           | Inr rest \<Rightarrow> Inr ((case map_of (sm_Shards sm) shardNum of None \<Rightarrow> [] | Some s \<Rightarrow> [s]) @ rest)))"

definition node_hits :: "shardNodes list \<Rightarrow> string \<Rightarrow> int" where
  "node_hits shards name = int (length (filter (\<lambda>n. n = name) (concat (map copy_nodes shards))))"

definition calcMultiKeyCost ::
    "((cid \<Rightarrow> int) \<Rightarrow> cid list \<Rightarrow> cid list) \<Rightarrow> routingFeatures \<Rightarrow> indexSlot \<Rightarrow> string \<Rightarrow> conn_heap \<Rightarrow> cid list \<Rightarrow>
      go_panic + cid list \<times> real list" where
  "calcMultiKeyCost srt features slot routingValue h conns =
     (if \<not> shardExactEnabled features \<or> routingValue = [] then Inr ([], [])
      else case usable_shard_map slot of
             None \<Rightarrow> Inr ([], [])
           | Some sm \<Rightarrow>
               let routingValues = splitRoutingValues routingValue; totalKeys = int (length routingValues) in
               (case key_shards sm routingValues of
                  Inl e \<Rightarrow> Inl e
                | Inr shards \<Rightarrow>
                    let hits = (\<lambda>c. node_hits shards (Name (h c)));
                        scored = filter (\<lambda>c. \<not> needsCatUpdate (state (h c)) \<and> hits c > 0) conns;
                        sorted = srt (\<lambda>c. - hits c) scored
                    in if scored = [] then Inr ([], [])
                       else Inr (sorted, map (\<lambda>c. real_of_int (totalKeys - hits c)) sorted)))"

section \<open>Index and document of a path\<close>

definition strip_slash :: "string \<Rightarrow> string" where
  "strip_slash path = (case path of c # cs \<Rightarrow> if c = CHR ''/'' then cs else path | [] \<Rightarrow> [])"

definition extractIndexFromPath :: "string \<Rightarrow> string" where
  "extractIndexFromPath path =
     (let path = strip_slash path in
      if path = [] then []
      else if hd path = CHR ''_'' then []
      else case strings_Cut (CHR ''/'') path of (before, _, ok) \<Rightarrow> if ok then before else path)"

definition documentEndpoints :: "string list" where
  "documentEndpoints = [''_doc'', ''_source'', ''_update'', ''_explain'', ''_termvectors'']"

definition extractDocumentFromPath :: "string \<Rightarrow> string \<times> string" where
  "extractDocumentFromPath path =
     (let path = strip_slash path in
      if path = [] \<or> hd path = CHR ''_'' then ([], [])
      else case strings_Cut (CHR ''/'') path of (indexName, rest, ok) \<Rightarrow>
        if \<not> ok then ([], [])
        else case strings_Cut (CHR ''/'') rest of (endpoint, docID, ok) \<Rightarrow>
          if \<not> ok then ([], [])
          else let docID = takeWhile (\<lambda>c. c \<notin> {CHR ''/'', CHR ''?''}) docID in
            if docID = [] then ([], [])
            else if endpoint \<notin> set documentEndpoints then ([], [])
            else (indexName, docID))"

section \<open>The sort\<close>

definition rtt_key :: "(cid \<Rightarrow> int) \<Rightarrow> conn_heap \<Rightarrow> cid \<Rightarrow> int \<times> string" where
  "rtt_key bk h c = (bk c, URL (h c))"

lemma shift_in_step:
  "shift_in bk h key (j # js) = (if rtt_key bk h j \<le> rtt_key bk h key then key # j # js else j # shift_in bk h key js)"
  by (auto simp: rtt_key_def less_eq_prod_def)

lemma shift_in_set: "set (shift_in bk h key js) = insert key (set js)" "mset (shift_in bk h key js) = add_mset key (mset js)"
  by (induction js) auto

lemma shift_in_sorted:
  "sorted_wrt (\<lambda>a b. rtt_key bk h b \<le> rtt_key bk h a) js \<Longrightarrow>
     sorted_wrt (\<lambda>a b. rtt_key bk h b \<le> rtt_key bk h a) (shift_in bk h key js)"
proof (induction js)
  case (Cons j js)
  then show ?case by (auto simp: shift_in_step shift_in_set simp del: shift_in.simps(2) intro: order_trans)
qed simp

lemma shift_in_filter:
  "sorted_wrt (\<lambda>a b. rtt_key bk h b \<le> rtt_key bk h a) js \<Longrightarrow>
     filter (\<lambda>x. rtt_key bk h x = k) (shift_in bk h key js) =
     (if rtt_key bk h key = k then key # filter (\<lambda>x. rtt_key bk h x = k) js else filter (\<lambda>x. rtt_key bk h x = k) js)"
  by (induction js) (auto simp: shift_in_step simp del: shift_in.simps(2))

lemma fold_shift_in:
  assumes "sorted_wrt (\<lambda>a b. rtt_key bk h b \<le> rtt_key bk h a) acc"
  shows "sorted_wrt (\<lambda>a b. rtt_key bk h b \<le> rtt_key bk h a) (fold (shift_in bk h) cs acc) \<and>
    mset (fold (shift_in bk h) cs acc) = mset cs + mset acc \<and>
    filter (\<lambda>x. rtt_key bk h x = k) (fold (shift_in bk h) cs acc) =
      rev (filter (\<lambda>x. rtt_key bk h x = k) cs) @ filter (\<lambda>x. rtt_key bk h x = k) acc"
  using assms
proof (induction cs arbitrary: acc)
  case (Cons c cs)
  then show ?case using shift_in_sorted [OF Cons.prems, of c] by (simp add: shift_in_filter shift_in_set)
qed simp

lemma sortConnectionsByRTT_eq:
  "sortConnectionsByRTT bk h conns = sort_key (\<lambda>c. (bk c, URL (h c))) conns"
proof -
  let ?s = "fold (shift_in bk h) conns []"
  have s: "sorted_wrt (\<lambda>a b. rtt_key bk h b \<le> rtt_key bk h a) ?s" "mset ?s = mset conns"
    and f: "filter (\<lambda>x. rtt_key bk h x = k) ?s = rev (filter (\<lambda>x. rtt_key bk h x = k) conns)" for k
    using fold_shift_in [of bk h "[]" conns] by simp_all
  have "sort_key (rtt_key bk h) conns = rev ?s"
  proof (rule properties_for_sort_key)
    show "mset (rev ?s) = mset conns" using s(2) by simp
    show "filter (\<lambda>x. rtt_key bk h k = rtt_key bk h x) (rev ?s) = filter (\<lambda>x. rtt_key bk h k = rtt_key bk h x) conns" for k
    proof -
      have e: "(\<lambda>x. rtt_key bk h k = rtt_key bk h x) = (\<lambda>x. rtt_key bk h x = rtt_key bk h k)" by auto
      show ?thesis unfolding e rev_filter [symmetric] f by simp
    qed
    show "sorted (map (rtt_key bk h) (rev ?s))"
      using s(1) by (simp add: sorted_wrt_map rev_map [symmetric] sorted_wrt_rev)
  qed
  then show ?thesis by (simp add: sortConnectionsByRTT_def rtt_key_def [abs_def])
qed

text \<open>The insertion sort by round trip time is the stable sort by bucket and address.\<close>
theorem sortConnectionsByRTT_stable:
  "sortConnectionsByRTT bk h conns = sort_key (\<lambda>c. (bk c, URL (h c))) conns"
  by (rule sortConnectionsByRTT_eq)

section \<open>The scored selection\<close>

lemma lowest_None_iff: "lowest i ss best = None \<longleftrightarrow> best = None \<and> set ss \<subseteq> {None}"
  by (induction i ss best rule: lowest.induct) (auto split: option.splits)

lemma lowest_least:
  "lowest i ss best = Some j \<Longrightarrow>
     (\<exists>t. best = Some (j, t) \<and> (\<forall>u. Some u \<in> set ss \<longrightarrow> t \<le> u)) \<or>
     (\<exists>k t. j = i + k \<and> k < length ss \<and> ss ! k = Some t \<and> (\<forall>u. Some u \<in> set ss \<longrightarrow> t \<le> u) \<and>
        (\<forall>j' t'. best = Some (j', t') \<longrightarrow> t < t'))"
proof (induction i ss best rule: lowest.induct)
  case (2 i ss best)
  then consider t where "best = Some (j, t)" "\<forall>u. Some u \<in> set ss \<longrightarrow> t \<le> u"
    | k t where "j = Suc i + k" "k < length ss" "ss ! k = Some t" "\<forall>u. Some u \<in> set ss \<longrightarrow> t \<le> u"
        "\<forall>j' t'. best = Some (j', t') \<longrightarrow> t < t'" by auto
  then show ?case
  proof cases
    case 2 then show ?thesis by (intro disjI2 exI [of _ "Suc k"] exI [of _ t]) auto
  qed auto
next
  case (3 i s ss best)
  let ?b = "case best of None \<Rightarrow> Some (i, s) | Some (j, t) \<Rightarrow> if s < t then Some (i, s) else best"
  from 3 consider t where "?b = Some (j, t)" "\<forall>u. Some u \<in> set ss \<longrightarrow> t \<le> u"
    | k t where "j = Suc i + k" "k < length ss" "ss ! k = Some t" "\<forall>u. Some u \<in> set ss \<longrightarrow> t \<le> u"
        "\<forall>j' t'. ?b = Some (j', t') \<longrightarrow> t < t'" by auto
  then show ?case
  proof cases
    case 1
    show ?thesis
    proof (cases "best = Some (j, t) \<and> t \<le> s")
      case False
      with 1 have "j = i" "t = s" "\<forall>j' t'. best = Some (j', t') \<longrightarrow> s < t'"
        by (auto split: option.splits prod.splits if_splits)
      with 1 show ?thesis by (intro disjI2 exI [of _ 0] exI [of _ s]) auto
    qed (use 1 in auto)
  next
    case 2
    then have "t < s" "\<forall>j' t'. best = Some (j', t') \<longrightarrow> t < t'" by (auto split: option.splits if_splits)
    with 2 show ?thesis by (intro disjI2 exI [of _ "Suc k"] exI [of _ t]) auto
  qed
qed auto

lemma lowest_Some:
  assumes "lowest 0 scores None = Some i"
  shows "i < length scores \<and> (\<exists>t. scores ! i = Some t \<and> (\<forall>u. Some u \<in> set scores \<longrightarrow> t \<le> u))"
  using lowest_least [OF assms] by auto

text \<open>The scores of the candidates with their extra cost.\<close>

definition total_scores ::
    "(cid \<Rightarrow> int) \<Rightarrow> cid list \<Rightarrow> indexSlot option \<Rightarrow> shardNodes option \<Rightarrow> shardCostMultiplier \<Rightarrow> string \<Rightarrow> bool \<Rightarrow>
      connScoreFunc option \<Rightarrow> real list option \<Rightarrow> conn_heap \<Rightarrow> real option list" where
  "total_scores bk candidates slot shard costs poolName poolInfoReady scoreFunc extraCost h =
     (let scores = map (connScore bk slot shard costs poolName poolInfoReady scoreFunc h) candidates
      in case extraCost of None \<Rightarrow> scores | Some xs \<Rightarrow> map2 (\<lambda>s x. map_option (\<lambda>v. v + x) s) scores xs)"

text \<open>A candidate that has a score. \<open>orig\<close> are the scores before any candidate was tried.\<close>

definition scored :: "cid list \<Rightarrow> real option list \<Rightarrow> cid \<Rightarrow> bool" where
  "scored cands orig c \<longleftrightarrow> (\<exists>i<length cands. cands ! i = c \<and> orig ! i \<noteq> None)"

definition loop_ok :: "cid list \<Rightarrow> real option list \<Rightarrow> real option list \<Rightarrow> cid option \<Rightarrow> bool" where
  "loop_ok cands orig scores warming \<longleftrightarrow>
     length scores = length cands \<and> (\<forall>i<length cands. scores ! i \<noteq> None \<longrightarrow> orig ! i \<noteq> None) \<and>
     (\<forall>c. warming = Some c \<longrightarrow> scored cands orig c)"

lemma loop_ok_tried:
  assumes "loop_ok cands orig scores warming" "lowest 0 scores None = Some i"
  shows "scored cands orig (cands ! i)" "loop_ok cands orig (scores[i := None]) warming"
    "loop_ok cands orig (scores[i := None]) (Some (cands ! i))"
proof -
  from lowest_Some [OF assms(2)] assms(1) have i: "i < length cands" "orig ! i \<noteq> None" by (auto simp: loop_ok_def)
  then show s: "scored cands orig (cands ! i)" by (auto simp: scored_def)
  show "loop_ok cands orig (scores[i := None]) warming" "loop_ok cands orig (scores[i := None]) (Some (cands ! i))"
    using assms(1) s i(1) by (auto simp: loop_ok_def nth_list_update split: if_splits)
qed

lemma select_loop_scored:
  assumes "loop_ok cands orig scores warming" "select_loop n cands scores skip warming h = (r, h')"
  shows "(\<forall>c. r = Inl c \<longrightarrow> scored cands orig c) \<and> (\<forall>c. r = Inr (Some c) \<longrightarrow> scored cands orig c)"
  using assms
proof (induction n arbitrary: scores skip warming h)
  case 0
  then show ?case by (auto simp: loop_ok_def)
next
  case (Suc n)
  show ?case
  proof (cases "lowest 0 scores None")
    case None
    with Suc.prems show ?thesis by (auto simp: loop_ok_def)
  next
    case (Some i)
    note t = loop_ok_tried [OF Suc.prems(1) Some]
    show ?thesis
      using Suc.prems(2) t(1) Suc.IH [OF t(2)] Suc.IH [OF t(3)]
      by (auto simp: Some Let_def split: if_splits warmupResult.splits prod.splits)
  qed
qed

lemma select_loop_warming: "fst (select_loop n cands scores skip (Some c) h) \<noteq> Inr None"
  by (induction n arbitrary: scores skip c h)
    (auto simp: Let_def split: option.splits prod.splits warmupResult.splits)

lemma skipCount_bound: "wm_skipCount m \<le> 2 ^ 63 - 1"
  by (rule order.trans [OF zle_diff1_eq [THEN iffD2, OF wm_skipCount_range(2)]]) simp

lemma select_loop_finds:
  assumes "lowest 0 scores None \<noteq> None"
  shows "fst (select_loop (Suc n) cands scores (2 ^ 63 - 1) None h) \<noteq> Inr None"
proof -
  from assms obtain i where i: "lowest 0 scores None = Some i" by auto
  obtain r conn where r: "tryWarmupSkip_conn (h (cands ! i)) = (r, conn)" by force
  show ?thesis
    using select_loop_warming skipCount_bound by (cases r) (simp_all add: i r Let_def)
qed

lemma total_scores_length:
  "(\<And>xs. extraCost = Some xs \<Longrightarrow> length xs = length candidates) \<Longrightarrow>
     length (total_scores bk candidates slot shard costs poolName poolInfoReady scoreFunc extraCost h) = length candidates"
  by (auto simp: total_scores_def Let_def split: option.splits)

lemma connScoreSelect_total:
  "connScoreSelect bk candidates slot shard costs poolName poolInfoReady scoreFunc extraCost h =
     (if candidates = [] then (None, h)
      else let (r, h) = select_loop (length candidates) candidates
             (total_scores bk candidates slot shard costs poolName poolInfoReady scoreFunc extraCost h) (2 ^ 63 - 1) None h
           in case r of
                Inl c \<Rightarrow> (Some c, h)
              | Inr (Some c) \<Rightarrow> (Some c, h)
              | Inr None \<Rightarrow> (Some (candidates ! 0), h))"
  by (simp add: connScoreSelect_def total_scores_def Let_def)

text \<open>C30. The scored selection returns a candidate, and one that is not overloaded as long as there is one. When no
  candidate is warming up it is one of lowest total score, and the selection changes no connection.\<close>
theorem connScoreSelect_best:
  assumes "candidates \<noteq> []" "\<And>xs. extraCost = Some xs \<Longrightarrow> length xs = length candidates"
  shows "let scores = total_scores bk candidates slot shard costs poolName poolInfoReady scoreFunc extraCost h;
      result = connScoreSelect bk candidates slot shard costs poolName poolInfoReady scoreFunc extraCost h in
    \<exists>i<length candidates. fst result = Some (candidates ! i) \<and>
      (list_ex (\<lambda>s. s \<noteq> None) scores \<longrightarrow> scores ! i \<noteq> None) \<and>
      (\<not> list_ex (\<lambda>c. isWarmingUp (state (h c))) candidates \<longrightarrow>
         snd result = h \<and> (\<forall>u. Some u \<in> set scores \<longrightarrow> (\<exists>t\<le>u. scores ! i = Some t)))"
proof -
  define scores where "scores = total_scores bk candidates slot shard costs poolName poolInfoReady scoreFunc extraCost h"
  define result where "result = connScoreSelect bk candidates slot shard costs poolName poolInfoReady scoreFunc extraCost h"
  obtain n where n: "length candidates = Suc n" using assms(1) by (cases candidates) auto
  have len: "length scores = length candidates" unfolding scores_def by (rule total_scores_length [OF assms(2)])
  obtain r h' where r: "select_loop (length candidates) candidates scores (2 ^ 63 - 1) None h = (r, h')" by force
  have res: "result = (case r of Inl c \<Rightarrow> (Some c, h') | Inr (Some c) \<Rightarrow> (Some c, h') | Inr None \<Rightarrow> (Some (candidates ! 0), h'))"
    using assms(1) r by (simp add: result_def connScoreSelect_total scores_def [symmetric])
  have "loop_ok candidates scores scores None" using len by (simp add: loop_ok_def)
  note s = select_loop_scored [OF this r]
  have "\<exists>i<length candidates. fst result = Some (candidates ! i) \<and>
      (list_ex (\<lambda>s. s \<noteq> None) scores \<longrightarrow> scores ! i \<noteq> None) \<and>
      (\<not> list_ex (\<lambda>c. isWarmingUp (state (h c))) candidates \<longrightarrow>
         snd result = h \<and> (\<forall>u. Some u \<in> set scores \<longrightarrow> (\<exists>t\<le>u. scores ! i = Some t)))"
  proof (cases "lowest 0 scores None")
    case None
    then have none: "set scores \<subseteq> {None}" by (simp add: lowest_None_iff)
    have "r = Inr None" "h' = h" using r None by (simp_all add: n)
    then show ?thesis using none n by (intro exI [of _ 0]) (auto simp: res list_ex_iff)
  next
    case (Some j)
    have "r \<noteq> Inr None" using select_loop_finds [of scores n candidates h] Some r by (auto simp: n)
    then obtain c where c: "fst result = Some c" "scored candidates scores c"
      using s by (cases r) (auto simp: res split: option.splits)
    show ?thesis
    proof (cases "list_ex (\<lambda>c. isWarmingUp (state (h c))) candidates")
      case True
      with c show ?thesis by (auto simp: scored_def)
    next
      case False
      note j = lowest_Some [OF Some]
      with False len have "\<not> isWarmingUp (state (h (candidates ! j)))" by (simp add: list_ex_iff)
      then have "r = Inl (candidates ! j)" "h' = h" using r Some by (simp_all add: n Let_def)
      with j len show ?thesis by (intro exI [of _ j]) (auto simp: res)
    qed
  qed
  then show ?thesis by (simp only: Let_def scores_def result_def)
qed

definition sample_scored :: conn_heap where
  "sample_scored c = blank_connection\<lparr>URL := [char_of c], Name := (if c = 1 then ''a'' else ''b'')\<rparr>"

theorem connScoreSelect_best_witness:
  "\<exists>i<2. fst (connScoreSelect (\<lambda>c. int c) [1, 2] None None shardCostForReads [] False None None sample_scored) = Some ([1, 2] ! i)"
  using connScoreSelect_best [of "[1, 2]" None "\<lambda>c. int c" None None shardCostForReads "[]" False None sample_scored]
  by (auto simp: Let_def numeral_2_eq_2)

section \<open>Candidates\<close>

text \<open>A request with one routing key goes to a node that holds its shard. When the shard is known the candidates
  are exactly the connections, in order, whose node is the primary or a replica of the shard that the hash of
  the key gives and whose shard data is fresh; there is at least one.\<close>
theorem calcSingleKeyCost_hosts:
  assumes "calcSingleKeyCost features slot key h conns = Inr (cs, n, Some s)"
  shows "\<exists>sm. shardMap slot = Some sm \<and>
    shardForRouting (go_bytes key) (sm_RoutingNumShards sm) (sm_NumberOfPrimaryShards sm) = Inr n \<and>
    map_of (sm_Shards sm) n = Some s \<and> cs \<noteq> [] \<and> key \<noteq> [] \<and> shardExactEnabled features \<and>
    cs = filter (\<lambda>c. \<not> needsCatUpdate (state (h c)) \<and>
      (Primary s \<noteq> [] \<and> Name (h c) = Primary s \<or> Name (h c) \<in> set (replicaNodes s))) conns"
proof -
  have nodes: "x \<in> set (copy_nodes s) \<longleftrightarrow> Primary s \<noteq> [] \<and> x = Primary s \<or> x \<in> set (replicaNodes s)" for x
    by (auto simp: copy_nodes_def)
  show ?thesis
    using assms
    by (auto simp: calcSingleKeyCost_def usable_shard_map_def Let_def nodes split: if_splits option.splits sum.splits)
qed

definition sample_slot :: indexSlot where
  "sample_slot = (new_slot sample_cache)\<lparr>shardMap := Some \<lparr>sm_NumberOfPrimaryShards = 1, sm_RoutingNumShards = 1,
     sm_Shards = [(0, \<lparr>Primary = ''a'', replicaNodes = [''c'']\<rparr>)]\<rparr>\<rparr>"

lemma one_shard: "shardForRouting r 1 1 = Inr 0"
  by (simp add: shardForRouting_def ForRouting_def Hash_eq floorMod_eq signed_divide_int_def)

lemma sample_fresh: "\<not> needsCatUpdate (state blank_connection)"
  by code_simp

lemma sample_single: "calcSingleKeyCost 0 sample_slot ''k'' sample_scored [1, 2] = Inr ([1], 0, Some \<lparr>Primary = ''a'', replicaNodes = [''c'']\<rparr>)"
  using sample_fresh
  by (simp add: calcSingleKeyCost_def shardExactEnabled_def usable_shard_map_def sample_slot_def one_shard copy_nodes_def
      sample_scored_def Let_def)

theorem calcSingleKeyCost_hosts_witness:
  "\<exists>sm. shardMap sample_slot = Some sm \<and> map_of (sm_Shards sm) 0 = Some \<lparr>Primary = ''a'', replicaNodes = [''c'']\<rparr>"
  using calcSingleKeyCost_hosts [OF sample_single] by blast

lemma filter_pos: "int (length (filter P xs)) > 0 \<longleftrightarrow> list_ex P xs"
  by (auto simp: list_ex_iff filter_empty_conv)

lemma hits_le: "(\<And>s. s \<in> set shards \<Longrightarrow> distinct (copy_nodes s)) \<Longrightarrow> node_hits shards name \<le> int (length shards)"
proof (induction shards)
  case (Cons s shards)
  have "length (filter (\<lambda>n. n = name) (copy_nodes s)) \<le> 1"
    using Cons.prems by (simp add: distinct_length_filter card_le_Suc0_iff_eq)
  then show ?case using Cons by (simp add: node_hits_def)
qed (simp add: node_hits_def)

lemma key_shards_length: "key_shards sm ks = Inr shards \<Longrightarrow> length shards \<le> length ks"
  by (induction ks arbitrary: shards) (auto split: sum.splits option.splits)

lemma key_shards_set: "key_shards sm ks = Inr shards \<Longrightarrow> set shards \<subseteq> snd ` set (sm_Shards sm)"
proof (induction ks arbitrary: shards)
  case (Cons k ks)
  then obtain n rest where "key_shards sm ks = Inr rest"
    "shards = (case map_of (sm_Shards sm) n of None \<Rightarrow> [] | Some s \<Rightarrow> [s]) @ rest"
    by (auto split: sum.splits)
  then show ?case using Cons.IH [of rest] by (auto split: option.splits dest!: map_of_SomeD intro: rev_image_eqI)
qed simp

text \<open>No node holds two copies of one shard.\<close>

definition copies_apart :: "indexSlot \<Rightarrow> bool" where
  "copies_apart slot \<longleftrightarrow>
     (case shardMap slot of None \<Rightarrow> True | Some sm \<Rightarrow> list_all (\<lambda>(n, s). distinct (copy_nodes s)) (sm_Shards sm))"

text \<open>With several routing keys the candidates are the fresh connections whose node holds a shard of some key,
  those with most shards first, and the extra cost of each is the number of keys it would have to forward,
  which is never negative when the copies of a shard are on different nodes.\<close>
theorem calcMultiKeyCost_ranked:
  assumes "calcMultiKeyCost srt features slot keys h conns = Inr (cs, cost)" "cs \<noteq> []" "sort_func srt"
    and "copies_apart slot"
  shows "\<exists>sm shards. shardMap slot = Some sm \<and> key_shards sm (splitRoutingValues keys) = Inr shards \<and>
    mset cs = mset (filter (\<lambda>c. \<not> needsCatUpdate (state (h c)) \<and> 0 < node_hits shards (Name (h c))) conns) \<and>
    sorted (map (\<lambda>c. - node_hits shards (Name (h c))) cs) \<and>
    cost = map (\<lambda>c. real_of_int (int (length (splitRoutingValues keys)) - node_hits shards (Name (h c)))) cs \<and>
    list_all (\<lambda>x. 0 \<le> x) cost"
proof -
  from assms(1,2) obtain sm shards where sm: "shardMap slot = Some sm" "key_shards sm (splitRoutingValues keys) = Inr shards"
    and cs: "cs = srt (\<lambda>c. - node_hits shards (Name (h c)))
        (filter (\<lambda>c. \<not> needsCatUpdate (state (h c)) \<and> 0 < node_hits shards (Name (h c))) conns)"
    and cost: "cost = map (\<lambda>c. real_of_int (int (length (splitRoutingValues keys)) - node_hits shards (Name (h c)))) cs"
    by (auto simp: calcMultiKeyCost_def usable_shard_map_def Let_def split: if_splits option.splits sum.splits)
  have "distinct (copy_nodes s)" if "s \<in> set shards" for s
    using assms(4) sm(1) key_shards_set [OF sm(2)] that by (fastforce simp: copies_apart_def list_all_iff)
  then have "node_hits shards name \<le> int (length (splitRoutingValues keys))" for name
    using hits_le [of shards name] key_shards_length [OF sm(2)] by force
  then have "0 \<le> real_of_int (int (length (splitRoutingValues keys)) - node_hits shards name)" for name
    unfolding of_int_0_le_iff by (simp add: le_diff_eq)
  then have "list_all (\<lambda>x. 0 \<le> x) cost" unfolding cost list_all_iff by auto
  moreover have "mset cs = mset (filter (\<lambda>c. \<not> needsCatUpdate (state (h c)) \<and> 0 < node_hits shards (Name (h c))) conns)"
    "sorted (map (\<lambda>c. - node_hits shards (Name (h c))) cs)"
    unfolding cs by (rule sort_func.perm [OF assms(3)], rule sort_func.ascending [OF assms(3)])
  ultimately show ?thesis using sm cost by blast
qed

lemma sample_multi:
  "calcMultiKeyCost sort_key 0 sample_slot ''k,l'' sample_scored [1, 2] = Inr ([1], [0])"
proof -
  have "splitRoutingValues ''k,l'' = [''k'', ''l'']" by (simp add: splitRoutingValues.simps)
  then show ?thesis
    using sample_fresh
    by (simp add: calcMultiKeyCost_def shardExactEnabled_def usable_shard_map_def sample_slot_def one_shard copy_nodes_def
        sample_scored_def node_hits_def Let_def)
qed

theorem calcMultiKeyCost_ranked_witness:
  "\<exists>sm shards. shardMap sample_slot = Some sm \<and> key_shards sm (splitRoutingValues ''k,l'') = Inr shards \<and>
    sorted (map (\<lambda>c. - node_hits shards (Name (sample_scored c))) [1])"
proof -
  have "copies_apart sample_slot" by (simp add: copies_apart_def sample_slot_def copy_nodes_def)
  from calcMultiKeyCost_ranked [OF sample_multi _ stable_sort.sort_func_axioms this] show ?thesis by blast
qed

end
