(* ===== verification/Pool_Router.thy ===== *)
theory Pool_Router
  imports Scoring Leaf_Policy
begin

text \<open>
  The routers that put scoring to work: the one that wraps a policy for a thread pool (\<^verbatim>\<open>policy_pool_router.go\<close>) and
  the stand-alone index and document routers (\<^verbatim>\<open>policy_index_router.go\<close>, \<^verbatim>\<open>policy_doc_router.go\<close>). A router's state is
  the shared heap, its snapshot of connections sorted by RTT, its rotation counter and the cache of index slots.
\<close>

unbundle bit_operations_syntax

section \<open>The router of a thread pool\<close>

record NextHop =
  nh_Conn :: "cid option"
  nh_PoolName :: string
  MaxConcurrentShardRequests :: int

definition no_hop :: NextHop where
  "no_hop = \<lparr>nh_Conn = None, nh_PoolName = [], MaxConcurrentShardRequests = 0\<rparr>"

record router_config =
  rc_shardCosts :: shardCostMultiplier
  rc_scoreFunc :: "connScoreFunc option"
  rc_poolName :: string

text \<open>What the router reads from outside: the readiness of the pool data, the cluster window, the clock and the sorts.\<close>

record router_env =
  re_poolInfoReady :: bool
  re_clusterSearchCwnd :: int
  re_now :: int
  re_rank_sort :: rank_sort
  re_hits_sort :: "(cid \<Rightarrow> int) \<Rightarrow> cid list \<Rightarrow> cid list"

record router_state =
  rs_heap :: conn_heap
  rs_sortedConns :: "cid list"
  rs_jitter :: "64 word"
  rs_cache :: indexSlotCache

text \<open>The median bucket; the read panics after \<open>2 ^ 31\<close> measurements, which \<open>Rtt\<close> treats.\<close>

definition bucket_of :: "conn_heap \<Rightarrow> cid \<Rightarrow> int" where
  "bucket_of h c = (case medianBucket (rtt (h c)) of Inr b \<Rightarrow> b | Inl _ \<Rightarrow> rttBucketUnknown)"

text \<open>The last check of each branch: a connection that left the active and standby sets loses to the inner hop.\<close>

definition checked_hop :: "NextHop \<Rightarrow> conn_heap \<Rightarrow> string \<Rightarrow> int \<Rightarrow> cid option \<Rightarrow> NextHop" where
  "checked_hop hop h poolName mcsr best =
     (case best of
        None \<Rightarrow> hop
      | Some c \<Rightarrow> if lc_of (h c) AND (lcActive OR lcStandby) = 0 then hop
                  else \<lparr>nh_Conn = Some c, nh_PoolName = poolName, MaxConcurrentShardRequests = mcsr\<rparr>)"

definition routing_keys :: "string \<Rightarrow> string \<times> string" where
  "routing_keys path =
     (case extractDocumentFromPath path of (idx, docID) \<Rightarrow>
        if idx \<noteq> [] \<and> docID \<noteq> [] then (idx, docID) else (extractIndexFromPath path, []))"

text \<open>The candidates that hold the shards of the request, with the shard or the extra cost.\<close>

definition shard_candidates ::
    "router_env \<Rightarrow> routingFeatures \<Rightarrow> indexSlot \<Rightarrow> string \<Rightarrow> string \<Rightarrow> conn_heap \<Rightarrow> cid list \<Rightarrow>
      go_panic + cid list \<times> shardNodes option \<times> real list option" where
  "shard_candidates env features slot routingValue keyB h conns =
     (let effectiveRoutingKey = (if routingValue = [] \<and> keyB \<noteq> [] then keyB else routingValue) in
      if CHR '','' \<notin> set routingValue then
        (case calcSingleKeyCost features slot effectiveRoutingKey h conns of
           Inl e \<Rightarrow> Inl e
         | Inr (cs, _, shard) \<Rightarrow> Inr (cs, shard, None))
      else
        (case calcMultiKeyCost (re_hits_sort env) features slot routingValue h conns of
           Inl e \<Rightarrow> Inl e
         | Inr (cs, xs) \<Rightarrow> Inr (cs, None, Some xs)))"

definition adaptive_mcsr :: "router_config \<Rightarrow> router_env \<Rightarrow> indexSlotCache \<Rightarrow> conn_heap \<Rightarrow> cid option \<Rightarrow> int" where
  "adaptive_mcsr cfg env cache h best =
     (case best of
        Some c \<Rightarrow>
          if rc_poolName cfg = ''search'' then
            let cwnd = re_clusterSearchCwnd env;
                cwnd = (if cwnd \<le> 0
                        then loadCwnd (pools (h c)) (loadAllocatedProcessors (h c)) (rc_poolName cfg) (re_poolInfoReady env)
                        else cwnd)
            in computeAdaptiveConcurrency cwnd (adaptiveConcurrency cache) (cache_features cache)
          else 0
      | None \<Rightarrow> 0)"

text \<open>
  The fallback: the best of the top nodes of the rendezvous hash. The slot is smoothed on the way; with no candidate
  only the rotation and the order of the snapshot change.
\<close>

definition rendezvous_pick ::
    "router_config \<Rightarrow> router_env \<Rightarrow> string \<Rightarrow> string \<Rightarrow> indexSlot \<Rightarrow> router_state \<Rightarrow> cid option \<times> router_state" where
  "rendezvous_pick cfg env keyA keyB slot st =
     (let h = rs_heap st; conns = rs_sortedConns st; cache = rs_cache st; bk = bucket_of h;
          k = effectiveFanOut cache slot keyA (int (length conns));
          (candidates, j, conns') =
            rendezvousTopK (re_rank_sort env) h bk keyA keyB conns k (Some (rs_jitter st)) (shardNodeNameSet slot);
          st = st\<lparr>rs_sortedConns := conns', rs_jitter := (case j of Some v \<Rightarrow> v | None \<Rightarrow> rs_jitter st)\<rparr>
      in if candidates = [] then (None, st)
         else let maxBucket = fold (\<lambda>c m. if bk c > m then bk c else m) candidates 0;
                  slot = updateSmoothedMaxBucket (re_now env) (real_of_int maxBucket) slot;
                  st = st\<lparr>rs_cache := cache\<lparr>entries := AList.update keyA slot (entries cache)\<rparr>\<rparr>;
                  (best, h) = connScoreSelect bk candidates (Some slot) None (rc_shardCosts cfg) (rc_poolName cfg)
                    (re_poolInfoReady env) (rc_scoreFunc cfg) None h
              in (best, st\<lparr>rs_heap := h\<rparr>))"

definition rendezvous_route ::
    "router_config \<Rightarrow> router_env \<Rightarrow> string \<Rightarrow> string \<Rightarrow> NextHop \<Rightarrow> indexSlot \<Rightarrow> router_state \<Rightarrow> NextHop \<times> router_state" where
  "rendezvous_route cfg env keyA keyB hop slot st =
     (let cache = rs_cache st; (best, st) = rendezvous_pick cfg env keyA keyB slot st
      in (checked_hop hop (rs_heap st) (rc_poolName cfg) (adaptive_mcsr cfg env cache (rs_heap st) best) best, st))"

text \<open>\<^verbatim>\<open>poolRouter.Eval\<close> after the inner policy has returned the connection of \<open>hop\<close>.\<close>

definition router_Eval ::
    "router_config \<Rightarrow> router_env \<Rightarrow> request \<Rightarrow> NextHop \<Rightarrow> router_state \<Rightarrow> go_panic + NextHop \<times> router_state" where
  "router_Eval cfg env req hop st =
     (let (keyA, keyB) = routing_keys (req_Path req); conns = rs_sortedConns st;
          select = (\<lambda>cs slot shard extra h. connScoreSelect (bucket_of h) cs slot shard (rc_shardCosts cfg) (rc_poolName cfg)
            (re_poolInfoReady env) (rc_scoreFunc cfg) extra h)
      in if conns = [] then Inr (hop, st)
         else if keyA = [] then
           (let (best, h) = select conns None None None (rs_heap st)
            in Inr (checked_hop hop h (rc_poolName cfg) 0 best, st\<lparr>rs_heap := h\<rparr>))
         else
           (let (slot, cache) = slot_getOrCreate keyA (rs_cache st); st = st\<lparr>rs_cache := cache\<rparr> in
            case shard_candidates env (cache_features cache) slot (extractRouting req) keyB (rs_heap st) conns of
              Inl e \<Rightarrow> Inl e
            | Inr (cs, shard, extra) \<Rightarrow>
                if cs \<noteq> [] then
                  (let (best, h) = select cs (Some slot) shard extra (rs_heap st)
                   in Inr (checked_hop hop h (rc_poolName cfg) 0 best, st\<lparr>rs_heap := h\<rparr>))
                else Inr (rendezvous_route cfg env keyA keyB hop slot st)))"

section \<open>The stand-alone routers\<close>

definition plain_hop :: "string \<Rightarrow> int \<Rightarrow> cid option \<Rightarrow> NextHop" where
  "plain_hop poolName mcsr best =
     (case best of
        None \<Rightarrow> no_hop
      | Some c \<Rightarrow> \<lparr>nh_Conn = Some c, nh_PoolName = poolName, MaxConcurrentShardRequests = mcsr\<rparr>)"

text \<open>
  What both do with the index \<open>keyA\<close> and, for a document, its identifier \<open>keyB\<close>: the shard's hosts first, then the
  rendezvous hash. \<open>mcsr\<close> gives the shard limit of the second case.
\<close>

definition keyed_route ::
    "router_config \<Rightarrow> router_env \<Rightarrow> request \<Rightarrow> string \<Rightarrow> string \<Rightarrow> (indexSlotCache \<Rightarrow> conn_heap \<Rightarrow> cid option \<Rightarrow> int) \<Rightarrow>
      router_state \<Rightarrow> go_panic + NextHop \<times> router_state" where
  "keyed_route cfg env req keyA keyB mcsr st =
     (let (slot, cache) = slot_getOrCreate keyA (rs_cache st); st = st\<lparr>rs_cache := cache\<rparr> in
      case shard_candidates env (cache_features cache) slot (extractRouting req) keyB (rs_heap st) (rs_sortedConns st) of
        Inl e \<Rightarrow> Inl e
      | Inr (cs, shard, extra) \<Rightarrow>
          if cs \<noteq> [] then
            (let (best, h) = connScoreSelect (bucket_of (rs_heap st)) cs (Some slot) shard (rc_shardCosts cfg) (rc_poolName cfg)
               (re_poolInfoReady env) (rc_scoreFunc cfg) extra (rs_heap st)
             in Inr (plain_hop (rc_poolName cfg) 0 best, st\<lparr>rs_heap := h\<rparr>))
          else
            (let (best, st') = rendezvous_pick cfg env keyA keyB slot st
             in Inr (plain_hop (rc_poolName cfg) (mcsr cache (rs_heap st') best) best, st')))"

definition index_Eval :: "router_config \<Rightarrow> router_env \<Rightarrow> request \<Rightarrow> router_state \<Rightarrow> go_panic + NextHop \<times> router_state" where
  "index_Eval cfg env req st =
     (let indexName = extractIndexFromPath (req_Path req); conns = rs_sortedConns st in
      if conns = [] then Inr (no_hop, st)
      else if indexName = [] then
        (let (best, h) = connScoreSelect (bucket_of (rs_heap st)) conns None None (rc_shardCosts cfg) (rc_poolName cfg)
           (re_poolInfoReady env) (rc_scoreFunc cfg) None (rs_heap st)
         in Inr (plain_hop (rc_poolName cfg) 0 best, st\<lparr>rs_heap := h\<rparr>))
      else keyed_route cfg env req indexName [] (adaptive_mcsr cfg env) st)"

definition doc_Eval :: "router_config \<Rightarrow> router_env \<Rightarrow> request \<Rightarrow> router_state \<Rightarrow> go_panic + NextHop \<times> router_state" where
  "doc_Eval cfg env req st =
     (let (indexName, docID) = extractDocumentFromPath (req_Path req) in
      if indexName = [] \<or> docID = [] then Inr (no_hop, st)
      else if rs_sortedConns st = [] then Inr (no_hop, st)
      else keyed_route (cfg\<lparr>rc_shardCosts := shardCostForReads\<rparr>) env req indexName docID (\<lambda>_ _ _. 0) st)"

text \<open>Discovery for the two: connections are told apart by their URL, and removed ones go last.\<close>

definition add_unseen :: "conn_heap \<Rightarrow> cid \<Rightarrow> string set \<times> cid list \<Rightarrow> string set \<times> cid list" where
  "add_unseen h c = (\<lambda>(seen, all). if URL (h c) \<in> seen then (seen, all) else (insert (URL (h c)) seen, all @ [c]))"

definition routerDiscoveryUpdate ::
    "conn_heap \<Rightarrow> cid list option \<Rightarrow> cid list option \<Rightarrow> int32 \<times> cid list \<Rightarrow> int32 \<times> cid list" where
  "routerDiscoveryUpdate h added removed = (\<lambda>(ps, activeConns).
     if ps AND psEnvDisabled \<noteq> 0 then (ps, activeConns)
     else if added = None \<and> removed = None then (ps, activeConns)
     else let all = snd (fold (add_unseen h) (opt_list added) (fold (add_unseen h) activeConns ({}, [])));
              all = (case removed of None \<Rightarrow> all
                     | Some rs \<Rightarrow> filter (\<lambda>c. URL (h c) \<notin> set (map (\<lambda>r. URL (h r)) rs)) all);
              all = sortConnectionsByRTT (bucket_of h) h all
          in (psSetEnabled (list_ex (\<lambda>c. availableForRouting (h c)) all) [] ps, all))"

section \<open>Paths\<close>

lemma cut_prefix: "sep \<notin> set a \<Longrightarrow> strings_Cut sep (a @ sep # b) = (a, b, True)"
  by (auto simp: strings_Cut_def Let_def takeWhile_append)

text \<open>The index and the identifier of a document path.\<close>
theorem document_path:
  assumes "i \<noteq> []" "hd i \<noteq> CHR ''_''" "CHR ''/'' \<notin> set i" "e \<in> set documentEndpoints" "d \<noteq> []"
    "CHR ''/'' \<notin> set d" "CHR ''?'' \<notin> set d"
  shows "routing_keys (CHR ''/'' # i @ CHR ''/'' # e @ CHR ''/'' # d) = (i, d)"
proof -
  have e: "CHR ''/'' \<notin> set e" using assms(4) by (auto simp: documentEndpoints_def)
  have tw: "takeWhile (\<lambda>c. c \<noteq> CHR ''/'' \<and> c \<noteq> CHR ''?'') d = d" using assms(6,7) by (auto simp: takeWhile_eq_all_conv)
  show ?thesis
    using assms(1,2,4,5) cut_prefix [OF assms(3), of "e @ CHR ''/'' # d"] cut_prefix [OF e, of d]
    by (simp add: tw routing_keys_def extractDocumentFromPath_def strip_slash_def Let_def)
qed

text \<open>An identifier with a slash is cut at the slash: the path is already decoded when it is split, so the
  document \<^verbatim>\<open>a/b\<close> is routed by the hash of \<^verbatim>\<open>a\<close>, to another document's shard.\<close>
theorem document_id_truncated:
  assumes "i \<noteq> []" "hd i \<noteq> CHR ''_''" "CHR ''/'' \<notin> set i" "e \<in> set documentEndpoints" "a \<noteq> []"
    "CHR ''/'' \<notin> set a" "CHR ''?'' \<notin> set a"
  shows "routing_keys (CHR ''/'' # i @ CHR ''/'' # e @ CHR ''/'' # a @ CHR ''/'' # b) = (i, a)"
proof -
  have e: "CHR ''/'' \<notin> set e" using assms(4) by (auto simp: documentEndpoints_def)
  have "takeWhile (\<lambda>c. c \<notin> {CHR ''/'', CHR ''?''}) (a @ CHR ''/'' # b) = a"
    using assms(6,7) by (auto simp: takeWhile_append)
  then show ?thesis
    using assms(1,2,4,5) cut_prefix [OF assms(3), of "e @ CHR ''/'' # a @ CHR ''/'' # b"] cut_prefix [OF e, of "a @ CHR ''/'' # b"]
    by (simp add: routing_keys_def extractDocumentFromPath_def strip_slash_def Let_def)
qed

theorem document_id_truncated_witness: "routing_keys ''/logs/_doc/a/b'' = (''logs'', ''a'')"
  using document_id_truncated [of "''logs''" "''_doc''" "''a''" "''b''"] by (simp add: documentEndpoints_def)

section \<open>The router\<close>

lemma fillSlots_set:
  assumes "\<And>xs. set (rank xs) = set xs" "fillSlotsFromTiers rank bk conns dst k = (slots, rem, conns')"
  shows "set slots \<subseteq> set dst \<union> set conns \<and> set conns' = set conns"
  using assms
proof (induction rank bk conns dst k arbitrary: slots rem conns' rule: fillSlotsFromTiers.induct)
  case (1 rank bk conns dst k)
  show ?case
  proof (cases "conns = [] \<or> k = 0")
    case True
    with "1.prems"(2) show ?thesis by (auto simp: fillSlotsFromTiers.simps)
  next
    case False
    define tier where "tier = takeWhile (\<lambda>c. bk c = bk (hd conns)) conns"
    define rest where "rest = drop (length tier) conns"
    have conns: "conns = tier @ rest" unfolding tier_def rest_def by (metis append_take_drop_id takeWhile_eq_take)
    then have sets: "set conns = set tier \<union> set rest" by (metis set_append)
    show ?thesis
    proof (cases "length tier \<le> k")
      case True
      obtain s r c where f: "fillSlotsFromTiers rank bk rest (dst @ tier) (k - length tier) = (s, r, c)"
        by (metis surj_pair)
      have "set s \<subseteq> set (dst @ tier) \<union> set rest \<and> set c = set rest"
        using "1.IH" [OF False tier_def rest_def True "1.prems"(1) f] .
      moreover have "slots = s" "conns' = tier @ c"
        using "1.prems"(2) False True f by (simp_all add: fillSlotsFromTiers.simps [of rank bk conns] tier_def rest_def Let_def)
      ultimately show ?thesis using sets by auto
    next
      case len: False
      then have "slots = dst @ take k (rank tier)" "conns' = rank tier @ rest"
        using "1.prems"(2) False by (auto simp: fillSlotsFromTiers.simps [of rank bk conns] tier_def rest_def Let_def)
      then show ?thesis using sets "1.prems"(1) by (auto dest: in_set_takeD)
    qed
  qed
qed

lemma rendezvousTopK_set:
  assumes "sort_func srt" "rendezvousTopK srt h bk keyA keyB conns k jitter names = (slots, j, conns')"
  shows "set slots \<subseteq> set conns \<and> set conns' = set conns"
proof -
  have rank: "set (rankByHash srt h keyA keyB xs) = set xs" for xs
    unfolding rankByHash_def by (rule sort_func.set_srt [OF assms(1)])
  let ?cs = "filterNeedsCatUpdate h conns"
  have sub: "set ?cs \<subseteq> set conns" by (auto simp: filterNeedsCatUpdate_eq)
  show ?thesis
  proof (cases "length conns = 0 \<or> k \<le> 0 \<or> length ?cs = 0")
    case True
    with assms(2) show ?thesis by (auto simp: rendezvousTopK_def Let_def split: if_splits)
  next
    case False
    define part where "part = (if names \<noteq> {}
        then (filter (\<lambda>c. Name (h c) \<in> names) ?cs, filter (\<lambda>c. Name (h c) \<notin> names) ?cs) else (?cs, []))"
    define n where "n = (if k > int (length ?cs) then length ?cs else nat k)"
    obtain s r c where f: "fillSlotsFromTiers (rankByHash srt h keyA keyB) bk (fst part) [] n = (s, r, c)" by (metis surj_pair)
    obtain s' r' c' where f': "fillSlotsFromTiers (rankByHash srt h keyA keyB) bk (snd part) s r = (s', r', c')" by (metis surj_pair)
    have p: "set (fst part) \<subseteq> set ?cs" "set (snd part) \<subseteq> set ?cs" by (auto simp: part_def)
    have fs: "set s \<subseteq> set (fst part) \<and> set c = set (fst part)" using fillSlots_set [OF rank f] by simp
    have fs': "set s' \<subseteq> set s \<union> set (snd part)" using fillSlots_set [OF rank f'] by simp
    define slots0 where "slots0 = (if r > 0 \<and> length (snd part) > 0 then s' else s)"
    have "set slots0 \<subseteq> set (fst part) \<union> set (snd part)" using fs fs' by (auto simp: slots0_def)
    then have s0: "set slots0 \<subseteq> set conns" using p sub by blast
    have "slots = slots0 \<or> (\<exists>o'. slots = rotateConns slots0 o')" "conns' = (if names = {} \<and> ?cs = conns then c else conns)"
      using assms(2) False f f'
      by (auto simp: rendezvousTopK_def Let_def part_def [symmetric] n_def [symmetric] slots0_def case_prod_beta split: option.splits if_splits)
    moreover have "set (rotateConns slots0 o') = set slots0" for o' by (metis mset_rotateConns set_mset_mset)
    ultimately show ?thesis using s0 fs by (auto simp: part_def split: if_splits)
  qed
qed

lemma select_loop_member:
  assumes "select_loop n cands scores skip warming h = (r, h')" "length scores \<le> length cands"
    and "\<And>c. warming = Some c \<Longrightarrow> c \<in> set cands" "r = Inl c \<or> r = Inr (Some c)"
  shows "c \<in> set cands"
  using assms
proof (induction n arbitrary: scores skip warming h)
  case (Suc n)
  show ?case
  proof (cases "lowest 0 scores None")
    case None with Suc.prems show ?thesis by auto
  next
    case (Some i)
    then have i: "cands ! i \<in> set cands" using lowest_Some [OF Some] Suc.prems(2) by auto
    have len: "length (scores[i := None]) \<le> length cands" using Suc.prems(2) by simp
    show ?thesis
      using Suc.prems i Suc.IH [OF _ len] by (auto simp: Some Let_def split: if_splits warmupResult.splits prod.splits)
  qed
qed auto

lemma connScoreSelect_member:
  assumes "connScoreSelect bk candidates slot shard costs poolName poolInfoReady scoreFunc extraCost h = (Some c, h')"
  shows "c \<in> set candidates"
proof -
  let ?s = "total_scores bk candidates slot shard costs poolName poolInfoReady scoreFunc extraCost h"
  have len: "length ?s \<le> length candidates" by (simp add: total_scores_def Let_def split: option.splits)
  obtain r h2 where r: "select_loop (length candidates) candidates ?s (2 ^ 63 - 1) None h = (r, h2)" by force
  show ?thesis
    using assms r select_loop_member [OF r len] unfolding connScoreSelect_total
    by (auto split: if_splits sum.splits option.splits)
qed

text \<open>A hop that the router may return: the inner one, or a connection of the snapshot that still serves.\<close>

definition routed_hop :: "router_config \<Rightarrow> NextHop \<Rightarrow> router_state \<Rightarrow> NextHop \<times> router_state \<Rightarrow> bool" where
  "routed_hop cfg hop st r \<longleftrightarrow>
     fst r = hop \<or>
     (\<exists>c. nh_Conn (fst r) = Some c \<and> c \<in> set (rs_sortedConns st) \<and> nh_PoolName (fst r) = rc_poolName cfg \<and>
        lc_of (rs_heap (snd r) c) AND (lcActive OR lcStandby) \<noteq> 0)"

lemma checked_routed:
  assumes "connScoreSelect bk cs slot shard costs poolName poolInfoReady scoreFunc extra h = (best, h')" "set cs \<subseteq> set (rs_sortedConns st)"
    and "rs_heap st' = h'"
  shows "routed_hop cfg hop st (checked_hop hop h' (rc_poolName cfg) mcsr best, st')"
  using connScoreSelect_member assms by (fastforce simp: routed_hop_def checked_hop_def split: option.splits)

lemma shard_candidates_subset:
  assumes "shard_candidates env features slot routingValue keyB h conns = Inr (cs, shard, extra)"
    and "sort_func (re_hits_sort env)"
  shows "set cs \<subseteq> set conns"
proof (cases "CHR '','' \<in> set routingValue")
  case True
  with assms(1) have "\<exists>xs. calcMultiKeyCost (re_hits_sort env) features slot routingValue h conns = Inr (cs, xs)"
    by (auto simp: shard_candidates_def Let_def split: sum.splits)
  then show ?thesis
    using sort_func.set_srt [OF assms(2)]
    by (auto simp: calcMultiKeyCost_def Let_def split: if_splits option.splits sum.splits)
next
  case False
  with assms(1) obtain k n where "calcSingleKeyCost features slot k h conns = Inr (cs, n, shard)"
    by (auto simp: shard_candidates_def Let_def split: sum.splits)
  then show ?thesis
    by (auto simp: calcSingleKeyCost_def Let_def split: if_splits option.splits sum.splits)
qed

lemma rendezvous_pick_member:
  assumes "sort_func (re_rank_sort env)" "rendezvous_pick cfg env keyA keyB slot st = (best, st')"
  shows "(best = Some c \<longrightarrow> c \<in> set (rs_sortedConns st)) \<and> set (rs_sortedConns st') = set (rs_sortedConns st)"
proof -
  let ?h = "rs_heap st" and ?conns = "rs_sortedConns st"
  obtain cands j conns' where top: "rendezvousTopK (re_rank_sort env) ?h (bucket_of ?h) keyA keyB ?conns
      (effectiveFanOut (rs_cache st) slot keyA (int (length ?conns))) (Some (rs_jitter st)) (shardNodeNameSet slot) = (cands, j, conns')"
    by (metis surj_pair)
  note sets = rendezvousTopK_set [OF assms(1) top]
  define m where "m = fold (\<lambda>c m. if bucket_of ?h c > m then bucket_of ?h c else m) cands 0"
  define slot' where "slot' = updateSmoothedMaxBucket (re_now env) (real_of_int m) slot"
  obtain b h' where sel: "connScoreSelect (bucket_of ?h) cands (Some slot') None (rc_shardCosts cfg) (rc_poolName cfg)
      (re_poolInfoReady env) (rc_scoreFunc cfg) None ?h = (b, h')" by force
  let ?st = "st\<lparr>rs_sortedConns := conns', rs_jitter := (case j of Some v \<Rightarrow> v | None \<Rightarrow> rs_jitter st)\<rparr>"
  have pick: "(best, st') = (if cands = [] then (None, ?st) else (b, ?st\<lparr>rs_cache := (rs_cache st)
      \<lparr>entries := AList.update keyA slot' (entries (rs_cache st))\<rparr>, rs_heap := h'\<rparr>))"
    unfolding assms(2) [symmetric] rendezvous_pick_def Let_def top prod.case m_def [symmetric] slot'_def [symmetric] sel
    by simp
  then have "set (rs_sortedConns st') = set ?conns" using sets by (simp split: if_splits)
  moreover have "c \<in> set ?conns" if "best = Some c"
  proof -
    from pick that have "b = Some c" by (simp split: if_splits)
    with sel have "c \<in> set cands" using connScoreSelect_member by blast
    with sets show ?thesis by blast
  qed
  ultimately show ?thesis by blast
qed

lemma rendezvous_route_sound:
  assumes "sort_func (re_rank_sort env)" "rendezvous_route cfg env keyA keyB hop slot st = (hop', st')"
  shows "routed_hop cfg hop st (hop', st') \<and> set (rs_sortedConns st') = set (rs_sortedConns st)"
proof -
  obtain best st2 where pick: "rendezvous_pick cfg env keyA keyB slot st = (best, st2)" by force
  with assms(2) have eq: "st' = st2"
      "hop' = checked_hop hop (rs_heap st2) (rc_poolName cfg) (adaptive_mcsr cfg env (rs_cache st) (rs_heap st2) best) best"
    by (auto simp: rendezvous_route_def Let_def)
  show ?thesis
    using rendezvous_pick_member [OF assms(1) pick] eq
    by (auto simp: routed_hop_def checked_hop_def split: option.splits if_splits)
qed

lemma router_Eval_routed:
  assumes "router_Eval cfg env req hop st = Inr (hop', st')" "sort_func (re_rank_sort env)" "sort_func (re_hits_sort env)"
  shows "routed_hop cfg hop st (hop', st') \<and> set (rs_sortedConns st') = set (rs_sortedConns st)"
proof -
  obtain keyA keyB where keys: "routing_keys (req_Path req) = (keyA, keyB)" by force
  obtain slot cache where slot: "slot_getOrCreate keyA (rs_cache st) = (slot, cache)" by force
  consider (none) "rs_sortedConns st = []" | (cluster) "rs_sortedConns st \<noteq> []" "keyA = []"
    | (index) "rs_sortedConns st \<noteq> []" "keyA \<noteq> []" by blast
  then show ?thesis
  proof cases
    case none
    with assms(1) keys show ?thesis by (simp add: router_Eval_def Let_def routed_hop_def)
  next
    case cluster
    obtain best h' where sel: "connScoreSelect (bucket_of (rs_heap st)) (rs_sortedConns st) None None (rc_shardCosts cfg) (rc_poolName cfg)
        (re_poolInfoReady env) (rc_scoreFunc cfg) None (rs_heap st) = (best, h')" by force
    with assms(1) keys cluster have "hop' = checked_hop hop h' (rc_poolName cfg) 0 best" "st' = st\<lparr>rs_heap := h'\<rparr>"
      by (simp_all add: router_Eval_def Let_def)
    then show ?thesis using checked_routed [OF sel, of st st'] by simp
  next
    case index
    let ?st = "st\<lparr>rs_cache := cache\<rparr>"
    obtain cs shard extra where cs: "shard_candidates env (cache_features cache) slot (extractRouting req) keyB (rs_heap st) (rs_sortedConns st)
        = Inr (cs, shard, extra)"
      using assms(1) keys index slot by (auto simp: router_Eval_def Let_def split: sum.splits)
    note sub = shard_candidates_subset [OF cs assms(3)]
    show ?thesis
    proof (cases "cs = []")
      case True
      then have "rendezvous_route cfg env keyA keyB hop slot ?st = (hop', st')"
        using assms(1) keys index slot cs by (simp add: router_Eval_def Let_def)
      from rendezvous_route_sound [OF assms(2) this] show ?thesis by (simp add: routed_hop_def)
    next
      case False
      obtain best h' where sel: "connScoreSelect (bucket_of (rs_heap st)) cs (Some slot) shard (rc_shardCosts cfg) (rc_poolName cfg)
          (re_poolInfoReady env) (rc_scoreFunc cfg) extra (rs_heap st) = (best, h')" by force
      with assms(1) keys index slot cs False
      have "hop' = checked_hop hop h' (rc_poolName cfg) 0 best" "st' = ?st\<lparr>rs_heap := h'\<rparr>"
        by (simp_all add: router_Eval_def Let_def)
      then show ?thesis using checked_routed [OF sel sub, of st'] by simp
    qed
  qed
qed

text \<open>C29. The router keeps to its snapshot. Whatever the request, it returns the hop of the inner policy, or a
  connection of the snapshot that is active or standby at that moment, tagged with its thread pool; and it leaves
  the snapshot with the same connections.\<close>
theorem router_Eval_sound:
  assumes "router_Eval cfg env req hop st = Inr (hop', st')" "sort_func (re_rank_sort env)" "sort_func (re_hits_sort env)"
  shows "routed_hop cfg hop st (hop', st') \<and> set (rs_sortedConns st') = set (rs_sortedConns st)"
  by (rule router_Eval_routed [OF assms])

definition sample_router_env :: router_env where
  "sample_router_env = \<lparr>re_poolInfoReady = False, re_clusterSearchCwnd = 0, re_now = 5, re_rank_sort = sort_key, re_hits_sort = sort_key\<rparr>"

definition sample_router :: router_config where
  "sample_router = \<lparr>rc_shardCosts = shardCostForReads, rc_scoreFunc = None, rc_poolName = ''search''\<rparr>"

definition sample_router_state :: router_state where
  "sample_router_state = \<lparr>rs_heap = sample_scored, rs_sortedConns = [1, 2], rs_jitter = 0, rs_cache = sample_cache\<rparr>"

theorem router_Eval_sound_witness:
  "\<exists>hop' st'. router_Eval sample_router sample_router_env (sample_request\<lparr>req_Path := ''/_search''\<rparr>) no_hop sample_router_state = Inr (hop', st')
     \<and> routed_hop sample_router no_hop sample_router_state (hop', st') \<and> set (rs_sortedConns st') = {1, 2}"
proof -
  have "routing_keys ''/_search'' = ([], [])" by code_simp
  then obtain hop' st' where r: "router_Eval sample_router sample_router_env (sample_request\<lparr>req_Path := ''/_search''\<rparr>) no_hop sample_router_state
      = Inr (hop', st')"
    by (auto simp: router_Eval_def Let_def sample_router_state_def case_prod_beta)
  have "sort_func (re_rank_sort sample_router_env)" "sort_func (re_hits_sort sample_router_env)"
    using stable_sort.sort_func_axioms by (simp_all add: sample_router_env_def)
  from router_Eval_sound [OF r this] r show ?thesis by (auto simp: sample_router_state_def)
qed

section \<open>The stand-alone routers\<close>

text \<open>A hop of a stand-alone router: nothing, or a connection of its list with its thread pool.\<close>

definition listed_hop :: "router_config \<Rightarrow> router_state \<Rightarrow> NextHop \<Rightarrow> bool" where
  "listed_hop cfg st hop \<longleftrightarrow>
     hop = no_hop \<or> (\<exists>c. nh_Conn hop = Some c \<and> c \<in> set (rs_sortedConns st) \<and> nh_PoolName hop = rc_poolName cfg)"

lemma plain_listed: "(\<And>c. best = Some c \<Longrightarrow> c \<in> set (rs_sortedConns st)) \<Longrightarrow> listed_hop cfg st (plain_hop (rc_poolName cfg) m best)"
  by (cases best) (simp_all add: listed_hop_def plain_hop_def)

definition sorts_ok :: "router_env \<Rightarrow> bool" where
  "sorts_ok env \<longleftrightarrow> sort_func (re_rank_sort env) \<and> sort_func (re_hits_sort env)"

lemma keyed_route_listed:
  assumes "keyed_route cfg env req keyA keyB mcsr st = Inr (hop, st')" "sorts_ok env"
  shows "listed_hop cfg st hop \<and> set (rs_sortedConns st') = set (rs_sortedConns st)"
proof -
  obtain slot cache where slot: "slot_getOrCreate keyA (rs_cache st) = (slot, cache)" by force
  let ?st = "st\<lparr>rs_cache := cache\<rparr>"
  obtain cs shard extra where cs: "shard_candidates env (cache_features cache) slot (extractRouting req) keyB (rs_heap st) (rs_sortedConns st)
      = Inr (cs, shard, extra)"
    using assms(1) slot by (auto simp: keyed_route_def Let_def split: sum.splits)
  note sub = shard_candidates_subset [OF cs]
  show ?thesis
  proof (cases "cs = []")
    case True
    obtain best st2 where pick: "rendezvous_pick cfg env keyA keyB slot ?st = (best, st2)" by force
    with assms(1) slot cs True have "hop = plain_hop (rc_poolName cfg) (mcsr cache (rs_heap st2) best) best" "st' = st2"
      by (auto simp: keyed_route_def Let_def)
    moreover have "best = Some c \<Longrightarrow> c \<in> set (rs_sortedConns st)" "set (rs_sortedConns st2) = set (rs_sortedConns st)" for c
      using rendezvous_pick_member [OF _ pick] assms(2) by (auto simp: sorts_ok_def)
    ultimately show ?thesis using plain_listed [of best st] by simp
  next
    case False
    obtain best h where sel: "connScoreSelect (bucket_of (rs_heap st)) cs (Some slot) shard (rc_shardCosts cfg) (rc_poolName cfg)
        (re_poolInfoReady env) (rc_scoreFunc cfg) extra (rs_heap st) = (best, h)" by force
    with assms(1) slot cs False have "hop = plain_hop (rc_poolName cfg) 0 best" "st' = ?st\<lparr>rs_heap := h\<rparr>"
      by (simp_all add: keyed_route_def Let_def)
    moreover have "best = Some c \<Longrightarrow> c \<in> set (rs_sortedConns st)" for c
      using connScoreSelect_member sel sub assms(2) by (auto simp: sorts_ok_def)
    ultimately show ?thesis using plain_listed [of best st] by simp
  qed
qed

lemma index_Eval_listed:
  assumes "index_Eval cfg env req st = Inr (hop, st')" "sorts_ok env"
  shows "listed_hop cfg st hop \<and> set (rs_sortedConns st') = set (rs_sortedConns st)"
proof (cases "rs_sortedConns st = [] \<or> extractIndexFromPath (req_Path req) \<noteq> []")
  case True
  then show ?thesis
    using assms keyed_route_listed by (auto simp: index_Eval_def Let_def listed_hop_def [of _ _ no_hop] split: if_splits)
next
  case False
  obtain best h where sel: "connScoreSelect (bucket_of (rs_heap st)) (rs_sortedConns st) None None (rc_shardCosts cfg) (rc_poolName cfg)
      (re_poolInfoReady env) (rc_scoreFunc cfg) None (rs_heap st) = (best, h)" by force
  with assms(1) False have "hop = plain_hop (rc_poolName cfg) 0 best" "st' = st\<lparr>rs_heap := h\<rparr>"
    by (simp_all add: index_Eval_def Let_def)
  moreover have "best = Some c \<Longrightarrow> c \<in> set (rs_sortedConns st)" for c using connScoreSelect_member sel by auto
  ultimately show ?thesis using plain_listed [of best st] by simp
qed

lemma doc_Eval_listed:
  assumes "doc_Eval cfg env req st = Inr (hop, st')" "sorts_ok env"
  shows "listed_hop cfg st hop \<and> set (rs_sortedConns st') = set (rs_sortedConns st)"
proof -
  obtain i d where "extractDocumentFromPath (req_Path req) = (i, d)" by force
  with assms keyed_route_listed [of "cfg\<lparr>rc_shardCosts := shardCostForReads\<rparr>" env req i d] show ?thesis
    by (auto simp: doc_Eval_def Let_def listed_hop_def split: if_splits)
qed

text \<open>The stand-alone index router does not look at the state of what it selects: with one connection in its
  list it returns that connection for a cluster request even when it is marked dead, where the pool router would
  keep the inner hop.\<close>
theorem index_router_serves_dead:
  assumes "rs_sortedConns st = [c]" "extractIndexFromPath (req_Path req) = []"
  shows "\<exists>hop st'. index_Eval cfg env req st = Inr (hop, st') \<and> nh_Conn hop = Some c"
proof -
  obtain best h where sel: "connScoreSelect (bucket_of (rs_heap st)) [c] None None (rc_shardCosts cfg) (rc_poolName cfg)
      (re_poolInfoReady env) (rc_scoreFunc cfg) None (rs_heap st) = (best, h)" by force
  have "best \<noteq> None" using sel by (auto simp: connScoreSelect_def Let_def split: prod.splits sum.splits option.splits)
  then have "best = Some c" using connScoreSelect_member [of _ "[c]"] sel by (cases best) auto
  with sel assms show ?thesis by (simp add: index_Eval_def plain_hop_def)
qed

definition dead_router_state :: router_state where
  "dead_router_state =
     sample_router_state\<lparr>rs_heap := (\<lambda>c. blank_connection\<lparr>state := newConnState lcDead\<rparr>), rs_sortedConns := [1]\<rparr>"

theorem index_router_serves_dead_witness:
  "\<exists>hop st'. index_Eval sample_router sample_router_env (sample_request\<lparr>req_Path := ''/_search''\<rparr>) dead_router_state = Inr (hop, st')
     \<and> nh_Conn hop = Some 1"
proof -
  have "extractIndexFromPath ''/_search'' = []" by code_simp
  then show ?thesis
    using index_router_serves_dead [of dead_router_state 1 "sample_request\<lparr>req_Path := ''/_search''\<rparr>" sample_router sample_router_env]
    by (simp add: dead_router_state_def)
qed

section \<open>Discovery of the stand-alone routers\<close>

lemma fold_add_unseen:
  assumes "fold (add_unseen h) cs (seen, all) = (seen', all')" "distinct (map (\<lambda>c. URL (h c)) all)"
    and "seen = set (map (\<lambda>c. URL (h c)) all)"
  shows "distinct (map (\<lambda>c. URL (h c)) all') \<and> seen' = set (map (\<lambda>c. URL (h c)) all')
    \<and> set (map (\<lambda>c. URL (h c)) all') = set (map (\<lambda>c. URL (h c)) (all @ cs)) \<and> set all' \<subseteq> set all \<union> set cs"
  using assms
proof (induction cs arbitrary: seen all)
  case (Cons c cs)
  show ?case
  proof (cases "URL (h c) \<in> seen")
    case True
    then have "fold (add_unseen h) cs (seen, all) = (seen', all')" using Cons.prems(1) by (simp add: add_unseen_def [of h c])
    from Cons.IH [OF this Cons.prems(2,3)] True Cons.prems(3) show ?thesis by auto
  next
    case False
    then have "fold (add_unseen h) cs (insert (URL (h c)) seen, all @ [c]) = (seen', all')"
      using Cons.prems(1) by (simp add: add_unseen_def [of h c])
    from Cons.IH [OF this] False Cons.prems(2,3) show ?thesis by auto
  qed
qed simp

text \<open>After a discovery cycle the list of a stand-alone router holds exactly one connection for each address
  that was known or was added, less the addresses that were removed; it is sorted by bucket and address; and the
  router is enabled exactly when a listed connection may be routed to. An address both removed and added is gone.\<close>
theorem routerDiscoveryUpdate_list:
  assumes "ps AND psEnvDisabled = 0" "added \<noteq> None \<or> removed \<noteq> None"
    and "routerDiscoveryUpdate h added removed (ps, conns) = (ps', conns')"
  shows "distinct (map (\<lambda>c. URL (h c)) conns')
    \<and> (\<lambda>c. URL (h c)) ` set conns'
      = (\<lambda>c. URL (h c)) ` (set conns \<union> set (opt_list added)) - (\<lambda>c. URL (h c)) ` set (opt_list removed)
    \<and> sorted (map (\<lambda>c. (bucket_of h c, URL (h c))) conns')
    \<and> (psIsEnabled ps' \<longleftrightarrow> (\<exists>c\<in>set conns'. availableForRouting (h c)))"
proof -
  obtain seen all where known: "fold (add_unseen h) conns ({}, []) = (seen, all)" by force
  obtain seen' all' where new: "fold (add_unseen h) (opt_list added) (seen, all) = (seen', all')" by force
  have known': "distinct (map (\<lambda>c. URL (h c)) all) \<and> seen = set (map (\<lambda>c. URL (h c)) all)
      \<and> set (map (\<lambda>c. URL (h c)) all) = set (map (\<lambda>c. URL (h c)) conns)"
    using fold_add_unseen [OF known] by simp
  then have new': "distinct (map (\<lambda>c. URL (h c)) all')"
      "(\<lambda>c. URL (h c)) ` set all' = (\<lambda>c. URL (h c)) ` (set conns \<union> set (opt_list added))"
    using fold_add_unseen [OF new] by auto
  define kept where "kept = (case removed of None \<Rightarrow> all'
      | Some rs \<Rightarrow> filter (\<lambda>c. URL (h c) \<notin> set (map (\<lambda>r. URL (h r)) rs)) all')"
  have kept_filter: "kept = filter (\<lambda>c. URL (h c) \<notin> (\<lambda>r. URL (h r)) ` set (opt_list removed)) all'"
    by (simp add: kept_def split: option.splits)
  then have kept: "distinct (map (\<lambda>c. URL (h c)) kept)"
      "(\<lambda>c. URL (h c)) ` set kept = (\<lambda>c. URL (h c)) ` set all' - (\<lambda>r. URL (h r)) ` set (opt_list removed)"
    using new'(1) by (auto simp: distinct_map_filter)
  have res: "conns' = sort_key (\<lambda>c. (bucket_of h c, URL (h c))) kept"
      "ps' = psSetEnabled (list_ex (\<lambda>c. availableForRouting (h c)) conns') [] ps"
    using assms
    unfolding routerDiscoveryUpdate_def prod.case Let_def known new snd_conv kept_def [symmetric] sortConnectionsByRTT_eq
    by auto
  have "mset conns' = mset kept" by (simp add: res(1))
  then have same: "mset (map (\<lambda>c. URL (h c)) conns') = mset (map (\<lambda>c. URL (h c)) kept)" "set conns' = set kept"
    by (simp, metis set_mset_mset)
  moreover have "sorted (map (\<lambda>c. (bucket_of h c, URL (h c))) conns')" by (simp add: res(1))
  moreover have "psIsEnabled ps' \<longleftrightarrow> list_ex (\<lambda>c. availableForRouting (h c)) conns'"
    using assms(1) and_flag [OF bit_ps(4), of ps]
    by (simp add: res(2) psSetEnabled_def cas_retry_alone psSetEnabled_body_def Let_def psIsEnabled_bits bit_or_iff bit_and_iff bit_not_iff)
  ultimately show ?thesis
    using kept new' mset_eq_imp_distinct_iff [OF same(1)] by (simp add: list_ex_iff)
qed

theorem routerDiscoveryUpdate_list_witness:
  "distinct (map (\<lambda>c. URL (sample_scored c)) (snd (routerDiscoveryUpdate sample_scored (Some [2, 3]) (Some [1]) (psEnabled, [1, 2]))))"
proof -
  have "psEnabled AND psEnvDisabled = 0" using and_flag [OF bit_ps(4), of psEnabled] by simp
  from routerDiscoveryUpdate_list [OF this _ prod.collapse [symmetric], of "Some [2, 3]" "Some [1]"] show ?thesis by blast
qed

end
