(* ===== verification/Policy_Tree.thy ===== *)
theory Policy_Tree
  imports Pool_Router Route_Classify
begin

text \<open>
  The tree of routing policies: chains (\<^verbatim>\<open>policy_chain.go\<close>), the multiplexer (\<^verbatim>\<open>policy_mux.go\<close>), conditions
  (\<^verbatim>\<open>policy_ifenabled.go\<close>), the null policy (\<^verbatim>\<open>policy_null.go\<close>), routers and leaf policies, and the default policy that
  \<^verbatim>\<open>router.go\<close> composes from them.

  A policy is identified by a number, as the source does by its pointer: two nodes with the same number are one
  policy that is reached along two paths. What a policy keeps is stored under its number, and the index slot caches
  under numbers of their own, because routers share them. None of the policies returns an error from a discovery
  update, so that only a nil dereference ends one early.
\<close>

unbundle bit_operations_syntax

section \<open>State and policies\<close>

type_synonym pid = nat

record sys =
  states :: "pid \<Rightarrow> int32"
  sys_heap :: conn_heap
  leaf_pool :: "pid \<Rightarrow> multiServerPool option"
  sortedConns :: "pid \<Rightarrow> cid list"
  jitters :: "pid \<Rightarrow> 64 word"
  caches :: "nat \<Rightarrow> indexSlotCache"

datatype leaf_kind = Role string | RoundRobin | Coordinator

type_synonym ConditionFunc = "request option \<Rightarrow> (pid \<Rightarrow> int32) \<Rightarrow> bool"

datatype policy =
    Chain pid "policy list"
  | Mux pid "pid option trieNode" "policy list"
  | IfEnabled pid ConditionFunc policy policy
  | NullPolicy pid
  | PoolRouter pid nat router_config policy
  | IndexRouter pid nat router_config
  | DocRouter pid nat router_config
  | Leaf pid leaf_kind

fun pid_of :: "policy \<Rightarrow> pid" where
  "pid_of (Chain i ps) = i"
| "pid_of (Mux i t ps) = i"
| "pid_of (IfEnabled i cond p q) = i"
| "pid_of (NullPolicy i) = i"
| "pid_of (PoolRouter i k cfg p) = i"
| "pid_of (IndexRouter i k cfg) = i"
| "pid_of (DocRouter i k cfg) = i"
| "pid_of (Leaf i kind) = i"

fun childPolicies :: "policy \<Rightarrow> policy list" where
  "childPolicies (Chain i ps) = ps"
| "childPolicies (Mux i t ps) = ps"
| "childPolicies (IfEnabled i cond p q) = [p, q]"
| "childPolicies (PoolRouter i k cfg p) = [p]"
| "childPolicies _ = []"

text \<open>
  A panic or the error of a pool. What a request meets on its way: the other goroutines' steps while a pool's lock is
  free, random numbers, the clock and the answers to \<^verbatim>\<open>TryLock\<close>, for each leaf policy, and what routers read.
\<close>

datatype policy_error = PoolError pool_error | Panicked go_panic | NilDereference

record eval_env =
  o_env :: "pid \<Rightarrow> world \<Rightarrow> world"
  o_rnd :: "pid \<Rightarrow> nat \<Rightarrow> nat"
  o_now :: int
  o_lockFree :: "pid \<Rightarrow> bool"
  o_router :: router_env

definition env_off :: "pid \<Rightarrow> sys \<Rightarrow> bool" where
  "env_off i s \<longleftrightarrow> states s i AND psEnvDisabled \<noteq> 0"

definition set_enabled :: "bool \<Rightarrow> pid \<Rightarrow> sys \<Rightarrow> sys" where
  "set_enabled b i s = s\<lparr>states := (states s)(i := psSetEnabled b [] (states s i))\<rparr>"

definition leaf_world :: "multiServerPool \<Rightarrow> sys \<Rightarrow> world" where
  "leaf_world p s = \<lparr>heap = sys_heap s, pool = p\<rparr>"

definition put_world :: "pid \<Rightarrow> world \<Rightarrow> sys \<Rightarrow> sys" where
  "put_world i w s = s\<lparr>sys_heap := heap w, leaf_pool := (leaf_pool s)(i := Some (pool w))\<rparr>"

definition router_view :: "pid \<Rightarrow> nat \<Rightarrow> sys \<Rightarrow> router_state" where
  "router_view i k s =
     \<lparr>rs_heap = sys_heap s, rs_sortedConns = sortedConns s i, rs_jitter = jitters s i, rs_cache = caches s k\<rparr>"

definition put_view :: "pid \<Rightarrow> nat \<Rightarrow> router_state \<Rightarrow> sys \<Rightarrow> sys" where
  "put_view i k st s =
     s\<lparr>sys_heap := rs_heap st, sortedConns := (sortedConns s)(i := rs_sortedConns st),
       jitters := (jitters s)(i := rs_jitter st), caches := (caches s)(k := rs_cache st)\<rparr>"

section \<open>Enabled policies\<close>

fun IsEnabled :: "policy \<Rightarrow> sys \<Rightarrow> bool" where
  "IsEnabled (NullPolicy i) s \<longleftrightarrow> \<not> env_off i s"
| "IsEnabled (PoolRouter i k cfg p) s \<longleftrightarrow> (if env_off i s then False else IsEnabled p s)"
| "IsEnabled (Chain i ps) s \<longleftrightarrow> psIsEnabled (states s i)"
| "IsEnabled (Mux i t ps) s \<longleftrightarrow> psIsEnabled (states s i)"
| "IsEnabled (IfEnabled i cond p q) s \<longleftrightarrow> psIsEnabled (states s i)"
| "IsEnabled (IndexRouter i k cfg) s \<longleftrightarrow> psIsEnabled (states s i)"
| "IsEnabled (DocRouter i k cfg) s \<longleftrightarrow> psIsEnabled (states s i)"
| "IsEnabled (Leaf i kind) s \<longleftrightarrow> psIsEnabled (states s i)"

section \<open>Evaluation\<close>

definition leaf_route :: "eval_env \<Rightarrow> pid \<Rightarrow> leaf_kind \<Rightarrow> sys \<Rightarrow> (policy_error + NextHop) \<times> sys" where
  "leaf_route ora i kind s =
     (case leaf_pool s i of
        None \<Rightarrow>
          if env_off i s \<or> kind = RoundRobin \<or> states s i AND psEnabled = 0 then (Inr no_hop, s)
          else (Inl NilDereference, s)
      | Some p \<Rightarrow>
          let (r, w) = leaf_Eval (Next (o_env ora i) (o_rnd ora i) (o_now ora) (o_lockFree ora i)) (states s i) (leaf_world p s);
              s = put_world i w s
          in case r of
               Inl e \<Rightarrow> (Inl (PoolError e), s)
             | Inr c \<Rightarrow> (Inr (no_hop\<lparr>nh_Conn := c\<rparr>), s))"

text \<open>What the multiplexer does to the hop of a matched route.\<close>

definition mux_hop :: "'p trieLeaf \<Rightarrow> NextHop \<Rightarrow> NextHop" where
  "mux_hop m hop =
     (if nh_Conn hop = None then hop
      else let hop = (if nh_PoolName hop = [] \<and> leaf_poolName m \<noteq> [] then hop\<lparr>nh_PoolName := leaf_poolName m\<rparr> else hop)
           in if MaxConcurrentShardRequests hop > 0 \<and> leaf_attrs m AND attrInjectAdaptiveMCSR = 0
              then hop\<lparr>MaxConcurrentShardRequests := 0\<rparr> else hop)"

definition routed_by ::
    "(router_state \<Rightarrow> go_panic + NextHop \<times> router_state) \<Rightarrow> pid \<Rightarrow> nat \<Rightarrow> sys \<Rightarrow> (policy_error + NextHop) \<times> sys" where
  "routed_by f i k s =
     (case f (router_view i k s) of
        Inl e \<Rightarrow> (Inl (Panicked e), s)
      | Inr (hop, st) \<Rightarrow> (Inr hop, put_view i k st s))"

text \<open>
  \<open>Eval_first\<close> is the loop of a chain; \<open>Eval_member\<close> evaluates the policy that a route of the multiplexer points to.
\<close>

fun Eval :: "eval_env \<Rightarrow> request option \<Rightarrow> policy \<Rightarrow> sys \<Rightarrow> (policy_error + NextHop) \<times> sys"
  and Eval_first :: "eval_env \<Rightarrow> request option \<Rightarrow> policy list \<Rightarrow> sys \<Rightarrow> (policy_error + NextHop) \<times> sys"
  and Eval_member :: "eval_env \<Rightarrow> request option \<Rightarrow> pid option \<Rightarrow> policy list \<Rightarrow> sys \<Rightarrow> (policy_error + NextHop) \<times> sys" where
  "Eval ora req (Chain i ps) s = (if env_off i s then (Inr no_hop, s) else Eval_first ora req ps s)"
| "Eval ora req (Mux i t ps) s =
     (if env_off i s then (Inr no_hop, s)
      else case req of
        None \<Rightarrow> (Inr no_hop, s)
      | Some r \<Rightarrow>
          (case routeTrie_match t (req_Method r) (req_Path r) of
             None \<Rightarrow> (Inr no_hop, s)
           | Some m \<Rightarrow>
               (case tm_leaf m of
                  None \<Rightarrow> (Inl NilDereference, s)
                | Some l \<Rightarrow> (case Eval_member ora req (leaf_policy l) ps s of (res, s) \<Rightarrow> (map_sum id (mux_hop l) res, s)))))"
| "Eval ora req (IfEnabled i cond p q) s =
     (if env_off i s then (Inr no_hop, s)
      else if cond req (states s) then Eval ora req p s else Eval ora req q s)"
| "Eval ora req (NullPolicy i) s = (Inr no_hop, s)"
| "Eval ora req (PoolRouter i k cfg p) s =
     (if env_off i s then (Inr no_hop, s)
      else case Eval ora req p s of
        (Inl e, s) \<Rightarrow> (Inl e, s)
      | (Inr hop, s) \<Rightarrow>
          if nh_Conn hop = None then (Inr hop, s)
          else (case req of
                  None \<Rightarrow> (Inl NilDereference, s)
                | Some r \<Rightarrow> routed_by (router_Eval cfg (o_router ora) r hop) i k s))"
| "Eval ora req (IndexRouter i k cfg) s =
     (if env_off i s then (Inr no_hop, s)
      else case req of None \<Rightarrow> (Inl NilDereference, s) | Some r \<Rightarrow> routed_by (index_Eval cfg (o_router ora) r) i k s)"
| "Eval ora req (DocRouter i k cfg) s =
     (if env_off i s then (Inr no_hop, s)
      else case req of None \<Rightarrow> (Inl NilDereference, s) | Some r \<Rightarrow> routed_by (doc_Eval cfg (o_router ora) r) i k s)"
| "Eval ora req (Leaf i kind) s = leaf_route ora i kind s"
| "Eval_first ora req [] s = (Inr no_hop, s)"
| "Eval_first ora req (p # ps) s =
     (if \<not> IsEnabled p s then Eval_first ora req ps s
      else case Eval ora req p s of
        (Inl e, s) \<Rightarrow> (Inl e, s)
      | (Inr hop, s) \<Rightarrow> if nh_Conn hop \<noteq> None then (Inr hop, s) else Eval_first ora req ps s)"
| "Eval_member ora req j [] s = (Inl NilDereference, s)"
| "Eval_member ora req j (p # ps) s = (if j = Some (pid_of p) then Eval ora req p s else Eval_member ora req j ps s)"

text \<open>\<^verbatim>\<open>Route\<close> of the root chain does not look at the chain's own state.\<close>

definition Route :: "eval_env \<Rightarrow> request option \<Rightarrow> policy list \<Rightarrow> sys \<Rightarrow> (policy_error + NextHop) \<times> sys" where
  "Route ora req ps s =
     (case Eval_first ora req ps s of
        (Inr hop, s) \<Rightarrow> if nh_Conn hop = None then (Inl (PoolError ErrNoConnections), s) else (Inr hop, s)
      | r \<Rightarrow> r)"

section \<open>Discovery\<close>

definition leaf_update ::
    "eval_env \<Rightarrow> cid list option \<Rightarrow> cid list option \<Rightarrow> pid \<Rightarrow> leaf_kind \<Rightarrow> sys \<Rightarrow> sys option" where
  "leaf_update ora added removed i kind s =
     (case leaf_pool s i of
        None \<Rightarrow> (case kind of Role _ \<Rightarrow> if env_off i s then Some s else None | _ \<Rightarrow> Some s)
      | Some p \<Rightarrow>
          let (ps, w) =
            (case kind of
               Role key \<Rightarrow> role_DiscoveryUpdate (o_rnd ora i) (o_now ora) key added removed (states s i, leaf_world p s)
             | RoundRobin \<Rightarrow> rr_DiscoveryUpdate (o_rnd ora i) (o_now ora) added removed (states s i, leaf_world p s)
             | Coordinator \<Rightarrow> coordinator_DiscoveryUpdate (o_rnd ora i) (o_now ora) added removed (states s i, leaf_world p s))
          in Some ((put_world i w s)\<lparr>states := (states s)(i := ps)\<rparr>))"

text \<open>The active connections of the first pool that has any; routers and coordinators count as having none.\<close>

fun extractActiveConnsFromPolicy :: "policy \<Rightarrow> sys \<Rightarrow> cid list"
  and extract_first :: "policy list \<Rightarrow> sys \<Rightarrow> cid list" where
  "extractActiveConnsFromPolicy (Leaf i kind) s =
     (case kind of
        Coordinator \<Rightarrow> []
      | _ \<Rightarrow> (case leaf_pool s i of None \<Rightarrow> [] | Some p \<Rightarrow> take (activeCount p) (ready p)))"
| "extractActiveConnsFromPolicy (IfEnabled i cond p q) s =
     (let conns = extractActiveConnsFromPolicy p s in
      if conns \<noteq> [] then conns else extractActiveConnsFromPolicy q s)"
| "extractActiveConnsFromPolicy (Chain i ps) s = extract_first ps s"
| "extractActiveConnsFromPolicy _ s = []"
| "extract_first [] s = []"
| "extract_first (p # ps) s =
     (let conns = extractActiveConnsFromPolicy p s in if conns \<noteq> [] then conns else extract_first ps s)"

definition rebuildSortedConns :: "pid \<Rightarrow> policy \<Rightarrow> sys \<Rightarrow> sys" where
  "rebuildSortedConns i inner s =
     s\<lparr>sortedConns := (sortedConns s)(i := sortConnectionsByRTT (bucket_of (sys_heap s)) (sys_heap s)
         (extractActiveConnsFromPolicy inner s))\<rparr>"

definition router_update :: "cid list option \<Rightarrow> cid list option \<Rightarrow> pid \<Rightarrow> sys \<Rightarrow> sys" where
  "router_update added removed i s =
     (let (ps, conns) = routerDiscoveryUpdate (sys_heap s) added removed (states s i, sortedConns s i)
      in s\<lparr>states := (states s)(i := ps), sortedConns := (sortedConns s)(i := conns)\<rparr>)"

text \<open>\<open>update_backward\<close> is the loop of a chain, last child first; \<open>update_all\<close> the loop of the multiplexer.\<close>

fun DiscoveryUpdate :: "eval_env \<Rightarrow> cid list option \<Rightarrow> cid list option \<Rightarrow> policy \<Rightarrow> sys \<Rightarrow> sys option"
  and update_backward :: "eval_env \<Rightarrow> cid list option \<Rightarrow> cid list option \<Rightarrow> policy list \<Rightarrow> sys \<Rightarrow> (bool \<times> sys) option"
  and update_all :: "eval_env \<Rightarrow> cid list option \<Rightarrow> cid list option \<Rightarrow> policy list \<Rightarrow> sys \<Rightarrow> (bool \<times> sys) option" where
  "DiscoveryUpdate ora added removed (Chain i ps) s =
     map_option (\<lambda>(en, s). set_enabled en i s) (update_backward ora added removed ps s)"
| "DiscoveryUpdate ora added removed (Mux i t ps) s =
     map_option (\<lambda>(en, s). set_enabled en i s) (update_all ora added removed ps s)"
| "DiscoveryUpdate ora added removed (IfEnabled i cond p q) s =
     (case DiscoveryUpdate ora added removed p s of None \<Rightarrow> None | Some s \<Rightarrow> DiscoveryUpdate ora added removed q s)"
| "DiscoveryUpdate ora added removed (NullPolicy i) s = Some s"
| "DiscoveryUpdate ora added removed (PoolRouter i k cfg p) s =
     map_option (rebuildSortedConns i p) (DiscoveryUpdate ora added removed p s)"
| "DiscoveryUpdate ora added removed (IndexRouter i k cfg) s = Some (router_update added removed i s)"
| "DiscoveryUpdate ora added removed (DocRouter i k cfg) s = Some (router_update added removed i s)"
| "DiscoveryUpdate ora added removed (Leaf i kind) s = leaf_update ora added removed i kind s"
| "update_backward ora added removed [] s = Some (False, s)"
| "update_backward ora added removed (p # ps) s =
     (case update_backward ora added removed ps s of
        None \<Rightarrow> None
      | Some (en, s) \<Rightarrow> map_option (\<lambda>s. (en \<or> IsEnabled p s, s)) (DiscoveryUpdate ora added removed p s))"
| "update_all ora added removed [] s = Some (False, s)"
| "update_all ora added removed (p # ps) s =
     (case DiscoveryUpdate ora added removed p s of
        None \<Rightarrow> None
      | Some s \<Rightarrow> map_option (\<lambda>(en, s'). (IsEnabled p s \<or> en, s')) (update_all ora added removed ps s))"

text \<open>Shard placement reaches the caches of the pool routers; the children of a node follow the node.\<close>

fun updateShardPlacementTree ::
    "(string, indexShardPlacement) gomap option \<Rightarrow> int \<Rightarrow> int \<Rightarrow> policy \<Rightarrow> sys \<Rightarrow> sys" where
  "updateShardPlacementTree placements n now (PoolRouter i k cfg p) s =
     updateShardPlacementTree placements n now p (s\<lparr>caches := (caches s)(k := updateFromDiscovery placements n now (caches s k))\<rparr>)"
| "updateShardPlacementTree placements n now (Chain i ps) s = fold (updateShardPlacementTree placements n now) ps s"
| "updateShardPlacementTree placements n now (Mux i t ps) s = fold (updateShardPlacementTree placements n now) ps s"
| "updateShardPlacementTree placements n now (IfEnabled i cond p q) s =
     updateShardPlacementTree placements n now q (updateShardPlacementTree placements n now p s)"
| "updateShardPlacementTree placements n now _ s = s"

fun findRouterCache :: "policy \<Rightarrow> nat option"
  and find_first_cache :: "policy list \<Rightarrow> nat option" where
  "findRouterCache (PoolRouter i k cfg p) = Some k"
| "findRouterCache (IndexRouter i k cfg) = Some k"
| "findRouterCache (DocRouter i k cfg) = Some k"
| "findRouterCache (Chain i ps) = find_first_cache ps"
| "findRouterCache (Mux i t ps) = find_first_cache ps"
| "findRouterCache (IfEnabled i cond p q) = (case findRouterCache p of Some k \<Rightarrow> Some k | None \<Rightarrow> findRouterCache q)"
| "findRouterCache _ = None"
| "find_first_cache [] = None"
| "find_first_cache (p # ps) = (case findRouterCache p of Some k \<Rightarrow> Some k | None \<Rightarrow> find_first_cache ps)"

definition smoothedMaxBucketForIndex :: "policy list \<Rightarrow> string \<Rightarrow> sys \<Rightarrow> real" where
  "smoothedMaxBucketForIndex ps indexName s =
     (if indexName = [] then 0
      else case find_first_cache ps of
             None \<Rightarrow> 0
           | Some k \<Rightarrow> (case slotFor (caches s k) indexName of None \<Rightarrow> 0 | Some slot \<Rightarrow> smoothedMaxBucket slot))"

section \<open>Reports of the root chain\<close>

definition chain_OnSuccess :: "connection \<Rightarrow> connection" where
  "chain_OnSuccess c =
     (if deadSinceIsZero c then c
      else if drainingQuiescingRemaining c > 0 then c
      else if lc_has (lc_of c) lcOverloaded then c
      else markAsHealthy c)"

definition chain_OnFailure :: "int \<Rightarrow> connection \<Rightarrow> connection" where
  "chain_OnFailure now c =
     (if lc_has (lc_of c) lcUnknown then c
      else case casLifecycle (state c) 0 (lcDead OR lcNeedsWarmup OR lcNeedsHardware)
                 (lcReady OR lcActive OR lcStandby OR lcOverloaded) of
             (Inl _, _) \<Rightarrow> c
           | (Inr _, cs) \<Rightarrow> markAsDead now (storeOverloadedAt None (c\<lparr>state := cs\<rparr>)))"

section \<open>Configuration\<close>

record policyConfig =
  pc_activeListCap :: "int option"
  pc_standbyPromotionChecks :: nat
  pc_healthCheck :: bool

definition createPoolFromConfig :: "policyConfig \<Rightarrow> multiServerPool" where
  "createPoolFromConfig config =
     \<lparr>ready = [], dead = [], activeCount = 0, members = {},
      activeListCap = (case pc_activeListCap config of None \<Rightarrow> 0 | Some n \<Rightarrow> n),
      warmupRounds = 0, warmupSkipCount = 0, hasHealthCheck = pc_healthCheck config, selector = nil_selector,
      nextReady = 0, standbyPromotionChecks = pc_standbyPromotionChecks config,
      activeListCapConfig = pc_activeListCap config, poolRequests = 0, poolSuccesses = 0, poolFailures = 0,
      poolWarmupSkips = 0, poolWarmupAccepts = 0, spawned = []\<rparr>"

fun configurePolicySettings :: "policyConfig \<Rightarrow> policy \<Rightarrow> sys \<Rightarrow> sys" where
  "configurePolicySettings config (Leaf i kind) s =
     (case leaf_pool s i of
        None \<Rightarrow> s\<lparr>leaf_pool := (leaf_pool s)(i \<mapsto> createPoolFromConfig config)\<rparr>
      | Some _ \<Rightarrow> s)"
| "configurePolicySettings config (PoolRouter i k cfg p) s = configurePolicySettings config p s"
| "configurePolicySettings config (Chain i ps) s = fold (configurePolicySettings config) ps s"
| "configurePolicySettings config (Mux i t ps) s = fold (configurePolicySettings config) ps s"
| "configurePolicySettings config (IfEnabled i cond p q) s =
     configurePolicySettings config q (configurePolicySettings config p s)"
| "configurePolicySettings config _ s = s"

section \<open>The default policy\<close>

record shardCostConfig =
  scc_reads :: shardCostMultiplier
  scc_writes :: shardCostMultiplier
  scc_scoreFunc :: "connScoreFunc option"

definition enabled_condition :: "pid \<Rightarrow> ConditionFunc" where
  "enabled_condition i = (\<lambda>req st. psIsEnabled (st i))"

text \<open>A role policy or nothing, and a role policy, else one for another role, else nothing.\<close>

definition role_or_null :: "pid \<Rightarrow> string \<Rightarrow> policy" where
  "role_or_null i role = IfEnabled (i + 1) (enabled_condition i) (Leaf i (Role role)) (NullPolicy (i + 2))"

definition role_or_role :: "pid \<Rightarrow> string \<Rightarrow> pid \<Rightarrow> string \<Rightarrow> policy" where
  "role_or_role i role j role' = IfEnabled (i + 1) (enabled_condition i) (Leaf i (Role role)) (role_or_null j role')"

definition ingestIfEnabled :: policy where "ingestIfEnabled = role_or_null 20 RoleIngest"
definition searchIfEnabled :: policy where "searchIfEnabled = role_or_role 30 RoleSearch 33 RoleData"
definition warmIfEnabled :: policy where "warmIfEnabled = role_or_role 40 RoleWarm 43 RoleData"
definition dataIfEnabled :: policy where "dataIfEnabled = role_or_null 50 RoleData"
definition clusterMgrIfEnabled :: policy where "clusterMgrIfEnabled = role_or_role 60 RoleClusterManager 63 RoleData"

definition wrap :: "pid \<Rightarrow> policy \<Rightarrow> shardCostMultiplier \<Rightarrow> string \<Rightarrow> connScoreFunc option \<Rightarrow> policy" where
  "wrap i p costs poolName scoreFunc =
     PoolRouter i 0 \<lparr>rc_shardCosts = costs, rc_scoreFunc = scoreFunc, rc_poolName = poolName\<rparr> p"

definition scored_policies :: "shardCostConfig \<Rightarrow> policy list" where
  "scored_policies c =
     [wrap 7 ingestIfEnabled (scc_writes c) ''write'' None,
      wrap 8 ingestIfEnabled (scc_reads c) ''management'' None,
      wrap 9 searchIfEnabled (scc_reads c) ''search'' (scc_scoreFunc c),
      wrap 10 searchIfEnabled (scc_reads c) ''get'' (scc_scoreFunc c),
      wrap 11 dataIfEnabled (scc_writes c) ''write'' None,
      wrap 12 dataIfEnabled (scc_writes c) ''refresh'' None,
      wrap 13 dataIfEnabled (scc_writes c) ''flush'' None,
      wrap 14 dataIfEnabled (scc_writes c) ''force_merge'' None,
      wrap 15 dataIfEnabled (scc_reads c) ''management'' None,
      wrap 16 searchIfEnabled (scc_reads c) ''management'' None,
      wrap 17 warmIfEnabled (scc_reads c) ''management'' None,
      wrap 18 clusterMgrIfEnabled (scc_reads c) ''management'' None,
      wrap 19 clusterMgrIfEnabled (scc_writes c) ''write'' None]"

definition newScoredRoutes :: "unit \<Rightarrow> pid roleRoutes" where
  "newScoredRoutes _ =
     \<lparr>ingestWrite = Some 7, ingestMgmt = Some 8, searchRead = Some 9, getRead = Some 10, dataWrite = Some 11,
      dataRefresh = Some 12, dataFlush = Some 13, dataForceMerge = Some 14, dataMgmt = Some 15, searchMgmt = Some 16,
      warmMgmt = Some 17, clusterMgrRead = Some 18, clusterMgrWrite = Some 19\<rparr>"

definition NewDefaultPolicy :: "shardCostConfig \<Rightarrow> muxError + policy" where
  "NewDefaultPolicy c =
     (case buildRoleRoutes (newScoredRoutes ()) of
        Inl e \<Rightarrow> Inl e
      | Inr routes \<Rightarrow>
          (case NewMuxPolicy routes of
             Inl e \<Rightarrow> Inl e
           | Inr m \<Rightarrow>
               Inr (IfEnabled 1 (enabled_condition 2)
                      (wrap 3 (Leaf 2 (Role RoleCoordinatingOnly)) (scc_reads c) [] None)
                      (Chain 4 [Mux 5 (pathTrie m) (scored_policies c), Leaf 6 RoundRobin]))))"

section \<open>Hops\<close>

text \<open>A hop without a connection is the zero value, whatever policy returned it.\<close>

definition proper :: "NextHop \<Rightarrow> bool" where
  "proper hop \<longleftrightarrow> (nh_Conn hop = None \<longrightarrow> hop = no_hop)"

lemma proper_simps [simp]: "proper no_hop" "nh_Conn no_hop = None" "proper (no_hop\<lparr>nh_Conn := c\<rparr>)"
  by (simp_all add: proper_def no_hop_def)

lemma proper_mux_hop: "proper hop \<Longrightarrow> proper (mux_hop m hop)"
  by (auto simp: proper_def mux_hop_def Let_def)

lemma checked_hop_Conn: "nh_Conn hop \<noteq> None \<Longrightarrow> nh_Conn (checked_hop hop h n m best) \<noteq> None"
  by (simp add: checked_hop_def split: option.splits)

lemma proper_router_Eval:
  assumes "router_Eval cfg env r hop st = Inr (hop', st')" "nh_Conn hop \<noteq> None"
  shows "proper hop'"
proof -
  have "hop' = hop \<or> (\<exists>h n m best. hop' = checked_hop hop h n m best)"
    using assms(1)
    by (auto simp: router_Eval_def rendezvous_route_def Let_def split: prod.splits if_splits sum.splits)
  then have "nh_Conn hop' \<noteq> None" using assms(2) checked_hop_Conn [OF assms(2)] by auto
  then show ?thesis by (auto simp: proper_def)
qed

lemma listed_proper: "listed_hop cfg st hop \<Longrightarrow> proper hop"
  by (auto simp: listed_hop_def proper_def)

lemma proper_plain: "proper (plain_hop n m best)"
  by (cases best) (simp_all add: plain_hop_def proper_def)

lemma proper_index_Eval: "index_Eval cfg env r st = Inr (hop, st') \<Longrightarrow> proper hop"
  by (auto simp: index_Eval_def keyed_route_def Let_def proper_plain split: prod.splits if_splits sum.splits)

lemma proper_doc_Eval: "doc_Eval cfg env r st = Inr (hop, st') \<Longrightarrow> proper hop"
  by (auto simp: doc_Eval_def keyed_route_def Let_def proper_plain split: prod.splits if_splits sum.splits)

lemma proper_leaf_route: "leaf_route ora i kind s = (Inr hop, s') \<Longrightarrow> proper hop"
  by (auto simp: leaf_route_def Let_def split: option.splits prod.splits sum.splits if_splits)

lemma proper_routed_by:
  assumes "\<And>st hop st'. f st = Inr (hop, st') \<Longrightarrow> proper hop" "routed_by f i k s = (Inr hop, s')"
  shows "proper hop"
  using assms by (auto simp: routed_by_def split: sum.splits prod.splits)

lemma proper_routed:
  "routed_by (index_Eval cfg env r) i k s = (Inr hop, s') \<Longrightarrow> proper hop"
  "routed_by (doc_Eval cfg env r) i k s = (Inr hop, s') \<Longrightarrow> proper hop"
  using proper_routed_by [of "index_Eval cfg env r" i k s hop s'] proper_routed_by [of "doc_Eval cfg env r" i k s hop s']
    proper_index_Eval [of cfg env r] proper_doc_Eval [of cfg env r]
  by blast+

lemma Eval_proper:
  "Eval ora req p s = (Inr hop, s') \<Longrightarrow> proper hop"
  "Eval_first ora req ps s = (Inr hop, s') \<Longrightarrow> proper hop"
  "Eval_member ora req j ps s = (Inr hop, s') \<Longrightarrow> proper hop"
proof (induction ora req p s and ora req ps s and ora req j ps s arbitrary: hop s' and hop s' and hop s'
    rule: Eval_Eval_first_Eval_member.induct)
  case (2 ora req i t ps s)
  then show ?case by (fastforce intro: proper_mux_hop split: if_splits option.splits prod.splits sum.splits simp: map_sum_def)
next
  case (5 ora req i k cfg p s)
  show ?case
  proof (cases "env_off i s")
    case True with "5.prems" show ?thesis by auto
  next
    case False
    obtain r s1 where e: "Eval ora req p s = (r, s1)" by force
    with "5.prems" False obtain h where r: "r = Inr h" by (cases r) auto
    with e have h: "proper h" using "5.IH" [OF False] by simp
    show ?thesis
    proof (cases "nh_Conn h = None")
      case True
      with h "5.prems" False e r show ?thesis by (simp add: proper_def)
    next
      case conn: False
      with "5.prems" False e r obtain rq where "routed_by (router_Eval cfg (o_router ora) rq h) i k s1 = (Inr hop, s')"
        by (auto split: option.splits)
      moreover have "proper hop'" if "router_Eval cfg (o_router ora) rq h st = Inr (hop', st')" for st hop' st'
        using proper_router_Eval [OF that conn] .
      ultimately show ?thesis using proper_routed_by [of "router_Eval cfg (o_router ora) rq h"] by blast
    qed
  qed
next
  case (6 ora req i k cfg s)
  then show ?case by (auto split: if_splits option.splits dest: proper_routed)
next
  case (7 ora req i k cfg s)
  then show ?case by (auto split: if_splits option.splits dest: proper_routed)
next
  case (8 ora req i kind s)
  then show ?case by (simp add: proper_leaf_route)
next
  case (10 ora req p ps s)
  then show ?case by (auto split: if_splits prod.splits sum.splits)
qed (auto split: if_splits)

section \<open>First match\<close>

text \<open>The policies of a list that a request passes over: disabled ones and those that return no hop.\<close>

inductive passed :: "eval_env \<Rightarrow> request option \<Rightarrow> policy list \<Rightarrow> sys \<Rightarrow> sys \<Rightarrow> bool" for ora req where
  passed_end: "passed ora req [] s s"
| passed_disabled: "\<not> IsEnabled p s \<Longrightarrow> passed ora req ps s s' \<Longrightarrow> passed ora req (p # ps) s s'"
| passed_no_hop: "IsEnabled p s \<Longrightarrow> Eval ora req p s = (Inr no_hop, s1) \<Longrightarrow> passed ora req ps s1 s' \<Longrightarrow> passed ora req (p # ps) s s'"

inductive_simps passed_Nil [simp]: "passed ora req [] s s'"
inductive_simps passed_Cons: "passed ora req (p # ps) s s'"

text \<open>A policy answers with a connection or an error.\<close>

definition answers :: "policy_error + NextHop \<Rightarrow> bool" where
  "answers r \<longleftrightarrow> (case r of Inl _ \<Rightarrow> True | Inr hop \<Rightarrow> nh_Conn hop \<noteq> None)"

lemma Eval_first_append:
  assumes "passed ora req qs s s1"
  shows "Eval_first ora req (qs @ ps) s = Eval_first ora req ps s1"
  using assms by (induction rule: passed.induct) simp_all

lemma Eval_first_passed:
  "(\<exists>s1. passed ora req ps s s1 \<and> Eval_first ora req ps s = (Inr no_hop, s1))
    \<or> (\<exists>qs p rs s1. ps = qs @ p # rs \<and> passed ora req qs s s1 \<and> IsEnabled p s1
         \<and> Eval_first ora req ps s = Eval ora req p s1 \<and> answers (fst (Eval ora req p s1)))"
proof (induction ps arbitrary: s)
  case (Cons p ps)
  show ?case
  proof (cases "IsEnabled p s")
    case False
    then show ?thesis using Cons.IH [of s] by (simp, metis Cons_eq_appendI passed_disabled)
  next
    case True
    obtain r s1 where e: "Eval ora req p s = (r, s1)" by force
    show ?thesis
    proof (cases "answers r")
      case False
      then have "r = Inr no_hop" using Eval_proper(1) e by (auto simp: proper_def answers_def split: sum.splits)
      with e \<open>IsEnabled p s\<close> show ?thesis
        using Cons.IH [of s1] by (simp, metis Cons_eq_appendI passed_no_hop)
    next
      case ans: True
      with e True have "Eval_first ora req (p # ps) s = Eval ora req p s" by (cases r) (auto simp: answers_def)
      with ans e True show ?thesis by (metis append_Nil fst_conv passed_end)
    qed
  qed
qed simp

text \<open>C12. \<^verbatim>\<open>Route\<close> asks the policies in order, and the first one that is enabled and answers decides: its hop is the
  result, and so is its error, without a look at the policies behind it. The request fails with
  \<^verbatim>\<open>ErrNoConnections\<close> when every policy is disabled or has no connection to offer.\<close>
theorem Route_first_match:
  "(\<exists>s1. passed ora req ps s s1 \<and> Route ora req ps s = (Inl (PoolError ErrNoConnections), s1))
    \<or> (\<exists>qs p rs s1. ps = qs @ p # rs \<and> passed ora req qs s s1 \<and> IsEnabled p s1 \<and> Route ora req ps s = Eval ora req p s1
         \<and> answers (fst (Eval ora req p s1)))"
proof -
  consider s1 where "passed ora req ps s s1" "Eval_first ora req ps s = (Inr no_hop, s1)"
    | qs p rs s1 where "ps = qs @ p # rs" "passed ora req qs s s1" "IsEnabled p s1" "Eval_first ora req ps s = Eval ora req p s1"
        "answers (fst (Eval ora req p s1))"
    using Eval_first_passed [of ora req ps s] by blast
  then show ?thesis
  proof cases
    case 1 then show ?thesis by (simp add: Route_def)
  next
    case 2
    then have "Route ora req ps s = Eval ora req p s1" by (auto simp: Route_def answers_def split: prod.splits sum.splits)
    with 2 show ?thesis by blast
  qed
qed

text \<open>A policy that an operator switched off serves nothing and changes nothing.\<close>

lemma Eval_env_off: "env_off (pid_of p) s \<Longrightarrow> Eval ora req p s = (Inr no_hop, s)"
proof (cases p)
  case (Leaf i kind)
  assume "env_off (pid_of p) s"
  with Leaf show ?thesis
    by (auto simp: env_off_def leaf_route_def leaf_Eval_def put_world_def leaf_world_def no_hop_def fun_upd_idem split: option.splits)
qed simp_all

section \<open>No nil dereference\<close>

text \<open>Every route of a multiplexer leads to one of its policies, and every leaf policy has its pool.\<close>

definition routes_registered :: "pid option trieNode \<Rightarrow> policy list \<Rightarrow> bool" where
  "routes_registered t ps \<longleftrightarrow>
     (\<forall>meth path m. routeTrie_match t meth path = Some m \<longrightarrow>
        (\<exists>l j. tm_leaf m = Some l \<and> leaf_policy l = Some j \<and> j \<in> pid_of ` set ps))"

fun well_formed :: "policy \<Rightarrow> bool" where
  "well_formed (Mux i t ps) \<longleftrightarrow> routes_registered t ps \<and> list_all well_formed ps"
| "well_formed (Chain i ps) \<longleftrightarrow> list_all well_formed ps"
| "well_formed (IfEnabled i cond p q) \<longleftrightarrow> well_formed p \<and> well_formed q"
| "well_formed (PoolRouter i k cfg p) \<longleftrightarrow> well_formed p"
| "well_formed _ \<longleftrightarrow> True"

fun leaves :: "policy \<Rightarrow> pid set" where
  "leaves (Leaf i kind) = {i}"
| "leaves (Mux i t ps) = \<Union> (leaves ` set ps)"
| "leaves (Chain i ps) = \<Union> (leaves ` set ps)"
| "leaves (IfEnabled i cond p q) = leaves p \<union> leaves q"
| "leaves (PoolRouter i k cfg p) = leaves p"
| "leaves _ = {}"

definition configured :: "policy \<Rightarrow> sys \<Rightarrow> bool" where
  "configured p s \<longleftrightarrow> (\<forall>i\<in>leaves p. leaf_pool s i \<noteq> None)"

definition pools_grow :: "sys \<Rightarrow> sys \<Rightarrow> bool" where
  "pools_grow s s' \<longleftrightarrow> (\<forall>i. leaf_pool s i \<noteq> None \<longrightarrow> leaf_pool s' i \<noteq> None)"

lemma pools_grow_refl [simp]: "pools_grow s s"
  by (simp add: pools_grow_def)

lemma pools_grow_trans: "pools_grow s s1 \<Longrightarrow> pools_grow s1 s2 \<Longrightarrow> pools_grow s s2"
  by (simp add: pools_grow_def)

lemma configured_grow: "configured p s \<Longrightarrow> pools_grow s s' \<Longrightarrow> configured p s'"
  unfolding configured_def pools_grow_def by blast

lemma configured_parts [simp]:
  "configured (Chain i ps) s \<longleftrightarrow> (\<forall>p\<in>set ps. configured p s)"
  "configured (Mux i t ps) s \<longleftrightarrow> (\<forall>p\<in>set ps. configured p s)"
  "configured (IfEnabled i cond p q) s \<longleftrightarrow> configured p s \<and> configured q s"
  "configured (PoolRouter i k cfg p) s \<longleftrightarrow> configured p s"
  "configured (Leaf i kind) s \<longleftrightarrow> leaf_pool s i \<noteq> None"
  by (auto simp: configured_def)

lemma pools_grow_put [simp]: "pools_grow s (put_world i w s)" "pools_grow s (put_view i k st s)"
  by (simp_all add: pools_grow_def put_world_def put_view_def)

lemma pools_grow_leaf: "pools_grow s (snd (leaf_route ora i kind s))"
  by (auto simp: leaf_route_def Let_def split: option.splits prod.splits sum.splits)

lemma pools_grow_routed: "pools_grow s (snd (routed_by f i k s))"
  by (auto simp: routed_by_def split: sum.splits prod.splits)

lemma Eval_pools:
  "pools_grow s (snd (Eval ora req p s))"
  "pools_grow s (snd (Eval_first ora req ps s))"
  "pools_grow s (snd (Eval_member ora req j ps s))"
proof (induction ora req p s and ora req ps s and ora req j ps s rule: Eval_Eval_first_Eval_member.induct)
  case (2 ora req i t ps s)
  then show ?case by (fastforce split: option.splits prod.splits)
next
  case (5 ora req i k cfg p s)
  then show ?case
    by (auto split: prod.splits sum.splits option.splits intro: pools_grow_trans [OF _ pools_grow_routed])
next
  case (10 ora req p ps s)
  then show ?case by (auto split: prod.splits sum.splits intro: pools_grow_trans)
qed (auto simp: pools_grow_leaf pools_grow_routed split: option.splits prod.splits)

lemma routed_by_no_nil [simp]: "fst (routed_by f i k s) \<noteq> Inl NilDereference"
  by (auto simp: routed_by_def split: sum.splits)

lemma leaf_route_no_nil: "leaf_pool s i \<noteq> None \<Longrightarrow> fst (leaf_route ora i kind s) \<noteq> Inl NilDereference"
  by (auto simp: leaf_route_def Let_def split: prod.splits sum.splits)

lemma Eval_no_nil:
  "well_formed p \<Longrightarrow> configured p s \<Longrightarrow> fst (Eval ora (Some r) p s) \<noteq> Inl NilDereference"
  "list_all well_formed ps \<Longrightarrow> (\<forall>p\<in>set ps. configured p s) \<Longrightarrow> fst (Eval_first ora (Some r) ps s) \<noteq> Inl NilDereference"
  "list_all well_formed ps \<Longrightarrow> (\<forall>p\<in>set ps. configured p s) \<Longrightarrow> j \<in> Some ` pid_of ` set ps \<Longrightarrow>
     fst (Eval_member ora (Some r) j ps s) \<noteq> Inl NilDereference"
proof (induction ora "Some r" p s and ora "Some r" ps s and ora "Some r" j ps s rule: Eval_Eval_first_Eval_member.induct)
  case (2 ora i t ps s)
  show ?case
  proof (cases "env_off i s \<or> routeTrie_match t (req_Method r) (req_Path r) = None")
    case False
    then obtain m where m: "\<not> env_off i s" "routeTrie_match t (req_Method r) (req_Path r) = Some m" by blast
    with "2.prems"(1) obtain l j where l: "tm_leaf m = Some l" "leaf_policy l = Some j" "j \<in> pid_of ` set ps"
      unfolding well_formed.simps routes_registered_def by blast
    then have "fst (Eval_member ora (Some r) (leaf_policy l) ps s) \<noteq> Inl NilDereference"
      using "2.hyps" [OF m(1) refl m(2) l(1)] "2.prems" by simp
    with m l(1) show ?thesis by (auto simp: map_sum_def split: prod.splits sum.splits)
  qed auto
next
  case (8 ora i kind s)
  then show ?case by (simp add: leaf_route_no_nil)
next
  case (5 ora i k cfg p s)
  then show ?case by (auto split: prod.splits sum.splits)
next
  case (10 ora p ps s)
  have "configured q (snd (Eval ora (Some r) p s))" if "q \<in> set ps" for q
    using that "10.prems"(2) Eval_pools(1) configured_grow by fastforce
  with 10 show ?case by (auto split: prod.splits sum.splits)
qed auto

section \<open>The default policy is sound\<close>

lemma builder_policies:
  "rb_policy ` set (role_builders r) =
     {ingestWrite r, ingestMgmt r, searchRead r, getRead r, dataWrite r, dataRefresh r, dataFlush r, dataForceMerge r,
      dataMgmt r, searchMgmt r, warmMgmt r, clusterMgrRead r, clusterMgrWrite r}"
  unfolding role_builders_def list.set image_insert image_empty
  by (simp add: route_Op_def NewRoute_def route_Pool_def InjectAdaptiveMCSR_def insert_commute)

lemma scored_pids: "Some ` pid_of ` set (scored_policies c) = rb_policy ` set (role_builders (newScoredRoutes ()))"
  unfolding builder_policies by (simp add: scored_policies_def wrap_def newScoredRoutes_def)

abbreviation default_trie :: "pid option trieNode" where
  "default_trie \<equiv> NewOperationClassifier (map built (role_builders (newScoredRoutes ())))"

lemma no_nil_scored: "no_nil (newScoredRoutes ())"
  by (simp add: no_nil_def newScoredRoutes_def)

lemma NewDefaultPolicy_eq:
  "NewDefaultPolicy c =
     Inr (IfEnabled 1 (enabled_condition 2) (wrap 3 (Leaf 2 (Role RoleCoordinatingOnly)) (scc_reads c) [] None)
            (Chain 4 [Mux 5 default_trie (scored_policies c), Leaf 6 RoundRobin]))"
  by (simp add: NewDefaultPolicy_def buildRoleRoutes_ok [OF no_nil_scored] NewMuxPolicy_trie [OF built_entries])

lemma find_member: "find P xs = Some x \<Longrightarrow> x \<in> set xs"
  by (induction xs) (auto split: if_splits)

lemma last_route_member: "last_route rs ps m = Some l \<Longrightarrow> \<exists>e\<in>set rs. l = snd (snd e)"
  unfolding last_route_def by (fastforce dest!: find_member)

lemma default_registered: "routes_registered default_trie (scored_policies c)"
  unfolding routes_registered_def
proof (intro allI impI)
  fix meth path m assume "routeTrie_match default_trie meth path = Some m"
  then obtain l where l: "tm_leaf m = Some l" "routed (route_entries (newScoredRoutes ())) meth path = Some l"
    using routeTrie_match_routed [of "route_entries (newScoredRoutes ())" meth path]
    by (cases "routed (route_entries (newScoredRoutes ())) meth path") (auto simp: NewOperationClassifier_entries entries_filter)
  then obtain ps where "last_route (route_entries (newScoredRoutes ())) ps meth = Some l"
    by (auto simp: routed_def split: if_splits option.splits)
  then obtain e where e: "e \<in> set (route_entries (newScoredRoutes ()))" "l = snd (snd e)"
    using last_route_member by blast
  then obtain b where b: "b \<in> set (role_builders (newScoredRoutes ()))" "e = the (route_entry (built b))"
    by (auto simp: route_entries_def)
  then have "l = route_leaf (built b)"
    using e(2) built_entries [of "newScoredRoutes ()"] by (auto simp: list_all_iff route_entry_def split: sum.splits)
  then have "leaf_policy l \<in> Some ` pid_of ` set (scored_policies c)"
    using b(1) unfolding scored_pids by (simp add: route_leaf_def built_def)
  with l(1) show "\<exists>l j. tm_leaf m = Some l \<and> leaf_policy l = Some j \<and> j \<in> pid_of ` set (scored_policies c)" by auto
qed

lemma default_well_formed: "NewDefaultPolicy c = Inr p \<Longrightarrow> well_formed p"
  using default_registered [of c]
  by (auto simp: NewDefaultPolicy_eq) (simp_all add: wrap_def scored_policies_def ingestIfEnabled_def searchIfEnabled_def
      warmIfEnabled_def dataIfEnabled_def clusterMgrIfEnabled_def role_or_null_def role_or_role_def)

lemma configure_grow: "pools_grow s (configurePolicySettings config p s)"
proof (induction p arbitrary: s)
  case (Leaf i kind) then show ?case by (auto simp: pools_grow_def split: option.splits)
next
  case (IfEnabled i cond p q) then show ?case using pools_grow_trans by fastforce
next
  case (Chain i ps)
  then have "pools_grow s (fold (configurePolicySettings config) ps s)"
    by (induction ps arbitrary: s) (auto intro: pools_grow_trans)
  then show ?case by simp
next
  case (Mux i t ps)
  then have "pools_grow s (fold (configurePolicySettings config) ps s)"
    by (induction ps arbitrary: s) (auto intro: pools_grow_trans)
  then show ?case by simp
qed simp_all

lemma fold_configure_grow: "pools_grow s (fold (configurePolicySettings config) ps s)"
  by (induction ps arbitrary: s) (auto intro: pools_grow_trans configure_grow)

lemma configure_configures: "configured p (configurePolicySettings config p s)"
proof (induction p arbitrary: s)
  case (Leaf i kind) then show ?case by (auto split: option.splits)
next
  case (IfEnabled i cond p q)
  then show ?case by (auto intro: configured_grow [OF _ configure_grow])
next
  case (Chain i ps)
  then have "\<forall>p\<in>set ps. configured p (fold (configurePolicySettings config) ps s)"
    by (induction ps arbitrary: s) (auto intro: configured_grow [OF _ fold_configure_grow])
  then show ?case by simp
next
  case (Mux i t ps)
  then have "\<forall>p\<in>set ps. configured p (fold (configurePolicySettings config) ps s)"
    by (induction ps arbitrary: s) (auto intro: configured_grow [OF _ fold_configure_grow])
  then show ?case by simp
qed (simp_all add: configured_def)

text \<open>C14. The default policy can be built from any cost tables. Once it is configured, no request makes it dereference
  a nil pool or a nil policy, and it stays configured: each of the 278 routes leads to one of its thirteen routers, and
  each role policy below them has a pool.\<close>
theorem default_policy_no_nil:
  "\<exists>p. NewDefaultPolicy c = Inr p \<and> configured p (configurePolicySettings config p s0)
     \<and> {s. configured p s \<and> fst (Route ora (Some r) [p] s) = Inl NilDereference} = {}
     \<and> {s. configured p s \<and> \<not> configured p (snd (Route ora (Some r) [p] s))} = {}"
proof -
  obtain p where p: "NewDefaultPolicy c = Inr p" by (simp add: NewDefaultPolicy_eq)
  have "fst (Route ora (Some r) [p] s) \<noteq> Inl NilDereference \<and> configured p (snd (Route ora (Some r) [p] s))" if "configured p s" for s
    using that Eval_no_nil(2) [of "[p]" s ora r] default_well_formed [OF p] Eval_pools(2) [of s ora "Some r" "[p]"]
      configured_grow [OF that]
    unfolding Route_def by (auto simp del: Eval_first.simps split: prod.splits sum.splits)
  with p show ?thesis using configure_configures by blast
qed

section \<open>From the route table to the role policy\<close>

lemma Eval_member_eq:
  "distinct (map pid_of ps) \<Longrightarrow> w \<in> set ps \<Longrightarrow> Eval_member ora req (Some (pid_of w)) ps s = Eval ora req w s"
  by (induction ps) (auto, metis imageI)

text \<open>C13. How the default policy routes, end to end. When no coordinating-only node is available, a request with the
  shape of the \<open>i\<close>-th row of the table goes to the router that the row names; a connection of that router is tagged by
  the row, an error ends the request, and only when the router has nothing to offer the round robin is asked.\<close>
theorem default_policy_routes:
  assumes "NewDefaultPolicy c = Inr p" "i < 278" "shapes ! i = (req_Method r, pat)" "req_Path r = slash # q"
    and "fits [] pat (clean_segs True (path_segments q))"
    and "\<not> psIsEnabled (states s 2)" "psIsEnabled (states s 1)" "psIsEnabled (states s 5)" "\<not> env_off 4 s"
  shows "\<exists>w l. w \<in> set (scored_policies c) \<and> rb_policy (role_builders (newScoredRoutes ()) ! i) = Some (pid_of w)
    \<and> leaf_attrs l = rb_attrs (role_builders (newScoredRoutes ()) ! i)
    \<and> leaf_poolName (l :: pid option trieLeaf) = rb_poolName (role_builders (newScoredRoutes ()) ! i)
    \<and> Route ora (Some r) [p] s =
       (case Eval ora (Some r) w s of
          (Inl e, s') \<Rightarrow> (Inl e, s')
        | (Inr hop, s') \<Rightarrow> if nh_Conn hop \<noteq> None then (Inr (mux_hop l hop), s') else Route ora (Some r) [Leaf 6 RoundRobin] s')"
proof -
  let ?b = "role_builders (newScoredRoutes ()) ! i"
  from default_row [OF no_nil_scored assms(2,3,5)]
  obtain t where t: "routeTrie_match default_trie (req_Method r) (req_Path r) = Some t"
      "tm_leaf t = Some \<lparr>leaf_policy = rb_policy ?b, leaf_operationID = row_ops ! i, leaf_attrs = rb_attrs ?b, leaf_poolName = rb_poolName ?b\<rparr>"
    using assms(4) by (auto simp: buildRoleRoutes_ok [OF no_nil_scored] NewMuxPolicy_trie [OF built_entries])
  define l where "l = \<lparr>leaf_policy = rb_policy ?b, leaf_operationID = row_ops ! i, leaf_attrs = rb_attrs ?b, leaf_poolName = rb_poolName ?b\<rparr>"
  have off: "\<not> env_off 1 s" "\<not> env_off 5 s" using assms(7,8) by (auto simp: env_off_def psIsEnabled_def split: if_splits)
  have "rb_policy ?b \<in> rb_policy ` set (role_builders (newScoredRoutes ()))" using assms(2) length_shapes by (simp add: length_shapes)
  then obtain w where w: "w \<in> set (scored_policies c)" "rb_policy ?b = Some (pid_of w)"
    unfolding scored_pids [of c, symmetric] by auto
  have "distinct (map pid_of (scored_policies c))" by (simp add: scored_policies_def wrap_def)
  note member = Eval_member_eq [OF this w(1), of ora "Some r" s]
  have mux: "Eval ora (Some r) (Mux 5 default_trie (scored_policies c)) s =
      (case Eval ora (Some r) w s of (res, s) \<Rightarrow> (map_sum id (mux_hop l) res, s))"
    using t off(2) w(2) member by (simp add: l_def)
  have conn: "nh_Conn (mux_hop l hop) = nh_Conn hop" for hop by (simp add: mux_hop_def Let_def)
  obtain res s1 where ev: "Eval ora (Some r) w s = (res, s1)" by force
  have p: "p = IfEnabled 1 (enabled_condition 2) (wrap 3 (Leaf 2 (Role RoleCoordinatingOnly)) (scc_reads c) [] None)
      (Chain 4 [Mux 5 default_trie (scored_policies c), Leaf 6 RoundRobin])"
    using assms(1) by (simp add: NewDefaultPolicy_eq)
  have "Eval ora (Some r) p s = Eval_first ora (Some r) [Mux 5 default_trie (scored_policies c), Leaf 6 RoundRobin] s"
    unfolding p using off(1) assms(6,9) by (simp add: enabled_condition_def del: Eval_first.simps)
  also have "\<dots> = (case map_sum id (mux_hop l) res of
      Inl e \<Rightarrow> (Inl e, s1)
    | Inr hop \<Rightarrow> if nh_Conn hop \<noteq> None then (Inr hop, s1) else Eval_first ora (Some r) [Leaf 6 RoundRobin] s1)"
    unfolding Eval_first.simps(2) [of _ _ "Mux 5 default_trie (scored_policies c)"] mux ev using assms(8)
    by (simp split: sum.splits)
  finally have eval: "Eval ora (Some r) p s = \<dots>" .
  have "IsEnabled p s" unfolding p using assms(7) by simp
  then have "Eval_first ora (Some r) [p] s = Eval ora (Some r) p s"
    using Eval_proper(1) [of ora "Some r" p s] by (auto simp: proper_def split: prod.splits sum.splits)
  then have route: "Route ora (Some r) [p] s =
       (case Eval ora (Some r) w s of
          (Inl e, s') \<Rightarrow> (Inl e, s')
        | (Inr hop, s') \<Rightarrow> if nh_Conn hop \<noteq> None then (Inr (mux_hop l hop), s') else Route ora (Some r) [Leaf 6 RoundRobin] s')"
    unfolding Route_def eval ev by (cases res) (simp_all add: conn del: Eval_first.simps)
  show ?thesis by (rule exI [of _ w], rule exI [of _ l]) (use w route in \<open>simp add: l_def\<close>)
qed

definition sample_eval_env :: eval_env where
  "sample_eval_env = \<lparr>o_env = (\<lambda>_ w. w), o_rnd = (\<lambda>_ i. i), o_now = 9, o_lockFree = (\<lambda>_. True), o_router = sample_router_env\<rparr>"

definition sample_sys :: sys where
  "sample_sys = \<lparr>states = (\<lambda>_. psEnabled)(2 := psDisabled), sys_heap = sample_heap, leaf_pool = (\<lambda>_. Some empty_pool),
     sortedConns = (\<lambda>_. []), jitters = (\<lambda>_. 0), caches = (\<lambda>_. sample_cache)\<rparr>"

definition default_costs :: shardCostConfig where
  "default_costs = \<lparr>scc_reads = shardCostForReads, scc_writes = shardCostForWrites, scc_scoreFunc = None\<rparr>"

definition snapshot_request :: request where
  "snapshot_request = sample_request\<lparr>req_Method := ''GET'', req_Path := slash # ''_snapshot/./nightly//snap-1''\<rparr>"

theorem default_policy_routes_witness:
  "\<exists>p w l. NewDefaultPolicy default_costs = Inr p \<and> w \<in> set (scored_policies default_costs)
    \<and> rb_policy (role_builders (newScoredRoutes ()) ! 196) = Some (pid_of w)
    \<and> leaf_poolName (l :: pid option trieLeaf) = rb_poolName (role_builders (newScoredRoutes ()) ! 196)
    \<and> Route sample_eval_env (Some snapshot_request) [p] sample_sys =
       (case Eval sample_eval_env (Some snapshot_request) w sample_sys of
          (Inl e, s') \<Rightarrow> (Inl e, s')
        | (Inr hop, s') \<Rightarrow> if nh_Conn hop \<noteq> None then (Inr (mux_hop l hop), s')
            else Route sample_eval_env (Some snapshot_request) [Leaf 6 RoundRobin] s')"
proof -
  obtain p where p: "NewDefaultPolicy default_costs = Inr p" by (simp add: NewDefaultPolicy_eq)
  have ps: "psIsEnabled (states sample_sys 1)" "\<not> psIsEnabled (states sample_sys 2)" "psIsEnabled (states sample_sys 5)"
    by (simp_all add: psIsEnabled_bits sample_sys_def)
  have off: "\<not> env_off 4 sample_sys" using and_flag [OF bit_ps(4), of psEnabled] by (simp add: env_off_def sample_sys_def)
  have row: "shapes ! 196 = (req_Method snapshot_request, [Lit ''_snapshot'', Wild, Wild])"
    using shape_rows(6) by (simp add: snapshot_request_def)
  have path: "req_Path snapshot_request = slash # ''_snapshot/./nightly//snap-1''" by (simp add: snapshot_request_def)
  show ?thesis
    using default_policy_routes [OF p _ row path snapshot_fits ps(2,1,3) off, of sample_eval_env] p by fastforce
qed

section \<open>Adaptive shard limits\<close>

definition opted_in :: "'p trieNode \<Rightarrow> request \<Rightarrow> bool" where
  "opted_in t r \<longleftrightarrow>
     (\<exists>m l. routeTrie_match t (req_Method r) (req_Path r) = Some m \<and> tm_leaf m = Some l
        \<and> leaf_attrs l AND attrInjectAdaptiveMCSR \<noteq> 0)"

definition hop_of :: "policy_error + NextHop \<Rightarrow> NextHop" where
  "hop_of res = (case res of Inl _ \<Rightarrow> no_hop | Inr hop \<Rightarrow> hop)"

text \<open>The limit of concurrent shard requests reaches a request only on a route that opted in: whatever the policy
  behind it computed, a hop of the multiplexer that carries a limit comes from a matched route with the attribute.\<close>
theorem mcsr_only_opted_in:
  "MaxConcurrentShardRequests (hop_of (fst (Eval ora (Some r) (Mux i t ps) s))) \<le> 0 \<or> opted_in t r"
proof (rule ccontr)
  assume neg: "\<not> ?thesis"
  have zero: "MaxConcurrentShardRequests no_hop = 0" by (simp add: no_hop_def)
  with neg obtain m l hop0 where m: "routeTrie_match t (req_Method r) (req_Path r) = Some m" "tm_leaf m = Some l"
      "fst (Eval_member ora (Some r) (leaf_policy l) ps s) = Inr hop0" "MaxConcurrentShardRequests (mux_hop l hop0) > 0"
    by (auto simp: map_sum_def hop_of_def split: if_splits option.splits prod.splits sum.splits)
  then have "proper hop0" using Eval_proper(3) [of ora "Some r" "leaf_policy l" ps s hop0] by (metis prod.collapse)
  with m(4) zero have "leaf_attrs l AND attrInjectAdaptiveMCSR \<noteq> 0"
    by (auto simp: mux_hop_def Let_def proper_def split: if_splits)
  with m neg show False unfolding opted_in_def by blast
qed

section \<open>What discovery does more than once\<close>

lemma placement_wrapped:
  assumes "\<And>s. updateShardPlacementTree pl n now p s = s"
  shows "caches (updateShardPlacementTree pl n now (wrap i p costs nm f) s) 0 = updateFromDiscovery pl n now (caches s 0)"
  by (simp add: wrap_def assms)

lemma placement_roles [simp]:
  "updateShardPlacementTree pl n now (role_or_null i role) s = s"
  "updateShardPlacementTree pl n now (role_or_role i role j role') s = s"
  by (simp_all add: role_or_null_def role_or_role_def)

text \<open>Every pool router of the default policy hands the shard placement to the one cache they share, so that a
  discovery cycle refreshes the cache fourteen times. The counters of a slot decay with each of them, where the source
  intends one decay step per cycle, and an idle slot reaches its eviction that much sooner.\<close>
theorem placement_applied_fourteen_times:
  "\<exists>p. NewDefaultPolicy c = Inr p
     \<and> caches (updateShardPlacementTree pl n now p s) 0 = (updateFromDiscovery pl n now ^^ 14) (caches s 0)"
  by (simp add: NewDefaultPolicy_eq wrap_def scored_policies_def ingestIfEnabled_def searchIfEnabled_def warmIfEnabled_def
      dataIfEnabled_def clusterMgrIfEnabled_def numeral_eq_Suc)

text \<open>The stand-alone routers never see a shard placement.\<close>

fun pool_routers :: "policy \<Rightarrow> pid set" where
  "pool_routers (PoolRouter i k cfg p) = insert i (pool_routers p)"
| "pool_routers (Mux i t ps) = \<Union> (pool_routers ` set ps)"
| "pool_routers (Chain i ps) = \<Union> (pool_routers ` set ps)"
| "pool_routers (IfEnabled i cond p q) = pool_routers p \<union> pool_routers q"
| "pool_routers _ = {}"

theorem placement_needs_pool_router:
  assumes "pool_routers p = {}"
  shows "updateShardPlacementTree pl n now p s = s"
  using assms
proof (induction p arbitrary: s)
  case (Chain i ps)
  then have "fold (updateShardPlacementTree pl n now) ps s = s" by (induction ps) auto
  then show ?case by simp
next
  case (Mux i t ps)
  then have "fold (updateShardPlacementTree pl n now) ps s = s" by (induction ps) auto
  then show ?case by simp
qed auto

text \<open>Admitting connections that are members already changes nothing.\<close>

lemma role_add_members:
  assumes "\<And>c. c \<in> set cs \<Longrightarrow> connectionMatchesRoles key (heap w c) \<Longrightarrow> c \<in> members (pool w)"
  shows "role_discoveryUpdateAdd rnd now key cs w = w"
  using assms unfolding role_discoveryUpdateAdd_def by (induction cs) (auto simp: admit_def)

lemma role_remove_none: "role_discoveryUpdateRemove [] w = w"
  by (simp add: role_discoveryUpdateRemove_def gone_by_URL_def list_ex_iff)

lemma recalculate_members: "members (recalculateWarmupParams n p) = members p"
  by (simp add: recalculateWarmupParams_def Let_def)

lemma role_second_update:
  assumes "ps AND psEnvDisabled = 0" "\<And>c. c \<in> set cs \<Longrightarrow> connectionMatchesRoles key (heap w c) \<and> c \<in> members (pool w)"
  shows "pool (snd (role_DiscoveryUpdate rnd now key (Some cs) (Some []) (ps, w))) =
    recalculateWarmupParams (int (length (ready (pool w))) + int (length (dead (pool w))) + int (length cs)) (pool w)"
proof -
  have "filter (\<lambda>c. connectionMatchesRoles key (heap w c)) cs = cs" using assms(2) by (simp add: filter_id_conv)
  then show ?thesis
    using assms by (simp add: role_DiscoveryUpdate_def Let_def role_remove_none count_matching_def role_add_members
        recalculate_members pool_simps)
qed

text \<open>A role policy that two routers share is updated once for each of them, as the role policies of the default
  policy are. In the second update of the cycle the new connections are members already, but they are added to the
  projected size of the pool again, so that the warmup parameters are computed for at least twice the connections.\<close>
theorem shared_leaf_counted_twice:
  assumes "leaf_pool s l = Some q" "pool_inv (leaf_world q s)" "ready q = []" "dead q = []" "o_now ora \<noteq> 0" "\<not> env_off l s"
    and "distinct cs" "\<And>c. c \<in> set cs \<Longrightarrow> connectionMatchesRoles key (sys_heap s c) \<and> admissible (leaf_world q s) c"
  shows "\<exists>s' q1 n. DiscoveryUpdate ora (Some cs) (Some [])
      (Mux i t [PoolRouter a k cfg (Leaf l (Role key)), PoolRouter b k' cfg' (Leaf l (Role key))]) s = Some s'
    \<and> members q1 = set cs \<and> leaf_pool s' l = Some (recalculateWarmupParams n q1) \<and> n \<ge> 2 * int (length cs)"
proof -
  let ?w = "leaf_world q s"
  let ?upd = "\<lambda>r. role_DiscoveryUpdate (o_rnd ora l) (o_now ora) key (Some cs) (Some []) r"
  obtain ps1 w1 where u1: "?upd (states s l, ?w) = (ps1, w1)" by force
  have off: "states s l AND psEnvDisabled = 0" using assms(6) by (simp add: env_off_def)
  have "updated (connectionMatchesRoles key) cs [] ?w (ps1, w1)"
    using role_updated [OF assms(2,5) off, of cs key "[]" "o_rnd ora l"] assms(8) u1 by simp
  then have w1: "pool_inv w1" "same_identity ?w w1" "members (pool w1) = set cs"
    using assms(2-4,8) by (auto simp: updated_def gone_by_URL_def leaf_world_def pool_inv_def)
  have roles: "connectionMatchesRoles key (heap w1 c)" if "c \<in> set cs" for c
    using assms(8) [OF that] w1(2) by (auto simp: same_identity_def leaf_world_def connectionMatchesRoles_def split: if_splits)
  obtain e where e: "ps1 = psSetEnabled e [] (states s l)"
    using u1 off by (auto simp: role_DiscoveryUpdate_def Let_def)
  have off1: "ps1 AND psEnvDisabled = 0"
    using off and_flag [OF bit_ps(4), of ps1] and_flag [OF bit_ps(4), of "states s l"]
    by (auto simp: e psSetEnabled_def cas_retry_alone psSetEnabled_body_def Let_def bit_or_iff bit_and_iff bit_not_iff)
  let ?n = "int (length (ready (pool w1))) + int (length (dead (pool w1))) + int (length cs)"
  have u2: "pool (snd (?upd (ps1, w1))) = recalculateWarmupParams ?n (pool w1)"
    using role_second_update [OF off1] roles w1(3) by blast
  have "length cs = card (set (ready (pool w1)) \<union> set (dead (pool w1)))"
    using w1(1,3) distinct_card [OF assms(7)] by (simp add: pool_inv_def Let_def)
  also have "\<dots> \<le> length (ready (pool w1)) + length (dead (pool w1))"
    using card_Un_le [of "set (ready (pool w1))" "set (dead (pool w1))"] card_length [of "ready (pool w1)"] card_length [of "dead (pool w1)"]
    by linarith
  finally have n: "2 * int (length cs) \<le> ?n" by simp
  have leaf1: "leaf_update ora (Some cs) (Some []) l (Role key) s = Some ((put_world l w1 s)\<lparr>states := (states s)(l := ps1)\<rparr>)"
    using assms(1) u1 by (simp add: leaf_update_def)
  let ?s1 = "rebuildSortedConns a (Leaf l (Role key)) ((put_world l w1 s)\<lparr>states := (states s)(l := ps1)\<rparr>)"
  have "leaf_pool ?s1 l = Some (pool w1)" "leaf_world (pool w1) ?s1 = w1" "states ?s1 l = ps1"
    by (simp_all add: rebuildSortedConns_def put_world_def leaf_world_def)
  then obtain s2 where s2: "leaf_update ora (Some cs) (Some []) l (Role key) ?s1 = Some s2"
      "leaf_pool s2 l = Some (recalculateWarmupParams ?n (pool w1))"
    using u2 by (auto simp: leaf_update_def put_world_def case_prod_beta Let_def)
  then have "\<exists>s'. DiscoveryUpdate ora (Some cs) (Some [])
      (Mux i t [PoolRouter a k cfg (Leaf l (Role key)), PoolRouter b k' cfg' (Leaf l (Role key))]) s = Some s'
      \<and> leaf_pool s' l = leaf_pool s2 l"
    using leaf1 by (simp add: rebuildSortedConns_def set_enabled_def)
  with s2 n w1(3) show ?thesis by metis
qed

lemma sample_leaf_inv: "pool_inv (leaf_world empty_pool sample_sys)"
  by (simp add: pool_inv_def leaf_world_def empty_pool_def)

theorem shared_leaf_counted_twice_witness:
  "\<exists>s' q1 n. DiscoveryUpdate sample_eval_env (Some [1, 2]) (Some [])
      (Mux 5 (empty_node []) [PoolRouter 7 0 sample_router (Leaf 20 (Role RoleCoordinatingOnly)),
         PoolRouter 8 0 sample_router (Leaf 20 (Role RoleCoordinatingOnly))]) sample_sys = Some s'
    \<and> members q1 = {1, 2} \<and> leaf_pool s' 20 = Some (recalculateWarmupParams n q1) \<and> n \<ge> 4"
proof -
  have off: "\<not> env_off 20 sample_sys" using and_flag [OF bit_ps(4), of psEnabled] by (simp add: env_off_def sample_sys_def)
  have ok: "connectionMatchesRoles RoleCoordinatingOnly (sys_heap sample_sys c) \<and> admissible (leaf_world empty_pool sample_sys) c"
    if "c \<in> set [1, 2]" for c
    using that by (auto simp: connectionMatchesRoles_def RoleCoordinatingOnly_def sample_sys_def sample_heap_def sample_lc
        admissible_def leaf_world_def)
  have p: "leaf_pool sample_sys 20 = Some empty_pool" "ready empty_pool = []" "dead empty_pool = []" "o_now sample_eval_env \<noteq> 0"
    "distinct [1, 2 :: nat]"
    by (simp_all add: sample_sys_def empty_pool_def sample_eval_env_def)
  from shared_leaf_counted_twice [OF p(1) sample_leaf_inv p(2-4) off p(5) ok] show ?thesis by simp
qed

section \<open>Reports of the root chain\<close>

text \<open>A failure that the root chain reports takes the connection out of rotation for every pool that shares it: a node
  that discovery knows loses its place in the active and standby partitions and gets a time of death, unless it was
  marked before. A seed that is not discovered yet keeps its state.\<close>
theorem chain_OnFailure_evicts:
  "(if lc_has (lc_of c) lcUnknown then chain_OnFailure now c = c
    else no_position (chain_OnFailure now c) \<and> lc_has (lc_of (chain_OnFailure now c)) lcDead)"
proof -
  let ?u = "upd_lc (lcDead OR lcNeedsWarmup OR lcNeedsHardware) (lcReady OR lcActive OR lcStandby OR lcOverloaded) c"
  have "lc_of (chain_OnFailure now c) = lc_of ?u" if "\<not> lc_has (lc_of c) lcUnknown"
    using that by (auto simp: chain_OnFailure_def upd_lc_def casLifecycle_eq Let_def markAsDead_def storeDeadSince_def
        storeOverloadedAt_def lc_of_def)
  then show ?thesis
    by (auto simp: chain_OnFailure_def no_position_def lc_has_def intro!: bit_eqI)
      (auto simp: conn_simps bit_simps bit_flags)
qed

text \<open>A null policy does not end a chain: the request goes on to the next policy, as it would behind a disabled one.\<close>

theorem null_policy_continues: "Eval_first ora req (NullPolicy i # ps) s = Eval_first ora req ps s"
  by simp

end
