(* ===== verification/Transport.thy ===== *)
theory Transport
  imports Policy_Tree
begin

text \<open>
  The request core of the client (\<^verbatim>\<open>stream\<close> and \<^verbatim>\<open>performSeedFallback\<close> of \<^verbatim>\<open>opensearchtransport.go\<close>): the retry loop
  around routing, rewriting, signing and the round trip, with what it reports to the connection and the pools, and the
  last attempt over the seed URLs.

  What one attempt meets is an argument (\<open>attempt_env\<close>): the answers of the network as a function of the request that
  is sent, what other goroutines do during the round trip, the clock, lock attempts and whether the context ended
  during the pause. A round trip consumes the body of the request. \<open>ss_sent\<close> records the requests that were sent. Not
  modelled: the wrapper that \<^verbatim>\<open>requestTimeout\<close> puts around the body of a response, which cancels the timer of the attempt
  when the caller closes the body and changes neither the response nor its content.
\<close>

unbundle bit_operations_syntax

section \<open>Configuration and state\<close>

record response =
  res_StatusCode :: int
  res_Close :: bool
  res_Body :: "body option"

text \<open>What the loop asks about the error of a round trip; \<open>te_net\<close> is \<^verbatim>\<open>Timeout()\<close> of a \<^verbatim>\<open>net.Error\<close>.\<close>

record trip_error =
  te_stream :: bool
  te_eof :: bool
  te_net :: "bool option"

datatype stream_error =
    CompressFailed string
  | RouteFailed policy_error
  | BodyFailed string
  | NilGetBody
  | SignFailed string
  | TripFailed trip_error
  | ContextDone
  | SeedExhausted
  | SeedBodyFailed string
  | SeedSignFailed string
  | SeedTripFailed trip_error

record transport_config =
  tc_identity :: transport_identity
  tc_signer :: "signer option"
  tc_router :: "policy list option"
  tc_url :: "cid \<Rightarrow> url"
  tc_maxRetries :: int
  tc_disableRetry :: bool
  tc_enableRetryOnTimeout :: bool
  tc_retryOnStatus :: "int list"
  tc_retryBackoff :: bool
  tc_compress :: "(string \<Rightarrow> string + string) option"
  tc_logBody :: bool
  tc_seedFallbackDisabled :: bool
  tc_healthCheck :: bool
  tc_resurrectTimeoutInitial :: int

record client =
  cl_sys :: sys
  cl_pool :: connection_pool
  cl_seed :: "multiServerPool option"
  cl_catRefreshNeeded :: bool
  cl_discoveryNeeded :: bool
  cl_requests :: nat
  cl_failures :: nat
  cl_proactive :: "cid list"
  cl_lastAt :: "cid \<Rightarrow> int"

record attempt_env =
  ae_eval :: eval_env
  ae_env :: "world \<Rightarrow> world"
  ae_rnd :: "nat \<Rightarrow> nat"
  ae_lockFree :: bool
  ae_srt :: "(cid \<Rightarrow> int) \<Rightarrow> cid list \<Rightarrow> cid list"
  ae_now :: int
  ae_reply :: "request \<Rightarrow> trip_error + response"
  ae_meanwhile :: "client \<Rightarrow> client"
  ae_poolLock :: bool
  ae_checkRLock :: bool
  ae_checkLock :: bool
  ae_lastAt :: "int option"
  ae_done :: bool

record stream_state =
  ss_client :: client
  ss_req :: request
  ss_res :: "response option"
  ss_err :: "stream_error option"
  ss_sent :: "(cid \<times> request) list"

definition client_conn :: "client \<Rightarrow> cid \<Rightarrow> connection" where
  "client_conn cl c = sys_heap (cl_sys cl) c"

definition upd_client :: "cid \<Rightarrow> (connection \<Rightarrow> connection) \<Rightarrow> client \<Rightarrow> client" where
  "upd_client c f cl =
     cl\<lparr>cl_sys := (cl_sys cl)\<lparr>sys_heap := (sys_heap (cl_sys cl))(c := f (sys_heap (cl_sys cl) c))\<rparr>\<rparr>"

section \<open>Connections and reports\<close>

definition get_connection :: "transport_config \<Rightarrow> attempt_env \<Rightarrow> request \<Rightarrow> client \<Rightarrow> (policy_error + NextHop) \<times> client" where
  "get_connection cfg env req cl =
     (case tc_router cfg of
        Some ps \<Rightarrow> (let (r, s) = Route (ae_eval env) (Some req) ps (cl_sys cl) in (r, cl\<lparr>cl_sys := s\<rparr>))
      | None \<Rightarrow>
          (case cl_pool cl of
             singleServerPool conn \<Rightarrow>
               ((case single_Next (sys_heap (cl_sys cl)) conn of
                   Inl e \<Rightarrow> Inl (PoolError e)
                 | Inr c \<Rightarrow> Inr (no_hop\<lparr>nh_Conn := Some c\<rparr>)), cl)
           | multiPool p \<Rightarrow>
               (let (r, w) = Next (ae_env env) (ae_rnd env) (ae_now env) (ae_lockFree env) (leaf_world p (cl_sys cl));
                    cl = cl\<lparr>cl_sys := (cl_sys cl)\<lparr>sys_heap := heap w\<rparr>, cl_pool := multiPool (pool w)\<rparr>
                in (case r of
                      Inl e \<Rightarrow> (Inl (PoolError e), cl)
                    | Inr c \<Rightarrow> (Inr (no_hop\<lparr>nh_Conn := Some c\<rparr>), cl)))))"

definition report_success :: "transport_config \<Rightarrow> attempt_env \<Rightarrow> cid \<Rightarrow> client \<Rightarrow> client" where
  "report_success cfg env c cl =
     (case tc_router cfg of
        Some _ \<Rightarrow> upd_client c chain_OnSuccess cl
      | None \<Rightarrow>
          (case cl_pool cl of
             singleServerPool _ \<Rightarrow> cl
           | multiPool p \<Rightarrow>
               let w = OnSuccess (ae_rnd env) c (leaf_world p (cl_sys cl))
               in cl\<lparr>cl_sys := (cl_sys cl)\<lparr>sys_heap := heap w\<rparr>, cl_pool := multiPool (pool w)\<rparr>))"

definition report_failure :: "transport_config \<Rightarrow> attempt_env \<Rightarrow> cid \<Rightarrow> client \<Rightarrow> client" where
  "report_failure cfg env c cl =
     (case tc_router cfg of
        Some _ \<Rightarrow> upd_client c (chain_OnFailure (ae_now env)) cl
      | None \<Rightarrow>
          (case cl_pool cl of
             singleServerPool _ \<Rightarrow> cl
           | multiPool p \<Rightarrow>
               let w = OnFailure (ae_srt env) (ae_now env) c (leaf_world p (cl_sys cl))
               in cl\<lparr>cl_sys := (cl_sys cl)\<lparr>sys_heap := heap w\<rparr>, cl_pool := multiPool (pool w)\<rparr>))"

definition flag_cat_update :: "cid \<Rightarrow> client \<Rightarrow> client" where
  "flag_cat_update c cl =
     (upd_client c (\<lambda>x. x\<lparr>state := snd (setNeedsCatUpdate (state x))\<rparr>) cl)\<lparr>cl_catRefreshNeeded := True\<rparr>"

text \<open>Read under the read lock, read again under the write lock: in between another goroutine may have stored a time.\<close>

definition scheduleProactiveHealthCheck :: "transport_config \<Rightarrow> attempt_env \<Rightarrow> cid \<Rightarrow> client \<Rightarrow> client" where
  "scheduleProactiveHealthCheck cfg env c cl =
     (let recent = (\<lambda>t. ae_now env - t < tc_resurrectTimeoutInitial cfg) in
      if \<not> tc_healthCheck cfg \<or> \<not> ae_checkRLock env \<or> recent (cl_lastAt cl c) then cl
      else let cl = (case ae_lastAt env of None \<Rightarrow> cl | Some t \<Rightarrow> cl\<lparr>cl_lastAt := (cl_lastAt cl)(c := t)\<rparr>)
           in if \<not> ae_checkLock env \<or> recent (cl_lastAt cl c) then cl
              else cl\<lparr>cl_lastAt := (cl_lastAt cl)(c := ae_now env), cl_proactive := cl_proactive cl @ [c]\<rparr>)"

text \<open>What the check does when it ends: a failure is reported, a success counts towards the end of draining.\<close>

definition proactive_finish :: "transport_config \<Rightarrow> attempt_env \<Rightarrow> bool \<Rightarrow> cid \<Rightarrow> client \<Rightarrow> client" where
  "proactive_finish cfg env healthy c cl =
     (if healthy then upd_client c (\<lambda>x. snd (decrementDrainingQuiescing [] x)) cl else report_failure cfg env c cl)"

section \<open>One attempt\<close>

definition body_content :: "body \<Rightarrow> string" where
  "body_content b = (case b of Unread s \<Rightarrow> s | Closed \<Rightarrow> [])"

text \<open>The body before the loop: compressed, or buffered so that it can be sent again.\<close>

definition prepare_body :: "transport_config \<Rightarrow> request \<Rightarrow> stream_error + request" where
  "prepare_body cfg req =
     (case req_Body req of
        None \<Rightarrow> Inr req
      | Some b \<Rightarrow>
          (case tc_compress cfg of
             Some f \<Rightarrow>
               (case f (body_content b) of
                  Inl e \<Rightarrow> Inl (CompressFailed e)
                | Inr z \<Rightarrow>
                    Inr (req\<lparr>req_GetBody := Some (Inr z), req_Body := Some (Unread z),
                             req_Header := header_Set ''Content-Encoding'' ''gzip'' (req_Header req),
                             req_ContentLength := int (length z)\<rparr>))
           | None \<Rightarrow>
               if req_GetBody req = None \<and> (\<not> tc_disableRetry cfg \<or> tc_logBody cfg)
               then Inr (req\<lparr>req_GetBody := Some (Inr (body_content b)), req_Body := Some (Unread (body_content b))\<rparr>)
               else Inr req))"

definition reset_body :: "transport_config \<Rightarrow> nat \<Rightarrow> request \<Rightarrow> stream_error + request" where
  "reset_body cfg i req =
     (if \<not> tc_disableRetry cfg \<and> i > 0 \<and> req_Body req \<noteq> None
      then case req_GetBody req of
             None \<Rightarrow> Inl NilGetBody
           | Some (Inl e) \<Rightarrow> Inl (BodyFailed e)
           | Some (Inr s) \<Rightarrow> Inr (req\<lparr>req_Body := Some (Unread s)\<rparr>)
      else Inr req)"

definition prepare_attempt :: "transport_config \<Rightarrow> nat \<Rightarrow> cid \<Rightarrow> request \<Rightarrow> stream_error + request" where
  "prepare_attempt cfg i c req =
     (let u = tc_url cfg c;
          req = setReqURL u req;
          req = setReqAuth (tc_identity cfg) u req
      in case reset_body cfg i req of
           Inl e \<Rightarrow> Inl e
         | Inr req \<Rightarrow> (case signRequest (tc_signer cfg) req of Inl e \<Rightarrow> Inl (SignFailed e) | Inr req \<Rightarrow> Inr req))"

text \<open>The in-flight counters around the round trip, looked up by name before and after it.\<close>

definition count_pools :: "(poolRegistry \<Rightarrow> string \<Rightarrow> int \<times> poolRegistry) \<Rightarrow> string \<Rightarrow> cid \<Rightarrow> client \<Rightarrow> client" where
  "count_pools f poolName c cl =
     (if poolName \<noteq> [] then upd_client c (\<lambda>x. x\<lparr>pools := snd (f (pools x) poolName)\<rparr>) cl else cl)"

definition after_trip_body :: "transport_config \<Rightarrow> request \<Rightarrow> request" where
  "after_trip_body cfg req =
     (case req_Body req of
        None \<Rightarrow> req
      | Some _ \<Rightarrow>
          req\<lparr>req_Body := (if tc_logBody cfg
             then (case req_GetBody req of Some (Inr s) \<Rightarrow> Some (Unread s) | _ \<Rightarrow> None)
             else Some Closed)\<rparr>)"

definition defaultDrainingQuiescingChecks :: int where "defaultDrainingQuiescingChecks = 3"

definition retryable_error :: "transport_config \<Rightarrow> trip_error \<Rightarrow> bool" where
  "retryable_error cfg e \<longleftrightarrow> te_stream e \<or> te_eof e \<or>
     (case te_net e of None \<Rightarrow> False | Some timeout \<Rightarrow> (\<not> timeout \<or> tc_enableRetryOnTimeout cfg) \<and> \<not> tc_disableRetry cfg)"

definition on_trip_error :: "transport_config \<Rightarrow> attempt_env \<Rightarrow> cid \<Rightarrow> trip_error \<Rightarrow> client \<Rightarrow> client" where
  "on_trip_error cfg env c e cl =
     (let cl = cl\<lparr>cl_failures := cl_failures cl + 1\<rparr>;
          cl = (if te_stream e
                then upd_client c (\<lambda>x. x\<lparr>drainingQuiescingRemaining := defaultDrainingQuiescingChecks\<rparr>) cl else cl);
          cl = report_failure cfg env c cl
      in flag_cat_update c cl)"

definition retry_status :: "transport_config \<Rightarrow> response \<Rightarrow> bool" where
  "retry_status cfg res \<longleftrightarrow> \<not> tc_disableRetry cfg \<and> res_StatusCode res \<in> set (tc_retryOnStatus cfg)"

text \<open>A 429 halves the window of the pool once, until the statistics poller clears the flag.\<close>

definition throttle :: "poolCongestion \<Rightarrow> poolCongestion" where
  "throttle pc =
     (if pc_overloaded pc then pc
      else let newCwnd = max (pc_cwnd pc div 2) 1
           in pc\<lparr>pc_overloaded := True, pc_cwnd := newCwnd, pc_ssthresh := newCwnd\<rparr>)"

definition throttled :: "response \<Rightarrow> string \<Rightarrow> bool" where
  "throttled res poolName \<longleftrightarrow> res_StatusCode res = 429 \<and> poolName \<noteq> []"

definition on_throttled :: "attempt_env \<Rightarrow> string \<Rightarrow> cid \<Rightarrow> client \<Rightarrow> client" where
  "on_throttled env poolName c cl =
     upd_client c (\<lambda>x. case registry_get (pools x) poolName of
         None \<Rightarrow> x
       | Some ptr \<Rightarrow> if ae_poolLock env then x\<lparr>pools := modify (pools x) ptr throttle\<rparr> else x) cl"

definition on_response :: "transport_config \<Rightarrow> attempt_env \<Rightarrow> string \<Rightarrow> cid \<Rightarrow> response \<Rightarrow> client \<Rightarrow> client" where
  "on_response cfg env poolName c res cl =
     (let cl = report_success cfg env c cl;
          cl = (if res_Close res then scheduleProactiveHealthCheck cfg env c cl else cl);
          cl = (if retry_status cfg res then flag_cat_update c cl else cl)
      in if throttled res poolName then on_throttled env poolName c cl else cl)"

datatype flow = Returned | Broke | Again

text \<open>The decision at the end of an attempt: \<open>retry\<close> and \<open>drain\<close> are the two flags of the loop body.\<close>

definition finish_attempt :: "transport_config \<Rightarrow> attempt_env \<Rightarrow> nat \<Rightarrow> bool \<Rightarrow> bool \<Rightarrow> stream_state \<Rightarrow> flow \<times> stream_state" where
  "finish_attempt cfg env i retry drain st =
     (if \<not> retry then (Broke, st)
      else let more = int i < tc_maxRetries cfg;
               st = (if drain \<and> more
                     then st\<lparr>ss_res := map_option (\<lambda>r. r\<lparr>res_Body := map_option (\<lambda>_. Closed) (res_Body r)\<rparr>) (ss_res st)\<rparr> else st)
           in if tc_retryBackoff cfg \<and> more \<and> ae_done env then (Broke, st\<lparr>ss_err := Some ContextDone\<rparr>) else (Again, st))"

definition round_trip :: "transport_config \<Rightarrow> attempt_env \<Rightarrow> nat \<Rightarrow> string \<Rightarrow> cid \<Rightarrow> request \<Rightarrow> stream_state \<Rightarrow> flow \<times> stream_state" where
  "round_trip cfg env i poolName c req st =
     (let cl = count_pools addInFlight poolName c (ss_client st);
          reply = ae_reply env req;
          cl = count_pools releaseInFlight poolName c (ae_meanwhile env cl);
          st = st\<lparr>ss_req := after_trip_body cfg req, ss_sent := ss_sent st @ [(c, req)]\<rparr>
      in case reply of
           Inl e \<Rightarrow>
             finish_attempt cfg env i (retryable_error cfg e) False
               (st\<lparr>ss_client := on_trip_error cfg env c e cl, ss_res := None, ss_err := Some (TripFailed e)\<rparr>)
         | Inr res \<Rightarrow>
             finish_attempt cfg env i
               (retry_status cfg res \<or> throttled res poolName \<and> \<not> tc_disableRetry cfg)
               (retry_status cfg res \<or> throttled res poolName \<and> \<not> tc_disableRetry cfg)
               (st\<lparr>ss_client := on_response cfg env poolName c res cl, ss_res := Some res, ss_err := None\<rparr>))"

definition attempt :: "transport_config \<Rightarrow> attempt_env \<Rightarrow> nat \<Rightarrow> stream_state \<Rightarrow> flow \<times> stream_state" where
  "attempt cfg env i st =
     (case get_connection cfg env (ss_req st) (ss_client st) of
        (Inl e, cl) \<Rightarrow>
          (let st = st\<lparr>ss_client := cl, ss_res := None, ss_err := Some (RouteFailed e)\<rparr>
           in if e = PoolError ErrNoConnections then (Broke, st) else (Returned, st))
      | (Inr hop, cl) \<Rightarrow>
          (let req = (if MaxConcurrentShardRequests hop > 0
                      then appendAdaptiveConcurrency (MaxConcurrentShardRequests hop) (ss_req st) else ss_req st);
               st = st\<lparr>ss_client := cl\<rparr>
           in case nh_Conn hop of
                None \<Rightarrow> (Returned, st\<lparr>ss_res := None, ss_err := Some (RouteFailed NilDereference)\<rparr>)
              | Some c \<Rightarrow>
                  (case prepare_attempt cfg i c req of
                     Inl e \<Rightarrow> (Returned, st\<lparr>ss_res := None, ss_err := Some e\<rparr>)
                   | Inr req \<Rightarrow> round_trip cfg env i (nh_PoolName hop) c req st)))"

section \<open>The loop and the last resort\<close>

fun stream_loop :: "transport_config \<Rightarrow> (nat \<Rightarrow> attempt_env) \<Rightarrow> nat \<Rightarrow> nat \<Rightarrow> stream_state \<Rightarrow> flow \<times> stream_state" where
  "stream_loop cfg envs 0 i st = (Again, st)"
| "stream_loop cfg envs (Suc n) i st =
     (case attempt cfg (envs i) i st of
        (Again, st) \<Rightarrow> stream_loop cfg envs n (Suc i) st
      | r \<Rightarrow> r)"

definition seed_request :: "transport_config \<Rightarrow> cid \<Rightarrow> request \<Rightarrow> stream_error + request" where
  "seed_request cfg c req =
     (let u = tc_url cfg c;
          req = setReqURL u req;
          req = setReqAuth (tc_identity cfg) u req;
          reset = (if req_Body req \<noteq> None
                   then case req_GetBody req of
                          None \<Rightarrow> Inr req
                        | Some (Inl e) \<Rightarrow> Inl (SeedBodyFailed e)
                        | Some (Inr s) \<Rightarrow> Inr (req\<lparr>req_Body := Some (Unread s)\<rparr>)
                   else Inr req)
      in case reset of
           Inl e \<Rightarrow> Inl e
         | Inr req \<Rightarrow> (case signRequest (tc_signer cfg) req of Inl e \<Rightarrow> Inl (SeedSignFailed e) | Inr req \<Rightarrow> Inr req))"

definition performSeedFallback :: "transport_config \<Rightarrow> attempt_env \<Rightarrow> multiServerPool \<Rightarrow> stream_state \<Rightarrow> stream_state" where
  "performSeedFallback cfg env seedPool st =
     (if ae_done env then st\<lparr>ss_res := None, ss_err := Some ContextDone\<rparr>
      else let (r, w) = Next (ae_env env) (ae_rnd env) (ae_now env) (ae_lockFree env) (leaf_world seedPool (cl_sys (ss_client st)));
               put = (\<lambda>w st. st\<lparr>ss_client := (ss_client st)\<lparr>cl_sys := (cl_sys (ss_client st))\<lparr>sys_heap := heap w\<rparr>,
                        cl_seed := Some (pool w)\<rparr>\<rparr>);
               st = put w st
           in case r of
                Inl _ \<Rightarrow> st\<lparr>ss_res := None, ss_err := Some SeedExhausted\<rparr>
              | Inr c \<Rightarrow>
                  (case seed_request cfg c (ss_req st) of
                     Inl e \<Rightarrow> st\<lparr>ss_res := None, ss_err := Some e\<rparr>
                   | Inr req \<Rightarrow>
                       let st = st\<lparr>ss_req := after_trip_body (cfg\<lparr>tc_logBody := False\<rparr>) req, ss_sent := ss_sent st @ [(c, req)]\<rparr> in
                       (case ae_reply env req of
                          Inl e \<Rightarrow> put (OnFailure (ae_srt env) (ae_now env) c w)
                                    (st\<lparr>ss_res := None, ss_err := Some (SeedTripFailed e)\<rparr>)
                        | Inr res \<Rightarrow>
                            let st = put (OnSuccess (ae_rnd env) c w) (st\<lparr>ss_res := Some res, ss_err := None\<rparr>)
                            in st\<lparr>ss_client := (ss_client st)\<lparr>cl_discoveryNeeded := True\<rparr>\<rparr>)))"

definition start_request :: "transport_config \<Rightarrow> request \<Rightarrow> request" where
  "start_request cfg req = setReqGlobalHeader (tc_identity cfg) (setReqUserAgent (tc_identity cfg) req)"

definition stream_init :: "request \<Rightarrow> client \<Rightarrow> stream_state" where
  "stream_init req cl =
     \<lparr>ss_client = cl\<lparr>cl_requests := cl_requests cl + 1\<rparr>, ss_req = req, ss_res = None, ss_err = None, ss_sent = []\<rparr>"

definition stream :: "transport_config \<Rightarrow> (nat \<Rightarrow> attempt_env) \<Rightarrow> attempt_env \<Rightarrow> request \<Rightarrow> client \<Rightarrow> stream_state" where
  "stream cfg envs seed_env req cl =
     (let req = start_request cfg req in
      case prepare_body cfg req of
        Inl e \<Rightarrow> (stream_init req cl)\<lparr>ss_err := Some e\<rparr>
      | Inr req \<Rightarrow>
          (case stream_loop cfg envs (nat (tc_maxRetries cfg + 1)) 0 (stream_init req cl) of
             (Returned, st) \<Rightarrow> st
           | (_, st) \<Rightarrow>
               (case cl_seed (ss_client st) of
                  Some seedPool \<Rightarrow>
                    if ss_err st = Some (RouteFailed (PoolError ErrNoConnections)) \<and> \<not> tc_seedFallbackDisabled cfg
                    then performSeedFallback cfg seed_env seedPool st else st
                | None \<Rightarrow> st)))"

text \<open>\<^verbatim>\<open>Request\<close> reads the body of the response; \<open>read\<close> gives what is read and the error that ends the reading.\<close>

datatype call_error = StreamError stream_error | ErrResponseBodyRead string

definition Request :: "(body \<Rightarrow> string \<times> string option) \<Rightarrow> stream_state \<Rightarrow> response option \<times> call_error option" where
  "Request read st =
     (let err = map_option StreamError (ss_err st) in
      case ss_res st of
        None \<Rightarrow> (None, err)
      | Some res \<Rightarrow>
          (case res_Body res of
             None \<Rightarrow> (Some res, err)
           | Some b \<Rightarrow>
               let (content, rerr) = read b in
               (Some (res\<lparr>res_Body := Some (Unread content)\<rparr>),
                if err = None then map_option ErrResponseBodyRead rerr else err)))"

section \<open>Attempts\<close>

text \<open>The rule for the loop: an invariant of the attempts, and what holds where it is left.\<close>

lemma stream_loop_rule:
  assumes "i + n = N" "P i st"
    and "\<And>i st fl st'. P i st \<Longrightarrow> i < N \<Longrightarrow> attempt cfg (envs i) i st = (fl, st') \<Longrightarrow>
      (if fl = Again then P (Suc i) st' else Q fl st')"
    and "\<And>st. P N st \<Longrightarrow> Q Again st"
    and "stream_loop cfg envs n i st = (fl, st')"
  shows "Q fl st'"
  using assms(1,2,5)
proof (induction n arbitrary: i st)
  case 0
  then show ?case using assms(4) by simp
next
  case (Suc n)
  obtain fl1 st1 where a: "attempt cfg (envs i) i st = (fl1, st1)" by force
  note step = assms(3) [OF Suc.prems(2) _ a]
  show ?case
  proof (cases fl1)
    case Again
    with step Suc.prems(1) have "P (Suc i) st1" by simp
    with Suc.IH [of "Suc i" st1] Suc.prems a Again show ?thesis by simp
  qed (use step Suc.prems a in \<open>auto split: flow.splits\<close>)
qed

lemma attempt_cases:
  assumes "attempt cfg env i st = (fl, st')"
  obtains (unsent) "fl \<noteq> Again" "ss_sent st' = ss_sent st" "ss_req st' = ss_req st" "ss_res st' = None" "ss_err st' \<noteq> None"
      "fl = Broke \<Longrightarrow> ss_err st' = Some (RouteFailed (PoolError ErrNoConnections))"
    | (sent) hop c req cl where "get_connection cfg env (ss_req st) (ss_client st) = (Inr hop, cl)" "nh_Conn hop = Some c"
      "prepare_attempt cfg i c (if MaxConcurrentShardRequests hop > 0
         then appendAdaptiveConcurrency (MaxConcurrentShardRequests hop) (ss_req st) else ss_req st) = Inr req"
      "round_trip cfg env i (nh_PoolName hop) c req (st\<lparr>ss_client := cl\<rparr>) = (fl, st')"
proof -
  obtain r cl where g: "get_connection cfg env (ss_req st) (ss_client st) = (r, cl)" by force
  show thesis
  proof (cases r)
    case (Inl e)
    with g assms show thesis by (intro unsent) (auto simp: attempt_def Let_def split: if_splits)
  next
    case (Inr hop)
    show thesis
    proof (cases "nh_Conn hop")
      case None
      with g Inr assms show thesis by (intro unsent) (auto simp: attempt_def Let_def)
    next
      case (Some c)
      let ?req = "if MaxConcurrentShardRequests hop > 0
         then appendAdaptiveConcurrency (MaxConcurrentShardRequests hop) (ss_req st) else ss_req st"
      show thesis
      proof (cases "prepare_attempt cfg i c ?req")
        case (Inl e)
        with g Inr Some assms show thesis by (intro unsent) (auto simp: attempt_def Let_def)
      next
        case (Inr req)
        with g \<open>r = Inr hop\<close> Some assms show thesis by (intro sent) (auto simp: attempt_def Let_def)
      qed
    qed
  qed
qed

lemma finish_attempt_cases:
  assumes "finish_attempt cfg env i retry drain st = (fl, st')"
  shows "ss_sent st' = ss_sent st \<and> ss_req st' = ss_req st \<and> fl \<noteq> Returned \<and> (ss_res st' = None \<longleftrightarrow> ss_res st = None)
    \<and> (ss_err st' = ss_err st \<or> ss_err st' = Some ContextDone \<and> fl = Broke)
    \<and> (ss_err st' = ss_err st \<longrightarrow> fl = Broke \<or> \<not> int i < tc_maxRetries cfg \<longrightarrow> st' = st \<or> ss_err st = Some ContextDone)"
  using assms by (auto simp: finish_attempt_def Let_def split: if_splits)

lemma round_trip_sent:
  assumes "round_trip cfg env i poolName c req st = (fl, st')"
  shows "ss_sent st' = ss_sent st @ [(c, req)] \<and> ss_req st' = after_trip_body cfg req \<and> fl \<noteq> Returned"
  using assms by (auto simp: round_trip_def Let_def dest!: finish_attempt_cases split: sum.splits)

text \<open>The result of a round trip that ends the loop, or that is the last one allowed.\<close>

definition settled :: "transport_config \<Rightarrow> (request \<Rightarrow> trip_error + response) \<Rightarrow> stream_state \<Rightarrow> bool" where
  "settled cfg reply st \<longleftrightarrow>
     (case ss_err st of
        None \<Rightarrow> ss_sent st \<noteq> [] \<and> (\<exists>res. reply (snd (last (ss_sent st))) = Inr res \<and> ss_res st = Some res)
      | Some e \<Rightarrow> ss_res st = None \<or> e = ContextDone)"

lemma round_trip_settled:
  assumes "round_trip cfg env i poolName c req st = (fl, st')" "fl = Broke \<or> \<not> int i < tc_maxRetries cfg"
  shows "settled cfg (ae_reply env) st'"
proof (cases "ae_reply env req")
  case (Inl e)
  with assms(1) obtain st0 where "finish_attempt cfg env i (retryable_error cfg e) False st0 = (fl, st')"
      "ss_res st0 = None" "ss_err st0 = Some (TripFailed e)"
    by (auto simp: round_trip_def Let_def)
  from finish_attempt_cases [OF this(1)] this(2,3) show ?thesis by (auto simp: settled_def)
next
  case (Inr res)
  with assms(1) obtain st0 b where f: "finish_attempt cfg env i b b st0 = (fl, st')"
      and st0: "ss_res st0 = Some res" "ss_err st0 = None" "ss_sent st0 = ss_sent st @ [(c, req)]"
    by (auto simp: round_trip_def Let_def)
  from finish_attempt_cases [OF f] assms(2) st0 show ?thesis
    using Inr by (auto simp: settled_def)
qed

section \<open>The result of a request\<close>

lemma attempt_progress:
  assumes "attempt cfg env i st = (fl, st')"
  shows "(if fl = Again then length (ss_sent st') = Suc (length (ss_sent st)) \<and> (int i < tc_maxRetries cfg \<or> settled cfg (ae_reply env) st')
      else length (ss_sent st') \<le> Suc (length (ss_sent st)) \<and> settled cfg (ae_reply env) st')"
  using assms
proof (cases rule: attempt_cases)
  case unsent
  then show ?thesis by (auto simp: settled_def split: option.splits)
next
  case (sent hop c req cl)
  have "fl \<noteq> Returned" using round_trip_sent [OF sent(4)] by simp
  then show ?thesis using round_trip_sent [OF sent(4)] round_trip_settled [OF sent(4)] by (cases fl) auto
qed

lemma stream_loop_progress:
  assumes "stream_loop cfg envs N 0 st = (fl, st')" "ss_sent st = []" "N = nat (tc_maxRetries cfg + 1)"
  shows "length (ss_sent st') \<le> N \<and> (0 < N \<longrightarrow> (\<exists>k<N. settled cfg (ae_reply (envs k)) st'))"
proof -
  let ?P = "\<lambda>i s. length (ss_sent s) = i \<and> (\<forall>k. i = Suc k \<longrightarrow> i = N \<longrightarrow> settled cfg (ae_reply (envs k)) s)"
  let ?Q = "\<lambda>(fl::flow) s. length (ss_sent s) \<le> N \<and> (0 < N \<longrightarrow> (\<exists>k<N. settled cfg (ae_reply (envs k)) s))"
  show ?thesis
  proof (rule stream_loop_rule [where P = ?P and Q = ?Q, OF _ _ _ _ assms(1)])
    show "0 + N = N" by simp
    show "?P 0 st" using assms(2) by simp
    show "if f = Again then ?P (Suc i) s' else ?Q f s'"
      if "?P i s" "i < N" "attempt cfg (envs i) i s = (f, s')" for i s f s'
      using attempt_progress [OF that(3)] that(1,2) assms(3) by (auto split: if_splits)
    show "?Q Again s" if "?P N s" for s
      using that by (cases N) auto
  qed
qed

lemma seed_fallback_settled:
  "length (ss_sent (performSeedFallback cfg env p st)) \<le> Suc (length (ss_sent st))
    \<and> settled cfg (ae_reply env) (performSeedFallback cfg env p st)"
  by (auto simp: performSeedFallback_def Let_def settled_def split: prod.splits sum.splits)

lemma stream_init_fields [simp]: "ss_sent (stream_init req cl) = []" "ss_res (stream_init req cl) = None"
  "ss_req (stream_init req cl) = req" "ss_err (stream_init req cl) = None"
  by (simp_all add: stream_init_def)

text \<open>How \<^verbatim>\<open>stream\<close> ends: before the loop, with the state of the loop, or over the seeds.\<close>

lemma stream_cases:
  obtains (compress) e where "stream cfg envs seed_env req cl = (stream_init (start_request cfg req) cl)\<lparr>ss_err := Some e\<rparr>"
      "prepare_body cfg (start_request cfg req) = Inl e"
    | (loop) req' fl where "prepare_body cfg (start_request cfg req) = Inr req'"
      "stream_loop cfg envs (nat (tc_maxRetries cfg + 1)) 0 (stream_init req' cl) = (fl, stream cfg envs seed_env req cl)"
    | (seed) req' fl st p where "prepare_body cfg (start_request cfg req) = Inr req'"
      "stream_loop cfg envs (nat (tc_maxRetries cfg + 1)) 0 (stream_init req' cl) = (fl, st)"
      "ss_err st = Some (RouteFailed (PoolError ErrNoConnections))" "\<not> tc_seedFallbackDisabled cfg"
      "stream cfg envs seed_env req cl = performSeedFallback cfg seed_env p st"
proof (cases "prepare_body cfg (start_request cfg req)")
  case (Inl e)
  then show ?thesis by (intro compress) (simp_all add: stream_def)
next
  case (Inr req')
  obtain fl st where l: "stream_loop cfg envs (nat (tc_maxRetries cfg + 1)) 0 (stream_init req' cl) = (fl, st)" by force
  show ?thesis
  proof (cases "fl = Returned \<or> cl_seed (ss_client st) = None \<or> ss_err st \<noteq> Some (RouteFailed (PoolError ErrNoConnections))
      \<or> tc_seedFallbackDisabled cfg")
    case True
    then have "stream cfg envs seed_env req cl = st"
      using Inr l by (auto simp: stream_def split: flow.splits option.splits)
    with Inr l show ?thesis by (intro loop) auto
  next
    case False
    then obtain p where "cl_seed (ss_client st) = Some p" by auto
    with False Inr l show ?thesis
      by (intro seed [of req' fl st p]) (auto simp: stream_def split: flow.splits)
  qed
qed

text \<open>C19. One call sends at most as many requests as there are retries plus one, and one more over a seed.\<close>
theorem stream_attempts_bounded:
  "int (length (ss_sent (stream cfg envs seed_env req cl))) \<le> max 0 (tc_maxRetries cfg + 1) + 1"
proof (cases rule: stream_cases [of cfg envs seed_env req cl])
  case (loop req' fl)
  then show ?thesis using stream_loop_progress [OF loop(2)] by (auto simp: max_def)
next
  case (seed req' fl st p)
  then show ?thesis
    using stream_loop_progress [OF seed(2)] seed_fallback_settled [of cfg seed_env p st] by (auto simp: max_def)
qed simp

lemma stream_settled:
  assumes "0 \<le> tc_maxRetries cfg"
  shows "(\<exists>env \<in> insert seed_env (range envs). settled cfg (ae_reply env) (stream cfg envs seed_env req cl))"
proof (cases rule: stream_cases [of cfg envs seed_env req cl])
  case (compress e)
  then show ?thesis by (auto simp: settled_def)
next
  case (loop req' fl)
  then show ?thesis using stream_loop_progress [OF loop(2)] assms by auto
next
  case (seed req' fl st p)
  then show ?thesis using seed_fallback_settled [of cfg seed_env p st] by auto
qed

text \<open>Without a round of the loop nothing is returned and nothing is sent.\<close>

lemma stream_no_round:
  assumes "tc_maxRetries cfg < 0" "prepare_body cfg (start_request cfg req) = Inr req'"
  shows "ss_res (stream cfg envs seed_env req cl) = None \<and> ss_err (stream cfg envs seed_env req cl) = None
    \<and> ss_sent (stream cfg envs seed_env req cl) = []"
proof -
  have "nat (tc_maxRetries cfg + 1) = 0" using assms(1) by simp
  then show ?thesis using assms(2) by (simp add: stream_def split: option.splits)
qed

text \<open>C17. What a caller gets. A response without an error is the reply of the network to the last request that was
  sent, with its body unread; a response with an error means that the context ended during the pause before a retry, and
  no other error comes with a response. A call that returns neither a response nor an error is possible only when the
  client is configured with a negative number of retries (which \<^verbatim>\<open>New\<close> accepts), and then nothing was sent.\<close>
theorem stream_result:
  "case (ss_res (stream cfg envs seed_env req cl), ss_err (stream cfg envs seed_env req cl)) of
      (None, None) \<Rightarrow> tc_maxRetries cfg < 0 \<and> ss_sent (stream cfg envs seed_env req cl) = []
    | (Some res, None) \<Rightarrow>
        (\<exists>env \<in> insert seed_env (range envs). ae_reply env (snd (last (ss_sent (stream cfg envs seed_env req cl)))) = Inr res)
    | (None, Some e) \<Rightarrow> True
    | (Some res, Some e) \<Rightarrow> e = ContextDone"
proof (cases "0 \<le> tc_maxRetries cfg")
  case True
  then show ?thesis
    using stream_settled [of cfg seed_env envs req cl] by (auto simp: settled_def split: option.splits)
next
  case False
  then show ?thesis using stream_no_round [of cfg req _ envs seed_env cl]
    by (cases "prepare_body cfg (start_request cfg req)") (auto simp: stream_def)
qed

text \<open>A buffered call: a response comes with an error only when the context ended between two attempts or its body
  could not be read, in which case it holds what was read; without a response there is always an error.\<close>
theorem Request_result:
  assumes "0 \<le> tc_maxRetries cfg" "Request read (stream cfg envs seed_env req cl) = (res, err)"
  shows "(res = None \<and> (\<exists>e. err = Some (StreamError e))) \<or> (res \<noteq> None \<and>
    (err = None \<or> err = Some (StreamError ContextDone)
     \<or> (\<exists>r b content rerr. ss_res (stream cfg envs seed_env req cl) = Some r \<and> res_Body r = Some b
          \<and> read b = (content, Some rerr) \<and> res = Some (r\<lparr>res_Body := Some (Unread content)\<rparr>) \<and> err = Some (ErrResponseBodyRead rerr))))"
  using stream_settled [OF assms(1), of seed_env envs req cl] assms(2)
  by (cases "ss_res (stream cfg envs seed_env req cl)"; cases "ss_err (stream cfg envs seed_env req cl)")
    (auto simp: settled_def Request_def Let_def split: option.splits prod.splits if_splits, metis+)

text \<open>With a negative number of retries the loop does not run: the call returns neither a response nor an error, and
  nothing is sent, although a failure is documented to come with an error.\<close>
theorem negative_retries_return_nothing:
  assumes "tc_maxRetries cfg < 0" "tc_compress cfg = None"
  shows "ss_res (stream cfg envs seed_env req cl) = None \<and> ss_err (stream cfg envs seed_env req cl) = None
    \<and> ss_sent (stream cfg envs seed_env req cl) = []"
proof -
  obtain req' where "prepare_body cfg (start_request cfg req) = Inr req'"
    by (cases "prepare_body cfg (start_request cfg req)") (use assms(2) in \<open>auto simp: prepare_body_def split: option.splits if_splits\<close>)
  then show ?thesis by (rule stream_no_round [OF assms(1)])
qed

section \<open>What is sent\<close>

text \<open>A request as it goes to a node, against the request of the caller as the attempts before left it.\<close>

definition signer_header_only :: "transport_config \<Rightarrow> bool" where
  "signer_header_only cfg \<longleftrightarrow>
     (\<forall>r q. signRequest (tc_signer cfg) r = Inr q \<longrightarrow> q\<lparr>req_Header := req_Header r\<rparr> = r)"

definition rewritten :: "transport_config \<Rightarrow> bool \<Rightarrow> cid \<Rightarrow> request \<Rightarrow> request \<Rightarrow> bool" where
  "rewritten cfg first c r q \<longleftrightarrow>
     req_Path q = base_of (tc_url cfg c) @ req_Path r \<and> req_GetBody q = req_GetBody r
     \<and> (tc_signer cfg = None \<longrightarrow> req_Header q = req_Header (setReqAuth (tc_identity cfg) (tc_url cfg c) r))
     \<and> (req_Body q = req_Body r \<and> (first \<or> tc_disableRetry cfg \<or> req_Body r = None \<or> req_GetBody r = None)
        \<or> (\<exists>s. req_GetBody r = Some (Inr s) \<and> req_Body r \<noteq> None \<and> req_Body q = Some (Unread s)))"

lemma signer_header_onlyD:
  assumes "signer_header_only cfg" "signRequest (tc_signer cfg) r = Inr q"
  shows "req_Path q = req_Path r \<and> req_Body q = req_Body r \<and> req_GetBody q = req_GetBody r"
  using assms unfolding signer_header_only_def by (metis request.select_convs request.update_convs(7) request.surjective)

lemma setReqAuth_cong: "req_Header r = req_Header r' \<Longrightarrow>
    req_Header (setReqAuth cid u r) = req_Header (setReqAuth cid u r')"
  by (rule ext) (simp only: setReqAuth_Header)

lemma prepare_attempt_rewritten:
  assumes "prepare_attempt cfg i c r = Inr q" "signer_header_only cfg"
  shows "rewritten cfg (i = 0) c r q"
proof -
  obtain r1 where r1: "reset_body cfg i (setReqAuth (tc_identity cfg) (tc_url cfg c) (setReqURL (tc_url cfg c) r)) = Inr r1"
      "signRequest (tc_signer cfg) r1 = Inr q"
    using assms(1) by (auto simp: prepare_attempt_def Let_def split: sum.splits)
  from signer_header_onlyD [OF assms(2) r1(2)] have q: "req_Path q = req_Path r1" "req_Body q = req_Body r1" "req_GetBody q = req_GetBody r1"
    by auto
  have h: "req_Header q = req_Header r1" if "tc_signer cfg = None"
    using r1(2) that by (simp add: signRequest_def)
  have "req_Header (setReqAuth (tc_identity cfg) (tc_url cfg c) (setReqURL (tc_url cfg c) r))
      = req_Header (setReqAuth (tc_identity cfg) (tc_url cfg c) r)"
    by (rule setReqAuth_cong) simp
  with r1(1) q h show ?thesis
    by (auto simp: rewritten_def reset_body_def split: if_splits option.splits sum.splits)
qed

lemma seed_request_rewritten:
  assumes "seed_request cfg c r = Inr q" "signer_header_only cfg"
  shows "rewritten cfg False c r q"
proof -
  let ?r = "setReqAuth (tc_identity cfg) (tc_url cfg c) (setReqURL (tc_url cfg c) r)"
  obtain r1 where r1: "r1 = ?r \<and> (req_Body r = None \<or> req_GetBody r = None)
        \<or> (\<exists>s. req_GetBody r = Some (Inr s) \<and> req_Body r \<noteq> None \<and> r1 = ?r\<lparr>req_Body := Some (Unread s)\<rparr>)"
      "signRequest (tc_signer cfg) r1 = Inr q"
    using assms(1) by (auto simp: seed_request_def Let_def split: sum.splits if_splits option.splits)
  from signer_header_onlyD [OF assms(2) r1(2)] have q: "req_Path q = req_Path r1" "req_Body q = req_Body r1" "req_GetBody q = req_GetBody r1"
    by auto
  have h: "req_Header q = req_Header r1" if "tc_signer cfg = None"
    using r1(2) that by (simp add: signRequest_def)
  have "req_Header ?r = req_Header (setReqAuth (tc_identity cfg) (tc_url cfg c) r)"
    by (rule setReqAuth_cong) simp
  with r1(1) q h show ?thesis by (auto simp: rewritten_def)
qed

lemma appendAdaptiveConcurrency_fields [simp]:
  "req_Path (appendAdaptiveConcurrency v r) = req_Path r" "req_Header (appendAdaptiveConcurrency v r) = req_Header r"
  "req_Body (appendAdaptiveConcurrency v r) = req_Body r" "req_GetBody (appendAdaptiveConcurrency v r) = req_GetBody r"
  by (simp_all add: appendAdaptiveConcurrency_def Let_def)

lemma rewritten_adaptive: "rewritten cfg first c (appendAdaptiveConcurrency v r) q \<longleftrightarrow> rewritten cfg first c r q"
  using setReqAuth_cong [of "appendAdaptiveConcurrency v r" r "tc_identity cfg" "tc_url cfg c"]
  by (simp add: rewritten_def)

text \<open>The rule for the requests of a call: an invariant of what was sent and of the request it left.\<close>

lemma stream_loop_sent:
  assumes "stream_loop cfg envs N 0 (stream_init r cl) = (fl, st)" "signer_header_only cfg" "I [] r"
    and step: "\<And>sent r c q. I sent r \<Longrightarrow> rewritten cfg (sent = []) c r q \<Longrightarrow> I (sent @ [(c, q)]) (after_trip_body cfg q)"
  shows "I (ss_sent st) (ss_req st)"
proof (rule stream_loop_rule [where P = "\<lambda>i s. length (ss_sent s) = i \<and> I (ss_sent s) (ss_req s)"
      and Q = "\<lambda>fl s. I (ss_sent s) (ss_req s)", OF _ _ _ _ assms(1)])
  show "0 + N = N" by simp
  show "length (ss_sent (stream_init r cl)) = 0 \<and> I (ss_sent (stream_init r cl)) (ss_req (stream_init r cl))"
    using assms(3) by simp
  fix i s f s'
  assume P: "length (ss_sent s) = i \<and> I (ss_sent s) (ss_req s)" and a: "attempt cfg (envs i) i s = (f, s')"
  from a show "if f = Again then length (ss_sent s') = Suc i \<and> I (ss_sent s') (ss_req s') else I (ss_sent s') (ss_req s')"
  proof (cases rule: attempt_cases)
    case unsent
    then show ?thesis using P by simp
  next
    case (sent hop c q cl')
    have "rewritten cfg (ss_sent s = []) c (ss_req s) q"
      using prepare_attempt_rewritten [OF sent(3) assms(2)] P by (auto simp: rewritten_adaptive split: if_splits)
    with P step have "I (ss_sent s @ [(c, q)]) (after_trip_body cfg q)" by auto
    then show ?thesis using round_trip_sent [OF sent(4)] P by simp
  qed
qed simp

lemma stream_sent:
  assumes "signer_header_only cfg" "\<And>r. prepare_body cfg (start_request cfg req) = Inr r \<Longrightarrow> I [] r"
    and step: "\<And>sent r c q first. I sent r \<Longrightarrow> rewritten cfg first c r q \<Longrightarrow> (first \<Longrightarrow> sent = [])
      \<Longrightarrow> I (sent @ [(c, q)]) (after_trip_body cfg q)"
  shows "ss_sent (stream cfg envs seed_env req cl) = [] \<or> (\<exists>r. I (ss_sent (stream cfg envs seed_env req cl)) r)"
proof (cases rule: stream_cases [of cfg envs seed_env req cl])
  case (loop req' fl)
  have "I (ss_sent (stream cfg envs seed_env req cl)) (ss_req (stream cfg envs seed_env req cl))"
    by (rule stream_loop_sent [where I = I, OF loop(2) assms(1) assms(2) [OF loop(1)]]) (rule step, auto)
  then show ?thesis by blast
next
  case (seed req' fl st p)
  have I: "I (ss_sent st) (ss_req st)"
    by (rule stream_loop_sent [where I = I, OF seed(2) assms(1) assms(2) [OF seed(1)]]) (rule step, auto)
  have "(ss_sent (performSeedFallback cfg seed_env p st) = ss_sent st)
      \<or> (\<exists>c q. seed_request cfg c (ss_req st) = Inr q \<and> ss_sent (performSeedFallback cfg seed_env p st) = ss_sent st @ [(c, q)])"
    by (auto simp: performSeedFallback_def Let_def split: prod.splits sum.splits)
  then show ?thesis
  proof
    assume "\<exists>c q. seed_request cfg c (ss_req st) = Inr q \<and> ss_sent (performSeedFallback cfg seed_env p st) = ss_sent st @ [(c, q)]"
    then obtain c q where "seed_request cfg c (ss_req st) = Inr q"
        and s: "ss_sent (performSeedFallback cfg seed_env p st) = ss_sent st @ [(c, q)]" by blast
    then have "rewritten cfg False c (ss_req st) q" using seed_request_rewritten assms(1) by blast
    from step [OF I this] s seed(5) show ?thesis by auto
  qed (use I seed(5) in auto)
qed simp

section \<open>Retries and the request of the caller\<close>

lemma after_trip_fields [simp]: "req_Path (after_trip_body cfg q) = req_Path q" "req_Header (after_trip_body cfg q) = req_Header q"
  "req_GetBody (after_trip_body cfg q) = req_GetBody q"
  by (simp_all add: after_trip_body_def split: option.splits)

lemma prepare_body_Inr:
  assumes "prepare_body cfg r = Inr r'"
  shows "req_Path r' = req_Path r \<and> (k \<noteq> ''Content-Encoding'' \<longrightarrow> req_Header r' k = req_Header r k)"
proof -
  have "CanonicalHeaderKey ''Content-Encoding'' = ''Content-Encoding''" by code_simp
  then show ?thesis using assms by (auto simp: prepare_body_def header_Set_def split: option.splits if_splits sum.splits)
qed

lemma start_request_fields [simp]: "req_Path (start_request cfg r) = req_Path r" "req_Body (start_request cfg r) = req_Body r"
  "req_GetBody (start_request cfg r) = req_GetBody r"
  by (simp_all add: start_request_def setReqGlobalHeader_def setReqUserAgent_def)

text \<open>The path of a node is put in front of the path of the request on every attempt, in the request that the next
  attempt takes up: behind nodes with a path, the attempt after \<open>k\<close> retries goes to a path with that prefix \<open>k + 1\<close> times.\<close>
theorem retry_prefixes_again:
  assumes "signer_header_only cfg" "\<And>c. base_of (tc_url cfg c) = base"
  shows "let sent = ss_sent (stream cfg envs seed_env req cl) in
    map (\<lambda>(c, q). req_Path q) sent = map (\<lambda>k. concat (replicate (Suc k) base) @ req_Path req) [0..<length sent]"
proof -
  let ?sent = "ss_sent (stream cfg envs seed_env req cl)"
  let ?path = "\<lambda>k. concat (replicate k base) @ req_Path req"
  let ?I = "\<lambda>(s :: (cid \<times> request) list) (r :: request). map (\<lambda>(c, q). req_Path q) s = map (\<lambda>k. ?path (Suc k)) [0..<length s] \<and> req_Path r = ?path (length s)"
  have "?sent = [] \<or> (\<exists>r. ?I ?sent r)"
  proof (rule stream_sent [where I = ?I, OF assms(1)])
    show "?I [] r" if "prepare_body cfg (start_request cfg req) = Inr r" for r
      using prepare_body_Inr [OF that] by simp
    show "?I (s @ [(c, q)]) (after_trip_body cfg q)" if "?I s r" "rewritten cfg first c r q" for s r c q first
      using that assms(2) by (auto simp: rewritten_def)
  qed
  then show ?thesis by auto
qed

text \<open>C20. A request keeps the credentials of the first node: with no signer configured, when the URL of the first node has
  user information and the request has no credentials of its own, every later attempt sends the user and password of that
  node, whichever node it goes to.\<close>
theorem retry_keeps_credentials:
  assumes "tc_signer cfg = None" "req_Header (start_request cfg req) ''Authorization'' = None"
    and "ss_sent (stream cfg envs seed_env req cl) = (c, q) # rest" "u_User (tc_url cfg c) = Some (user, pw)"
  shows "(\<lambda>(c, q). req_Header q ''Authorization'') ` set ((c, q) # rest) =
    {Some [''Basic '' @ base64 (map of_char (user @ '':'' @ pw))]}"
proof -
  let ?auth = "Some [''Basic '' @ base64 (map of_char (user @ '':'' @ pw))]"
  have so: "signer_header_only cfg" using assms(1) by (simp add: signer_header_only_def signRequest_def)
  let ?I = "\<lambda>(s :: (cid \<times> request) list) (r :: request). case s of [] \<Rightarrow> req_Header r ''Authorization'' = None
    | (c', _) # _ \<Rightarrow> c' = c \<longrightarrow> (\<forall>(d, q) \<in> set s. req_Header q ''Authorization'' = ?auth) \<and> req_Header r ''Authorization'' = ?auth"
  have "ss_sent (stream cfg envs seed_env req cl) = [] \<or> (\<exists>r. ?I (ss_sent (stream cfg envs seed_env req cl)) r)"
  proof (rule stream_sent [where I = ?I, OF so])
    show "?I [] r" if "prepare_body cfg (start_request cfg req) = Inr r" for r
      using prepare_body_Inr [OF that, of "''Authorization''"] assms(2) by simp
    show "?I (s @ [(d, q)]) (after_trip_body cfg q)" if "?I s r" "rewritten cfg first d r q" for s r d q first
      using that assms(1,4) by (cases s) (auto simp: rewritten_def setReqAuth_Header)
  qed
  then show ?thesis using assms(3) by auto
qed

text \<open>C18. A retry sends the whole body again. With retries enabled, a signer that changes only headers, a \<^verbatim>\<open>GetBody\<close> that
  is absent or returns the body, and compression off or successful, every attempt, the one over a seed included, carries
  the body of the caller, or its compressed form. With retries disabled this fails
  (\<open>disabled_retry_sends_consumed_body\<close>).\<close>
theorem retry_body_intact:
  assumes "signer_header_only cfg" "\<not> tc_disableRetry cfg" "req_Body req = Some (Unread s)" "req_GetBody req \<in> {None, Some (Inr s)}"
    and "(case tc_compress cfg of None \<Rightarrow> Inr s | Some f \<Rightarrow> f s) = Inr z"
  shows "(\<lambda>(c, q). req_Body q) ` set (ss_sent (stream cfg envs seed_env req cl)) \<subseteq> {Some (Unread z)}"
proof -
  let ?I = "\<lambda>(t :: (cid \<times> request) list) (r :: request). (\<forall>(c, q) \<in> set t. req_Body q = Some (Unread z)) \<and> req_GetBody r = Some (Inr z)
    \<and> req_Body r \<noteq> None \<and> (t = [] \<longrightarrow> req_Body r = Some (Unread z))"
  have "ss_sent (stream cfg envs seed_env req cl) = [] \<or> (\<exists>r. ?I (ss_sent (stream cfg envs seed_env req cl)) r)"
  proof (rule stream_sent [where I = ?I, OF assms(1)])
    show "?I [] r" if "prepare_body cfg (start_request cfg req) = Inr r" for r
      using that assms(2-5) by (auto simp: prepare_body_def body_content_def split: option.splits if_splits)
    show "?I (t @ [(d, q)]) (after_trip_body cfg q)"
      if "?I t r" "rewritten cfg first d r q" "first \<Longrightarrow> t = []" for t r d q first
      using that assms(2) by (auto simp: rewritten_def after_trip_body_def)
  qed
  then show ?thesis by auto
qed

text \<open>Without retries a body that cannot be rebuilt is read once, yet an end of file or a stream reset is retried
  all the same: each request after the first one goes out with the body that the first one consumed.\<close>
theorem disabled_retry_sends_consumed_body:
  assumes "signer_header_only cfg" "tc_disableRetry cfg" "\<not> tc_logBody cfg" "tc_compress cfg = None"
    and "req_Body req = Some b" "req_GetBody req = None"
  shows "(\<lambda>(c, q). req_Body q) ` set (tl (ss_sent (stream cfg envs seed_env req cl))) \<subseteq> {Some Closed}"
proof -
  let ?I = "\<lambda>(t :: (cid \<times> request) list) (r :: request). (\<forall>(c, q) \<in> set (tl t). req_Body q = Some Closed) \<and> req_GetBody r = None
    \<and> req_Body r \<noteq> None \<and> (t \<noteq> [] \<longrightarrow> req_Body r = Some Closed)"
  have "ss_sent (stream cfg envs seed_env req cl) = [] \<or> (\<exists>r. ?I (ss_sent (stream cfg envs seed_env req cl)) r)"
  proof (rule stream_sent [where I = ?I, OF assms(1)])
    show "?I [] r" if "prepare_body cfg (start_request cfg req) = Inr r" for r
      using that assms(2-6) by (auto simp: prepare_body_def split: option.splits if_splits)
    show "?I (t @ [(d, q)]) (after_trip_body cfg q)" if "?I t r" "rewritten cfg first d r q" for t r d q first
      using that assms(2,3) by (cases t) (auto simp: rewritten_def after_trip_body_def)
  qed
  then show ?thesis by auto
qed

section \<open>A client with one node\<close>

definition sample_url :: "cid \<Rightarrow> url" where
  "sample_url c = \<lparr>u_Scheme = ''https'', u_Host = ''node'', u_Path = ''/os/'', u_User = Some (''u'', ''p'')\<rparr>"

definition sample_config :: "bool \<Rightarrow> int \<Rightarrow> transport_config" where
  "sample_config disabled retries =
     \<lparr>tc_identity = \<lparr>username = [], password = [], userAgent = ''go'', global_header = []\<rparr>, tc_signer = None, tc_router = None,
      tc_url = sample_url, tc_maxRetries = retries, tc_disableRetry = disabled, tc_enableRetryOnTimeout = False,
      tc_retryOnStatus = [502, 503, 504], tc_retryBackoff = False, tc_compress = None, tc_logBody = False,
      tc_seedFallbackDisabled = True, tc_healthCheck = False, tc_resurrectTimeoutInitial = 5\<rparr>"

definition sample_client :: client where
  "sample_client =
     \<lparr>cl_sys = sample_sys\<lparr>sys_heap := (\<lambda>c. (sample_heap c)\<lparr>seed := True\<rparr>)\<rparr>, cl_pool = singleServerPool (Some 1), cl_seed = None,
      cl_catRefreshNeeded = False, cl_discoveryNeeded = False, cl_requests = 0, cl_failures = 0, cl_proactive = [],
      cl_lastAt = (\<lambda>_. 0)\<rparr>"

text \<open>A network that closes every connection.\<close>

definition eof_env :: attempt_env where
  "eof_env =
     \<lparr>ae_eval = sample_eval_env, ae_env = (\<lambda>w. w), ae_rnd = (\<lambda>i. i), ae_lockFree = True, ae_srt = (\<lambda>_ cs. cs), ae_now = 9,
      ae_reply = (\<lambda>_. Inl \<lparr>te_stream = False, te_eof = True, te_net = None\<rparr>), ae_meanwhile = (\<lambda>cl. cl), ae_poolLock = True,
      ae_checkRLock = True, ae_checkLock = True, ae_lastAt = None, ae_done = False\<rparr>"

definition sample_body :: request where
  "sample_body = sample_request\<lparr>req_Method := ''POST'', req_Body := Some (Unread ''{}'')\<rparr>"

lemmas sample_defs = sample_config_def sample_client_def eof_env_def sample_body_def sample_request_def sample_url_def

lemma sample_signer: "signer_header_only (sample_config b n)"
  by (simp add: signer_header_only_def signRequest_def sample_config_def)

lemma sample_base: "base_of (sample_url c) = ''/os''"
  by (simp add: base_of_trim sample_url_def)

lemma sample_seed: "availableForRouting (sys_heap (cl_sys sample_client) 1)"
  by (simp add: availableForRouting_def sample_client_def)

text \<open>An attempt that meets an end of file on the only node is followed by another one.\<close>

definition on_one_node :: "stream_state \<Rightarrow> bool" where
  "on_one_node st \<longleftrightarrow> cl_pool (ss_client st) = singleServerPool (Some 1) \<and> seed (sys_heap (cl_sys (ss_client st)) 1)"

lemma sample_attempt:
  assumes "on_one_node st" "b \<or> req_GetBody (ss_req st) = Some (Inr s)"
  shows "\<exists>q st'. attempt (sample_config b n) eof_env i st = (Again, st') \<and> on_one_node st'
    \<and> ss_sent st' = ss_sent st @ [(1, q)] \<and> req_GetBody (ss_req st') = req_GetBody (ss_req st)"
proof -
  let ?cfg = "sample_config b n"
  have g: "get_connection ?cfg eof_env (ss_req st) (ss_client st) = (Inr (no_hop\<lparr>nh_Conn := Some 1\<rparr>), ss_client st)"
    using assms(1) by (simp add: get_connection_def on_one_node_def single_Next_def availableForRouting_def sample_config_def)
  have sig: "tc_signer ?cfg = None" "tc_disableRetry ?cfg = b" by (simp_all add: sample_config_def)
  have "\<exists>r1. reset_body ?cfg i (setReqAuth (tc_identity ?cfg) (tc_url ?cfg 1) (setReqURL (tc_url ?cfg 1) (ss_req st))) = Inr r1"
    using assms(2) by (auto simp: reset_body_def sig)
  then obtain r1 where "reset_body ?cfg i (setReqAuth (tc_identity ?cfg) (tc_url ?cfg 1) (setReqURL (tc_url ?cfg 1) (ss_req st))) = Inr r1"
    by blast
  then have q: "prepare_attempt ?cfg i 1 (ss_req st) = Inr r1"
    by (simp add: prepare_attempt_def signRequest_def sig Let_def)
  have "req_GetBody r1 = req_GetBody (ss_req st)"
    using prepare_attempt_rewritten [OF q sample_signer] by (simp add: rewritten_def)
  moreover have "\<exists>st'. round_trip ?cfg eof_env i [] 1 r1 st = (Again, st') \<and> on_one_node st'"
    using assms(1) by (simp add: round_trip_def Let_def finish_attempt_def retryable_error_def eof_env_def sample_config_def
        on_one_node_def count_pools_def on_trip_error_def report_failure_def flag_cat_update_def upd_client_def)
  ultimately show ?thesis
    using g q round_trip_sent [of ?cfg eof_env i "[]" 1 r1 st] by (auto simp: attempt_def no_hop_def)
qed

lemma sample_two_sent:
  "\<exists>p q. ss_sent (stream (sample_config b 1) (\<lambda>_. eof_env) eof_env sample_body sample_client) = [(1, p), (1, q)]"
proof -
  let ?cfg = "sample_config b 1"
  obtain r where r: "prepare_body ?cfg (start_request ?cfg sample_body) = Inr r" "b \<or> req_GetBody r = Some (Inr ''{}'')"
    by (cases b) (auto simp: prepare_body_def sample_config_def sample_body_def sample_request_def body_content_def)
  have one: "on_one_node (stream_init r sample_client)" by (simp add: on_one_node_def stream_init_def sample_client_def)
  obtain p s1 where s1: "attempt ?cfg eof_env 0 (stream_init r sample_client) = (Again, s1)" "on_one_node s1"
      "ss_sent s1 = [(1, p)]" "req_GetBody (ss_req s1) = req_GetBody r"
    using sample_attempt [OF one, of b "''{}''" 1 0] r(2) by auto
  obtain q s2 where s2: "attempt ?cfg eof_env 1 s1 = (Again, s2)" "ss_sent s2 = [(1, p), (1, q)]"
    using sample_attempt [OF s1(2), of b "''{}''" 1 1] r(2) s1(3,4) by auto
  have "nat (tc_maxRetries ?cfg + 1) = Suc (Suc 0)" by (simp add: sample_config_def)
  then have "stream_loop ?cfg (\<lambda>_. eof_env) (nat (tc_maxRetries ?cfg + 1)) 0 (stream_init r sample_client) = (Again, s2)"
    using s1(1) s2(1) by simp
  then have "stream ?cfg (\<lambda>_. eof_env) eof_env sample_body sample_client = s2"
    using r(1) by (simp add: stream_def sample_config_def split: option.splits)
  with s2(2) show ?thesis by auto
qed

abbreviation sample_run :: "bool \<Rightarrow> stream_state" where
  "sample_run b \<equiv> stream (sample_config b 1) (\<lambda>_. eof_env) eof_env sample_body sample_client"

theorem stream_result_witness:
  "(\<exists>res. ss_res (sample_run True) = Some res) \<or> (\<exists>e. ss_err (sample_run True) = Some e)"
  using stream_result [of "sample_config True 1" "\<lambda>_. eof_env" eof_env sample_body sample_client]
  by (auto simp: sample_config_def split: option.splits)

theorem negative_retries_return_nothing_witness:
  "ss_res (stream (sample_config False (-1)) (\<lambda>_. eof_env) eof_env sample_body sample_client) = None
    \<and> ss_err (stream (sample_config False (-1)) (\<lambda>_. eof_env) eof_env sample_body sample_client) = None"
  using negative_retries_return_nothing [of "sample_config False (-1)" "\<lambda>_. eof_env" eof_env sample_body sample_client]
  by (simp add: sample_config_def)

theorem retry_prefixes_again_witness:
  "map (\<lambda>(c, q). req_Path q) (ss_sent (sample_run False)) = [''/os/i/_search'', ''/os/os/i/_search'']"
proof -
  have "base_of (tc_url (sample_config False 1) c) = ''/os''" for c using sample_base by (simp add: sample_config_def)
  from retry_prefixes_again [OF sample_signer this, of "\<lambda>_. eof_env" eof_env sample_body sample_client]
  show ?thesis using sample_two_sent [of False]
    by (auto simp: sample_body_def sample_request_def upt_rec)
qed

theorem retry_keeps_credentials_witness:
  "(\<lambda>(c, q). req_Header q ''Authorization'') ` set (ss_sent (sample_run False)) = {Some [''Basic dTpw'']}"
proof -
  have no: "req_Header (start_request (sample_config False 1) sample_body) ''Authorization'' = None" by code_simp
  have user: "u_User (tc_url (sample_config False 1) 1) = Some (''u'', ''p'')" "tc_signer (sample_config False 1) = None"
    by (simp_all add: sample_config_def sample_url_def)
  have b: "''Basic '' @ base64 (map of_char (''u'' @ '':'' @ ''p'')) = ''Basic dTpw''" by code_simp
  obtain p q where s: "ss_sent (sample_run False) = [(1, p), (1, q)]" using sample_two_sent by blast
  from retry_keeps_credentials [OF user(2) no s user(1)] show ?thesis by (simp only: s b)
qed

theorem retry_body_intact_witness:
  "map (\<lambda>(c, q). req_Body q) (ss_sent (sample_run False)) = [Some (Unread ''{}''), Some (Unread ''{}'')]"
proof -
  have h: "\<not> tc_disableRetry (sample_config False 1)" "req_Body sample_body = Some (Unread ''{}'')"
    "req_GetBody sample_body \<in> {None, Some (Inr ''{}'')}"
    "(case tc_compress (sample_config False 1) of None \<Rightarrow> Inr ''{}'' | Some f \<Rightarrow> f ''{}'') = Inr ''{}''"
    by (simp_all add: sample_config_def sample_body_def sample_request_def)
  from retry_body_intact [OF sample_signer h, of "\<lambda>_. eof_env" eof_env sample_client] sample_two_sent [of False]
  show ?thesis by auto
qed

theorem disabled_retry_sends_consumed_body_witness:
  "\<exists>p q. ss_sent (sample_run True) = [(1, p), (1, q)] \<and> req_Body q = Some Closed"
proof -
  have h: "tc_disableRetry (sample_config True 1)" "\<not> tc_logBody (sample_config True 1)" "tc_compress (sample_config True 1) = None"
    "req_Body sample_body = Some (Unread ''{}'')" "req_GetBody sample_body = None"
    by (simp_all add: sample_config_def sample_body_def sample_request_def)
  from disabled_retry_sends_consumed_body [OF sample_signer h, of "\<lambda>_. eof_env" eof_env sample_client] sample_two_sent [of True]
  show ?thesis by auto
qed

end
