(* ===== verification/Health_Check.thy ===== *)
theory Health_Check
  imports Transport
begin

text \<open>
  Health checks (\<^verbatim>\<open>DefaultHealthCheck\<close> and the checks it chooses from, in \<^verbatim>\<open>opensearchtransport.go\<close>) and the retries
  around them. A check works on a connection and on what the client keeps of its cluster health.

  The network is a function from the request to its answer, and the decoders of \<^verbatim>\<open>encoding/json\<close> for the three
  response types are functions of the environment; a body is \<open>None\<close> when it is nil and fails or gives its content.
  Requests with a constant path can always be built.
\<close>

unbundle bit_operations_syntax

section \<open>Definitions\<close>

record ClusterHealthLocal =
  chl_ClusterName :: string
  chl_Status :: string
  chl_TimedOut :: bool
  chl_NumberOfNodes :: int
  chl_NumberOfDataNodes :: int
  chl_ActivePrimaryShards :: int
  chl_ActiveShards :: int
  chl_RelocatingShards :: int
  chl_InitializingShards :: int
  chl_UnassignedShards :: int

record OpenSearchInfo =
  info_Name :: string
  info_ClusterName :: string
  info_VersionNumber :: string

record nodeInfoThreadPool =
  tp_Size :: int
  tp_Max :: int

text \<open>The part of \<^verbatim>\<open>nodeInfo\<close> that the hardware check reads; a map is a list in the order of its enumeration.\<close>

record node_hardware =
  ni_AllocatedProcessors :: "int option"
  ni_ThreadPool :: "(string \<times> nodeInfoThreadPool) list"

record health_response =
  hr_StatusCode :: int
  hr_Body :: "(string + string) option"

record health_info =
  clusterHealth :: "ClusterHealthLocal option"
  clusterHealthCheckedAt :: "int option"
  lastBreakerTripped :: "string \<rightharpoonup> int"

record health_env =
  he_identity :: transport_identity
  he_signer :: "signer option"
  he_modifier :: "(request \<Rightarrow> request) option"
  he_reply :: "request \<Rightarrow> trip_error + health_response option"
  he_info :: "string \<Rightarrow> OpenSearchInfo option"
  he_nodes :: "string \<Rightarrow> node_hardware list option"
  he_health :: "string \<Rightarrow> ClusterHealthLocal option"
  he_marshal :: "ClusterHealthLocal \<Rightarrow> string"
  he_now :: int
  he_clusterHealthEnabled :: bool
  he_maxRetryClusterHealth :: int
  he_jitteredInterval :: int

record health_state =
  hs_conn :: connection
  hs_info :: health_info
  hs_poolInfoReady :: bool

datatype health_error =
    PrepareFailed string
  | RoundTripFailed trip_error
  | NilResponse
  | BadStatus int
  | NilBody
  | ReadFailed string
  | BadJSON
  | InvalidStructure
  | InitializingShardsLeft int

text \<open>A response handed to the caller: its status and the content of its body.\<close>

type_synonym check_result = "health_error + int \<times> string"

definition get_request :: "string \<Rightarrow> string \<Rightarrow> request" where
  "get_request path query = \<lparr>req_Method = ''GET'', req_Scheme = [], req_Host = [], req_Path = path, req_RawPath = [],
     req_RawQuery = query, req_Header = Map.empty, req_Body = None, req_GetBody = None, req_ContentLength = 0\<rparr>"

definition internal_get :: "health_env \<Rightarrow> url \<Rightarrow> string \<Rightarrow> string \<Rightarrow> health_error + health_response" where
  "internal_get env u path query =
     (case prepareInternalRequest (he_identity env) (he_signer env) u (he_modifier env) (get_request path query) of
        Inl e \<Rightarrow> Inl (PrepareFailed e)
      | Inr req \<Rightarrow>
          (case he_reply env req of
             Inl e \<Rightarrow> Inl (RoundTripFailed e)
           | Inr None \<Rightarrow> Inl NilResponse
           | Inr (Some res) \<Rightarrow> Inr res))"

definition read_body :: "health_response \<Rightarrow> health_error + string" where
  "read_body res = (case hr_Body res of
     None \<Rightarrow> Inl NilBody | Some (Inl e) \<Rightarrow> Inl (ReadFailed e) | Some (Inr s) \<Rightarrow> Inr s)"

definition baselineHealthCheck :: "health_env \<Rightarrow> url \<Rightarrow> check_result" where
  "baselineHealthCheck env u =
     (case internal_get env u ''/'' [] of
        Inl e \<Rightarrow> Inl e
      | Inr res \<Rightarrow>
          if hr_StatusCode res \<noteq> 200 then Inl (BadStatus (hr_StatusCode res))
          else case read_body res of
                 Inl e \<Rightarrow> Inl e
               | Inr content \<Rightarrow>
                   (case he_info env content of
                      None \<Rightarrow> Inl BadJSON
                    | Some info \<Rightarrow>
                        if info_Name info = [] \<or> info_ClusterName info = [] \<or> info_VersionNumber info = []
                        then Inl InvalidStructure else Inr (200, content)))"

definition storeThreadPoolSizes :: "(string \<times> nodeInfoThreadPool) list \<Rightarrow> connection \<Rightarrow> connection" where
  "storeThreadPoolSizes tps c =
     fold (\<lambda>(name, tp) c.
       let sz = (if tp_Size tp \<le> 0 \<and> tp_Max tp > 0 then tp_Max tp else tp_Size tp)
       in if sz > 0 then c\<lparr>pools := storeMaxCwnd (pools c) name sz\<rparr> else c) tps c"

definition hs_upd :: "(connection \<Rightarrow> connection) \<Rightarrow> health_state \<Rightarrow> health_state" where
  "hs_upd f s = s\<lparr>hs_conn := f (hs_conn s)\<rparr>"

definition store_hardware :: "node_hardware \<Rightarrow> health_state \<Rightarrow> health_state" where
  "store_hardware node s =
     (let s = (case ni_AllocatedProcessors node of
                 Some n \<Rightarrow> if n > 0 then hs_upd (storeAllocatedProcessors n) s else s
               | None \<Rightarrow> s)
      in if ni_ThreadPool node \<noteq> [] then (hs_upd (storeThreadPoolSizes (ni_ThreadPool node)) s)\<lparr>hs_poolInfoReady := True\<rparr>
         else s)"

definition clear_needs_hardware :: "health_state \<Rightarrow> health_state" where
  "clear_needs_hardware = hs_upd (upd_lc 0 lcNeedsHardware)"

definition hardwareInfoHealthCheck :: "health_env \<Rightarrow> url \<Rightarrow> health_state \<Rightarrow> check_result \<times> health_state" where
  "hardwareInfoHealthCheck env u s =
     (case internal_get env u ''/_nodes/_local/http,os,thread_pool'' [] of
        Inl e \<Rightarrow> (Inl e, s)
      | Inr res \<Rightarrow>
          if hr_StatusCode res \<noteq> 200 then (baselineHealthCheck env u, clear_needs_hardware s)
          else case read_body res of
                 Inl e \<Rightarrow> (Inl e, s)
               | Inr content \<Rightarrow>
                   (case he_nodes env content of
                      None \<Rightarrow> (Inr (200, content), clear_needs_hardware s)
                    | Some nodes \<Rightarrow>
                        (Inr (200, content),
                         clear_needs_hardware (case nodes of [] \<Rightarrow> s | node # _ \<Rightarrow> store_hardware node s))))"

definition fetchClusterHealth :: "health_env \<Rightarrow> url \<Rightarrow> health_error + ClusterHealthLocal option \<times> int" where
  "fetchClusterHealth env u =
     (case internal_get env u ''/_cluster/health'' ''local=true'' of
        Inl e \<Rightarrow> Inl e
      | Inr res \<Rightarrow>
          if hr_StatusCode res \<noteq> 200 then Inr (None, hr_StatusCode res)
          else case read_body res of
                 Inl e \<Rightarrow> Inl e
               | Inr content \<Rightarrow>
                   (case he_health env content of None \<Rightarrow> Inl BadJSON | Some health \<Rightarrow> Inr (Some health, 200)))"

definition storeClusterHealth :: "int \<Rightarrow> ClusterHealthLocal \<Rightarrow> health_state \<Rightarrow> health_state" where
  "storeClusterHealth now health s =
     s\<lparr>hs_info := (hs_info s)\<lparr>clusterHealth := Some health, clusterHealthCheckedAt := Some now\<rparr>\<rparr>"

definition resetClusterHealth :: "health_state \<Rightarrow> health_state" where
  "resetClusterHealth s =
     hs_upd (\<lambda>c. upd_lc 0 lcClusterHealthAvailable (upd_lc 0 lcClusterHealthProbed c))
       (s\<lparr>hs_info := (hs_info s)\<lparr>clusterHealth := None, clusterHealthCheckedAt := None\<rparr>\<rparr>)"

definition mark_available :: "int \<Rightarrow> ClusterHealthLocal \<Rightarrow> health_state \<Rightarrow> health_state" where
  "mark_available now health s =
     hs_upd (upd_lc (lcClusterHealthProbed OR lcClusterHealthAvailable) 0) (storeClusterHealth now health s)"

definition clusterHealthCheck :: "health_env \<Rightarrow> url \<Rightarrow> health_state \<Rightarrow> check_result \<times> health_state" where
  "clusterHealthCheck env u s =
     (case fetchClusterHealth env u of
        Inl _ \<Rightarrow> (baselineHealthCheck env u, s)
      | Inr (Some health, _) \<Rightarrow>
          ((if chl_InitializingShards health > 0 then Inl (InitializingShardsLeft (chl_InitializingShards health))
            else Inr (200, he_marshal env health)),
           mark_available (he_now env) health s)
      | Inr (None, statusCode) \<Rightarrow>
          if statusCode = 401 \<or> statusCode = 403 then (baselineHealthCheck env u, resetClusterHealth s)
          else (baselineHealthCheck env u, s))"

definition probeClusterHealthLocal :: "health_env \<Rightarrow> url \<Rightarrow> health_state \<Rightarrow> health_state" where
  "probeClusterHealthLocal env u s =
     (case fetchClusterHealth env u of
        Inl _ \<Rightarrow> s
      | Inr (Some health, _) \<Rightarrow> mark_available (he_now env) health s
      | Inr (None, statusCode) \<Rightarrow>
          if statusCode = 401 \<or> statusCode = 403
          then hs_upd (\<lambda>c. upd_lc 0 lcClusterHealthAvailable (upd_lc lcClusterHealthProbed 0 c))
                 (s\<lparr>hs_info := (hs_info s)\<lparr>clusterHealthCheckedAt := Some (he_now env)\<rparr>\<rparr>)
          else s)"

definition refreshClusterHealth :: "health_env \<Rightarrow> url \<Rightarrow> health_state \<Rightarrow> health_state" where
  "refreshClusterHealth env u s =
     (case fetchClusterHealth env u of
        Inl _ \<Rightarrow> s
      | Inr (Some health, _) \<Rightarrow> mark_available (he_now env) health s
      | Inr (None, statusCode) \<Rightarrow> if statusCode = 401 \<or> statusCode = 403 then resetClusterHealth s else s)"

text \<open>Whether a successful baseline check launches a probe.\<close>

definition launches_probe :: "health_env \<Rightarrow> health_state \<Rightarrow> bool" where
  "launches_probe env s =
     (let st = state (hs_conn s) in
      if \<not> he_clusterHealthEnabled env then False
      else if clusterHealthPending st then True
      else if clusterHealthUnavailable st \<and> he_maxRetryClusterHealth env > 0 then
        (case clusterHealthCheckedAt (hs_info s) of
           None \<Rightarrow> False | Some t \<Rightarrow> he_now env - t > he_jitteredInterval env)
      else False)"

text \<open>The result of the check, whether it launched a probe, and the state.\<close>

definition DefaultHealthCheck :: "health_env \<Rightarrow> url \<Rightarrow> health_state \<Rightarrow> check_result \<times> bool \<times> health_state" where
  "DefaultHealthCheck env u s =
     (if lc_has (lc_of (hs_conn s)) lcNeedsHardware
      then let (r, s') = hardwareInfoHealthCheck env u s in (r, False, s')
      else if hasClusterHealth (state (hs_conn s))
      then let (r, s') = clusterHealthCheck env u s in (r, False, s')
      else case baselineHealthCheck env u of
             Inl e \<Rightarrow> (Inl e, False, s)
           | Inr res \<Rightarrow> (Inr res, launches_probe env s, s))"

section \<open>Retries\<close>

definition i64 :: "int \<Rightarrow> int" where
  "i64 x = sint (word_of_int x :: 64 word)"

text \<open>The pause after an attempt; \<open>jitter\<close> is the random change of the delay, the identity without jitter.\<close>

definition backoff_delay :: "(int \<Rightarrow> int) \<Rightarrow> int \<Rightarrow> nat \<Rightarrow> int" where
  "backoff_delay jitter baseDelay n = jitter (i64 (baseDelay * 2 ^ min n 30))"

text \<open>The loop of \<^verbatim>\<open>backoffRetry\<close>, with the pauses it makes; \<open>fn\<close> gets the number of the attempt.\<close>

fun backoff_loop :: "(int \<Rightarrow> int) \<Rightarrow> int \<Rightarrow> nat \<Rightarrow> nat \<Rightarrow> (nat \<Rightarrow> 's \<Rightarrow> 'e option \<times> 's) \<Rightarrow> 's \<Rightarrow> 'e option \<times> int list \<times> 's" where
  "backoff_loop jitter baseDelay 0 n fn s = (None, [], s)"
| "backoff_loop jitter baseDelay (Suc left) n fn s =
     (case fn n s of
        (None, s) \<Rightarrow> (None, [], s)
      | (Some e, s) \<Rightarrow>
          if left = 0 then (Some e, [], s)
          else let (r, ds, s) = backoff_loop jitter baseDelay left (Suc n) fn s
               in (r, (if baseDelay > 0 then backoff_delay jitter baseDelay n # ds else ds), s))"

definition backoffRetry :: "(int \<Rightarrow> int) \<Rightarrow> int \<Rightarrow> int \<Rightarrow> (nat \<Rightarrow> 's \<Rightarrow> 'e option \<times> 's) \<Rightarrow> 's \<Rightarrow> 'e option \<times> int list \<times> 's" where
  "backoffRetry jitter baseDelay maxRetries fn s =
     (if maxRetries \<le> 0 then let (r, s) = fn 0 s in (r, [], s)
      else backoff_loop jitter baseDelay (nat maxRetries) 0 fn s)"

definition defaultHealthCheckTimeout :: int where "defaultHealthCheckTimeout = 5 * 1000000000"

text \<open>The round trip time of the attempt that succeeds is the last one that is written.\<close>

definition healthCheckWithRetries :: "(int \<Rightarrow> int) \<Rightarrow> int \<Rightarrow> (nat \<Rightarrow> health_env) \<Rightarrow> (nat \<Rightarrow> int) \<Rightarrow> url \<Rightarrow> int \<Rightarrow> health_state \<Rightarrow> bool \<times> health_state" where
  "healthCheckWithRetries jitter healthCheckTimeout envs elapsed u maxRetries s =
     (let baseDelay = healthCheckTimeout sdiv 2;
          baseDelay = (if baseDelay \<le> 0 then defaultHealthCheckTimeout sdiv 2 else baseDelay);
          fn = (\<lambda>n (s, lastRTT). case DefaultHealthCheck (envs n) u s of
                  (Inl e, _, s) \<Rightarrow> (Some e, s, lastRTT)
                | (Inr _, _, s) \<Rightarrow> (None, s, elapsed n));
          (err, _, s, lastRTT) = backoffRetry jitter baseDelay maxRetries fn (s, 0)
      in case err of
           Some _ \<Rightarrow> (False, s)
         | None \<Rightarrow> (True, hs_upd (\<lambda>c. markAsHealthy (case rttRing_add lastRTT (rtt c) of Inr r \<Rightarrow> c\<lparr>rtt := r\<rparr> | Inl _ \<Rightarrow> c)) s))"

section \<open>What a check changes\<close>

lemma hs_upd_simps [simp]: "hs_conn (hs_upd f s) = f (hs_conn s)" "hs_info (hs_upd f s) = hs_info s"
  "hs_poolInfoReady (hs_upd f s) = hs_poolInfoReady s"
  by (simp_all add: hs_upd_def)

lemma bit_lc_upd: "bit (lc_of (upd_lc st clr c)) n \<longleftrightarrow> n < 13 \<and> (bit (lc_of c) n \<or> bit st n) \<and> \<not> bit clr n"
  by (simp add: lc_of_def upd_lc_def bit_updLifecycle)

lemma bit_lc_width: "bit (lc_of c) n \<Longrightarrow> n < 13"
  using bit_lc_upd [of 0 0 c n] by (simp add: lc_of_def upd_lc_def casLifecycle_eq Let_def)

text \<open>Two connections that differ only in what a check may write.\<close>

definition check_bits :: "nat set" where "check_bits = {8, 10, 11}"

definition same_but_checked :: "connection \<Rightarrow> connection \<Rightarrow> bool" where
  "same_but_checked c d \<longleftrightarrow>
     d\<lparr>allocatedProcessors := allocatedProcessors c, pools := pools c, state := state c\<rparr> = c
     \<and> {n. bit (lc_of c) n} - check_bits = {n. bit (lc_of d) n} - check_bits"

lemma same_refl [intro]: "same_but_checked c c"
  by (simp add: same_but_checked_def)

lemma same_trans: "same_but_checked a b \<Longrightarrow> same_but_checked b c \<Longrightarrow> same_but_checked a c"
  by (cases a; cases b; cases c) (auto simp: same_but_checked_def)

lemma same_upd_lc:
  assumes "{n. bit st n} \<subseteq> check_bits" "{n. bit clr n} \<subseteq> check_bits"
  shows "same_but_checked c (upd_lc st clr c)"
proof -
  have "bit (lc_of (upd_lc st clr c)) n \<longleftrightarrow> bit (lc_of c) n" if "n \<notin> check_bits" for n
    using that assms bit_lc_width [of c n] by (auto simp: bit_lc_upd)
  then show ?thesis by (auto simp: same_but_checked_def upd_lc_def)
qed

lemma same_flags:
  "same_but_checked c (upd_lc 0 lcNeedsHardware c)" "same_but_checked c (upd_lc 0 lcClusterHealthProbed c)"
  "same_but_checked c (upd_lc 0 lcClusterHealthAvailable c)" "same_but_checked c (upd_lc lcClusterHealthProbed 0 c)"
  "same_but_checked c (upd_lc (lcClusterHealthProbed OR lcClusterHealthAvailable) 0 c)"
  by (rule same_upd_lc; auto simp: check_bits_def bit_flags bit_or_iff)+

lemma lc_of_update [simp]: "lc_of (c\<lparr>pools := r\<rparr>) = lc_of c" "lc_of (c\<lparr>allocatedProcessors := n\<rparr>) = lc_of c"
  by (simp_all add: lc_of_def)

lemma storeThreadPoolSizes_pools: "\<exists>r. storeThreadPoolSizes tps c = c\<lparr>pools := r\<rparr>"
proof (induction tps arbitrary: c)
  case Nil
  show ?case by (rule exI [of _ "pools c"]) (simp add: storeThreadPoolSizes_def)
next
  case (Cons e tps)
  define f where "f = (\<lambda>(name, tp :: nodeInfoThreadPool) c. let sz = (if tp_Size tp \<le> 0 \<and> tp_Max tp > 0 then tp_Max tp else tp_Size tp)
       in if sz > 0 then c\<lparr>pools := storeMaxCwnd (pools c) name sz\<rparr> else (c :: connection))"
  have "f e c = c\<lparr>pools := pools (f e c)\<rparr>" by (simp add: f_def Let_def split: prod.splits)
  then obtain r where r: "f e c = c\<lparr>pools := r\<rparr>" by blast
  have "storeThreadPoolSizes (e # tps) c = storeThreadPoolSizes tps (c\<lparr>pools := r\<rparr>)"
    unfolding storeThreadPoolSizes_def f_def [symmetric] by (simp only: fold_Cons o_apply r)
  moreover obtain r' where "storeThreadPoolSizes tps (c\<lparr>pools := r\<rparr>) = c\<lparr>pools := r\<rparr>\<lparr>pools := r'\<rparr>" using Cons by blast
  ultimately show ?case by auto
qed

lemma storeThreadPoolSizes_lc [simp]: "lc_of (storeThreadPoolSizes tps c) = lc_of c"
  using storeThreadPoolSizes_pools [of tps c] by auto

lemma same_hardware: "same_but_checked c (storeAllocatedProcessors n c)" "same_but_checked c (storeThreadPoolSizes tps c)"
  using storeThreadPoolSizes_pools [of tps c] by (auto simp: same_but_checked_def storeAllocatedProcessors_def)

lemma checks_keep:
  "same_but_checked (hs_conn s) (hs_conn (clear_needs_hardware s))"
  "same_but_checked (hs_conn s) (hs_conn (store_hardware node s))"
  "same_but_checked (hs_conn s) (hs_conn (mark_available now health s))"
  "same_but_checked (hs_conn s) (hs_conn (resetClusterHealth s))"
  "same_but_checked (hs_conn s) (hs_conn (probeClusterHealthLocal env u s))"
proof -
  show clear: "same_but_checked (hs_conn s) (hs_conn (clear_needs_hardware s))" by (simp add: clear_needs_hardware_def same_flags)
  show "same_but_checked (hs_conn s) (hs_conn (store_hardware node s))"
    by (auto simp: store_hardware_def Let_def split: option.splits intro: same_hardware same_trans [OF same_hardware(1) same_hardware(2)])
  show avail: "same_but_checked (hs_conn s) (hs_conn (mark_available now health s))" for now health
    by (simp add: mark_available_def storeClusterHealth_def same_flags)
  show "same_but_checked (hs_conn s) (hs_conn (resetClusterHealth s))"
    by (simp add: resetClusterHealth_def) (rule same_trans [OF same_flags(2) same_flags(3)])
  show "same_but_checked (hs_conn s) (hs_conn (probeClusterHealthLocal env u s))"
    using avail by (auto simp: probeClusterHealthLocal_def intro: same_trans [OF same_flags(4) same_flags(3)] split: sum.splits option.splits prod.splits)
qed

text \<open>A health check, and the probe it may launch, write nothing of a connection but its processor count, its pool
  sizes and the three flags of hardware and cluster health: in particular the check by itself does not move a
  connection between the lists of a pool, whatever the node answers.\<close>
theorem health_check_frame:
  "same_but_checked (hs_conn s) (hs_conn (snd (snd (DefaultHealthCheck env u s))))
    \<and> same_but_checked (hs_conn s) (hs_conn (probeClusterHealthLocal env u s))
    \<and> same_but_checked (hs_conn s) (hs_conn (refreshClusterHealth env u s))"
proof (intro conjI)
  have hw: "same_but_checked (hs_conn s) (hs_conn (snd (hardwareInfoHealthCheck env u s)))"
    using same_trans [OF checks_keep(2) checks_keep(1)]
    by (auto simp: hardwareInfoHealthCheck_def checks_keep split: sum.splits option.splits list.splits)
  have "same_but_checked (hs_conn s) (hs_conn (snd (clusterHealthCheck env u s)))"
    by (auto simp: clusterHealthCheck_def checks_keep split: sum.splits option.splits prod.splits)
  with hw show "same_but_checked (hs_conn s) (hs_conn (snd (snd (DefaultHealthCheck env u s))))"
    by (auto simp: DefaultHealthCheck_def Let_def split: prod.splits sum.splits)
  show "same_but_checked (hs_conn s) (hs_conn (refreshClusterHealth env u s))"
    by (auto simp: refreshClusterHealth_def checks_keep split: sum.splits option.splits prod.splits)
qed (rule checks_keep)

section \<open>Cluster health of a connection\<close>

text \<open>The flags say what is known: available data is there, and a connection that was probed has the time of the probe.\<close>

definition health_inv :: "health_state \<Rightarrow> bool" where
  "health_inv s \<longleftrightarrow>
     (let lc = lc_of (hs_conn s) in
      (lc_has lc lcClusterHealthAvailable \<longrightarrow> lc_has lc lcClusterHealthProbed \<and> clusterHealth (hs_info s) \<noteq> None)
      \<and> (lc_has lc lcClusterHealthProbed \<longrightarrow> clusterHealthCheckedAt (hs_info s) \<noteq> None))"

lemma health_inv_writes:
  "health_inv s \<Longrightarrow> health_inv (clear_needs_hardware s)"
  "health_inv s \<Longrightarrow> health_inv (store_hardware node s)"
  "health_inv (mark_available now health s)" "health_inv (resetClusterHealth s)"
  by (auto simp: health_inv_def store_hardware_def storeAllocatedProcessors_def clear_needs_hardware_def mark_available_def
      storeClusterHealth_def resetClusterHealth_def bit_lc_upd bit_flags bit_or_iff Let_def split: option.splits)

text \<open>C24. Every check, probe and refresh keeps the invariant: the data that the overload test reads is there whenever
  the connection is marked as having it.\<close>
theorem health_inv_kept:
  assumes "health_inv s"
  shows "health_inv (snd (snd (DefaultHealthCheck env u s))) \<and> health_inv (probeClusterHealthLocal env u s)
    \<and> health_inv (refreshClusterHealth env u s)"
proof (intro conjI)
  have "health_inv (snd (hardwareInfoHealthCheck env u s))"
    using assms by (auto simp: hardwareInfoHealthCheck_def health_inv_writes split: sum.splits option.splits list.splits)
  moreover have "health_inv (snd (clusterHealthCheck env u s))"
    using assms by (auto simp: clusterHealthCheck_def health_inv_writes split: sum.splits option.splits prod.splits)
  ultimately show "health_inv (snd (snd (DefaultHealthCheck env u s)))"
    using assms by (auto simp: DefaultHealthCheck_def Let_def split: prod.splits sum.splits)
  show "health_inv (refreshClusterHealth env u s)"
    using assms by (auto simp: refreshClusterHealth_def health_inv_writes split: sum.splits option.splits prod.splits)
  show "health_inv (probeClusterHealthLocal env u s)"
    using assms by (auto simp: probeClusterHealthLocal_def health_inv_writes split: sum.splits option.splits prod.splits)
      (auto simp: health_inv_def bit_lc_upd bit_flags Let_def)
qed

text \<open>A connection whose cluster health was refused is asked again: once the interval since the last probe is over a
  successful check launches a probe, and the probe makes the data available when the node answers with it.\<close>
theorem unavailable_reprobed:
  assumes "health_inv s" "clusterHealthUnavailable (state (hs_conn s))" "\<not> lc_has (lc_of (hs_conn s)) lcNeedsHardware"
    and "he_clusterHealthEnabled env" "0 < he_maxRetryClusterHealth env" "baselineHealthCheck env u = Inr res"
  shows "\<exists>t. clusterHealthCheckedAt (hs_info s) = Some t
    \<and> DefaultHealthCheck env u s = (Inr res, he_now env - t > he_jitteredInterval env, s)
    \<and> (\<forall>health. fetchClusterHealth env u = Inr (Some health, 200) \<longrightarrow>
         hasClusterHealth (state (hs_conn (probeClusterHealthLocal env u s)))
         \<and> clusterHealth (hs_info (probeClusterHealthLocal env u s)) = Some health)"
proof -
  obtain t where "clusterHealthCheckedAt (hs_info s) = Some t"
    using assms(1,2) by (auto simp: health_inv_def clusterHealthUnavailable_def lc_of_def Let_def)
  with assms(2-6) show ?thesis
    by (auto simp: DefaultHealthCheck_def launches_probe_def clusterHealthUnavailable_def clusterHealthPending_def
        hasClusterHealth_def Let_def probeClusterHealthLocal_def mark_available_def storeClusterHealth_def
        lc_of_def [symmetric] bit_lc_upd bit_flags bit_or_iff)
qed

text \<open>The test for a recovering node: a node whose cluster health was probed passes a check exactly when none of its
  shards is initializing, and the check stores what it saw either way.\<close>
theorem readiness_gate:
  assumes "\<not> lc_has (lc_of (hs_conn s)) lcNeedsHardware" "hasClusterHealth (state (hs_conn s))"
    and "fetchClusterHealth env u = Inr (Some health, 200)"
  shows "DefaultHealthCheck env u s =
    ((if chl_InitializingShards health > 0 then Inl (InitializingShardsLeft (chl_InitializingShards health))
      else Inr (200, he_marshal env health)), False, mark_available (he_now env) health s)"
  using assms by (simp add: DefaultHealthCheck_def clusterHealthCheck_def)

text \<open>The test is passed over where it matters: a failed connection is marked for the hardware check, so the check
  that decides on its return asks only for the node's hardware, and any answer with status 200 makes the node healthy,
  also when its cluster health, if asked, would report initializing shards.\<close>
theorem readiness_gate_bypassed:
  assumes "internal_get env u ''/_nodes/_local/http,os,thread_pool'' [] = Inr \<lparr>hr_StatusCode = 200, hr_Body = Some (Inr content)\<rparr>"
  shows "fst (DefaultHealthCheck env u (s\<lparr>hs_conn := killed now c\<rparr>)) = Inr (200, content)"
proof -
  have "lc_of (markAsDead now x) = lc_of x" "lc_of (storeOverloadedAt t x) = lc_of x" for x t
    by (simp_all add: markAsDead_def storeDeadSince_def storeOverloadedAt_def lc_of_def Let_def)
  then have "bit (lc_of (killed now c)) 8" by (simp add: killed_def bit_lc_upd bit_flags bit_or_iff)
  then show ?thesis
    using assms by (simp add: DefaultHealthCheck_def hardwareInfoHealthCheck_def read_body_def split: option.splits prod.splits)
qed

text \<open>A hardware check that cannot be made fails the connection: the error of the request is the result, and the
  baseline check is not consulted even when it would succeed.\<close>
theorem hardware_failure_no_fallback:
  assumes "lc_has (lc_of (hs_conn s)) lcNeedsHardware"
    and "internal_get env u ''/_nodes/_local/http,os,thread_pool'' [] = Inl e" "baselineHealthCheck env u = Inr res"
  shows "DefaultHealthCheck env u s = (Inl e, False, s)"
  using assms by (simp add: DefaultHealthCheck_def hardwareInfoHealthCheck_def)

section \<open>Backoff\<close>

definition backoff_delays :: "(int \<Rightarrow> int) \<Rightarrow> int \<Rightarrow> nat \<Rightarrow> nat \<Rightarrow> int list" where
  "backoff_delays jitter b i n = (if b > 0 then map (backoff_delay jitter b) [i..<n] else [])"

lemma backoff_loop_runs:
  assumes "0 < left"
  shows "backoff_loop jitter b left i (\<lambda>n runs. (err n, runs @ [n])) runs =
    (case find (\<lambda>k. err k = None) [i..<i + left] of
       Some k \<Rightarrow> (None, backoff_delays jitter b i k, runs @ [i..<Suc k])
     | None \<Rightarrow> (err (i + left - 1), backoff_delays jitter b i (i + left - 1), runs @ [i..<i + left]))"
  using assms
proof (induction left arbitrary: i runs)
  case (Suc left)
  show ?case
  proof (cases "err i")
    case None
    then show ?thesis by (simp add: upt_conv_Cons backoff_delays_def del: upt_Suc)
  next
    case (Some e)
    show ?thesis
    proof (cases "left = 0")
      case True
      with Some show ?thesis by (simp add: backoff_delays_def)
    next
      case False
      have step: "backoff_delays jitter b i k = (if b > 0 then backoff_delay jitter b i # backoff_delays jitter b (Suc i) k
          else backoff_delays jitter b (Suc i) k)" if "i < k" for k
        using that by (simp add: backoff_delays_def upt_conv_Cons)
      have l: "[i..<Suc (i + left)] = i # [Suc i..<Suc (i + left)]" by (simp add: upt_conv_Cons del: upt_Suc)
      show ?thesis
      proof (cases "find (\<lambda>k. err k = None) [Suc i..<Suc i + left]")
        case None
        have "i < i + left" using False by simp
        from step [OF this] None False Some Suc.IH [of "Suc i" "runs @ [i]"] show ?thesis by (simp add: l del: upt_Suc)
      next
        case (Some k)
        then have k: "i < k" by (auto simp: find_Some_iff nth_upt simp del: upt_Suc)
        have "i # [Suc i..<Suc k] = [i..<Suc k]" using k by (simp add: upt_conv_Cons del: upt_Suc)
        with step [OF k] Some False \<open>err i = Some e\<close> Suc.IH [of "Suc i" "runs @ [i]"] show ?thesis by (simp add: l del: upt_Suc)
      qed
    qed
  qed
qed simp

text \<open>C25. What \<^verbatim>\<open>backoffRetry\<close> does, with a function that records its calls: it calls the function in order until the
  first success, at least once and at most \<open>maxRetries\<close> times, pauses between two calls and never after the last one,
  and returns the error of the last call when none succeeds.\<close>
theorem backoffRetry_calls:
  "backoffRetry jitter b maxRetries (\<lambda>n runs. (err n, runs @ [n])) [] =
    (let N = max 1 (nat maxRetries) in
     case find (\<lambda>k. err k = None) [0..<N] of
       Some k \<Rightarrow> (None, backoff_delays jitter b 0 k, [0..<Suc k])
     | None \<Rightarrow> (err (N - 1), backoff_delays jitter b 0 (N - 1), [0..<N]))"
proof (cases "maxRetries \<le> 0")
  case True
  then show ?thesis by (simp add: backoffRetry_def Let_def backoff_delays_def)
next
  case False
  then have "max 1 (nat maxRetries) = nat maxRetries" "0 < nat maxRetries" by auto
  then show ?thesis
    using False backoff_loop_runs [of "nat maxRetries" jitter b 0 err "[]"]
    by (simp add: backoffRetry_def Let_def del: upt_Suc split: option.splits)
qed

lemma i64_id: "- (2 ^ 63) \<le> x \<Longrightarrow> x < 2 ^ 63 \<Longrightarrow> i64 x = x"
  unfolding i64_def sint_sbintrunc' by (simp add: signed_take_bit_int_eq_self)

lemma i64_less: "i64 x < 2 ^ 63"
  using sint_lt [of "word_of_int x :: 64 word"] by (simp add: i64_def)

lemma backoff_fits: "0 < b \<Longrightarrow> b < 2 ^ 33 \<Longrightarrow> b * 2 ^ min n 30 < (2 :: int) ^ 63"
proof -
  assume b: "0 < b" "b < 2 ^ 33"
  have "(2 :: int) ^ min n 30 \<le> 2 ^ 30" by (rule power_increasing) auto
  then have "b * 2 ^ min n 30 \<le> b * 2 ^ 30" using b by (intro mult_left_mono) auto
  also have "\<dots> < 2 ^ 63" using b by simp
  finally show ?thesis .
qed

text \<open>The cap on the exponent bounds the pause only for base delays below \<open>2 ^ 33\<close> nanoseconds (8.6 seconds): the
  pause is the base delay doubled with every attempt exactly when the product fits, as it does below that bound; at the
  bound the multiplication of the capped exponent wraps, and the pause is negative.\<close>
theorem backoff_delay_exact:
  assumes "0 < b"
  shows "(backoff_delay (\<lambda>d. d) b n = b * 2 ^ min n 30 \<longleftrightarrow> b * 2 ^ min n 30 < 2 ^ 63)
    \<and> (2 ^ 33 \<le> b \<or> backoff_delay (\<lambda>d. d) b n = b * 2 ^ min n 30)
    \<and> backoff_delay (\<lambda>d. d) (2 ^ 33) (30 + n) = - (2 ^ 63)"
proof -
  have pos: "0 < b * 2 ^ min n 30" using assms by simp
  have e: "backoff_delay (\<lambda>d. d) b n = b * 2 ^ min n 30 \<longleftrightarrow> b * 2 ^ min n 30 < 2 ^ 63"
    using i64_id [of "b * 2 ^ min n 30"] i64_less [of "b * 2 ^ min n 30"] pos unfolding backoff_delay_def by linarith
  moreover have "backoff_delay (\<lambda>d. d) (2 ^ 33) (30 + n) = - (2 ^ 63)"
    by (simp add: backoff_delay_def min_absorb2 i64_def)
  ultimately show ?thesis using backoff_fits [OF assms, of n] by linarith
qed

section \<open>A recovering node\<close>

definition recovering :: ClusterHealthLocal where
  "recovering = \<lparr>chl_ClusterName = ''c'', chl_Status = ''yellow'', chl_TimedOut = False, chl_NumberOfNodes = 3,
     chl_NumberOfDataNodes = 3, chl_ActivePrimaryShards = 5, chl_ActiveShards = 5, chl_RelocatingShards = 0,
     chl_InitializingShards = 4, chl_UnassignedShards = 1\<rparr>"

definition recovering_env :: health_env where
  "recovering_env = \<lparr>he_identity = tc_identity (sample_config False 1), he_signer = None, he_modifier = None,
     he_reply = (\<lambda>req. Inr (Some \<lparr>hr_StatusCode = 200, hr_Body = Some (Inr (req_RawQuery req))\<rparr>)),
     he_info = (\<lambda>_. Some \<lparr>info_Name = ''n'', info_ClusterName = ''c'', info_VersionNumber = ''3.0.0''\<rparr>),
     he_nodes = (\<lambda>_. Some [\<lparr>ni_AllocatedProcessors = Some 8, ni_ThreadPool = [(''search'', \<lparr>tp_Size = 13, tp_Max = 0\<rparr>)]\<rparr>]),
     he_health = (\<lambda>_. Some recovering), he_marshal = (\<lambda>_. ''{}''), he_now = 100, he_clusterHealthEnabled = True,
     he_maxRetryClusterHealth = 4, he_jitteredInterval = 5\<rparr>"

definition refused :: health_state where
  "refused = \<lparr>hs_conn = sample_conn (lcActive OR lcReady OR lcViable OR lcClusterHealthProbed) 0,
     hs_info = \<lparr>clusterHealth = None, clusterHealthCheckedAt = Some 7, lastBreakerTripped = Map.empty\<rparr>, hs_poolInfoReady = False\<rparr>"

lemma recovering_get: "internal_get recovering_env u path query = Inr \<lparr>hr_StatusCode = 200, hr_Body = Some (Inr query)\<rparr>"
proof -
  obtain req where "prepareInternalRequest (he_identity recovering_env) None u None (get_request path query) = Inr req"
      "req_RawQuery req = query"
    by (simp add: prepareInternalRequest_def signRequest_def Let_def get_request_def setReqUserAgent_def setReqGlobalHeader_def)
  then show ?thesis by (simp add: internal_get_def recovering_env_def)
qed

lemma recovering_fetch: "fetchClusterHealth recovering_env u = Inr (Some recovering, 200)"
  by (simp add: fetchClusterHealth_def recovering_get read_body_def) (simp add: recovering_env_def)

lemma recovering_baseline: "baselineHealthCheck recovering_env u = Inr (200, [])"
  by (simp add: baselineHealthCheck_def recovering_get read_body_def) (simp add: recovering_env_def)

lemma refused_bits: "bit (lc_of (hs_conn refused)) n \<longleftrightarrow> n \<in> {0, 2, 10, 12}"
  by (auto simp: refused_def sample_lc bit_flags bit_or_iff bit_and_iff bit_mask_iff)

lemma refused_inv: "health_inv refused"
  by (simp add: health_inv_def refused_bits) (simp add: refused_def)

theorem health_inv_kept_witness: "health_inv (probeClusterHealthLocal recovering_env (sample_url 1) refused)"
  using health_inv_kept [OF refused_inv] by blast

theorem unavailable_reprobed_witness:
  "DefaultHealthCheck recovering_env (sample_url 1) refused = (Inr (200, []), True, refused)
    \<and> clusterHealth (hs_info (probeClusterHealthLocal recovering_env (sample_url 1) refused)) = Some recovering"
proof -
  have u: "clusterHealthUnavailable (state (hs_conn refused))" "\<not> lc_has (lc_of (hs_conn refused)) lcNeedsHardware"
    using refused_bits by (simp_all add: clusterHealthUnavailable_def lc_of_def)
  have e: "he_clusterHealthEnabled recovering_env" "0 < he_maxRetryClusterHealth recovering_env"
    "he_now recovering_env = 100" "he_jitteredInterval recovering_env = 5" "clusterHealthCheckedAt (hs_info refused) = Some 7"
    by (simp_all add: recovering_env_def refused_def)
  from unavailable_reprobed [OF refused_inv u e(1,2) recovering_baseline [of "sample_url 1"]] recovering_fetch [of "sample_url 1"] e
  show ?thesis by simp
qed

theorem readiness_gate_witness:
  "fst (DefaultHealthCheck recovering_env (sample_url 1) (mark_available 9 recovering refused)) = Inl (InitializingShardsLeft 4)"
proof -
  have "\<not> lc_has (lc_of (hs_conn (mark_available 9 recovering refused))) lcNeedsHardware"
    "hasClusterHealth (state (hs_conn (mark_available 9 recovering refused)))"
    by (simp_all add: mark_available_def storeClusterHealth_def hasClusterHealth_def lc_of_def [symmetric] bit_lc_upd
        bit_flags bit_or_iff refused_bits)
  from readiness_gate [OF this recovering_fetch] show ?thesis by (simp add: recovering_def)
qed

theorem readiness_gate_bypassed_witness:
  "fst (DefaultHealthCheck recovering_env (sample_url 1) (refused\<lparr>hs_conn := killed 9 (hs_conn refused)\<rparr>)) = Inr (200, [])
    \<and> fetchClusterHealth recovering_env (sample_url 1) = Inr (Some recovering, 200) \<and> 0 < chl_InitializingShards recovering"
  using readiness_gate_bypassed [OF recovering_get] recovering_fetch by (simp add: recovering_def)

theorem backoff_delay_exact_witness: "backoff_delay (\<lambda>d. d) 2500000000 3 = 20000000000"
  using backoff_delay_exact [of 2500000000 3] by simp

end
