(* ===== verification/Node_Stats.thy ===== *)
theory Node_Stats
  imports Health_Check
begin

text \<open>
  The two background pollers of \<^verbatim>\<open>cluster_health.go\<close>: node statistics, which drive the congestion windows and take
  overloaded nodes out of the active part of the pool, and the refresh of cluster health.

  A round trip gets a context that is already over when the timeout is not positive, and then fails. The ratio of a
  circuit breaker is a real number.
\<close>

unbundle bit_operations_syntax

section \<open>Definitions\<close>

record BreakerStats =
  LimitSizeInBytes :: int
  EstimatedSizeInBytes :: int
  Tripped :: int

text \<open>Maps are lists in the order of their enumeration; no thread pools is a nil map.\<close>

record NodeStats =
  HeapUsedPercent :: int
  Breakers :: "(string \<times> BreakerStats) list"
  ThreadPools :: "(string \<times> ThreadPoolStats) list option"

record stats_env =
  se_health :: health_env
  se_url :: "cid \<Rightarrow> url"
  se_healthCheckTimeout :: int
  se_reply :: "request \<Rightarrow> trip_error + health_response"
  se_stats :: "string \<Rightarrow> NodeStats list option"
  se_heapThreshold :: int
  se_breakerRatio :: real

definition clusterStatusRed :: string where "clusterStatusRed = ''red''"

definition breaker_full :: "real \<Rightarrow> BreakerStats \<Rightarrow> bool" where
  "breaker_full limit b \<longleftrightarrow>
     LimitSizeInBytes b > 0 \<and> real_of_int (EstimatedSizeInBytes b) / real_of_int (LimitSizeInBytes b) \<ge> limit"

definition breaker_step :: "real \<Rightarrow> string \<times> BreakerStats \<Rightarrow> bool \<times> (string \<rightharpoonup> int) \<Rightarrow> bool \<times> (string \<rightharpoonup> int)" where
  "breaker_step limit entry acc =
     (let (name, b) = entry; (overloaded, seen) = acc;
          overloaded = (overloaded \<or> breaker_full limit b);
          prevTripped = seen name;
          seen = seen(name \<mapsto> Tripped b)
      in (case prevTripped of
            Some prev \<Rightarrow> if Tripped b > prev then (True, seen) else (overloaded, seen)
          | None \<Rightarrow> (overloaded, seen)))"

definition evaluateOverload :: "stats_env \<Rightarrow> NodeStats \<Rightarrow> health_info \<Rightarrow> bool \<times> health_info" where
  "evaluateOverload env stats info =
     (let overloaded = (case clusterHealth info of Some h \<Rightarrow> chl_Status h = clusterStatusRed | None \<Rightarrow> False);
          overloaded = (overloaded \<or> HeapUsedPercent stats \<ge> se_heapThreshold env);
          (overloaded, seen) = fold (breaker_step (se_breakerRatio env)) (Breakers stats) (overloaded, lastBreakerTripped info)
      in (overloaded, info\<lparr>lastBreakerTripped := seen\<rparr>))"

definition poolSearch :: string where "poolSearch = ''search''"

definition search_sample :: "cid \<Rightarrow> connection \<Rightarrow> NodeStats \<Rightarrow> nodeSearchSample option" where
  "search_sample c conn stats =
     (case map_of (case ThreadPools stats of None \<Rightarrow> [] | Some tps \<Rightarrow> tps) poolSearch of
        None \<Rightarrow> None
      | Some tps \<Rightarrow>
          Some \<lparr>ns_conn = c, ns_stats = tps,
            ns_maxCwnd = (case registry_get (pools conn) poolSearch of
               None \<Rightarrow> 0 | Some ptr \<Rightarrow> pc_maxCwnd (deref (pools conn) ptr))\<rparr>)"

text \<open>The node cannot be reached.\<close>

definition poll_failed :: "cid \<Rightarrow> world \<Rightarrow> world" where
  "poll_failed c w =
     (if lc_has (lc_of (heap w c)) lcOverloaded
      then upd_conn c (upd_lc (lcDead OR lcNeedsWarmup) (lcReady OR lcActive OR lcStandby)) w else w)"

definition stats_round_trip :: "stats_env \<Rightarrow> cid \<Rightarrow> (string + request) \<Rightarrow> health_error + health_response" where
  "stats_round_trip env c prepared =
     (case prepared of
        Inl e \<Rightarrow> Inl (PrepareFailed e)
      | Inr req \<Rightarrow>
          if se_healthCheckTimeout env \<le> 0
          then Inl (RoundTripFailed \<lparr>te_stream = False, te_eof = False, te_net = Some True\<rparr>)
          else case se_reply env req of Inl e \<Rightarrow> Inl (RoundTripFailed e) | Inr res \<Rightarrow> Inr res)"

definition fetch_stats :: "stats_env \<Rightarrow> cid \<Rightarrow> health_error + NodeStats" where
  "fetch_stats env c =
     (let he = se_health env in
      case stats_round_trip env c (prepareInternalRequest (he_identity he) (he_signer he) (se_url env c) (he_modifier he)
             (get_request ''/_nodes/_local/stats/jvm,breaker,thread_pool'' [])) of
        Inl e \<Rightarrow> Inl e
      | Inr res \<Rightarrow>
          if hr_StatusCode res \<noteq> 200 then Inl (BadStatus (hr_StatusCode res))
          else case read_body res of
                 Inl e \<Rightarrow> Inl e
               | Inr content \<Rightarrow>
                   (case se_stats env content of
                      None \<Rightarrow> Inl BadJSON | Some [] \<Rightarrow> Inl InvalidStructure | Some (ns # _) \<Rightarrow> Inr ns))"

text \<open>\<open>multi\<close> says that the pool is a multi-server pool, where an overloaded node can be demoted.\<close>

definition fetchAndEvaluateNodeStats ::
    "stats_env \<Rightarrow> bool \<Rightarrow> cid \<Rightarrow> world \<times> (cid \<Rightarrow> health_info) \<Rightarrow> nodeSearchSample option \<times> world \<times> (cid \<Rightarrow> health_info)" where
  "fetchAndEvaluateNodeStats env multi c st =
     (let (w, infos) = st in
      case fetch_stats env c of
        Inl (RoundTripFailed _) \<Rightarrow> (None, poll_failed c w, infos)
      | Inl _ \<Rightarrow> (None, w, infos)
      | Inr stats \<Rightarrow>
          let w = upd_conn c (\<lambda>x. x\<lparr>pools := updatePoolCongestion (pools x) (ThreadPools stats)\<rparr>) w;
              sample = search_sample c (heap w c) stats;
              (overloaded, info) = evaluateOverload env stats (infos c);
              infos = infos(c := info);
              wasOverloaded = lc_has (lc_of (heap w c)) lcOverloaded
          in if \<not> multi then (sample, w, infos)
             else if overloaded \<and> \<not> wasOverloaded then (sample, demoteOverloaded (he_now (se_health env)) c w, infos)
             else if \<not> overloaded \<and> wasOverloaded then (sample, promoteFromOverloaded c w, infos)
             else (sample, w, infos))"

record poller =
  po_heap :: "cid \<Rightarrow> connection"
  po_pool :: connection_pool
  po_infos :: "cid \<Rightarrow> health_info"
  po_search :: clusterSearchAIMD

fun poll_each :: "stats_env \<Rightarrow> bool \<Rightarrow> cid list \<Rightarrow> world \<times> (cid \<Rightarrow> health_info) \<Rightarrow> nodeSearchSample list \<times> world \<times> (cid \<Rightarrow> health_info)" where
  "poll_each env multi [] st = ([], st)"
| "poll_each env multi (c # cs) st =
     (let (sample, st) = fetchAndEvaluateNodeStats env multi c st;
          (samples, st) = poll_each env multi cs st
      in (case sample of None \<Rightarrow> samples | Some x \<Rightarrow> x # samples, st))"

definition stats_snapshot :: "world \<Rightarrow> cid list" where
  "stats_snapshot w = ready (pool w) @ filter (\<lambda>c. lc_has (lc_of (heap w c)) lcOverloaded) (dead (pool w))"

definition pollNodeStats :: "stats_env \<Rightarrow> poller \<Rightarrow> poller" where
  "pollNodeStats env po =
     (case po_pool po of
        multiPool p \<Rightarrow>
          let w = \<lparr>heap = po_heap po, pool = p\<rparr>;
              (samples, w, infos) = poll_each env True (stats_snapshot w) (w, po_infos po);
              po = po\<lparr>po_heap := heap w, po_pool := multiPool (pool w), po_infos := infos\<rparr>
          in if samples \<noteq> [] then po\<lparr>po_search := cluster_update (po_search po) samples\<rparr> else po
      | singleServerPool None \<Rightarrow> po
      | singleServerPool (Some c) \<Rightarrow>
          let (sample, w, infos) = fetchAndEvaluateNodeStats env False c (\<lparr>heap = po_heap po, pool = empty_pool\<rparr>, po_infos po);
              po = po\<lparr>po_heap := heap w, po_infos := infos\<rparr>
          in (case sample of None \<Rightarrow> po | Some x \<Rightarrow> po\<lparr>po_search := cluster_update (po_search po) [x]\<rparr>))"

definition countReadyNodes :: "connection_pool \<Rightarrow> nat" where
  "countReadyNodes cp = (case cp of singleServerPool _ \<Rightarrow> 1 | multiPool p \<Rightarrow> length (ready p))"

definition defaultNodeStatsIntervalMin :: int where "defaultNodeStatsIntervalMin = 5 * 1000000000"
definition defaultNodeStatsIntervalMax :: int where "defaultNodeStatsIntervalMax = 30 * 1000000000"
definition defaultClusterHealthRefreshMin :: int where "defaultClusterHealthRefreshMin = 5 * 1000000000"
definition defaultClusterHealthRefreshMax :: int where "defaultClusterHealthRefreshMax = 300 * 1000000000"

text \<open>The number of nanoseconds before the clamp, for a positive rate.\<close>

definition raw_interval :: "real \<Rightarrow> real \<Rightarrow> connection_pool \<Rightarrow> int" where
  "raw_interval clients rate cp =
     (let liveNodes = countReadyNodes cp; liveNodes = (if liveNodes \<le> 0 then 1 else liveNodes)
      in \<lfloor>real liveNodes * clients / rate * 1000000000\<rfloor>)"

definition calculateNodeStatsInterval :: "real \<Rightarrow> real \<Rightarrow> connection_pool \<Rightarrow> int" where
  "calculateNodeStatsInterval clients rate cp =
     min (max (raw_interval clients rate cp) defaultNodeStatsIntervalMin) defaultNodeStatsIntervalMax"

definition calculateClusterHealthRefreshInterval :: "real \<Rightarrow> real \<Rightarrow> connection_pool \<Rightarrow> int" where
  "calculateClusterHealthRefreshInterval clients rate cp =
     min (max (raw_interval clients rate cp) defaultClusterHealthRefreshMin) defaultClusterHealthRefreshMax"

definition snapshotClusterHealthConnections :: "poller \<Rightarrow> cid list" where
  "snapshotClusterHealthConnections po =
     (case po_pool po of
        singleServerPool _ \<Rightarrow> []
      | multiPool p \<Rightarrow> filter (\<lambda>c. hasClusterHealth (state (po_heap po c))) (ready p))"

definition refresh_one :: "stats_env \<Rightarrow> cid \<Rightarrow> poller \<Rightarrow> poller" where
  "refresh_one env c po =
     (let s = refreshClusterHealth (se_health env) (se_url env c)
                \<lparr>hs_conn = po_heap po c, hs_info = po_infos po c, hs_poolInfoReady = False\<rparr>
      in po\<lparr>po_heap := (po_heap po)(c := hs_conn s), po_infos := (po_infos po)(c := hs_info s)\<rparr>)"

definition pollClusterHealth :: "stats_env \<Rightarrow> poller \<Rightarrow> poller" where
  "pollClusterHealth env po =
     (case po_pool po of
        singleServerPool _ \<Rightarrow> po
      | multiPool p \<Rightarrow>
          if length (ready p) + length (dead p) \<le> 1 then po
          else fold (refresh_one env) (snapshotClusterHealthConnections po) po)"

section \<open>The overload test\<close>

lemma breaker_fold:
  assumes "distinct (map fst bs)"
  shows "fold (breaker_step limit) bs (ov, seen) =
    (ov \<or> (\<exists>(name, b) \<in> set bs. breaker_full limit b \<or> (\<exists>prev. seen name = Some prev \<and> prev < Tripped b)),
     seen ++ map_of (map (\<lambda>(name, b). (name, Tripped b)) bs))"
  using assms
proof (induction bs arbitrary: ov seen)
  case (Cons e bs)
  obtain name b where e: "e = (name, b)" by force
  let ?ov = "ov \<or> breaker_full limit b \<or> (\<exists>prev. seen name = Some prev \<and> prev < Tripped b)"
  have step: "breaker_step limit e (ov, seen) = (?ov, seen(name \<mapsto> Tripped b))"
    by (auto simp: e breaker_step_def Let_def split: option.splits)
  have fresh: "name \<notin> fst ` set bs" using Cons.prems e by simp
  have "map_of (map (\<lambda>(name, b). (name, Tripped b)) bs) name = None"
    using fresh by (force simp: map_of_eq_None_iff)
  then have "seen(name \<mapsto> Tripped b) ++ map_of (map (\<lambda>(name, b). (name, Tripped b)) bs)
      = seen ++ (map_of (map (\<lambda>(name, b). (name, Tripped b)) bs))(name \<mapsto> Tripped b)"
    by (auto simp: map_add_def fun_eq_iff split: option.splits)
  moreover have "(\<exists>(n, d) \<in> set bs. breaker_full limit d \<or> (\<exists>prev. (seen(name \<mapsto> Tripped b)) n = Some prev \<and> prev < Tripped d))
      \<longleftrightarrow> (\<exists>(n, d) \<in> set bs. breaker_full limit d \<or> (\<exists>prev. seen n = Some prev \<and> prev < Tripped d))" (is "?l \<longleftrightarrow> ?r")
    using fresh by (intro bex_cong refl) force
  moreover have "fold (breaker_step limit) (e # bs) (ov, seen) =
      (?ov \<or> ?l, seen(name \<mapsto> Tripped b) ++ map_of (map (\<lambda>(name, b). (name, Tripped b)) bs))"
    using Cons by (simp only: fold_Cons o_apply step) simp
  ultimately show ?case by (simp add: e) (simp add: map_add_def fun_eq_iff)
qed simp

text \<open>C27. When a node counts as overloaded: the cluster is red, or its heap is over the threshold, or one of its circuit
  breakers is nearly full or has tripped since the poll before; the counts of this poll are kept for the next one.\<close>
theorem evaluateOverload_iff:
  assumes "distinct (map fst (Breakers stats))"
  shows "evaluateOverload env stats info =
    (((\<exists>h. clusterHealth info = Some h \<and> chl_Status h = ''red'') \<or> HeapUsedPercent stats \<ge> se_heapThreshold env
       \<or> (\<exists>(name, b) \<in> set (Breakers stats). breaker_full (se_breakerRatio env) b
            \<or> (\<exists>prev. lastBreakerTripped info name = Some prev \<and> prev < Tripped b))),
     info\<lparr>lastBreakerTripped := lastBreakerTripped info ++ map_of (map (\<lambda>(name, b). (name, Tripped b)) (Breakers stats))\<rparr>)"
  by (auto simp: evaluateOverload_def Let_def breaker_fold [OF assms] clusterStatusRed_def split: option.splits)

section \<open>Polls and the pool\<close>

lemma poll_failed_bits:
  assumes "lc_has (lc_of (heap w c)) lcOverloaded"
  shows "lc_has (lc_of (heap (poll_failed c w) c)) lcOverloaded" "lc_has (lc_of (heap (poll_failed c w) c)) lcUnknown"
    "deadSinceNano (heap (poll_failed c w) c) = deadSinceNano (heap w c)" "pool (poll_failed c w) = pool w"
    "checkStartedAt (heap (poll_failed c w) c) = checkStartedAt (heap w c)"
  using assms by (auto simp: poll_failed_def upd_conn_def bit_lc_upd bit_flags bit_or_iff) (simp_all add: upd_lc_def)

text \<open>A dead node that is marked as overloaded is lost once it cannot be polled: the failed poll, which is to hand
  the node back to the resurrection, leaves the mark set, and the next attempt of the resurrection ends for good because
  of the mark, with the pool unchanged, whatever the health of the node is by then.\<close>
theorem overloaded_dead_node_lost:
  assumes "fetch_stats env c = Inl (RoundTripFailed e)" "lc_has (lc_of (heap w c)) lcOverloaded"
  shows "\<exists>w'. fetchAndEvaluateNodeStats env multi c (w, infos) = (None, w', infos)
    \<and> lc_has (lc_of (heap w' c)) lcOverloaded \<and> pool w' = pool w
    \<and> resurrect_attempt interference rnd result c w' = (True, w')"
  using assms poll_failed_bits [OF assms(2)]
  by (auto simp: fetchAndEvaluateNodeStats_def resurrect_attempt_def resurrect_begin_def)

text \<open>C28. A poll that fails breaks the pool: an overloaded node on standby is marked as dead in its state word but stays
  in the ready list, without a time of death and without a resurrection, so the invariant of the pool does not hold
  any more.\<close>
theorem failed_poll_breaks_pool:
  assumes "fetch_stats env c = Inl (RoundTripFailed e)" "lc_has (lc_of (heap w c)) lcOverloaded"
    and "pool_inv w" "c \<in> set (ready (pool w))"
  shows "\<exists>w'. fetchAndEvaluateNodeStats env multi c (w, infos) = (None, w', infos) \<and> \<not> pool_inv w'
    \<and> c \<in> set (ready (pool w')) \<and> deadSinceIsZero (heap w' c)
    \<and> checkStartedAt (heap w' c) = checkStartedAt (heap w c) \<and> spawned (pool w') = spawned (pool w)"
proof -
  note bits = poll_failed_bits [OF assms(2)]
  have "conn_up (heap w c)" using assms(3,4) up_iff_ready by blast
  then have "deadSinceIsZero (heap (poll_failed c w) c)" by (simp add: conn_up_def deadSinceIsZero_def bits(3))
  moreover have "\<not> pool_inv (poll_failed c w)"
    using bits(2) assms(4) by (auto simp: pool_inv_def Let_def bits(4) conn_up_def)
  ultimately show ?thesis using assms(1,4) bits by (simp add: fetchAndEvaluateNodeStats_def)
qed

lemma demoteOverloaded_members: "members (pool (demoteOverloaded now c w)) = members (pool w)"
proof -
  have t: "members (pool (snd (tryStandby v))) = members (pool v)" for v
    by (cases "tryStandby v") (use tryStandby_fields in force)
  show ?thesis
    by (auto simp: demoteOverloaded_def Let_def t appendToReadyStandby_def pool_simps split: sum.splits prod.splits)
qed

lemma fetch_keeps_pool:
  assumes "pool_inv w" "c \<in> members (pool w)" "\<And>e. fetch_stats env c \<noteq> Inl (RoundTripFailed e)"
    and "fetchAndEvaluateNodeStats env multi c (w, infos) = (sample, w', infos')"
  shows "pool_inv w' \<and> members (pool w') = members (pool w)"
proof (cases "fetch_stats env c")
  case (Inl e)
  with assms show ?thesis by (cases e) (auto simp: fetchAndEvaluateNodeStats_def)
next
  case (Inr stats)
  let ?w = "upd_conn c (\<lambda>x. x\<lparr>pools := updatePoolCongestion (pools x) (ThreadPools stats)\<rparr>) w"
  have w: "pool_inv ?w" "members (pool ?w) = members (pool w)"
    using assms(1) by (auto intro!: pool_inv_flag simp: conn_up_def conn_down_def pool_simps)
  have "w' \<in> {?w, demoteOverloaded (he_now (se_health env)) c ?w, promoteFromOverloaded c ?w}"
    using assms(4) Inr by (auto simp: fetchAndEvaluateNodeStats_def Let_def split: prod.splits if_splits)
  moreover have "members (pool (promoteFromOverloaded c ?w)) = members (pool w)"
    by (simp add: promoteFromOverloaded_def pool_simps)
  ultimately show ?thesis
    using w assms(2) pool_inv_demoteOverloaded [OF w(1)] pool_inv_promoteFromOverloaded [OF w(1)] demoteOverloaded_members
    by auto
qed

lemma poll_each_keeps_pool:
  assumes "pool_inv w" "set cs \<subseteq> members (pool w)" "\<And>c e. fetch_stats env c \<noteq> Inl (RoundTripFailed e)"
    and "poll_each env multi cs (w, infos) = (samples, w', infos')"
  shows "pool_inv w'"
  using assms(1,2,4)
proof (induction cs arbitrary: w infos samples)
  case (Cons c cs)
  obtain sample w1 i1 where f: "fetchAndEvaluateNodeStats env multi c (w, infos) = (sample, w1, i1)" by (metis prod_cases3)
  obtain ss where p: "poll_each env multi cs (w1, i1) = (ss, w', infos')"
    using Cons.prems(3) f by (auto split: prod.splits)
  have "c \<in> members (pool w)" using Cons.prems(2) by simp
  from fetch_keeps_pool [OF Cons.prems(1) this assms(3) f] Cons.prems(2) show ?case by (intro Cons.IH [OF _ _ p]) auto
qed simp

section \<open>The overload mark\<close>

abbreviation marked :: "world \<Rightarrow> cid \<Rightarrow> bool" where
  "marked w c \<equiv> bit (lc_of (heap w c)) 5"

lemma lc_of_updates:
  "lc_of (storeOverloadedAt t x) = lc_of x" "lc_of (x\<lparr>state := state y\<rparr>) = lc_of y" "lc_of (x\<lparr>pools := ps\<rparr>) = lc_of x"
  by (simp_all add: lc_of_def storeOverloadedAt_def)

lemma tryStandby_marked: "marked (snd (tryStandby w)) x = marked w x"
  by (auto simp: tryStandby_def Let_def pool_simps bit_lc_upd bit_flags bit_or_iff)

lemma appendToReadyStandby_heap: "heap (appendToReadyStandby c w) = heap w"
  by (simp add: appendToReadyStandby_def Let_def pool_simps)

lemma demote_marked:
  assumes "\<not> marked w c"
  shows "marked (demoteOverloaded now c w) x \<longleftrightarrow> x = c \<or> marked w x"
proof -
  let ?s = "state (heap w c)" and ?st = "lcStandby OR lcOverloaded"
  have "bit ((lifecycle ?s OR ?st) AND NOT lcActive) 5 \<noteq> bit (lifecycle ?s) 5"
    using assms by (simp add: lc_of_def bit_simps bit_flags)
  then have "(lifecycle ?s OR ?st) AND NOT lcActive \<noteq> lifecycle ?s" by metis
  then have cas: "casLifecycle ?s 0 ?st lcActive = (Inr (), state (upd_lc ?st lcActive (heap w c)))"
    by (simp add: casLifecycle_eq upd_lc_def Let_def)
  show ?thesis using assms
    by (auto simp: demoteOverloaded_def Let_def tryStandby_marked appendToReadyStandby_heap pool_simps cas
        lc_of_updates bit_lc_upd bit_flags bit_or_iff)
qed

lemma promote_marked: "marked (promoteFromOverloaded c w) x \<longleftrightarrow> x \<noteq> c \<and> marked w x"
  by (auto simp: promoteFromOverloaded_def pool_simps lc_of_updates bit_lc_upd bit_flags)

text \<open>The verdict of a poll on a node, which keeps its mark when its statistics could not be read.\<close>

definition verdict :: "stats_env \<Rightarrow> world \<Rightarrow> (cid \<Rightarrow> health_info) \<Rightarrow> cid \<Rightarrow> bool" where
  "verdict env w infos c = (case fetch_stats env c of
     Inr stats \<Rightarrow> fst (evaluateOverload env stats (infos c)) | Inl e \<Rightarrow> lc_has (lc_of (heap w c)) lcOverloaded)"

lemma fetch_marked:
  assumes "fetchAndEvaluateNodeStats env True c (w, infos) = (sample, w', infos')"
    and "\<And>e. fetch_stats env c \<noteq> Inl (RoundTripFailed e)"
  shows "marked w' x = (if x = c then verdict env w infos c else marked w x)"
    and "infos' = (case fetch_stats env c of
       Inr stats \<Rightarrow> infos(c := snd (evaluateOverload env stats (infos c))) | Inl e \<Rightarrow> infos)"
proof -
  have "(\<forall>x. marked w' x = (if x = c then verdict env w infos c else marked w x))
      \<and> infos' = (case fetch_stats env c of
           Inr stats \<Rightarrow> infos(c := snd (evaluateOverload env stats (infos c))) | Inl e \<Rightarrow> infos)"
  proof (cases "fetch_stats env c")
    case (Inl e)
    with assms show ?thesis by (cases e) (auto simp: fetchAndEvaluateNodeStats_def verdict_def)
  next
    case (Inr stats)
    let ?w = "upd_conn c (\<lambda>x. x\<lparr>pools := updatePoolCongestion (pools x) (ThreadPools stats)\<rparr>) w"
    have m: "marked ?w x = marked w x" for x by (simp add: pool_simps lc_of_updates)
    obtain ov info where e: "evaluateOverload env stats (infos c) = (ov, info)" by fastforce
    show ?thesis using assms(1) Inr e m demote_marked [of ?w c] promote_marked [of c ?w]
      by (auto simp: fetchAndEvaluateNodeStats_def verdict_def Let_def split: if_splits)
  qed
  then show "marked w' x = (if x = c then verdict env w infos c else marked w x)"
    "infos' = (case fetch_stats env c of
       Inr stats \<Rightarrow> infos(c := snd (evaluateOverload env stats (infos c))) | Inl e \<Rightarrow> infos)" by auto
qed

lemma verdict_cong:
  "marked w c = marked w' c \<Longrightarrow> infos c = infos' c \<Longrightarrow> verdict env w infos c = verdict env w' infos' c"
  by (simp add: verdict_def split: sum.split)

lemma poll_each_marked:
  assumes "poll_each env True cs (w, infos) = (samples, w', infos')" "distinct cs"
    and "\<And>c e. fetch_stats env c \<noteq> Inl (RoundTripFailed e)"
  shows "marked w' x = (if x \<in> set cs then verdict env w infos x else marked w x)"
  using assms(1,2)
proof (induction cs arbitrary: w infos samples)
  case (Cons c cs)
  obtain sample w1 i1 where f: "fetchAndEvaluateNodeStats env True c (w, infos) = (sample, w1, i1)" by (metis prod_cases3)
  obtain ss where p: "poll_each env True cs (w1, i1) = (ss, w', infos')"
    using Cons.prems(1) f by (auto split: prod.splits)
  note m = fetch_marked [OF f assms(3)]
  have "marked w' x = (if x \<in> set cs then verdict env w1 i1 x else marked w1 x)"
    using Cons.IH [OF p] Cons.prems(2) by simp
  moreover have "verdict env w1 i1 x = verdict env w infos x" if "x \<noteq> c"
    using that m by (intro verdict_cong) (auto split: sum.splits)
  ultimately show ?case using Cons.prems(2) m(1) by auto
qed simp

lemma snapshot_distinct:
  assumes "pool_inv w" "distinct (ready (pool w))"
  shows "distinct (stats_snapshot w)"
  using assms by (auto simp: stats_snapshot_def pool_inv_def Let_def)

text \<open>C26. As long as the nodes can be reached, a poll of the statistics keeps the invariant of the pool, whatever the
  nodes report. When no node has more than one entry in the ready list, the poll also settles the overload marks: every
  node of the ready list, and every dead node that was marked, carries the mark afterwards exactly when its statistics
  say that it is overloaded; the mark of a node whose statistics could not be read, and of every other node, stays as
  it was. (Nothing is said about standby: a marked node can be promoted again at once.)\<close>
theorem pollNodeStats_keeps_pool:
  assumes "pool_inv \<lparr>heap = po_heap po, pool = p\<rparr>" "po_pool po = multiPool p"
    and "\<And>c e. fetch_stats env c \<noteq> Inl (RoundTripFailed e)"
  shows "\<exists>p'. po_pool (pollNodeStats env po) = multiPool p' \<and> pool_inv \<lparr>heap = po_heap (pollNodeStats env po), pool = p'\<rparr>
    \<and> (distinct (ready p) \<longrightarrow>
        (\<forall>c. lc_has (lc_of (po_heap (pollNodeStats env po) c)) lcOverloaded \<longleftrightarrow>
          (if c \<in> set (ready p) \<or> c \<in> set (dead p) \<and> lc_has (lc_of (po_heap po c)) lcOverloaded
           then case fetch_stats env c of
               Inr stats \<Rightarrow> fst (evaluateOverload env stats (po_infos po c))
             | Inl e \<Rightarrow> lc_has (lc_of (po_heap po c)) lcOverloaded
           else lc_has (lc_of (po_heap po c)) lcOverloaded)))"
proof -
  let ?w = "\<lparr>heap = po_heap po, pool = p\<rparr>"
  obtain samples w' infos' where e: "poll_each env True (stats_snapshot ?w) (?w, po_infos po) = (samples, w', infos')"
    by (metis prod_cases3)
  have "set (stats_snapshot ?w) \<subseteq> members p"
    using pool_invD(3,4) [OF assms(1)] by (auto simp: stats_snapshot_def)
  then have "pool_inv w'" using poll_each_keeps_pool [OF assms(1) _ assms(3) e] by simp
  then have i: "pool_inv \<lparr>heap = heap w', pool = pool w'\<rparr>" by (cases w') simp
  have po: "po_heap (pollNodeStats env po) = heap w'" "po_pool (pollNodeStats env po) = multiPool (pool w')"
    using e assms(2) by (auto simp: pollNodeStats_def Let_def)
  have "marked w' c = (if c \<in> set (stats_snapshot ?w) then verdict env ?w (po_infos po) c else marked ?w c)"
    if "distinct (ready p)" for c
    using poll_each_marked [OF e _ assms(3)] snapshot_distinct [OF assms(1)] that by simp
  then show ?thesis using i unfolding po by (auto simp: verdict_def stats_snapshot_def split: sum.splits)
qed


lemma evaluateOverload_again:
  assumes "distinct (map fst (Breakers stats))"
    and "\<And>h. clusterHealth info = Some h \<Longrightarrow> chl_Status h \<noteq> clusterStatusRed" "HeapUsedPercent stats < se_heapThreshold env"
    and "\<And>name b. (name, b) \<in> set (Breakers stats) \<Longrightarrow> \<not> breaker_full (se_breakerRatio env) b"
  shows "\<not> fst (evaluateOverload env stats (snd (evaluateOverload env stats info)))"
proof -
  let ?seen = "lastBreakerTripped info ++ map_of (map (\<lambda>(name, b). (name, Tripped b)) (Breakers stats))"
  have seen: "map_of (map (\<lambda>(name, b). (name, Tripped b)) (Breakers stats)) name = Some (Tripped b)"
    if "(name, b) \<in> set (Breakers stats)" for name b
  proof -
    have "map fst (map (\<lambda>(name, b). (name, Tripped b)) (Breakers stats)) = map fst (Breakers stats)" by auto
    then have "distinct (map fst (map (\<lambda>(name, b). (name, Tripped b)) (Breakers stats)))" using assms(1) by (simp only:)
    then show ?thesis by (rule map_of_is_SomeI) (use that in force)
  qed
  have "snd (evaluateOverload env stats info) = info\<lparr>lastBreakerTripped := ?seen\<rparr>"
    by (simp add: evaluateOverload_def Let_def breaker_fold [OF assms(1)])
  moreover have "\<not> fst (evaluateOverload env stats (info\<lparr>lastBreakerTripped := ?seen\<rparr>))"
    using assms(2-4)
    by (auto simp: evaluateOverload_def Let_def breaker_fold [OF assms(1)] dest: seen split: option.splits)
  ultimately show ?thesis by simp
qed

text \<open>A weighted node has several entries in the ready list and is polled once for each of them. The second poll of a
  cycle does not see the breaker trips that the first one has recorded: unless the node is also overloaded by another
  measure, it ends the cycle without the mark, although a breaker has tripped since the cycle before.\<close>
theorem weighted_poll_forgets_trips:
  assumes "fetch_stats env c = Inr stats" "distinct (map fst (Breakers stats))"
    and "\<forall>h. clusterHealth (infos c) = Some h \<longrightarrow> chl_Status h \<noteq> ''red''" "HeapUsedPercent stats < se_heapThreshold env"
    and "\<forall>(name, b) \<in> set (Breakers stats). \<not> breaker_full (se_breakerRatio env) b"
    and "poll_each env True [c, c] (w, infos) = (samples, w', infos')"
  shows "\<not> lc_has (lc_of (heap w' c)) lcOverloaded"
proof -
  have ok: "fetch_stats env c \<noteq> Inl (RoundTripFailed e)" for e using assms(1) by simp
  obtain s1 w1 i1 where f1: "fetchAndEvaluateNodeStats env True c (w, infos) = (s1, w1, i1)" by (metis prod_cases3)
  obtain s2 w2 i2 where f2: "fetchAndEvaluateNodeStats env True c (w1, i1) = (s2, w2, i2)" by (metis prod_cases3)
  have "w' = w2" using assms(6) f1 f2 by simp
  moreover have "i1 c = snd (evaluateOverload env stats (infos c))" using fetch_marked(2) [OF f1 ok] assms(1) by simp
  ultimately show ?thesis
    using fetch_marked(1) [OF f2 ok, of c] evaluateOverload_again [of stats "infos c" env] assms(1-5)
    by (auto simp: verdict_def clusterStatusRed_def)
qed

text \<open>Turning the timeout of health checks off turns the statistics off: each poll starts with a context that is
  already over, so no window, no breaker count and no cluster estimate is ever updated.\<close>
theorem disabled_timeout_stops_stats:
  assumes "se_healthCheckTimeout env \<le> 0"
  shows "po_search (pollNodeStats env po) = po_search po \<and> po_infos (pollNodeStats env po) = po_infos po
    \<and> pools (po_heap (pollNodeStats env po) c) = pools (po_heap po c)"
proof -
  have fetch: "\<exists>w'. fetchAndEvaluateNodeStats env multi d (w, infos) = (None, w', infos)
      \<and> pool w' = pool w \<and> (\<forall>c. pools (heap w' c) = pools (heap w c))" for multi d w infos
  proof -
    have "\<exists>e. fetch_stats env d = Inl (PrepareFailed e) \<or> fetch_stats env d = Inl (RoundTripFailed e')"
      if "e' = \<lparr>te_stream = False, te_eof = False, te_net = Some True\<rparr>" for e'
      using assms that by (simp add: fetch_stats_def stats_round_trip_def Let_def split: sum.splits)
    then have "(\<exists>e. fetch_stats env d = Inl (PrepareFailed e)) \<or> (\<exists>e. fetch_stats env d = Inl (RoundTripFailed e))" by blast
    then show ?thesis
      by (auto simp: fetchAndEvaluateNodeStats_def poll_failed_def upd_conn_def upd_lc_def)
  qed
  have each: "\<exists>w'. poll_each env multi cs (w, infos) = ([], w', infos) \<and> (\<forall>c. pools (heap w' c) = pools (heap w c))"
    for multi cs w infos
  proof (induction cs arbitrary: w)
    case (Cons d cs)
    obtain w1 where "fetchAndEvaluateNodeStats env multi d (w, infos) = (None, w1, infos)" "\<forall>c. pools (heap w1 c) = pools (heap w c)"
      using fetch by blast
    with Cons [of w1] show ?case by auto
  qed simp
  show ?thesis
  proof (cases "po_pool po")
    case (multiPool p)
    with each [of True "stats_snapshot \<lparr>heap = po_heap po, pool = p\<rparr>" "\<lparr>heap = po_heap po, pool = p\<rparr>" "po_infos po"]
    show ?thesis by (auto simp: pollNodeStats_def Let_def)
  next
    case (singleServerPool co)
    show ?thesis
    proof (cases co)
      case None
      with singleServerPool show ?thesis by (simp add: pollNodeStats_def)
    next
      case (Some d)
      with singleServerPool fetch [of False d "\<lparr>heap = po_heap po, pool = empty_pool\<rparr>" "po_infos po"]
      show ?thesis by (auto simp: pollNodeStats_def Let_def)
    qed
  qed
qed

text \<open>The intervals of the two pollers stay in their bounds, for every pool size and rate.\<close>
theorem poll_intervals_bounded:
  "calculateNodeStatsInterval clients rate cp \<in> {5 * 1000000000 .. 30 * 1000000000}
    \<and> calculateClusterHealthRefreshInterval clients rate cp \<in> {5 * 1000000000 .. 300 * 1000000000}"
  by (simp add: calculateNodeStatsInterval_def calculateClusterHealthRefreshInterval_def defaultNodeStatsIntervalMin_def
      defaultNodeStatsIntervalMax_def defaultClusterHealthRefreshMin_def defaultClusterHealthRefreshMax_def)

section \<open>Sample polls\<close>

definition stats_sample :: "int \<Rightarrow> trip_error + health_response \<Rightarrow> stats_env" where
  "stats_sample timeout reply = \<lparr>se_health = recovering_env, se_url = sample_url, se_healthCheckTimeout = timeout, se_reply = (\<lambda>_. reply),
     se_stats = (\<lambda>_. Some [\<lparr>HeapUsedPercent = 91, Breakers = [(''parent'', \<lparr>LimitSizeInBytes = 100, EstimatedSizeInBytes = 40, Tripped = 2\<rparr>)],
        ThreadPools = None\<rparr>]), se_heapThreshold = 85, se_breakerRatio = 9 / 10\<rparr>"

definition unreachable :: trip_error where
  "unreachable = \<lparr>te_stream = False, te_eof = False, te_net = Some False\<rparr>"

definition sample_infos :: "cid \<Rightarrow> health_info" where
  "sample_infos c = \<lparr>clusterHealth = None, clusterHealthCheckedAt = None, lastBreakerTripped = Map.empty\<rparr>"

lemma sample_fetch:
  "fetch_stats (stats_sample t reply) c = (if t \<le> 0 then Inl (RoundTripFailed \<lparr>te_stream = False, te_eof = False, te_net = Some True\<rparr>)
     else case reply of
       Inl e \<Rightarrow> Inl (RoundTripFailed e)
     | Inr res \<Rightarrow> if hr_StatusCode res \<noteq> 200 then Inl (BadStatus (hr_StatusCode res))
                  else case read_body res of Inl e \<Rightarrow> Inl e | Inr content \<Rightarrow> Inr (hd (the (se_stats (stats_sample t reply) content))))"
proof -
  have "\<exists>req. prepareInternalRequest (he_identity recovering_env) (he_signer recovering_env) (sample_url c) (he_modifier recovering_env)
      (get_request ''/_nodes/_local/stats/jvm,breaker,thread_pool'' []) = Inr req"
    by (simp add: prepareInternalRequest_def signRequest_def Let_def) (simp add: recovering_env_def)
  then show ?thesis
    by (auto simp: fetch_stats_def stats_round_trip_def stats_sample_def Let_def split: sum.splits)
qed

lemma sample_failed: "fetch_stats (stats_sample 5 (Inl unreachable)) c = Inl (RoundTripFailed unreachable)"
  by (simp add: sample_fetch)

lemma sample_overloaded:
  "lc_has (lc_of (heap (demoteOverloaded 9 4 sample_world) 4)) lcOverloaded"
  "lc_has (lc_of (heap (demoteOverloaded 9 3 sample_world) 3)) lcOverloaded"
  "3 \<in> set (ready (pool (demoteOverloaded 9 3 sample_world)))" "pool_inv (demoteOverloaded 9 3 sample_world)"
proof -
  have l: "bit (lc_of (sample_heap 4)) 1" "bit (lc_of (sample_heap 3)) 3" "\<not> bit (lc_of (sample_heap 3)) 1"
    by (simp_all add: sample_heap_def sample_lc bit_flags bit_or_iff bit_and_iff bit_mask_iff)
  have o: "lc_of (storeOverloadedAt t x) = lc_of x" for t x by (simp add: storeOverloadedAt_def lc_of_def)
  show "lc_has (lc_of (heap (demoteOverloaded 9 4 sample_world) 4)) lcOverloaded"
    "lc_has (lc_of (heap (demoteOverloaded 9 3 sample_world) 3)) lcOverloaded"
    "3 \<in> set (ready (pool (demoteOverloaded 9 3 sample_world)))"
    using l by (simp_all add: demoteOverloaded_def sample_world_def Let_def upd_conn_def o bit_lc_upd bit_flags)
  show "pool_inv (demoteOverloaded 9 3 sample_world)"
    by (rule pool_inv_demoteOverloaded [OF pool_inv_sample]) (simp add: sample_world_def)
qed

theorem overloaded_dead_node_lost_witness:
  "\<exists>w'. fetchAndEvaluateNodeStats (stats_sample 5 (Inl unreachable)) True 4 (demoteOverloaded 9 4 sample_world, sample_infos) = (None, w', sample_infos)
    \<and> resurrect_attempt (\<lambda>w. w) (\<lambda>i. i) \<lparr>hr_ok = True, hr_elapsed = 5, hr_version = ''3.0.0''\<rparr> 4 w' = (True, w')"
  using overloaded_dead_node_lost [OF sample_failed sample_overloaded(1)] by blast

theorem failed_poll_breaks_pool_witness:
  "\<exists>w'. fetchAndEvaluateNodeStats (stats_sample 5 (Inl unreachable)) True 3 (demoteOverloaded 9 3 sample_world, sample_infos) = (None, w', sample_infos)
    \<and> \<not> pool_inv w'"
  using failed_poll_breaks_pool [OF sample_failed sample_overloaded(2,4,3)] by blast

definition sample_poller :: poller where
  "sample_poller = \<lparr>po_heap = heap sample_world, po_pool = multiPool (pool sample_world), po_infos = sample_infos, po_search = sample_cluster\<rparr>"

definition sample_reply :: "trip_error + health_response" where
  "sample_reply = Inr \<lparr>hr_StatusCode = 200, hr_Body = Some (Inr ''s'')\<rparr>"

theorem pollNodeStats_keeps_pool_witness:
  "\<exists>p'. po_pool (pollNodeStats (stats_sample 5 sample_reply) sample_poller) = multiPool p'
    \<and> pool_inv \<lparr>heap = po_heap (pollNodeStats (stats_sample 5 sample_reply) sample_poller), pool = p'\<rparr>
    \<and> lc_has (lc_of (po_heap (pollNodeStats (stats_sample 5 sample_reply) sample_poller) 2)) lcOverloaded"
proof -
  let ?env = "stats_sample 5 sample_reply"
  have f: "fetch_stats ?env c = Inr (hd (the (se_stats ?env ''s'')))" for c
    by (simp add: sample_fetch sample_reply_def read_body_def)
  have ov: "fst (evaluateOverload ?env (hd (the (se_stats ?env ''s''))) (sample_infos 2))"
    by (simp add: stats_sample_def evaluateOverload_def sample_infos_def breaker_step_def)
  have "pool_inv \<lparr>heap = po_heap sample_poller, pool = pool sample_world\<rparr>" "po_pool sample_poller = multiPool (pool sample_world)"
      "po_infos sample_poller = sample_infos"
    using pool_inv_sample by (simp_all add: sample_poller_def sample_world_def)
  moreover have "distinct (ready (pool sample_world))" "2 \<in> set (ready (pool sample_world))" by (simp_all add: sample_world_def)
  ultimately show ?thesis
    using pollNodeStats_keeps_pool [of sample_poller "pool sample_world" ?env] f ov by (auto split: if_splits)
qed

theorem weighted_poll_forgets_trips_witness:
  "let env = (stats_sample 5 sample_reply)\<lparr>se_heapThreshold := 95\<rparr>;
       infos = sample_infos(2 := (sample_infos 2)\<lparr>lastBreakerTripped := [''parent'' \<mapsto> 1]\<rparr>)
   in \<not> lc_has (lc_of (heap (fst (snd (poll_each env True [2, 2] (sample_world, infos)))) 2)) lcOverloaded"
proof -
  let ?env = "(stats_sample 5 sample_reply)\<lparr>se_heapThreshold := 95\<rparr>"
  let ?infos = "sample_infos(2 := (sample_infos 2)\<lparr>lastBreakerTripped := [''parent'' \<mapsto> 1]\<rparr>)"
  let ?stats = "\<lparr>HeapUsedPercent = 91, Breakers = [(''parent'', \<lparr>LimitSizeInBytes = 100, EstimatedSizeInBytes = 40, Tripped = 2\<rparr>)],
        ThreadPools = None\<rparr>"
  have "fetch_stats ?env 2 = fetch_stats (stats_sample 5 sample_reply) 2"
    unfolding fetch_stats_def stats_round_trip_def stats_env.simps stats_sample_def ..
  then have f: "fetch_stats ?env 2 = Inr ?stats"
    by (simp add: sample_fetch sample_reply_def read_body_def) (simp add: stats_sample_def)
  obtain ss w' i' where p: "poll_each ?env True [2, 2] (sample_world, ?infos) = (ss, w', i')" by (metis prod_cases3)
  have "\<not> lc_has (lc_of (heap w' 2)) lcOverloaded"
    by (rule weighted_poll_forgets_trips [OF f _ _ _ _ p]) (simp_all add: sample_infos_def breaker_full_def stats_sample_def)
  then show ?thesis unfolding Let_def p by simp
qed

theorem disabled_timeout_stops_stats_witness:
  "po_search (pollNodeStats (stats_sample 0 (Inr \<lparr>hr_StatusCode = 200, hr_Body = Some (Inr ''s'')\<rparr>)) sample_poller) = sample_cluster"
proof -
  have "se_healthCheckTimeout (stats_sample 0 (Inr \<lparr>hr_StatusCode = 200, hr_Body = Some (Inr ''s'')\<rparr>)) \<le> 0" "po_search sample_poller = sample_cluster"
    by (simp_all add: stats_sample_def sample_poller_def)
  then show ?thesis using disabled_timeout_stops_stats by metis
qed

theorem evaluateOverload_iff_witness:
  "fst (evaluateOverload (stats_sample 5 (Inl unreachable))
     \<lparr>HeapUsedPercent = 40, Breakers = [(''parent'', \<lparr>LimitSizeInBytes = 100, EstimatedSizeInBytes = 95, Tripped = 2\<rparr>)], ThreadPools = None\<rparr>
     (sample_infos 1))"
  by (subst evaluateOverload_iff) (simp_all add: stats_sample_def breaker_full_def sample_infos_def)

end
