(* ===== verification/Policy_Override.thy ===== *)
theory Policy_Override
  imports Policy_Tree
begin

text \<open>
  Overrides of policies from the environment (\<^verbatim>\<open>policy_override_env.go\<close>): parsing of the variables, the paths of the
  nodes of a tree of policies, and the walk that applies the overrides.

  \<^verbatim>\<open>regexp.Compile\<close> is an argument; what is relied on is its meaning on patterns of letters, digits, dots and simple
  character classes (\<open>regexp_ok\<close>). A policy is known by its number, so a policy that is reached in several ways has one
  path, as in the map of pointers of the code. \<^verbatim>\<open>slices.SortFunc\<close> is a stable sort, as it is for up to twelve
  elements; the thirteen children of the default multiplexer have different keys.
\<close>

unbundle bit_operations_syntax

section \<open>Names and sort keys\<close>

fun policyTypeName :: "policy \<Rightarrow> string" where
  "policyTypeName (Chain i ps) = ''chain''"
| "policyTypeName (Mux i t ps) = ''mux''"
| "policyTypeName (IfEnabled i cond p q) = ''ifenabled''"
| "policyTypeName (NullPolicy i) = ''null''"
| "policyTypeName (PoolRouter i k cfg p) = ''router''"
| "policyTypeName (IndexRouter i k cfg) = ''index_router''"
| "policyTypeName (DocRouter i k cfg) = ''document_router''"
| "policyTypeName (Leaf i (Role key)) = ''role''"
| "policyTypeName (Leaf i RoundRobin) = ''roundrobin''"
| "policyTypeName (Leaf i Coordinator) = ''coordinator''"

definition policyTypeNames :: "string list" where
  "policyTypeNames = [''chain'', ''mux'', ''ifenabled'', ''router'', ''role'', ''roundrobin'', ''coordinator'', ''null'',
     ''index_router'', ''document_router'']"

text \<open>The children of a multiplexer come sorted by key, so its key lists the sorted keys.\<close>

fun policySortKey :: "policy \<Rightarrow> string" where
  "policySortKey (Leaf i (Role key)) = ''role:'' @ key"
| "policySortKey (PoolRouter i k cfg p) = ''router:'' @ rc_poolName cfg @ ''('' @ policySortKey p @ '')''"
| "policySortKey (IfEnabled i cond p q) = ''ifenabled('' @ policySortKey p @ '','' @ policySortKey q @ '')''"
| "policySortKey (Chain i ps) = ''chain('' @ strings_Join (CHR '','') (map policySortKey ps) @ '')''"
| "policySortKey (Mux i t ps) = ''mux('' @ strings_Join (CHR '','') (sort (map policySortKey ps)) @ '')''"
| "policySortKey p = policyTypeName p"

section \<open>Parsing\<close>

record pathMatcher =
  raw :: string
  pm_pattern :: string
  enable :: bool
  regex :: "(string \<Rightarrow> bool) option"

record policyOverride =
  typeName :: string
  envKey :: string
  applyAll :: "bool option"
  matchers :: "pathMatcher list"

definition last_index :: "char \<Rightarrow> string \<Rightarrow> nat option" where
  "last_index c s = (if c \<in> set s then Some (length s - 1 - length (takeWhile (\<lambda>d. d \<noteq> c) (rev s))) else None)"

definition parse_matcher :: "(string \<Rightarrow> (string \<Rightarrow> bool) option) \<Rightarrow> string \<Rightarrow> pathMatcher" where
  "parse_matcher compile item =
     (let fallback = \<lparr>raw = item, pm_pattern = item, enable = False, regex = compile item\<rparr> in
      case last_index (CHR ''='') item of
        None \<Rightarrow> fallback
      | Some lastEq \<Rightarrow>
          let path = take lastEq item; val = drop (lastEq + 1) item in
          (case strconv_ParseBool val of
             Some b \<Rightarrow> \<lparr>raw = item, pm_pattern = path, enable = b, regex = compile path\<rparr>
           | None \<Rightarrow> fallback))"

definition parse_override :: "(string \<Rightarrow> (string \<Rightarrow> bool) option) \<Rightarrow> (string \<Rightarrow> string option) \<Rightarrow> string \<Rightarrow> policyOverride option" where
  "parse_override compile getenv name =
     (let key = ''OPENSEARCH_GO_POLICY_'' @ map to_upper name in
      case getenv key of
        None \<Rightarrow> None
      | Some envVal \<Rightarrow>
          if envVal = [] then None
          else case strconv_ParseBool envVal of
                 Some b \<Rightarrow> Some \<lparr>typeName = name, envKey = key, applyAll = Some b, matchers = []\<rparr>
               | None \<Rightarrow>
                   let items = filter (\<lambda>item. item \<noteq> []) (map strings_TrimSpace (strings_Split (CHR '','') envVal));
                       ms = map (parse_matcher compile) items
                   in if ms = [] then None else Some \<lparr>typeName = name, envKey = key, applyAll = None, matchers = ms\<rparr>)"

definition parsePolicyOverrides :: "(string \<Rightarrow> (string \<Rightarrow> bool) option) \<Rightarrow> (string \<Rightarrow> string option) \<Rightarrow> policyOverride list" where
  "parsePolicyOverrides compile getenv = List.map_filter (parse_override compile getenv) policyTypeNames"

section \<open>Paths\<close>

definition node_path :: "string \<Rightarrow> string \<Rightarrow> nat \<Rightarrow> string" where
  "node_path parent name idx = (if parent = [] then [] else parent @ ''.'') @ name @ ''['' @ decimal idx @ '']''"

definition sorted_children :: "policy \<Rightarrow> policy list" where
  "sorted_children p = sort_key policySortKey (childPolicies p)"

lemma size_child: "c \<in> set (childPolicies p) \<Longrightarrow> size c < size p"
  by (cases p) (auto dest: size_list_estimation' [where f = size, OF _ order_refl] intro: less_Suc_eq_le [THEN iffD2])

lemmas child_sizes = size_child [where p = "Chain i ps" for i ps, simplified] size_child [where p = "Mux i t ps" for i t ps, simplified]

lemma size_sorted_child: "c \<in> set (sorted_children p) \<Longrightarrow> size c < size p"
  using size_child by (simp add: sorted_children_def)

text \<open>Every node in the order of the walk, with its path: what \<^verbatim>\<open>writePolicyTree\<close> lists.\<close>

function walk :: "string \<Rightarrow> policy \<Rightarrow> (string \<Rightarrow> nat) \<Rightarrow> (policy \<times> string) list \<times> (string \<Rightarrow> nat)" where
  "walk parent p counts =
     (let name = policyTypeName p; idx = counts name; path = node_path parent name idx;
          (nodes, _) = fold (\<lambda>c (acc, cnt). let (ns, cnt) = walk path c cnt in (acc @ ns, cnt)) (sorted_children p) ([], \<lambda>_. 0)
      in ((p, path) # nodes, counts(name := idx + 1)))"
  by pat_completeness auto
termination
  by (relation "measure (\<lambda>(parent, p, counts). size p)") (simp_all add: size_sorted_child)

declare walk.simps [simp del]

definition policy_nodes :: "policy \<Rightarrow> (policy \<times> string) list" where
  "policy_nodes tree = fst (walk [] tree (\<lambda>_. 0))"

text \<open>The map of the code: a policy that is met again gets the later path.\<close>

definition buildPolicyPaths :: "policy \<Rightarrow> pid \<rightharpoonup> string" where
  "buildPolicyPaths tree = map_of (rev (map (\<lambda>(p, path). (pid_of p, path)) (policy_nodes tree)))"

text \<open>Sorting the children of a chain sorts the slice of the chain itself.\<close>

function reordered :: "policy \<Rightarrow> policy" where
  "reordered (Chain i ps) = Chain i (map reordered (sort_key policySortKey ps))"
| "reordered (Mux i t ps) = Mux i t (map reordered ps)"
| "reordered (IfEnabled i cond p q) = IfEnabled i cond (reordered p) (reordered q)"
| "reordered (PoolRouter i k cfg p) = PoolRouter i k cfg (reordered p)"
| "reordered (NullPolicy i) = NullPolicy i"
| "reordered (IndexRouter i k cfg) = IndexRouter i k cfg"
| "reordered (DocRouter i k cfg) = DocRouter i k cfg"
| "reordered (Leaf i kind) = Leaf i kind"
  by pat_completeness auto
termination
  by (relation "measure size") (use child_sizes in auto)

definition policyNodeLabel :: "policy \<Rightarrow> string" where
  "policyNodeLabel p =
     (case p of
        PoolRouter i k cfg inner \<Rightarrow> if rc_poolName cfg = [] then [] else ''pool='' @ rc_poolName cfg
      | Leaf i (Role key) \<Rightarrow> ''role='' @ key
      | _ \<Rightarrow> [])"

definition writePolicyTree :: "policy \<Rightarrow> string list" where
  "writePolicyTree tree =
     map (\<lambda>(p, path). if policyNodeLabel p \<noteq> [] then path @ ''  '' @ policyNodeLabel p else path) (policy_nodes tree)"

section \<open>Applying overrides\<close>

definition matches :: "pathMatcher \<Rightarrow> string \<Rightarrow> bool" where
  "matches m path = (case regex m of Some f \<Rightarrow> f path | None \<Rightarrow> strings_HasPrefix path (pm_pattern m))"

text \<open>What an override says about a node: everything, or what its first matcher that matches says.\<close>

definition override_action :: "policyOverride \<Rightarrow> string \<Rightarrow> bool option" where
  "override_action ov path =
     (case applyAll ov of
        Some b \<Rightarrow> Some b
      | None \<Rightarrow> map_option enable (find (\<lambda>m. matches m path) (matchers ov)))"

definition apply_to_node :: "policyOverride list \<Rightarrow> (pid \<rightharpoonup> string) \<Rightarrow> policy \<Rightarrow> (pid \<Rightarrow> int32) \<Rightarrow> pid \<Rightarrow> int32" where
  "apply_to_node overrides paths p =
     fold (\<lambda>ov sts.
       if typeName ov \<noteq> policyTypeName p then sts
       else case override_action ov (case paths (pid_of p) of Some path \<Rightarrow> path | None \<Rightarrow> []) of
              None \<Rightarrow> sts
            | Some b \<Rightarrow> sts(pid_of p := psSetEnvOverride b [] (sts (pid_of p)))) overrides"

function apply_recursive :: "policyOverride list \<Rightarrow> (pid \<rightharpoonup> string) \<Rightarrow> policy \<Rightarrow> (pid \<Rightarrow> int32) \<Rightarrow> pid \<Rightarrow> int32" where
  "apply_recursive overrides paths p sts =
     fold (\<lambda>c sts. apply_recursive overrides paths c sts) (childPolicies p) (apply_to_node overrides paths p sts)"
  by pat_completeness auto
termination
  by (relation "measure (\<lambda>(overrides, paths, p, sts). size p)") (simp_all add: size_child)

declare apply_recursive.simps [simp del]

text \<open>The states after the walk, and the tree, which the computation of the paths has reordered.\<close>

definition applyPolicyOverrides :: "policy \<Rightarrow> policyOverride list \<Rightarrow> (pid \<Rightarrow> int32) \<Rightarrow> policy \<times> (pid \<Rightarrow> int32)" where
  "applyPolicyOverrides tree overrides sts =
     (if overrides = [] then (tree, sts)
      else (reordered tree, apply_recursive overrides (buildPolicyPaths tree) (reordered tree) sts))"

section \<open>Regular expressions of a path\<close>

text \<open>The patterns that a path is: bytes, a dot for any byte, and classes of plain bytes.\<close>

datatype re_token = RByte char | RAny | RClass "char list"

definition plain_byte :: "char \<Rightarrow> bool" where
  "plain_byte c \<longleftrightarrow> is_upper c \<or> is_lower c \<or> digit c \<or> c = CHR ''_''"

function parse_simple :: "string \<Rightarrow> re_token list option" where
  "parse_simple [] = Some []"
| "parse_simple (c # cs) =
     (if c = CHR ''.'' then map_option ((#) RAny) (parse_simple cs)
      else if c = CHR ''['' then
        (let ds = takeWhile (\<lambda>d. d \<noteq> CHR '']'') cs in
         if ds \<noteq> [] \<and> list_all plain_byte ds \<and> CHR '']'' \<in> set cs
         then map_option ((#) (RClass ds)) (parse_simple (drop (Suc (length ds)) cs)) else None)
      else if plain_byte c then map_option ((#) (RByte c)) (parse_simple cs)
      else None)"
  by pat_completeness auto
termination
  by (relation "measure length") auto

declare parse_simple.simps(2) [simp del]

fun token_ok :: "re_token \<Rightarrow> char \<Rightarrow> bool" where
  "token_ok (RByte b) c \<longleftrightarrow> c = b"
| "token_ok RAny c \<longleftrightarrow> c \<noteq> CHR 0x0A"
| "token_ok (RClass cs) c \<longleftrightarrow> c \<in> set cs"

fun re_match :: "re_token list \<Rightarrow> string \<Rightarrow> bool" where
  "re_match [] s \<longleftrightarrow> True"
| "re_match (t # ts) [] \<longleftrightarrow> False"
| "re_match (t # ts) (c # cs) \<longleftrightarrow> token_ok t c \<and> re_match ts cs"

fun re_search :: "re_token list \<Rightarrow> string \<Rightarrow> bool" where
  "re_search ts [] \<longleftrightarrow> re_match ts []"
| "re_search ts (c # cs) \<longleftrightarrow> re_match ts (c # cs) \<or> re_search ts cs"

text \<open>What is relied on of \<^verbatim>\<open>regexp\<close>: on such patterns it compiles, and finds a match anywhere in the string.\<close>

definition regexp_ok :: "(string \<Rightarrow> (string \<Rightarrow> bool) option) \<Rightarrow> bool" where
  "regexp_ok compile \<longleftrightarrow> (\<forall>s ts. parse_simple s = Some ts \<longrightarrow> compile s = Some (re_search ts))"

text \<open>A string in which no name byte is followed by a digit.\<close>

definition name_byte :: "char \<Rightarrow> bool" where
  "name_byte c \<longleftrightarrow> is_lower c \<or> c = CHR ''_''"

fun quiet :: "string \<Rightarrow> bool" where
  "quiet (a # b # s) \<longleftrightarrow> \<not> (name_byte a \<and> digit b) \<and> quiet (b # s)"
| "quiet _ \<longleftrightarrow> True"

lemma quiet_append:
  "quiet (a @ b) \<longleftrightarrow> quiet a \<and> quiet b \<and> \<not> (a \<noteq> [] \<and> b \<noteq> [] \<and> name_byte (last a) \<and> digit (hd b))"
  by (induction a rule: quiet.induct; cases b) auto

lemma re_match_append: "re_match (A @ B) s \<Longrightarrow> length A \<le> length s \<and> re_match B (drop (length A) s)"
  by (induction A s rule: re_match.induct) auto

text \<open>A pattern with a class of digits right after a name byte finds nothing in such a string.\<close>

lemma quiet_no_match:
  assumes "ts = A @ RByte c # RClass ds # B" "name_byte c" "list_all digit ds" "quiet s"
  shows "\<not> re_match ts s"
proof
  assume "re_match ts s"
  then have "re_match (RByte c # RClass ds # B) (drop (length A) s)" using re_match_append assms(1) by blast
  then obtain d rest where d: "drop (length A) s = c # d # rest" "d \<in> set ds"
    by (cases "drop (length A) s"; cases "tl (drop (length A) s)") auto
  have "quiet (take (length A) s @ drop (length A) s)" using assms(4) by simp
  then have "quiet (c # d # rest)" unfolding quiet_append d(1) by blast
  then show False using assms(2,3) d(2) by (simp add: list_all_iff)
qed

lemma quiet_no_search:
  assumes "ts = A @ RByte c # RClass ds # B" "name_byte c" "list_all digit ds" "quiet s"
  shows "\<not> re_search ts s"
  using assms(4)
proof (induction s)
  case (Cons x s)
  have "quiet s" using Cons.prems by (cases s) auto
  then show ?case using Cons quiet_no_match [OF assms(1-3) Cons.prems] by simp
qed (use quiet_no_match [OF assms(1-3)] in simp)

lemma takeWhile_short: "c \<in> set cs \<Longrightarrow> length (takeWhile (\<lambda>d. d \<noteq> c) cs) < length cs"
  by (induction cs) auto

lemma parse_simple_append:
  assumes "parse_simple a = Some A"
  shows "parse_simple (a @ b) = map_option ((@) A) (parse_simple b)"
  using assms
proof (induction a arbitrary: A rule: parse_simple.induct)
  case 1
  then show ?case by (simp add: option.map_ident)
next
  case (2 c cs)
  let ?ds = "takeWhile (\<lambda>d. d \<noteq> CHR '']'') cs"
  consider (any) "c = CHR ''.''" | (cls) "c = CHR ''[''" "c \<noteq> CHR ''.''" | (byte) "c \<noteq> CHR ''.''" "c \<noteq> CHR ''[''" by blast
  then show ?case
  proof cases
    case any
    then obtain A' where "parse_simple cs = Some A'" "A = RAny # A'" using 2(4) by (auto simp: parse_simple.simps(2))
    with 2(1) [OF any] any show ?thesis by (cases "parse_simple b") (simp_all add: parse_simple.simps(2))
  next
    case cls
    then obtain A' where A': "?ds \<noteq> []" "list_all plain_byte ?ds" "CHR '']'' \<in> set cs"
        "parse_simple (drop (Suc (length ?ds)) cs) = Some A'" "A = RClass ?ds # A'"
      using 2(4) by (auto simp: parse_simple.simps(2) Let_def split: if_splits)
    have t: "takeWhile (\<lambda>d. d \<noteq> CHR '']'') (cs @ b) = ?ds" using A'(3) by (simp add: takeWhile_append1)
    have "drop (Suc (length ?ds)) (cs @ b) = drop (Suc (length ?ds)) cs @ b"
      using takeWhile_short [OF A'(3)] by simp
    moreover have "parse_simple (drop (Suc (length ?ds)) cs @ b) = map_option ((@) A') (parse_simple b)"
      using 2(2) [OF cls(2,1) refl _ A'(4)] A'(1-3) by blast
    ultimately show ?thesis
      using A'(1-3,5) cls t by (cases "parse_simple b") (simp_all add: parse_simple.simps(2) Let_def)
  next
    case byte
    then obtain A' where A': "plain_byte c" "parse_simple cs = Some A'" "A = RByte c # A'"
      using 2(4) by (auto simp: parse_simple.simps(2) split: if_splits)
    with 2(3) [OF byte A'(1,2)] byte show ?thesis
      by (cases "parse_simple b") (simp_all add: parse_simple.simps(2))
  qed
qed

lemma parse_simple_name: "list_all name_byte s \<Longrightarrow> parse_simple s = Some (map RByte s)"
proof (induction s)
  case (Cons c s)
  then have "plain_byte c" "c \<noteq> CHR ''.''" "c \<noteq> CHR ''[''"
    by (auto simp: name_byte_def plain_byte_def is_lower_def)
  then show ?case using Cons by (simp add: parse_simple.simps(2))
qed simp

lemma parse_simple_index: "parse_simple (''['' @ decimal n @ '']'') = Some [RClass (decimal n)]"
proof -
  have d: "decimal n \<noteq> []" "\<And>c. c \<in> set (decimal n) \<Longrightarrow> digit c" using decimal_digits by auto
  have ne: "c \<noteq> CHR '']''" if "c \<in> set (decimal n)" for c using d(2) [OF that] by auto
  have "takeWhile (\<lambda>d. d \<noteq> CHR '']'') (decimal n @ '']'') = decimal n" using ne by (simp add: takeWhile_append)
  then show ?thesis using d by (simp add: parse_simple.simps(2) Let_def list_all_iff plain_byte_def)
qed

section \<open>The paths of a tree\<close>

inductive rendered :: "string \<Rightarrow> bool" where
  rendered_top: "name \<in> set policyTypeNames \<Longrightarrow> rendered (node_path [] name idx)"
| rendered_child: "rendered s \<Longrightarrow> name \<in> set policyTypeNames \<Longrightarrow> rendered (node_path s name idx)"

lemma type_name_listed: "policyTypeName p \<in> set policyTypeNames"
  by (cases p rule: policyTypeName.cases) (simp_all add: policyTypeNames_def)

lemma type_names_plain: "name \<in> set policyTypeNames \<Longrightarrow> name \<noteq> [] \<and> list_all name_byte name"
  by (auto simp: policyTypeNames_def name_byte_def is_lower_def)

lemma quiet_name: "list_all (\<lambda>c. \<not> digit c) s \<Longrightarrow> quiet s"
  by (induction s rule: quiet.induct) auto

lemma quiet_digits: "list_all (\<lambda>c. \<not> name_byte c) s \<Longrightarrow> quiet s"
  by (induction s rule: quiet.induct) auto

lemma segment_facts:
  assumes "name \<in> set policyTypeNames" and seg_def: "seg = name @ ''['' @ decimal idx @ '']''"
  shows "quiet seg" "seg \<noteq> []" "\<not> digit (hd seg)" "last seg = CHR '']''"
    "\<exists>A c. parse_simple seg = Some (A @ [RByte c, RClass (decimal idx)]) \<and> name_byte c"
proof -
  have n: "name \<noteq> []" "list_all name_byte name" using type_names_plain [OF assms(1)] by auto
  have nd: "\<not> digit c" if "name_byte c" for c using that by (auto simp: name_byte_def is_lower_def)
  have d: "list_all digit (decimal idx)" using decimal_digits by (simp add: list_all_iff)
  have "list_all (\<lambda>c. \<not> digit c) name" using n(2) nd by (auto simp: list_all_iff)
  moreover have "list_all (\<lambda>c. \<not> name_byte c) (''['' @ decimal idx @ '']'')"
    using d nd by (auto simp: list_all_iff name_byte_def is_lower_def)
  ultimately show "quiet seg" unfolding seg_def quiet_append [of name] using quiet_name quiet_digits by simp
  show "seg \<noteq> []" "last seg = CHR '']''" by (simp_all add: seg_def)
  show "\<not> digit (hd seg)" using n nd by (cases name) (auto simp: seg_def)
  have "parse_simple seg = Some (map RByte name @ [RClass (decimal idx)])"
    using parse_simple_append [OF parse_simple_name [OF n(2)]] parse_simple_index by (simp add: seg_def)
  moreover have "map RByte name = map RByte (butlast name) @ [RByte (last name)]" using n(1)
    by (metis append_butlast_last_id list.simps(8,9) map_append)
  moreover have "name_byte (last name)" using n by (auto simp: list_all_iff)
  ultimately show "\<exists>A c. parse_simple seg = Some (A @ [RByte c, RClass (decimal idx)]) \<and> name_byte c" by auto
qed

lemma rendered_facts:
  assumes "rendered s"
  shows "quiet s \<and> s \<noteq> [] \<and> last s = CHR '']'' \<and> CHR ''='' \<notin> set s
    \<and> (\<exists>A c ds. parse_simple s = Some (A @ [RByte c, RClass ds]) \<and> name_byte c \<and> list_all digit ds)"
  using assms
proof (induction rule: rendered.induct)
  case (rendered_top name idx)
  have "list_all digit (decimal idx)" using decimal_digits by (simp add: list_all_iff)
  moreover have "CHR ''='' \<notin> set (name @ ''['' @ decimal idx @ '']'')"
    using type_names_plain [OF rendered_top] decimal_digits [of idx] by (auto simp: list_all_iff name_byte_def is_lower_def)
  ultimately show ?case using segment_facts [OF rendered_top refl, of idx] unfolding node_path_def by auto
next
  case (rendered_child s name idx)
  let ?seg = "name @ ''['' @ decimal idx @ '']''"
  note seg = segment_facts [OF rendered_child.hyps(2) refl, of idx]
  have p: "node_path s name idx = s @ ''.'' @ ?seg" using rendered_child.IH by (simp add: node_path_def)
  have dig: "list_all digit (decimal idx)" using decimal_digits by (simp add: list_all_iff)
  have eq: "CHR ''='' \<notin> set ?seg"
    using type_names_plain [OF rendered_child.hyps(2)] decimal_digits [of idx] by (auto simp: list_all_iff name_byte_def is_lower_def)
  have "\<not> name_byte (CHR '']'')" "\<not> name_byte (CHR ''.'')" by (simp_all add: name_byte_def is_lower_def)
  then have q: "quiet (s @ ''.'' @ ?seg)"
    using rendered_child.IH seg(1) unfolding quiet_append [of s] quiet_append [of "''.''"] by simp
  obtain A c ds where A: "parse_simple s = Some A" using rendered_child.IH by blast
  obtain B e where B: "parse_simple ?seg = Some (B @ [RByte e, RClass (decimal idx)])" "name_byte e" using seg(5) by blast
  have "parse_simple ''.'' = Some [RAny]" by (simp add: parse_simple.simps(2))
  then have "parse_simple (''.'' @ ?seg) = Some (RAny # B @ [RByte e, RClass (decimal idx)])"
    using parse_simple_append [of "''.''" "[RAny]" ?seg] B(1) by simp
  then have "parse_simple (s @ ''.'' @ ?seg) = Some ((A @ RAny # B) @ [RByte e, RClass (decimal idx)])"
    using parse_simple_append [OF A, of "''.'' @ ?seg"] by simp
  then show ?case unfolding p using q rendered_child.IH seg(2,4) B(2) dig eq by auto
qed

lemma walk_rendered:
  "parent = [] \<or> rendered parent \<Longrightarrow> \<forall>x \<in> set (fst (walk parent p counts)). rendered (snd x)"
proof (induction parent p counts rule: walk.induct)
  case (1 parent p counts)
  define path where "path = node_path parent (policyTypeName p) (counts (policyTypeName p))"
  have path: "rendered path" using "1.prems" type_name_listed unfolding path_def by (auto intro: rendered.intros)
  let ?step = "\<lambda>c (acc, cnt). let (ns, cnt) = walk path c cnt in (acc @ ns, cnt)"
  have "\<forall>x \<in> set (fst (fold ?step cs (acc, cnt))). rendered (snd x)"
    if "set cs \<subseteq> set (sorted_children p)" "\<forall>x \<in> set acc. rendered (snd x)" for cs acc cnt
    using that
  proof (induction cs arbitrary: acc cnt)
    case (Cons c cs)
    obtain ns cnt' where w: "walk path c cnt = (ns, cnt')" by force
    have "\<forall>x \<in> set ns. rendered (snd x)"
      using "1.IH" [OF refl refl path_def, of c cnt] Cons.prems(1) path w by simp
    then show ?case using Cons.IH [of "acc @ ns" cnt'] Cons.prems w by auto
  qed simp
  from this [of "sorted_children p" "[]" "\<lambda>_. 0"] path show ?case
    by (subst walk.simps) (auto simp: Let_def path_def [symmetric] split: prod.splits)
qed


lemma nodes_rendered: "(p, path) \<in> set (policy_nodes tree) \<Longrightarrow> rendered path"
  using walk_rendered [of "[]" tree "\<lambda>_. 0"] by (auto simp: policy_nodes_def)

lemma buildPolicyPaths_quiet: "quiet (case buildPolicyPaths tree i of Some path \<Rightarrow> path | None \<Rightarrow> [])"
proof (cases "buildPolicyPaths tree i")
  case (Some path)
  then have "(i, path) \<in> set (map (\<lambda>(p, path). (pid_of p, path)) (policy_nodes tree))"
    using map_of_SomeD by (fastforce simp: buildPolicyPaths_def)
  then show ?thesis using Some nodes_rendered rendered_facts by auto
qed simp

section \<open>What an override does\<close>

lemma last_index_append: "c \<notin> set v \<Longrightarrow> last_index c (s @ c # v) = Some (length s)"
proof -
  assume "c \<notin> set v"
  then have "takeWhile (\<lambda>d. d \<noteq> c) (rev v @ c # rev s) = rev v" by (subst takeWhile_append2) auto
  then show ?thesis by (simp add: last_index_def)
qed

lemma bool_spelling: "strconv_ParseBool v = Some b \<Longrightarrow> v \<noteq> [] \<and> list_all plain_byte v"
proof -
  assume "strconv_ParseBool v = Some b"
  then have "v \<in> set [''1'', ''t'', ''T'', ''TRUE'', ''true'', ''True''] \<or> v \<in> set [''0'', ''f'', ''F'', ''FALSE'', ''false'', ''False'']"
    unfolding strconv_ParseBool_def by (metis option.distinct(1))
  moreover have "list_all (\<lambda>v. v \<noteq> [] \<and> list_all plain_byte v) [''1'', ''t'', ''T'', ''TRUE'', ''true'', ''True'']"
    "list_all (\<lambda>v. v \<noteq> [] \<and> list_all plain_byte v) [''0'', ''f'', ''F'', ''FALSE'', ''false'', ''False'']"
    by code_simp+
  ultimately show ?thesis unfolding list_all_iff by blast
qed

lemma parse_matcher_path:
  assumes "strconv_ParseBool v = Some b"
  shows "parse_matcher compile (path @ CHR ''='' # v) = \<lparr>raw = path @ CHR ''='' # v, pm_pattern = path, enable = b, regex = compile path\<rparr>"
proof -
  have "CHR ''='' \<notin> set v" using bool_spelling [OF assms] by (auto simp: list_all_iff plain_byte_def is_upper_def is_lower_def)
  then show ?thesis using assms by (simp add: parse_matcher_def last_index_append Let_def)
qed

lemma apply_nothing:
  assumes "\<And>ov i. ov \<in> set overrides \<Longrightarrow> override_action ov (case paths i of Some path \<Rightarrow> path | None \<Rightarrow> []) = None"
  shows "apply_recursive overrides paths p sts = sts"
proof (induction p arbitrary: sts rule: measure_induct_rule [of size])
  case (less p)
  have node: "apply_to_node ovs paths p s = s" if "set ovs \<subseteq> set overrides" for ovs s
    using that
  proof (induction ovs arbitrary: s)
    case (Cons ov ovs)
    then show ?case using assms [of ov "pid_of p"] by (simp add: apply_to_node_def)
  qed (simp add: apply_to_node_def)
  have "fold (\<lambda>c s. apply_recursive overrides paths c s) cs s = s" if "set cs \<subseteq> set (childPolicies p)" for cs s
    using that less size_child by (induction cs arbitrary: s) auto
  with node show ?case by (subst apply_recursive.simps) simp
qed

text \<open>The documented way to address one policy has no effect. A path as the client prints it, with its value, is
  taken as a regular expression; it compiles, its index brackets are character classes, and it matches no node of any
  tree, its own included; the comparison by prefix is only for patterns that do not compile. No state changes.\<close>
theorem exact_path_no_effect:
  assumes "regexp_ok compile" "(p, path) \<in> set (policy_nodes tree)" "strconv_ParseBool v = Some b"
  defines "m \<equiv> parse_matcher compile (path @ CHR ''='' # v)"
  shows "pm_pattern m = path \<and> enable m = b \<and>
    snd (applyPolicyOverrides tree' [\<lparr>typeName = name, envKey = key, applyAll = None, matchers = [m]\<rparr>] sts) = sts"
proof -
  have m: "m = \<lparr>raw = path @ CHR ''='' # v, pm_pattern = path, enable = b, regex = compile path\<rparr>"
    unfolding m_def by (rule parse_matcher_path [OF assms(3)])
  obtain A c ds where r: "parse_simple path = Some (A @ [RByte c, RClass ds])" "name_byte c" "list_all digit ds"
    using rendered_facts [OF nodes_rendered [OF assms(2)]] by blast
  then have "compile path = Some (re_search (A @ RByte c # RClass ds # []))" using assms(1) by (simp add: regexp_ok_def)
  then have "\<not> matches m s" if "quiet s" for s
    using quiet_no_search [OF refl r(2,3) that] m by (simp add: matches_def)
  then have none: "override_action \<lparr>typeName = name, envKey = key, applyAll = None, matchers = [m]\<rparr>
      (case buildPolicyPaths tree' i of Some path \<Rightarrow> path | None \<Rightarrow> []) = None" for i
    using buildPolicyPaths_quiet [of tree' i] by (simp add: override_action_def)
  have "apply_recursive [\<lparr>typeName = name, envKey = key, applyAll = None, matchers = [m]\<rparr>] (buildPolicyPaths tree') (reordered tree') sts = sts"
    by (rule apply_nothing) (use none in auto)
  then show ?thesis by (simp add: applyPolicyOverrides_def m)
qed


text \<open>The policies of a tree.\<close>

function all_policies :: "policy \<Rightarrow> policy list" where
  "all_policies p = p # concat (map all_policies (childPolicies p))"
  by pat_completeness auto
termination
  by (relation "measure size") (simp_all add: size_child)

declare all_policies.simps [simp del]

definition named_pids :: "string \<Rightarrow> policy \<Rightarrow> pid set" where
  "named_pids name p = pid_of ` {q \<in> set (all_policies p). policyTypeName q = name}"

lemma named_pids_step:
  "named_pids name p = (if policyTypeName p = name then {pid_of p} else {}) \<union> (\<Union>c \<in> set (childPolicies p). named_pids name c)"
  unfolding named_pids_def by (subst all_policies.simps) auto

lemma reordered_same: "policyTypeName (reordered p) = policyTypeName p" "pid_of (reordered p) = pid_of p"
  by (cases p rule: policyTypeName.cases; simp)+

lemma reordered_children: "set (childPolicies (reordered p)) = reordered ` set (childPolicies p)"
  by (cases p) auto

lemma named_pids_reordered: "named_pids name (reordered p) = named_pids name p"
proof (induction p rule: measure_induct_rule [of size])
  case (less p)
  then have "(\<Union>c \<in> set (childPolicies p). named_pids name (reordered c)) = (\<Union>c \<in> set (childPolicies p). named_pids name c)"
    using size_child by auto
  then show ?case by (subst (1 2) named_pids_step) (simp add: reordered_same reordered_children)
qed

lemma bit_override: "bit (psSetEnvOverride e [] s) n = (if n = 2 then e else if n = 3 then \<not> e else bit s n)"
  using bit_psSetEnvOverride [of e "[]" s] unfolding env_prefix_Nil by blast

lemma override_idem: "psSetEnvOverride e [] (psSetEnvOverride e [] s) = psSetEnvOverride e [] s"
  by (rule bit_eqI) (simp add: bit_override)

lemma apply_all:
  assumes "applyAll ov = Some b"
  shows "apply_recursive [ov] paths p sts i = (if i \<in> named_pids (typeName ov) p then psSetEnvOverride b [] (sts i) else sts i)"
proof (induction p arbitrary: sts i rule: measure_induct_rule [of size])
  case (less p)
  have node: "apply_to_node [ov] paths p sts = (\<lambda>i. if policyTypeName p = typeName ov \<and> i = pid_of p then psSetEnvOverride b [] (sts i) else sts i)" for sts
    using assms by (auto simp: apply_to_node_def override_action_def)
  have "fold (\<lambda>c s. apply_recursive [ov] paths c s) cs s i =
      (if \<exists>c \<in> set cs. i \<in> named_pids (typeName ov) c then psSetEnvOverride b [] (s i) else s i)"
    if "set cs \<subseteq> set (childPolicies p)" for cs s
    using that
  proof (induction cs arbitrary: s)
    case (Cons c cs)
    have "apply_recursive [ov] paths c s = (\<lambda>i. if i \<in> named_pids (typeName ov) c then psSetEnvOverride b [] (s i) else s i)"
      using less [of c s] size_child Cons.prems by (intro ext) auto
    then show ?case using Cons by (auto simp: override_idem)
  qed simp
  then show ?case
    by (subst apply_recursive.simps, subst named_pids_step) (auto simp: node override_idem)
qed

text \<open>C39. An override with one value for a type reaches every policy of that type, wherever it is in the tree and also
  when it is reached in several ways, and nothing else. The value false turns all of them off and the value true
  changes the state of none, unless an override before it had.\<close>
theorem override_all_applied:
  assumes "applyAll ov = Some b" "applyPolicyOverrides tree [ov] sts = (tree', sts')"
  shows "sts' = (\<lambda>i. if i \<in> named_pids (typeName ov) tree then psSetEnvOverride b [] (sts i) else sts i)
    \<and> {i. psIsEnabled (sts' i)} =
        (if b then {i. bit (sts i) 0 \<and> (bit (sts i) 3 \<longrightarrow> i \<in> named_pids (typeName ov) tree)}
         else {i. psIsEnabled (sts i)} - named_pids (typeName ov) tree)"
proof -
  have s: "sts' = (\<lambda>i. if i \<in> named_pids (typeName ov) tree then psSetEnvOverride b [] (sts i) else sts i)"
    using assms apply_all [OF assms(1), of "buildPolicyPaths tree" "reordered tree"] named_pids_reordered
    by (auto simp: applyPolicyOverrides_def)
  then show ?thesis by (auto simp: psIsEnabled_bits bit_override)
qed

section \<open>The order of a chain\<close>

text \<open>Any override, also one that matches nothing, sorts the children of every chain by their keys in place: a chain
  whose children are not in that order tries them in another order from then on.\<close>
theorem override_reorders_chain:
  assumes "ov \<in> set overrides" "\<not> sorted (map policySortKey ps)" "distinct (map pid_of ps)"
    and "applyPolicyOverrides (Chain i ps) overrides sts = (tree', sts')"
  shows "\<exists>qs. tree' = Chain i qs \<and> map pid_of qs = map pid_of (sort_key policySortKey ps) \<and> map pid_of qs \<noteq> map pid_of ps"
proof -
  have ne: "overrides \<noteq> []" using assms(1) by auto
  have "tree' = Chain i (map reordered (sort_key policySortKey ps))" using ne assms(4) by (simp add: applyPolicyOverrides_def)
  moreover have pids: "map pid_of (map reordered qs) = map pid_of qs" for qs by (simp add: reordered_same)
  moreover have "map pid_of (sort_key policySortKey ps) \<noteq> map pid_of ps"
  proof
    assume eq: "map pid_of (sort_key policySortKey ps) = map pid_of ps"
    have "inj_on pid_of (set ps)" using assms(3) by (simp add: distinct_map)
    then have "sort_key policySortKey ps = ps" using eq by (intro map_inj_on [of pid_of]) auto
    then show False using assms(2) sorted_sort_key [of policySortKey ps] by simp
  qed
  ultimately show ?thesis by (intro exI [of _ "map reordered (sort_key policySortKey ps)"]) (simp only: pids simp_thms)
qed

text \<open>A tree without chains, or with chains in the order of their keys, keeps its order.\<close>

definition chain_ordered :: "policy \<Rightarrow> bool" where
  "chain_ordered p \<longleftrightarrow> (case p of Chain i ps \<Rightarrow> sorted (map policySortKey ps) | _ \<Rightarrow> True)"

lemma reordered_id: "\<forall>q \<in> set (all_policies p). chain_ordered q \<Longrightarrow> reordered p = p"
proof (induction p rule: measure_induct_rule [of size])
  case (less p)
  have sub: "reordered c = c" if "c \<in> set (childPolicies p)" for c
    using less.IH [of c] less.prems that size_child by (subst (asm) (2) all_policies.simps) auto
  have "chain_ordered p" using less.prems by (subst (asm) all_policies.simps) simp
  then show ?case using sub by (cases p) (auto simp: chain_ordered_def sort_key_id_if_sorted map_idI)
qed

lemma all_policies_cases [simp]:
  "all_policies (Leaf i kind) = [Leaf i kind]" "all_policies (NullPolicy i) = [NullPolicy i]"
  "all_policies (IfEnabled i cond p q) = IfEnabled i cond p q # all_policies p @ all_policies q"
  "all_policies (PoolRouter i k cfg p) = PoolRouter i k cfg p # all_policies p"
  "all_policies (Chain i ps) = Chain i ps # concat (map all_policies ps)"
  "all_policies (Mux i t ps) = Mux i t ps # concat (map all_policies ps)"
  by (simp_all add: all_policies.simps)

text \<open>The default policy is not affected: its only chain is in the order of the keys already.\<close>
theorem default_policy_not_reordered:
  assumes "NewDefaultPolicy c = Inr p"
  shows "reordered p = p"
proof (rule reordered_id, rule ballI)
  fix q assume q: "q \<in> set (all_policies p)"
  obtain t where p: "p = IfEnabled 1 (enabled_condition 2) (wrap 3 (Leaf 2 (Role RoleCoordinatingOnly)) (scc_reads c) [] None)
      (Chain 4 [Mux 5 t (scored_policies c), Leaf 6 RoundRobin])"
    using assms by (auto simp: NewDefaultPolicy_def split: sum.splits)
  have key: "policySortKey (Mux 5 t (scored_policies c)) \<le> policySortKey (Leaf 6 RoundRobin)" by simp
  have no_chain: "chain_ordered r" if "r \<in> set (all_policies s)" "s \<in> set (scored_policies c)" for r s
    using that by (auto simp: scored_policies_def wrap_def role_or_null_def role_or_role_def ingestIfEnabled_def searchIfEnabled_def
        warmIfEnabled_def dataIfEnabled_def clusterMgrIfEnabled_def chain_ordered_def)
  show "chain_ordered q" using q no_chain key by (auto simp: p chain_ordered_def wrap_def)
qed


lemma walk_length: "length (fst (walk parent p counts)) = length (all_policies p)"
proof (induction parent p counts rule: walk.induct)
  case (1 parent p counts)
  define path where "path = node_path parent (policyTypeName p) (counts (policyTypeName p))"
  let ?step = "\<lambda>c (acc, cnt). let (ns, cnt) = walk path c cnt in (acc @ ns, cnt)"
  have "length (fst (fold ?step cs (acc, cnt))) = length acc + length (concat (map all_policies cs))"
    if "set cs \<subseteq> set (sorted_children p)" for cs acc cnt
    using that
  proof (induction cs arbitrary: acc cnt)
    case (Cons c cs)
    obtain ns cnt' where w: "walk path c cnt = (ns, cnt')" by force
    have "length ns = length (all_policies c)" using "1.IH" [OF refl refl path_def, of c cnt] Cons.prems w by simp
    then show ?case using Cons.IH [of "acc @ ns" cnt'] Cons.prems w by simp
  qed simp
  from this [of "sorted_children p" "[]" "\<lambda>_. 0"]
  have "length (fst (fold ?step (sorted_children p) ([], \<lambda>_. 0))) = length (concat (map all_policies (sorted_children p)))" by simp
  moreover have "length (concat (map all_policies (sorted_children p))) = length (concat (map all_policies (childPolicies p)))"
  proof -
    have "mset (map (length \<circ> all_policies) (sorted_children p)) = mset (map (length \<circ> all_policies) (childPolicies p))"
      by (simp add: sorted_children_def)
    then have "sum_list (map (length \<circ> all_policies) (sorted_children p)) = sum_list (map (length \<circ> all_policies) (childPolicies p))"
      by (metis sum_mset_sum_list)
    then show ?thesis by (simp add: length_concat o_def)
  qed
  ultimately show ?case
    by (subst walk.simps, subst all_policies.simps) (auto simp: Let_def path_def [symmetric] split: prod.splits)
qed

text \<open>The tree of the default policy has 70 nodes, counted once for each way they are reached, 14 of them routers.\<close>
theorem default_tree_nodes:
  assumes "NewDefaultPolicy c = Inr p"
  shows "length (writePolicyTree p) = 70 \<and> length (filter (\<lambda>q. policyTypeName q = ''router'') (all_policies p)) = 14"
proof -
  obtain t where p: "p = IfEnabled 1 (enabled_condition 2) (wrap 3 (Leaf 2 (Role RoleCoordinatingOnly)) (scc_reads c) [] None)
      (Chain 4 [Mux 5 t (scored_policies c), Leaf 6 RoundRobin])"
    using assms by (auto simp: NewDefaultPolicy_def split: sum.splits)
  have "length (all_policies p) = 70 \<and> length (filter (\<lambda>q. policyTypeName q = ''router'') (all_policies p)) = 14"
    by (simp add: p scored_policies_def wrap_def role_or_null_def role_or_role_def ingestIfEnabled_def searchIfEnabled_def
        warmIfEnabled_def dataIfEnabled_def clusterMgrIfEnabled_def)
  then show ?thesis by (simp add: writePolicyTree_def policy_nodes_def walk_length)
qed

section \<open>Samples\<close>

definition simple_compile :: "string \<Rightarrow> (string \<Rightarrow> bool) option" where
  "simple_compile s = map_option re_search (parse_simple s)"

lemma simple_compile_ok: "regexp_ok simple_compile"
  by (simp add: regexp_ok_def simple_compile_def)

lemma sample_path: "policy_nodes (Leaf 2 RoundRobin) = [(Leaf 2 RoundRobin, ''roundrobin[0]'')]"
proof -
  have "decimal 0 = ''0''" by code_simp
  then show ?thesis by (simp add: policy_nodes_def walk.simps [of _ "Leaf 2 RoundRobin"] sorted_children_def node_path_def Let_def)
qed

theorem exact_path_no_effect_witness:
  "snd (applyPolicyOverrides (Leaf 2 RoundRobin) [\<lparr>typeName = ''roundrobin'', envKey = ''OPENSEARCH_GO_POLICY_ROUNDROBIN'', applyAll = None,
     matchers = [parse_matcher simple_compile (''roundrobin[0]'' @ CHR ''='' # ''false'')]\<rparr>] (\<lambda>_. psEnabled)) = (\<lambda>_. psEnabled)"
proof -
  have v: "strconv_ParseBool ''false'' = Some False" by (simp add: strconv_ParseBool_def)
  have n: "(Leaf 2 RoundRobin, ''roundrobin[0]'') \<in> set (policy_nodes (Leaf 2 RoundRobin))" by (simp add: sample_path)
  from exact_path_no_effect [OF simple_compile_ok n v] show ?thesis by blast
qed

theorem override_all_applied_witness:
  "{i. psIsEnabled (snd (applyPolicyOverrides (Chain 9 [Leaf 2 (Role ''data''), Leaf 3 RoundRobin])
     [\<lparr>typeName = ''role'', envKey = ''OPENSEARCH_GO_POLICY_ROLE'', applyAll = Some False, matchers = []\<rparr>] (\<lambda>_. psEnabled)) i)} = - {2}"
proof -
  let ?t = "Chain 9 [Leaf 2 (Role ''data''), Leaf 3 RoundRobin]"
  have leaf: "named_pids n (Leaf i k) = (if policyTypeName (Leaf i k) = n then {i} else {})" for n i k
    by (subst named_pids_step) simp
  have "named_pids ''role'' ?t = {2}" by (subst named_pids_step) (simp add: leaf)
  moreover have "psIsEnabled psEnabled" by (simp add: psIsEnabled_bits)
  ultimately show ?thesis
    using override_all_applied [of "\<lparr>typeName = ''role'', envKey = ''OPENSEARCH_GO_POLICY_ROLE'', applyAll = Some False, matchers = []\<rparr>" False ?t,
        OF _ surjective_pairing, of "\<lambda>_. psEnabled"] by auto
qed

theorem override_reorders_chain_witness:
  "\<exists>qs. fst (applyPolicyOverrides (Chain 9 [Leaf 2 (Role ''data''), Leaf 3 Coordinator])
     [\<lparr>typeName = ''null'', envKey = ''OPENSEARCH_GO_POLICY_NULL'', applyAll = Some True, matchers = []\<rparr>] (\<lambda>_. psEnabled)) = Chain 9 qs
    \<and> map pid_of qs = [3, 2]"
proof -
  let ?ov = "\<lparr>typeName = ''null'', envKey = ''OPENSEARCH_GO_POLICY_NULL'', applyAll = Some True, matchers = []\<rparr>"
  have "\<not> sorted (map policySortKey [Leaf 2 (Role ''data''), Leaf 3 Coordinator])"
    "map pid_of (sort_key policySortKey [Leaf 2 (Role ''data''), Leaf 3 Coordinator]) = [3, 2]" by simp_all
  then show ?thesis
    using override_reorders_chain [of ?ov "[?ov]" "[Leaf 2 (Role ''data''), Leaf 3 Coordinator]",
        OF _ _ _ surjective_pairing, of 9 "\<lambda>_. psEnabled"] by auto
qed

end
