(* ===== verification/Discovery.thy ===== *)
theory Discovery
  imports Health_Check
begin

text \<open>
  Node discovery (\<^verbatim>\<open>discovery.go\<close>, \<^verbatim>\<open>opensearchtransport.go\<close>): the connections made for the nodes
  that the cluster reports, the difference to the current pool, the weights and the capacity model, and the
  exchange of the pool, with its changes between one server and several. A connection is a pointer; the state
  has the number of the next one. The order in which Go enumerates a map is an argument (\<open>de_range\<close>, one
  permutation for each loop), and so are the time and the random numbers. \<open>None\<close> is a panic. Observers and
  log lines are left out, and so is the context whose cancellation ends the goroutines of a demoted pool.
\<close>

unbundle bit_operations_syntax

section \<open>State\<close>

record nodeInfo =
  node_ID :: string
  node_Name :: string
  node_url :: string
  node_Roles :: "string list"
  node_OS :: "int option option"
  node_ThreadPool :: "(string \<times> nodeInfoThreadPool) list"
  node_roleSet :: roleSet

record discovery_config =
  dc_router :: "policy list option"
  dc_skipConnectionShuffle :: bool
  dc_rttRingSize :: int
  dc_activeListCap :: int
  dc_activeListCapConfig :: "int option"
  dc_standbyPromotionChecks :: nat
  dc_healthCheck :: bool
  dc_verifyDeadAfter :: int

record discovery_env =
  de_range :: "nat \<Rightarrow> (string, cid) gomap \<Rightarrow> (string, cid) gomap"
  de_rnd :: "nat \<Rightarrow> nat"
  de_now :: int
  de_eval :: eval_env

record discovery_state =
  ds_sys :: sys
  ds_pool :: "connection_pool option"
  ds_next :: cid
  ds_checks :: "cid list"
  ds_serverMaxNewConnsPerSec :: real
  ds_clientsPerServer :: real
  ds_healthCheckRate :: real

definition ds_heap :: "discovery_state \<Rightarrow> conn_heap" where
  "ds_heap s = sys_heap (ds_sys s)"

definition put_heap :: "conn_heap \<Rightarrow> discovery_state \<Rightarrow> discovery_state" where
  "put_heap h s = s\<lparr>ds_sys := (ds_sys s)\<lparr>sys_heap := h\<rparr>\<rparr>"

section \<open>Connections of the discovered nodes\<close>

definition canReuseConnection :: "connection \<Rightarrow> nodeInfo \<Rightarrow> bool" where
  "canReuseConnection conn node =
     (if conn_ID conn \<noteq> node_ID node then False
      else if Name conn \<noteq> node_Name node then False
      else toSlice (Roles conn) = toSlice (node_roleSet node))"

definition createConnection :: "discovery_config \<Rightarrow> nodeInfo \<Rightarrow> connection" where
  "createConnection cfg node =
     (let node = node\<lparr>node_roleSet := newRoleSet (node_Roles node)\<rparr>;
          initialState = lcDead OR lcNeedsWarmup OR lcNeedsHardware;
          conn = \<lparr>URL = node_url node, conn_ID = node_ID node, Name = node_Name node,
            Roles = node_roleSet node, version = [], weight = 1, allocatedProcessors = 0,
            rtt = Some (newRTTRing (dc_rttRingSize cfg)),
            pools = \<lparr>reg_pools = Map.empty, reg_defaultPool = zero_pool\<rparr>, failures = 0, state = 0,
            deadSinceNano = 0, overloadedAtNano = 0, drainingQuiescingRemaining = 0,
            checkStartedAt = None, seed = False\<rparr>;
          (conn, initialState) = (case node_OS node of
             Some (Some n) \<Rightarrow> (storeAllocatedProcessors n conn, initialState AND NOT lcNeedsHardware)
           | _ \<Rightarrow> (conn, initialState));
          conn = storeThreadPoolSizes (node_ThreadPool node) conn
      in conn\<lparr>state := newConnState initialState\<rparr>)"

definition new_connection :: "discovery_config \<Rightarrow> nodeInfo \<Rightarrow> discovery_state \<Rightarrow> cid \<times> discovery_state" where
  "new_connection cfg node s =
     (ds_next s, (put_heap ((ds_heap s)(ds_next s := createConnection cfg node)) s)\<lparr>ds_next := ds_next s + 1\<rparr>)"

definition findConnectionByURL :: "connection_pool \<Rightarrow> conn_heap \<Rightarrow> string \<Rightarrow> cid option" where
  "findConnectionByURL cp h url = (case cp of
     singleServerPool None \<Rightarrow> None
   | singleServerPool (Some c) \<Rightarrow> if URL (h c) = url then Some c else None
   | multiPool p \<Rightarrow>
       (case find (\<lambda>c. URL (h c) = url) (ready p) of
          Some c \<Rightarrow> Some c
        | None \<Rightarrow> find (\<lambda>c. URL (h c) = url) (dead p)))"

text \<open>\<^verbatim>\<open>URLs\<close> of the two kinds of pools; a single-server pool without a connection panics.\<close>

definition cp_URLs :: "connection_pool \<Rightarrow> conn_heap \<Rightarrow> string list option" where
  "cp_URLs cp h = (case cp of
     singleServerPool conn \<Rightarrow> map_option (\<lambda>c. [URL (h c)]) conn
   | multiPool p \<Rightarrow> Some (pool_URLs \<lparr>heap = h, pool = p\<rparr>))"

definition currentByURL :: "connection_pool option \<Rightarrow> conn_heap \<Rightarrow> (string, cid) gomap option" where
  "currentByURL cpo h = (case cpo of
     None \<Rightarrow> Some []
   | Some cp \<Rightarrow> map_option (\<lambda>urls. fold (\<lambda>u m. case findConnectionByURL cp h u of
         None \<Rightarrow> m | Some c \<Rightarrow> AList.update u c m) urls []) (cp_URLs cp h))"

fun resolve_nodes :: "discovery_config \<Rightarrow> (string, cid) gomap \<Rightarrow> nodeInfo list \<Rightarrow> discovery_state \<Rightarrow>
    (cid list \<times> cid list) \<times> discovery_state" where
  "resolve_nodes cfg cur [] s = (([], []), s)"
| "resolve_nodes cfg cur (node # nodes) s =
     (let node = node\<lparr>node_roleSet := newRoleSet (node_Roles node)\<rparr>;
          fresh = (let (c, s) = new_connection cfg node s; ((rs, ds), s) = resolve_nodes cfg cur nodes s
                   in ((rs, c # ds), s)) in
      case map_of cur (node_url node) of
        None \<Rightarrow> fresh
      | Some existing \<Rightarrow>
          if canReuseConnection (ds_heap s existing) node
          then let ((rs, ds), s) = resolve_nodes cfg cur nodes s in ((existing # rs, ds), s)
          else fresh)"

section \<open>The difference to the current pool\<close>

definition connections_by_url :: "conn_heap \<Rightarrow> cid list \<Rightarrow> (string, cid) gomap" where
  "connections_by_url h conns = fold (\<lambda>c m. AList.update (URL (h c)) c m) conns []"

record discovery_diff =
  df_added :: "cid list"
  df_removed :: "cid list"
  df_unchanged :: "cid list"
  df_final :: "(string, cid) gomap"

definition diff_step :: "(string, cid) gomap \<Rightarrow> string \<times> cid \<Rightarrow> discovery_diff \<Rightarrow> discovery_diff" where
  "diff_step cur = (\<lambda>(url, newConn) d. case map_of cur url of
     None \<Rightarrow> d\<lparr>df_added := df_added d @ [newConn], df_final := AList.update url newConn (df_final d)\<rparr>
   | Some oldConn \<Rightarrow>
       if oldConn = newConn
       then d\<lparr>df_unchanged := df_unchanged d @ [newConn], df_final := AList.update url newConn (df_final d)\<rparr>
       else d\<lparr>df_removed := df_removed d @ [oldConn], df_added := df_added d @ [newConn],
              df_final := AList.update url newConn (df_final d)\<rparr>)"

definition diff_gone :: "(string, cid) gomap \<Rightarrow> string \<times> cid \<Rightarrow> discovery_diff \<Rightarrow> discovery_diff" where
  "diff_gone new = (\<lambda>(url, oldConn) d.
     if map_of new url = None then d\<lparr>df_removed := df_removed d @ [oldConn]\<rparr> else d)"

definition connection_diff :: "discovery_env \<Rightarrow> (string, cid) gomap \<Rightarrow> (string, cid) gomap \<Rightarrow> discovery_diff" where
  "connection_diff env cur new =
     (let d = fold (diff_step cur) (de_range env 0 new)
                \<lparr>df_added = [], df_removed = [], df_unchanged = [], df_final = []\<rparr>
      in fold (diff_gone new) (de_range env 1 cur) d)"

text \<open>The loop that sorts the chosen connections into ready and dead ones.\<close>

definition time_before :: "int option \<Rightarrow> int option \<Rightarrow> bool" where
  "time_before a b = time_after b a"

definition final_step :: "int option \<Rightarrow> string set \<Rightarrow> string \<times> cid \<Rightarrow>
    (cid list \<times> cid list) \<times> conn_heap \<Rightarrow> (cid list \<times> cid list) \<times> conn_heap" where
  "final_step healthCheckedAt readyURLs = (\<lambda>(url, c) ((fr, fd), h).
     if url \<in> readyURLs then
       let deadSince = loadDeadSince (h c);
           stale = (deadSince \<noteq> None \<and> healthCheckedAt \<noteq> None \<and> time_before deadSince healthCheckedAt) in
       if stale then ((fr @ [c], fd), h(c := (storeDeadSince None (h c))\<lparr>failures := 0\<rparr>))
       else if deadSince \<noteq> None then ((fr, fd @ [c]), h)
       else ((fr @ [c], fd), h)
     else ((fr, fd @ [c]), h))"

definition final_lists :: "discovery_env \<Rightarrow> int option \<Rightarrow> string set \<Rightarrow> (string, cid) gomap \<Rightarrow> conn_heap \<Rightarrow>
    (cid list \<times> cid list) \<times> conn_heap" where
  "final_lists env healthCheckedAt readyURLs fin h =
     fold (final_step healthCheckedAt readyURLs) (de_range env 2 fin) (([], []), h)"

section \<open>Weights and capacity\<close>

function go_gcd :: "int \<Rightarrow> int \<Rightarrow> int" where
  "go_gcd a b = (if b \<noteq> 0 then go_gcd b (a smod b) else a)"
  by pat_completeness auto
termination
  by (relation "measure (\<lambda>(a, b). nat \<bar>b\<bar>)") (auto simp: signed_modulo_int_def abs_mult)

declare go_gcd.simps [simp del]

definition weight_divisor :: "cid list \<Rightarrow> conn_heap \<Rightarrow> int" where
  "weight_divisor conns h = fold (\<lambda>c d. let ap = loadAllocatedProcessors (h c) in
     if ap > 0 then (if d = 0 then ap else go_gcd d ap) else d) conns 0"

definition computeWeights :: "cid list \<Rightarrow> conn_heap \<Rightarrow> conn_heap" where
  "computeWeights conns h =
     (let d = weight_divisor conns h in
      if d = 0 then h
      else fold (\<lambda>c h. let ap = loadAllocatedProcessors (h c) in
             if ap > 0 then h(c := (h c)\<lparr>weight := i32 (min (ap sdiv d) (2 ^ 31 - 1))\<rparr>)
             else h(c := (h c)\<lparr>weight := 1\<rparr>)) conns h)"

definition serverMaxNewConnsPerSecMultiplier :: real where "serverMaxNewConnsPerSecMultiplier = 4"
definition healthCheckRateMultiplier :: real where "healthCheckRateMultiplier = 1 / 10"

definition min_cores :: "cid list \<Rightarrow> conn_heap \<Rightarrow> int" where
  "min_cores conns h = fold (\<lambda>c m. let ap = loadAllocatedProcessors (h c) in
     if ap > 0 \<and> (m = 0 \<or> ap < m) then ap else m) conns 0"

definition recalculateCapacityModel :: "cid list \<Rightarrow> discovery_state \<Rightarrow> discovery_state" where
  "recalculateCapacityModel conns s =
     (let minCores = min_cores conns (ds_heap s) in
      if minCores = 0 then s
      else s\<lparr>ds_serverMaxNewConnsPerSec := real_of_int minCores * serverMaxNewConnsPerSecMultiplier,
             ds_clientsPerServer := real_of_int minCores,
             ds_healthCheckRate := real_of_int minCores * healthCheckRateMultiplier\<rparr>)"

section \<open>The exchange of the pool\<close>

definition newMultiServerPoolFromClient :: "discovery_config \<Rightarrow> multiServerPool" where
  "newMultiServerPoolFromClient cfg =
     \<lparr>ready = [], dead = [], activeCount = 0, members = {}, activeListCap = dc_activeListCap cfg,
      warmupRounds = 0, warmupSkipCount = 0, hasHealthCheck = dc_healthCheck cfg, selector = nil_selector,
      nextReady = 0, standbyPromotionChecks = dc_standbyPromotionChecks cfg,
      activeListCapConfig = dc_activeListCapConfig cfg, poolRequests = 0, poolSuccesses = 0, poolFailures = 0,
      poolWarmupSkips = 0, poolWarmupAccepts = 0, spawned = []\<rparr>"

definition shuffle_conns :: "discovery_config \<Rightarrow> discovery_env \<Rightarrow> cid list \<Rightarrow> cid list" where
  "shuffle_conns cfg env conns =
     (if \<not> dc_skipConnectionShuffle cfg \<and> length conns > 1
      then rand_shuffle (de_rnd env) (length conns) conns else conns)"

definition promoteConnectionPool :: "discovery_config \<Rightarrow> discovery_env \<Rightarrow> cid list \<Rightarrow> cid list \<Rightarrow>
    connection_pool \<Rightarrow> conn_heap \<Rightarrow> world" where
  "promoteConnectionPool cfg env readyConns deadConns cp h = (case cp of
     singleServerPool _ \<Rightarrow>
       let filteredReady = shuffle_conns cfg env readyConns;
           p = (newMultiServerPoolFromClient cfg)\<lparr>ready := filteredReady, dead := deadConns,
                 members := set filteredReady \<union> set deadConns\<rparr>;
           h = fold (\<lambda>c h. h(c := upd_lc lcActive (lcUnknown OR lcStandby) (h c))) filteredReady h;
           p = p\<lparr>activeCount := length filteredReady\<rparr>
       in enforceActiveCap (de_rnd env) \<lparr>heap = h, pool = p\<rparr>
   | multiPool p \<Rightarrow> \<lparr>heap = h, pool = p\<rparr>)"

definition demoteConnectionPool :: "connection_pool \<Rightarrow> conn_heap \<Rightarrow> conn_heap \<times> connection_pool" where
  "demoteConnectionPool cp h = (case cp of
     multiPool p \<Rightarrow>
       newSingleServerPool (if ready p \<noteq> [] then Some (ready p ! 0)
                            else if dead p \<noteq> [] then Some (dead p ! 0) else None) h
   | singleServerPool conn \<Rightarrow> (h, cp))"

definition createOrUpdateSingleNodePool :: "cid list \<Rightarrow> cid list \<Rightarrow> connection_pool option \<Rightarrow> conn_heap \<Rightarrow>
    conn_heap \<times> connection_pool" where
  "createOrUpdateSingleNodePool readyConns deadConns cpo h = (case cpo of
     Some (multiPool p) \<Rightarrow> demoteConnectionPool (multiPool p) h
   | _ \<Rightarrow> newSingleServerPool (if length readyConns = 1 then Some (readyConns ! 0)
                               else if length deadConns = 1 then Some (deadConns ! 0) else None) h)"

text \<open>The loop that moves the active connections, and those it makes active, in front of the standby ones.\<close>

fun partition_states :: "int \<times> int \<Rightarrow> nat \<Rightarrow> nat \<Rightarrow> nat \<Rightarrow> cid list \<Rightarrow> conn_heap \<Rightarrow> nat \<times> cid list \<times> conn_heap" where
  "partition_states params i 0 ac conns h = (ac, conns, h)"
| "partition_states params i (Suc n) ac conns h =
     (let c = conns ! i; lc = lc_of (h c);
          swapped = (if i \<noteq> ac then swap_nth conns i ac else conns) in
      if lc_has lc lcActive then partition_states params (i + 1) n (ac + 1) swapped h
      else if lc_has lc lcStandby then partition_states params (i + 1) n ac conns h
      else partition_states params (i + 1) n (ac + 1) swapped
             (h(c := startWarmup_conn (fst params) (snd params) (upd_lc lcActive (lcUnknown OR lcStandby) (h c)))))"

definition createOrUpdateMultiNodePool :: "discovery_config \<Rightarrow> discovery_env \<Rightarrow> cid list \<Rightarrow> cid list \<Rightarrow>
    connection_pool option \<Rightarrow> conn_heap \<Rightarrow> world" where
  "createOrUpdateMultiNodePool cfg env readyConns deadConns cpo h = (case cpo of
     Some (singleServerPool conn) \<Rightarrow> promoteConnectionPool cfg env readyConns deadConns (singleServerPool conn) h
   | _ \<Rightarrow>
       let allReady = shuffle_conns cfg env readyConns;
           p = (case cpo of Some (multiPool p) \<Rightarrow> p | _ \<Rightarrow> newMultiServerPoolFromClient cfg);
           w = \<lparr>heap = h, pool = p\<lparr>ready := allReady, dead := [], members := set allReady\<rparr>\<rparr>;
           w = fold (\<lambda>c w. appendToDead (de_now env) c (upd_pool (\<lambda>p. p\<lparr>members := insert c (members p)\<rparr>) w)) deadConns w;
           w = upd_pool (recalculateWarmupParams (int (length allReady + length deadConns))) w;
           (ac, rd, h) = partition_states (getWarmupParams (pool w)) 0 (length allReady) 0 allReady (heap w)
       in \<lparr>heap = h, pool = (pool w)\<lparr>ready := rd, activeCount := ac\<rparr>\<rparr>)"

definition put_multi :: "world \<Rightarrow> discovery_state \<Rightarrow> discovery_state" where
  "put_multi w s = (put_heap (heap w) s)\<lparr>ds_pool := Some (multiPool (pool w))\<rparr>"

definition exchange_pool :: "discovery_config \<Rightarrow> discovery_env \<Rightarrow> cid list \<Rightarrow> cid list \<Rightarrow> discovery_state \<Rightarrow> discovery_state" where
  "exchange_pool cfg env finalReady finalDead s =
     (if length finalReady + length finalDead = 1
      then let (h, cp) = createOrUpdateSingleNodePool finalReady finalDead (ds_pool s) (ds_heap s)
           in (put_heap h s)\<lparr>ds_pool := Some cp\<rparr>
      else put_multi (upd_pool (\<lambda>p. p\<lparr>hasHealthCheck := True\<rparr>)
             (createOrUpdateMultiNodePool cfg env finalReady finalDead (ds_pool s) (ds_heap s))) s)"

definition schedule_checks :: "discovery_env \<Rightarrow> cid list \<Rightarrow> cid list \<Rightarrow> discovery_state \<Rightarrow> discovery_state" where
  "schedule_checks env finalReady finalDead s = (case ds_pool s of
     Some (multiPool p) \<Rightarrow>
       let w = fold (scheduleResurrect (de_now env)) finalDead (leaf_world p (ds_sys s));
           w = fold (\<lambda>c w. if needs_rtt_probe w c then upd_pool (spawn (rttProbe c)) w else w) finalReady w
       in put_multi w s
   | _ \<Rightarrow> s)"

text \<open>The policies below the router's chain are told of the difference; an error of theirs is dropped.\<close>

definition notify_router :: "discovery_config \<Rightarrow> discovery_env \<Rightarrow> discovery_diff \<Rightarrow> discovery_state \<Rightarrow> discovery_state option" where
  "notify_router cfg env d s = (case dc_router cfg of
     None \<Rightarrow> Some s
   | Some ps \<Rightarrow> map_option (\<lambda>(_, y). s\<lparr>ds_sys := y\<rparr>)
       (update_backward (de_eval env) (Some (df_added d)) (Some (df_removed d)) ps (ds_sys s)))"

definition updateConnectionPool :: "discovery_config \<Rightarrow> discovery_env \<Rightarrow> int option \<Rightarrow> cid list \<Rightarrow> cid list \<Rightarrow>
    discovery_state \<Rightarrow> discovery_state option" where
  "updateConnectionPool cfg env healthCheckedAt readyConns deadConns s =
     (case currentByURL (ds_pool s) (ds_heap s) of
        None \<Rightarrow> None
      | Some cur \<Rightarrow>
          let new = connections_by_url (ds_heap s) (readyConns @ deadConns);
              d = connection_diff env cur new;
              readyURLs = (\<lambda>c. URL (ds_heap s c)) ` set readyConns;
              ((finalReady, finalDead), h) = final_lists env healthCheckedAt readyURLs (df_final d) (ds_heap s);
              allFinal = finalReady @ finalDead;
              s = put_heap (computeWeights allFinal h) s;
              s = recalculateCapacityModel allFinal s;
              s = exchange_pool cfg env finalReady finalDead s;
              s = schedule_checks env finalReady finalDead s
          in notify_router cfg env d s)"

definition nodeDiscovery :: "discovery_config \<Rightarrow> discovery_env \<Rightarrow> nodeInfo list \<Rightarrow> discovery_state \<Rightarrow> discovery_state option" where
  "nodeDiscovery cfg env discovered s =
     (case currentByURL (ds_pool s) (ds_heap s) of
        None \<Rightarrow> None
      | Some cur \<Rightarrow>
          let ((readyConns, deadConns), s) = resolve_nodes cfg cur discovered s
          in updateConnectionPool cfg env None readyConns deadConns s)"

fun start_nodes :: "discovery_config \<Rightarrow> nodeInfo list \<Rightarrow> discovery_state \<Rightarrow> cid list \<times> discovery_state" where
  "start_nodes cfg [] s = ([], s)"
| "start_nodes cfg (node # nodes) s =
     (let (c, s) = new_connection cfg node s;
          (cs, s) = start_nodes cfg nodes (s\<lparr>ds_checks := ds_checks s @ [c]\<rparr>)
      in (c # cs, s))"

definition nodeDiscoveryAsyncStart :: "discovery_config \<Rightarrow> discovery_env \<Rightarrow> nodeInfo list \<Rightarrow> discovery_state \<Rightarrow> discovery_state option" where
  "nodeDiscoveryAsyncStart cfg env discovered s =
     (let (readyConns, s) = start_nodes cfg discovered s in updateConnectionPool cfg env None readyConns [] s)"

section \<open>After a discovery\<close>

definition resetDeadConnViability :: "discovery_config \<Rightarrow> discovery_env \<Rightarrow> discovery_state \<Rightarrow> discovery_state" where
  "resetDeadConnViability cfg env s =
     (if dc_verifyDeadAfter cfg \<le> 0 then s
      else case ds_pool s of
        Some (multiPool p) \<Rightarrow>
          let cutoff = Some (de_now env - dc_verifyDeadAfter cfg)
          in put_heap (fold (\<lambda>c h.
               if seed (h c) then h
               else if deadSinceIsZero (h c) \<or> \<not> lc_has (lc_of (h c)) lcViable then h
               else if time_after (loadDeadSince (h c)) cutoff then h
               else h(c := upd_lc 0 lcViable (h c))) (snd (connectionsByState p)) (ds_heap s)) s
      | _ \<Rightarrow> s)"

definition clearAllNeedsCatUpdate :: "discovery_state \<Rightarrow> discovery_state" where
  "clearAllNeedsCatUpdate s = (case ds_pool s of
     Some (multiPool p) \<Rightarrow>
       put_heap (fold (\<lambda>c h. h(c := (h c)\<lparr>state := snd (clearNeedsCatUpdate (state (h c)))\<rparr>)) (ready p @ dead p) (ds_heap s)) s
   | _ \<Rightarrow> s)"

section \<open>Maps and their difference\<close>

text \<open>What Go promises of the enumeration of a map: every entry once, in any order.\<close>

definition range_ok :: "discovery_env \<Rightarrow> bool" where
  "range_ok env \<longleftrightarrow> (\<forall>k m. mset (de_range env k m) = mset m)"

lemma range_okD:
  assumes "range_ok env"
  shows "set (de_range env k m) = set m" "length (de_range env k m) = length m"
    and "distinct (map fst m) \<Longrightarrow> distinct (map fst (de_range env k m))"
proof -
  have e: "mset (de_range env k m) = mset m" using assms by (simp add: range_ok_def)
  then show "set (de_range env k m) = set m" "length (de_range env k m) = length m"
    by (auto dest: mset_eq_setD mset_eq_length)
  show "distinct (map fst m) \<Longrightarrow> distinct (map fst (de_range env k m))"
    using e by (metis mset_eq_imp_distinct_iff mset_map)
qed

lemma update_append: "k \<notin> fst ` set m \<Longrightarrow> AList.update k v m = m @ [(k, v)]"
  by (induction m) auto

lemma distinct_by_key:
  "distinct (map fst m) \<Longrightarrow> distinct (map fst (fold (\<lambda>c. AList.update (f c) c) cs m))"
  by (induction cs arbitrary: m) (simp_all add: distinct_update)

lemma by_key_some:
  "map_of (fold (\<lambda>c. AList.update (f c) c) cs m) u = Some c \<Longrightarrow> (c \<in> set cs \<and> f c = u) \<or> map_of m u = Some c"
proof (induction cs arbitrary: m)
  case (Cons a cs)
  from Cons.IH [of "AList.update (f a) a m"] Cons.prems
  show ?case by (auto simp: update_conv' split: if_splits)
qed simp

lemma by_key_none:
  "map_of (fold (\<lambda>c. AList.update (f c) c) cs m) u = None \<longleftrightarrow> u \<notin> f ` set cs \<and> map_of m u = None"
  by (induction cs arbitrary: m) (auto simp: update_conv')

lemma connections_by_url:
  shows "distinct (map fst (connections_by_url h cs))"
    and "map_of (connections_by_url h cs) u = Some c \<Longrightarrow> c \<in> set cs \<and> URL (h c) = u"
    and "map_of (connections_by_url h cs) u = None \<longleftrightarrow> u \<notin> (\<lambda>c. URL (h c)) ` set cs"
  using distinct_by_key [of "[]" "\<lambda>c. URL (h c)" cs] by_key_some [of "\<lambda>c. URL (h c)" cs "[]" u c]
    by_key_none [of "\<lambda>c. URL (h c)" cs "[]" u]
  by (auto simp: connections_by_url_def)

lemma connections_by_url_some:
  assumes "inj_on (\<lambda>c. URL (h c)) (set cs)" "c \<in> set cs"
  shows "map_of (connections_by_url h cs) (URL (h c)) = Some c"
proof -
  obtain c' where c': "map_of (connections_by_url h cs) (URL (h c)) = Some c'"
    using connections_by_url(3) [of h cs "URL (h c)"] assms(2) by auto
  then have "c' \<in> set cs" "URL (h c') = URL (h c)" using connections_by_url(2) by blast+
  then have "c' = c" using assms by (meson inj_onD)
  then show ?thesis using c' by simp
qed

lemma ran_connections_by_url:
  assumes "inj_on (\<lambda>c. URL (h c)) (set cs)"
  shows "snd ` set (connections_by_url h cs) = set cs"
proof -
  have "c \<in> set cs" if "(u, c) \<in> set (connections_by_url h cs)" for u c
    using that connections_by_url(1,2) by (metis map_of_is_SomeI)
  moreover have "c \<in> snd ` set (connections_by_url h cs)" if "c \<in> set cs" for c
    using connections_by_url_some [OF assms that] by (metis map_of_SomeD imageI snd_conv)
  ultimately show ?thesis by force
qed

text \<open>The two loops of the difference as comprehensions.\<close>

lemma diff_step_fold:
  assumes "distinct (map fst xs)" "fst ` set xs \<inter> fst ` set (df_final d) = {}"
  shows "fold (diff_step cur) xs d = d\<lparr>
     df_added := df_added d @ [c. (u, c) \<leftarrow> xs, map_of cur u \<noteq> Some c],
     df_removed := df_removed d @ [the (map_of cur u). (u, c) \<leftarrow> xs, map_of cur u \<noteq> None \<and> map_of cur u \<noteq> Some c],
     df_unchanged := df_unchanged d @ [c. (u, c) \<leftarrow> xs, map_of cur u = Some c],
     df_final := df_final d @ xs\<rparr>"
  using assms
proof (induction xs arbitrary: d)
  case (Cons x xs)
  obtain u c where x: "x = (u, c)" by force
  have fin: "AList.update u c (df_final d) = df_final d @ [(u, c)]"
    using Cons.prems(2) x by (intro update_append) auto
  have step: "df_final (diff_step cur x d) = df_final d @ [(u, c)]"
    by (auto simp: diff_step_def x fin split: option.splits)
  have "fst ` set xs \<inter> fst ` set (df_final (diff_step cur x d)) = {}"
    unfolding step using Cons.prems by (auto simp: x)
  then show ?case
    using Cons.IH [of "diff_step cur x d"] Cons.prems(1)
    by (auto simp: diff_step_def x fin split: option.splits)
qed simp

lemma diff_gone_fold:
  "fold (diff_gone new) xs d = d\<lparr>df_removed := df_removed d @ [c. (u, c) \<leftarrow> xs, map_of new u = None]\<rparr>"
  by (induction xs arbitrary: d) (auto simp: diff_gone_def)

lemma diff_fields:
  assumes "range_ok env" "distinct (map fst new)"
  shows "df_added (connection_diff env cur new) = [c. (u, c) \<leftarrow> de_range env 0 new, map_of cur u \<noteq> Some c]"
    and "df_removed (connection_diff env cur new) =
      [the (map_of cur u). (u, c) \<leftarrow> de_range env 0 new, map_of cur u \<noteq> None \<and> map_of cur u \<noteq> Some c]
      @ [c. (u, c) \<leftarrow> de_range env 1 cur, map_of new u = None]"
    and "df_unchanged (connection_diff env cur new) = [c. (u, c) \<leftarrow> de_range env 0 new, map_of cur u = Some c]"
    and "df_final (connection_diff env cur new) = de_range env 0 new"
  by (simp_all add: connection_diff_def diff_gone_fold diff_step_fold [OF range_okD(3) [OF assms]])

lemma length_filter_card: "distinct (map fst xs) \<Longrightarrow> length (filter P xs) = card {x \<in> set xs. P x}"
  by (metis distinct_card distinct_filter distinct_map set_filter)

lemma comprehension_filter: "[c. (u, c) \<leftarrow> xs, P u c] = map snd (filter (\<lambda>(u, c). P u c) xs)"
  by (induction xs) auto

lemma map_of_mem: "distinct (map fst m) \<Longrightarrow> map_of m u = Some c \<longleftrightarrow> (u, c) \<in> set m"
  by (simp add: map_of_eq_Some_iff)

lemma moved_set:
  "set [the (m u). (u, c) \<leftarrow> xs, m u \<noteq> None \<and> m u \<noteq> Some c] = {y. \<exists>u c. (u, c) \<in> set xs \<and> m u = Some y \<and> y \<noteq> c}"
  by force

lemma removed_split:
  assumes "distinct (map fst cur)" "distinct (map fst new)"
  shows "{y. \<exists>u c. (u, c) \<in> set new \<and> map_of cur u = Some y \<and> y \<noteq> c}
      \<union> snd ` {x \<in> set cur. case x of (u, c) \<Rightarrow> map_of new u = None} = snd ` (set cur - set new)" (is "?L \<union> ?R = _")
proof (intro equalityI subsetI)
  note k = map_of_mem [OF assms(1)] map_of_mem [OF assms(2)]
  fix y assume "y \<in> ?L \<union> ?R"
  then consider u c where "(u, c) \<in> set new" "(u, y) \<in> set cur" "y \<noteq> c" | u where "(u, y) \<in> set cur" "map_of new u = None"
    by (auto simp: k)
  then have "\<exists>u. (u, y) \<in> set cur - set new"
  proof cases
    case 1
    then have "(u, y) \<notin> set new" using k(2) by (metis option.inject)
    then show ?thesis using 1(2) by blast
  next
    case 2
    then show ?thesis by (metis DiffI k(2) option.distinct(1))
  qed
  then show "y \<in> snd ` (set cur - set new)" by force
next
  note k = map_of_mem [OF assms(1)] map_of_mem [OF assms(2)]
  fix y assume "y \<in> snd ` (set cur - set new)"
  then obtain u where u: "(u, y) \<in> set cur" "(u, y) \<notin> set new" by force
  show "y \<in> ?L \<union> ?R"
  proof (cases "map_of new u")
    case None
    then have "(u, y) \<in> {x \<in> set cur. case x of (u, c) \<Rightarrow> map_of new u = None}" using u(1) by simp
    then show ?thesis by force
  next
    case (Some c)
    then have "(u, c) \<in> set new" "y \<noteq> c" using k(2) u(2) by auto
    moreover have "map_of cur u = Some y" using k(1) u(1) by simp
    ultimately show ?thesis by blast
  qed
qed

text \<open>C16. The difference that discovery hands to the policies is exact: whatever the order in which Go
  enumerates its maps, the added connections are the entries of the new map that the current one does not
  have, the removed ones the entries of the current map that the new one does not have, and the unchanged
  ones the common entries, so a node that kept its address and got a new connection is both removed and added;
  and the pool gets exactly the entries of the new map.\<close>
theorem connection_diff_exact:
  assumes "range_ok env" "distinct (map fst cur)" "distinct (map fst new)"
  shows "set (df_added (connection_diff env cur new)) = snd ` (set new - set cur)
    \<and> set (df_removed (connection_diff env cur new)) = snd ` (set cur - set new)
    \<and> set (df_unchanged (connection_diff env cur new)) = snd ` (set new \<inter> set cur)
    \<and> length (df_added (connection_diff env cur new)) = card (set new - set cur)
    \<and> mset (df_final (connection_diff env cur new)) = mset new"
proof (intro conjI)
  note f = diff_fields [OF assms(1,3)] and r = range_okD [OF assms(1)]
  note k = map_of_mem [OF assms(2)] map_of_mem [OF assms(3)]
  let ?d = "connection_diff env cur new"
  have diff: "{x \<in> set new. case x of (u, c) \<Rightarrow> map_of cur u \<noteq> Some c} = set new - set cur" using k by auto
  have same: "{x \<in> set new. case x of (u, c) \<Rightarrow> map_of cur u = Some c} = set new \<inter> set cur" using k by auto
  show "set (df_added ?d) = snd ` (set new - set cur)"
    by (simp add: f comprehension_filter r diff)
  show "set (df_unchanged ?d) = snd ` (set new \<inter> set cur)"
    by (simp add: f comprehension_filter r same)
  show "set (df_removed ?d) = snd ` (set cur - set new)"
    unfolding f(2) set_append moved_set comprehension_filter set_map set_filter r(1)
    by (rule removed_split [OF assms(2,3)])
  have "length (df_added ?d) = card {x \<in> set new. case x of (u, c) \<Rightarrow> map_of cur u \<noteq> Some c}"
    by (simp add: f comprehension_filter length_filter_card [OF r(3) [OF assms(3)]] r)
  also note diff
  finally show "length (df_added ?d) = card (set new - set cur)" .
  show "mset (df_final ?d) = mset new" using assms(1) by (simp add: f range_ok_def)
qed

definition sample_discovery_env :: discovery_env where
  "sample_discovery_env = \<lparr>de_range = (\<lambda>k m. rev m), de_rnd = (\<lambda>i. 0), de_now = 1000, de_eval = sample_eval_env\<rparr>"

lemma sample_range_ok: "range_ok sample_discovery_env"
  by (simp add: range_ok_def sample_discovery_env_def)

theorem connection_diff_exact_witness:
  "set (df_added (connection_diff sample_discovery_env [(''a'', 2), (''b'', 3), (''c'', 4)] [(''b'', 3), (''c'', 5), (''d'', 6)])) = {5, 6}
   \<and> set (df_removed (connection_diff sample_discovery_env [(''a'', 2), (''b'', 3), (''c'', 4)] [(''b'', 3), (''c'', 5), (''d'', 6)])) = {2, 4}"
  using connection_diff_exact [OF sample_range_ok, of "[(''a'', 2), (''b'', 3), (''c'', 4)]" "[(''b'', 3), (''c'', 5), (''d'', 6)]"]
  by (simp add: insert_Diff_if)

section \<open>Weights\<close>

lemma go_gcd_eq: "0 \<le> a \<Longrightarrow> 0 \<le> b \<Longrightarrow> go_gcd a b = gcd a b"
proof (induction a b rule: go_gcd.induct)
  case (1 a b)
  show ?case
  proof (cases "b = 0")
    case True
    then show ?thesis using 1(2) by (subst go_gcd.simps) simp
  next
    case False
    then have m: "a smod b = a mod b" using 1(2,3) by (simp add: smod_mod_positive)
    have "go_gcd a b = go_gcd b (a smod b)" using False by (simp add: go_gcd.simps [of a b])
    also have "\<dots> = gcd b (a mod b)" using False 1 by (simp add: m)
    also have "\<dots> = gcd a b" by (metis gcd.commute gcd_red_int)
    finally show ?thesis .
  qed
qed

lemma weight_divisor_eq:
  "weight_divisor conns h = Gcd {ap. \<exists>c \<in> set conns. ap = loadAllocatedProcessors (h c) \<and> ap > 0}"
proof -
  let ?f = "\<lambda>c d. let ap = loadAllocatedProcessors (h c) in if ap > 0 then (if d = 0 then ap else go_gcd d ap) else d"
  let ?S = "\<lambda>cs. {ap. \<exists>c \<in> set cs. ap = loadAllocatedProcessors (h c) \<and> ap > 0}"
  have "0 \<le> d \<Longrightarrow> fold ?f cs d = gcd d (Gcd (?S cs))" for cs d
  proof (induction cs arbitrary: d)
    case (Cons c cs)
    let ?ap = "loadAllocatedProcessors (h c)"
    show ?case
    proof (cases "?ap > 0")
      case True
      then have S: "?S (c # cs) = insert ?ap (?S cs)" by auto
      have "?f c d = gcd d ?ap" using True Cons.prems by (auto simp: Let_def go_gcd_eq)
      then have "fold ?f (c # cs) d = gcd (gcd d ?ap) (Gcd (?S cs))" using Cons.IH [of "gcd d ?ap"] by simp
      also have "\<dots> = gcd d (Gcd (?S (c # cs)))" by (simp only: S Gcd_insert gcd.assoc)
      finally show ?thesis .
    next
      case False
      then have S: "?S (c # cs) = ?S cs" by auto
      have "?f c d = d" using False by (simp add: Let_def)
      then show ?thesis using Cons.IH [OF Cons.prems] by (simp only: S fold.simps o_apply)
    qed
  qed simp
  then show ?thesis by (simp add: weight_divisor_def)
qed

definition weighed :: "int \<Rightarrow> connection \<Rightarrow> connection" where
  "weighed d x = x\<lparr>weight := if loadAllocatedProcessors x > 0
     then i32 (min (loadAllocatedProcessors x sdiv d) (2 ^ 31 - 1)) else 1\<rparr>"

lemma weighed_fields [simp]:
  "loadAllocatedProcessors (weighed d x) = loadAllocatedProcessors x" "weighed d (weighed d x) = weighed d x"
  by (simp_all add: weighed_def loadAllocatedProcessors_def)

lemma computeWeights_eq:
  "computeWeights conns h c = (if weight_divisor conns h \<noteq> 0 \<and> c \<in> set conns then weighed (weight_divisor conns h) (h c) else h c)"
proof -
  have fold: "fold (\<lambda>c h. h(c := weighed d (h c))) cs h c = (if c \<in> set cs then weighed d (h c) else h c)" for cs h d
    by (induction cs arbitrary: h) auto
  have step: "(let ap = loadAllocatedProcessors (g x) in
           if ap > 0 then g(x := (g x)\<lparr>weight := i32 (min (ap sdiv d) (2 ^ 31 - 1))\<rparr>) else g(x := (g x)\<lparr>weight := 1\<rparr>))
        = g(x := weighed d (g x))" for d g x
    by (auto simp: weighed_def Let_def)
  show ?thesis unfolding computeWeights_def step Let_def [of "weight_divisor conns h"] by (simp add: fold)
qed

lemma divisor_dvd:
  assumes "c \<in> set conns" "loadAllocatedProcessors (h c) > 0"
  shows "0 < weight_divisor conns h" "weight_divisor conns h dvd loadAllocatedProcessors (h c)"
proof -
  let ?S = "{ap. \<exists>c \<in> set conns. ap = loadAllocatedProcessors (h c) \<and> ap > 0}"
  have "loadAllocatedProcessors (h c) \<in> ?S" using assms by blast
  then show d: "weight_divisor conns h dvd loadAllocatedProcessors (h c)" by (simp add: weight_divisor_eq Gcd_dvd)
  have "weight_divisor conns h \<noteq> 0" using d assms(2) by auto
  moreover have "0 \<le> weight_divisor conns h" by (simp add: weight_divisor_eq)
  ultimately show "0 < weight_divisor conns h" by simp
qed

text \<open>C40. The weights are the core counts in lowest terms: where the core count of a node is known, its
  weight is the count divided by the greatest common divisor of the known counts, so the weights
  are in the ratio of the cores; an unknown node weighs 1; and when no count is known the
  weights stay as they are. No other field of a connection changes.\<close>
theorem computeWeights_lowest_terms:
  assumes "\<forall>c \<in> set conns. loadAllocatedProcessors (h c) < 2 ^ 31"
  shows "(\<forall>c \<in> set conns. loadAllocatedProcessors (h c) > 0 \<longrightarrow>
      weight (computeWeights conns h c) * Gcd {ap. \<exists>c \<in> set conns. ap = loadAllocatedProcessors (h c) \<and> ap > 0}
        = loadAllocatedProcessors (h c) \<and> weight (computeWeights conns h c) > 0)
    \<and> (\<forall>c \<in> set conns. loadAllocatedProcessors (h c) \<le> 0 \<longrightarrow> weight (computeWeights conns h c)
        = (if \<exists>x \<in> set conns. loadAllocatedProcessors (h x) > 0 then 1 else weight (h c)))
    \<and> (\<forall>c. (computeWeights conns h c)\<lparr>weight := 0\<rparr> = (h c)\<lparr>weight := 0\<rparr>)"
proof (intro conjI ballI impI allI)
  fix c assume c: "c \<in> set conns" "loadAllocatedProcessors (h c) > 0"
  note d = divisor_dvd [where h = h, OF c]
  let ?d = "weight_divisor conns h" and ?ap = "loadAllocatedProcessors (h c)"
  have q: "?ap sdiv ?d = ?ap div ?d" using c d by (simp add: signed_divide_int_eq_divide_int)
  have le: "0 < ?ap div ?d" "?ap div ?d \<le> ?ap"
    using d c(2) zdiv_mono2 [of ?ap 1 ?d] by (auto simp: zdvd_imp_le pos_imp_zdiv_pos_iff)
  then have "i32 (min (?ap sdiv ?d) (2 ^ 31 - 1)) = ?ap div ?d"
    using assms c(1) by (force simp: q intro: i32_id)
  then have w: "weight (computeWeights conns h c) = ?ap div ?d" using c d by (simp add: computeWeights_eq weighed_def)
  show "weight (computeWeights conns h c) * Gcd {ap. \<exists>c \<in> set conns. ap = loadAllocatedProcessors (h c) \<and> ap > 0} = ?ap"
    using d(2) unfolding w weight_divisor_eq [symmetric] by simp
  show "weight (computeWeights conns h c) > 0" using le by (simp add: w)
next
  fix c assume c: "c \<in> set conns" "loadAllocatedProcessors (h c) \<le> 0"
  have "weight_divisor conns h = 0" if "\<not> (\<exists>x \<in> set conns. loadAllocatedProcessors (h x) > 0)"
    using that by (auto simp: weight_divisor_eq Gcd_0_iff)
  then show "weight (computeWeights conns h c)
        = (if \<exists>x \<in> set conns. loadAllocatedProcessors (h x) > 0 then 1 else weight (h c))"
    using c divisor_dvd(1) [of _ conns h] by (force simp: computeWeights_eq weighed_def)
next
  fix c show "(computeWeights conns h c)\<lparr>weight := 0\<rparr> = (h c)\<lparr>weight := 0\<rparr>"
    by (simp add: computeWeights_eq weighed_def)
qed

theorem computeWeights_lowest_terms_witness:
  "weight (computeWeights [2, 3, 4] (\<lambda>c. blank_connection\<lparr>allocatedProcessors := if c = 2 then 24 else if c = 3 then 40 else 0\<rparr>) 3) * 8 = 40
   \<and> weight (computeWeights [2, 3, 4] (\<lambda>c. blank_connection\<lparr>allocatedProcessors := if c = 2 then 24 else if c = 3 then 40 else 0\<rparr>) 4) = 1"
proof -
  let ?h = "\<lambda>c :: nat. blank_connection\<lparr>allocatedProcessors := if c = 2 then 24 else if c = 3 then 40 else 0\<rparr>"
  have "{ap. \<exists>c \<in> set [2, 3, 4]. ap = loadAllocatedProcessors (?h c) \<and> ap > 0} = {24, 40}"
    by (auto simp: loadAllocatedProcessors_def)
  moreover have "gcd (24 :: int) 40 = 8" by code_simp
  ultimately have "Gcd {ap. \<exists>c \<in> set [2, 3, 4]. ap = loadAllocatedProcessors (?h c) \<and> ap > 0} = 8"
    by (simp only: Gcd_insert Gcd_empty gcd_0_right) simp
  then show ?thesis
    using computeWeights_lowest_terms [of "[2, 3, 4]" ?h] by (simp add: loadAllocatedProcessors_def)
qed

section \<open>The new pool\<close>

text \<open>What the partition loop does to one connection, and what the loop over the dead connections does.\<close>

definition activated :: "int \<times> int \<Rightarrow> connection \<Rightarrow> connection" where
  "activated params x =
     (if lc_has (lc_of x) lcActive \<or> lc_has (lc_of x) lcStandby then x
      else startWarmup_conn (fst params) (snd params) (upd_lc lcActive (lcUnknown OR lcStandby) x))"

definition buried_as :: "int \<Rightarrow> connection \<Rightarrow> connection" where
  "buried_as now x =
     (let x = (if deadSinceIsZero x then storeDeadSince (Some now) x else x)
      in if \<not> lc_has (lc_of x) lcUnknown then upd_lc lcUnknown 0 x else x)"

lemma set_drop_Suc: "i < length xs \<Longrightarrow> set (drop i xs) = insert (xs ! i) (set (drop (Suc i) xs))"
  by (metis Cons_nth_drop_Suc list.simps(15))

lemma partition_states_lists:
  assumes "partition_states params i n ac conns h = (ac', conns', h')" "ac \<le> i" "i + n = length conns"
  shows "mset conns' = mset conns" "ac' \<le> length conns"
  using assms
  by (induction params i n ac conns h rule: partition_states.induct) (auto simp: Let_def split: if_splits)

lemma partition_states_Suc:
  fixes conns h i
  assumes "x = lc_of (h (conns ! i))"
  shows "partition_states params i (Suc n) ac conns h =
     (if lc_has x lcActive \<or> \<not> lc_has x lcStandby
      then partition_states params (Suc i) n (Suc ac) (if i \<noteq> ac then swap_nth conns i ac else conns)
             (h(conns ! i := activated params (h (conns ! i))))
      else partition_states params (Suc i) n ac conns (h(conns ! i := activated params (h (conns ! i)))))"
  using assms by (auto simp: Let_def activated_def)

lemma partition_states_heap:
  assumes "partition_states params i n ac conns h = (ac', conns', h')" "ac \<le> i" "i + n = length conns" "distinct conns"
  shows "h' c = (if c \<in> set (drop i conns) then activated params (h c) else h c)"
  using assms
proof (induction n arbitrary: i ac conns h)
  case (Suc n)
  let ?c = "conns ! i" and ?sw = "if i \<noteq> ac then swap_nth conns i ac else conns"
  let ?h = "h(?c := activated params (h ?c))"
  have i: "i < length conns" "ac < length conns" using Suc.prems by auto
  have sw: "length ?sw = length conns" "distinct ?sw" "drop (Suc i) ?sw = drop (Suc i) conns"
    using i Suc.prems(2,4) mset_eq_imp_distinct_iff [of "swap_nth conns i ac" conns] by auto
  have notin: "?c \<notin> set (drop (Suc i) conns)"
    using Suc.prems(4) i by (metis Cons_nth_drop_Suc distinct.simps(2) distinct_drop)
  consider "partition_states params (Suc i) n (Suc ac) ?sw ?h = (ac', conns', h')"
    | "partition_states params (Suc i) n ac conns ?h = (ac', conns', h')"
    using Suc.prems(1) unfolding partition_states_Suc [OF refl] by (auto split: if_splits)
  then have "h' c = (if c \<in> set (drop (Suc i) conns) then activated params (?h c) else ?h c)"
  proof cases
    case 1
    show ?thesis using Suc.IH [OF 1] Suc.prems sw by simp
  next
    case 2
    show ?thesis using Suc.IH [OF 2] Suc.prems by simp
  qed
  then show ?case using notin set_drop_Suc [OF i(1)] by auto
qed simp

lemma fold_dead:
  fixes now :: int
  assumes "distinct ds"
  shows "fold (\<lambda>c w. appendToDead now c (upd_pool (\<lambda>p. p\<lparr>members := insert c (members p)\<rparr>) w)) ds w =
    \<lparr>heap = (\<lambda>c. if c \<in> set ds then buried_as now (heap w c) else heap w c),
     pool = (pool w)\<lparr>members := set ds \<union> members (pool w), dead := dead (pool w) @ ds\<rparr>\<rparr>"
  using assms
proof (induction ds arbitrary: w)
  case (Cons d ds)
  have "appendToDead now d (upd_pool (\<lambda>p. p\<lparr>members := insert d (members p)\<rparr>) w) =
      \<lparr>heap = (heap w)(d := buried_as now (heap w d)),
       pool = (pool w)\<lparr>members := insert d (members (pool w)), dead := dead (pool w) @ [d]\<rparr>\<rparr>"
    by (simp add: appendToDead_def buried_as_def Let_def upd_conn_def upd_pool_def)
  then show ?case using Cons by (auto simp: fun_eq_iff)
qed simp

lemma modes:
  "conn_up x \<Longrightarrow> activated params x = x"
  "conn_down x \<Longrightarrow> buried_as now x = x"
  "conn_down x \<Longrightarrow> now \<noteq> 0 \<Longrightarrow> conn_down (buried_as now x)"
  by (auto simp: activated_def buried_as_def conn_up_def conn_down_def deadSinceIsZero_def)

lemma buried_down:
  "now \<noteq> 0 \<Longrightarrow> \<not> lc_has (lc_of x) lcActive \<Longrightarrow> \<not> lc_has (lc_of x) lcStandby \<Longrightarrow> conn_down (buried_as now x)"
  by (auto simp: buried_as_def Let_def mode_simps deadSinceIsZero_def timeToNano_def)

lemma created_modes:
  "\<not> lc_has (lc_of (createConnection cfg node)) lcActive" "\<not> lc_has (lc_of (createConnection cfg node)) lcStandby"
  "lc_has (lc_of (createConnection cfg node)) lcUnknown" "\<not> lc_has (lc_of (createConnection cfg node)) lcViable"
  by (auto simp: createConnection_def Let_def lc_of_def lifecycle_newConnState bit_mask_iff bit_flags bit_or_iff bit_and_iff bit_not_iff lcDead_def split: option.splits)

lemma activated_active:
  "lc_has (lc_of x) lcActive \<or> \<not> lc_has (lc_of x) lcStandby \<Longrightarrow> lc_has (lc_of (activated params x)) lcActive"
  "lc_has (lc_of x) lcStandby \<Longrightarrow> activated params x = x"
  by (auto simp: activated_def mode_simps)

text \<open>The loop leaves the active connections in front of \<^verbatim>\<open>activeCount\<close> and the others behind it.\<close>

lemma partition_states_split:
  assumes "partition_states params i n ac conns h = (ac', conns', h')" "ac \<le> i" "i + n = length conns" "distinct conns"
    and "\<And>j. j < ac \<Longrightarrow> lc_has (lc_of (h (conns ! j))) lcActive"
    and "\<And>j. ac \<le> j \<Longrightarrow> j < i \<Longrightarrow> \<not> lc_has (lc_of (h (conns ! j))) lcActive"
  shows "(\<forall>j < ac'. lc_has (lc_of (h' (conns' ! j))) lcActive)
    \<and> (\<forall>j. ac' \<le> j \<and> j < length conns \<longrightarrow> \<not> lc_has (lc_of (h' (conns' ! j))) lcActive)"
  using assms
proof (induction n arbitrary: i ac conns h)
  case (Suc n)
  let ?c = "conns ! i" and ?sw = "if i \<noteq> ac then swap_nth conns i ac else conns"
  let ?h = "h(?c := activated params (h ?c))"
  have i: "i < length conns" "ac < length conns" using Suc.prems by auto
  have sw: "length ?sw = length conns" "distinct ?sw"
    using i Suc.prems(2,4) mset_eq_imp_distinct_iff [of "swap_nth conns i ac" conns] by auto
  have nth: "?sw ! j = (if j = ac then ?c else if j = i then conns ! ac else conns ! j)" if "j < length conns" for j
    using that i by (auto simp: swap_nth_def nth_list_update)
  have other: "conns ! j \<noteq> ?c" if "j < i" for j using that i Suc.prems(4) by (simp add: nth_eq_iff_index_eq)
  consider (front) "partition_states params (Suc i) n (Suc ac) ?sw ?h = (ac', conns', h')"
      "lc_has (lc_of (activated params (h ?c))) lcActive"
    | (behind) "partition_states params (Suc i) n ac conns ?h = (ac', conns', h')" "\<not> lc_has (lc_of (activated params (h ?c))) lcActive"
    using Suc.prems(1) activated_active [of "h ?c" params] unfolding partition_states_Suc [OF refl] by (auto split: if_splits)
  then show ?case
  proof cases
    case front
    have "lc_has (lc_of (?h (?sw ! j))) lcActive" if "j < Suc ac" for j
      using that nth [of j] other [of j] i front(2) Suc.prems(2,5) by (cases "j = ac") auto
    moreover have "\<not> lc_has (lc_of (?h (?sw ! j))) lcActive" if "Suc ac \<le> j" "j < Suc i" for j
      using that nth [of j] other [of j] other [of ac] i Suc.prems(2,6) by (cases "j = i") auto
    ultimately show ?thesis using Suc.IH [OF front(1)] Suc.prems(2,3) sw by simp
  next
    case behind
    have "lc_has (lc_of (?h (conns ! j))) lcActive" if "j < ac" for j
      using that other [of j] Suc.prems(2,5) by simp
    moreover have "\<not> lc_has (lc_of (?h (conns ! j))) lcActive" if "ac \<le> j" "j < Suc i" for j
      using that other [of j] behind(2) Suc.prems(6) by (cases "j = i") auto
    ultimately show ?thesis using Suc.IH [OF behind(1)] Suc.prems(2,3,4) by simp
  qed
qed simp

text \<open>What a connection keeps of the node it was made for.\<close>

definition node_of :: "connection \<Rightarrow> string \<times> string \<times> string \<times> roleSet" where
  "node_of x = (URL x, conn_ID x, Name x, Roles x)"

lemma node_of_simps [simp]:
  "node_of (upd_lc a b x) = node_of x" "node_of (startWarmup_conn r k x) = node_of x" "node_of (storeDeadSince t x) = node_of x"
  "node_of (x\<lparr>checkStartedAt := t'\<rparr>) = node_of x" "node_of (weighed d x) = node_of x"
  by (simp_all add: node_of_def upd_lc_def startWarmup_conn_def storeDeadSince_def weighed_def)

lemma node_of_steps [simp]: "node_of (activated params x) = node_of x" "node_of (buried_as now x) = node_of x"
  by (simp_all add: activated_def buried_as_def Let_def)

lemma node_of_URL: "node_of x = node_of y \<Longrightarrow> URL x = URL y"
  by (simp add: node_of_def)

lemma canReuse_node_of: "node_of x = node_of y \<Longrightarrow> canReuseConnection x n = canReuseConnection y n"
  by (simp add: node_of_def canReuseConnection_def)

lemma weighed_modes [simp]:
  "lc_of (weighed d x) = lc_of x" "deadSinceNano (weighed d x) = deadSinceNano x" "conn_up (weighed d x) = conn_up x" "conn_down (weighed d x) = conn_down x"
  "checkStartedAt (weighed d x) = checkStartedAt x"
  by (simp_all add: weighed_def lc_of_def conn_up_def conn_down_def)

lemma storeThreadPoolSizes_fields [simp]:
  "node_of (storeThreadPoolSizes tps c) = node_of c" "deadSinceNano (storeThreadPoolSizes tps c) = deadSinceNano c"
  "checkStartedAt (storeThreadPoolSizes tps c) = checkStartedAt c" "seed (storeThreadPoolSizes tps c) = seed c"
  using storeThreadPoolSizes_pools [of tps c] by (auto simp: node_of_def)

lemma created_node:
  "node_of (createConnection cfg node) = (node_url node, node_ID node, node_Name node, newRoleSet (node_Roles node))"
  "deadSinceNano (createConnection cfg node) = 0" "checkStartedAt (createConnection cfg node) = None"
  "seed (createConnection cfg node) = False"
proof -
  have state: "node_of (x\<lparr>state := st\<rparr>) = node_of x" for x st by (simp add: node_of_def)
  show "node_of (createConnection cfg node) = (node_url node, node_ID node, node_Name node, newRoleSet (node_Roles node))"
    by (simp add: createConnection_def Let_def state split: option.splits)
      (simp add: node_of_def storeAllocatedProcessors_def)
qed (simp_all add: createConnection_def Let_def storeAllocatedProcessors_def split: option.splits)

section \<open>A discovery of several nodes\<close>

lemma find_url_iff:
  assumes "inj_on (\<lambda>c. URL (h c)) (set (ready p) \<union> set (dead p))"
  shows "findConnectionByURL (multiPool p) h u = Some c \<longleftrightarrow> c \<in> set (ready p) \<union> set (dead p) \<and> URL (h c) = u"
proof -
  let ?M = "set (ready p) \<union> set (dead p)"
  have sound: "c \<in> ?M \<and> URL (h c) = u" if "findConnectionByURL (multiPool p) h u = Some c" for c
    using that by (auto simp: findConnectionByURL_def find_Some_iff split: option.splits)
  have "findConnectionByURL (multiPool p) h u \<noteq> None" if "c \<in> ?M" "URL (h c) = u" for c
  proof
    assume "findConnectionByURL (multiPool p) h u = None"
    then have "find (\<lambda>x. URL (h x) = u) (ready p) = None" "find (\<lambda>x. URL (h x) = u) (dead p) = None"
      by (auto simp: findConnectionByURL_def split: option.splits)
    then show False using that unfolding find_None_iff by blast
  qed
  then show ?thesis using sound assms by (metis (mono_tags, lifting) inj_onD not_None_eq)
qed

lemma by_found_key:
  "map_of (fold (\<lambda>u m. case f u of None \<Rightarrow> m | Some c \<Rightarrow> AList.update u c m) urls m) u
     = (if u \<in> set urls \<and> f u \<noteq> None then f u else map_of m u)"
  by (induction urls arbitrary: m) (auto simp: update_conv' split: option.splits)

lemma distinct_found_key:
  "distinct (map fst m) \<Longrightarrow> distinct (map fst (fold (\<lambda>u m. case f u of None \<Rightarrow> m | Some c \<Rightarrow> AList.update u c m) urls m))"
  by (induction urls arbitrary: m) (auto simp: distinct_update split: option.splits)

lemma currentByURL_multi:
  assumes "inj_on (\<lambda>c. URL (h c)) (set (ready p) \<union> set (dead p))"
  obtains cur where "currentByURL (Some (multiPool p)) h = Some cur" "distinct (map fst cur)"
    and "\<And>u c. map_of cur u = Some c \<longleftrightarrow> c \<in> set (ready p) \<union> set (dead p) \<and> URL (h c) = u"
proof -
  let ?f = "findConnectionByURL (multiPool p) h"
  let ?cur = "fold (\<lambda>u m. case ?f u of None \<Rightarrow> m | Some c \<Rightarrow> AList.update u c m) (pool_URLs \<lparr>heap = h, pool = p\<rparr>) []"
  have "currentByURL (Some (multiPool p)) h = Some ?cur" by (simp add: currentByURL_def cp_URLs_def)
  moreover have "distinct (map fst ?cur)" by (rule distinct_found_key) simp
  moreover have "map_of ?cur u = Some c \<longleftrightarrow> c \<in> set (ready p) \<union> set (dead p) \<and> URL (h c) = u" for u c
    unfolding by_found_key using find_url_iff [OF assms, of u] by (auto simp: pool_URLs_def)
  ultimately show ?thesis by (rule that)
qed

text \<open>\<open>reused cur h\<close> says of a node that its connection is kept.\<close>

definition reused :: "(string, cid) gomap \<Rightarrow> conn_heap \<Rightarrow> nodeInfo \<Rightarrow> bool" where
  "reused cur h node \<longleftrightarrow> (case map_of cur (node_url node) of
     None \<Rightarrow> False
   | Some c \<Rightarrow> canReuseConnection (h c) (node\<lparr>node_roleSet := newRoleSet (node_Roles node)\<rparr>))"

definition with_created :: "discovery_config \<Rightarrow> nodeInfo list \<Rightarrow> nat \<Rightarrow> conn_heap \<Rightarrow> conn_heap" where
  "with_created cfg nodes n h = (\<lambda>c. if n \<le> c \<and> c < n + length nodes then createConnection cfg (nodes ! (c - n)) else h c)"

lemma ds_heap_simps [simp]:
  "ds_heap (put_heap h s) = h" "ds_heap (s\<lparr>ds_next := n\<rparr>) = ds_heap s" "ds_heap (s\<lparr>ds_pool := cp\<rparr>) = ds_heap s"
  "ds_pool (put_heap h s) = ds_pool s" "ds_next (put_heap h s) = ds_next s" "put_heap h (put_heap h' s) = put_heap h s"
  "put_heap h (s\<lparr>ds_next := n\<rparr>) = (put_heap h s)\<lparr>ds_next := n\<rparr>" "ds_checks (put_heap h s) = ds_checks s"
  by (simp_all add: ds_heap_def put_heap_def)

lemma createConnection_roleSet: "createConnection cfg (node\<lparr>node_roleSet := rs\<rparr>) = createConnection cfg node"
  by (simp add: createConnection_def Let_def)

lemma with_created_Cons:
  "with_created cfg nodes (Suc n) (h(n := createConnection cfg node)) = with_created cfg (node # nodes) n h"
  by (auto simp: with_created_def fun_eq_iff nth_Cons' Suc_diff_Suc intro!: arg_cong [of _ _ "createConnection cfg"] arg_cong [of _ _ "(!) nodes"])

lemma reused_heap:
  assumes "\<And>u c. map_of cur u = Some c \<Longrightarrow> h' c = h c"
  shows "reused cur h' = reused cur h"
  using assms by (auto simp: reused_def fun_eq_iff split: option.splits)

lemma resolve_nodes_eq:
  assumes "\<And>u c. map_of cur u = Some c \<Longrightarrow> c < ds_next s"
  shows "resolve_nodes cfg cur nodes s =
    (let R = reused cur (ds_heap s); fresh = filter (\<lambda>n. \<not> R n) nodes
     in ((map (\<lambda>n. the (map_of cur (node_url n))) (filter R nodes), [ds_next s ..< ds_next s + length fresh]),
         (put_heap (with_created cfg fresh (ds_next s) (ds_heap s)) s)\<lparr>ds_next := ds_next s + length fresh\<rparr>))"
  using assms
proof (induction nodes arbitrary: s)
  case Nil
  have "with_created cfg [] n h = h" for n h by (auto simp: with_created_def fun_eq_iff)
  then show ?case by (simp add: put_heap_def ds_heap_def)
next
  case (Cons node nodes)
  let ?s = "snd (new_connection cfg (node\<lparr>node_roleSet := newRoleSet (node_Roles node)\<rparr>) s)"
  have s: "ds_next ?s = Suc (ds_next s)" "ds_heap ?s = (ds_heap s)(ds_next s := createConnection cfg node)"
    "put_heap h ?s = (put_heap h s)\<lparr>ds_next := Suc (ds_next s)\<rparr>" for h
    by (simp_all add: new_connection_def createConnection_roleSet)
  have R: "reused cur ((ds_heap s)(ds_next s := createConnection cfg node)) = reused cur (ds_heap s)"
    using Cons.prems by (intro reused_heap) force
  have "c < ds_next ?s" if "map_of cur u = Some c" for u c using Cons.prems [OF that] by (simp add: s)
  note IH = Cons.IH [of s, OF Cons.prems] Cons.IH [of ?s, OF this]
  show ?case
  proof (cases "reused cur (ds_heap s) node")
    case True
    then obtain c where "map_of cur (node_url node) = Some c"
        "canReuseConnection (ds_heap s c) (node\<lparr>node_roleSet := newRoleSet (node_Roles node)\<rparr>)"
      by (auto simp: reused_def split: option.splits)
    then show ?thesis using True by (simp add: IH(1) Let_def)
  next
    case False
    have fresh: "resolve_nodes cfg cur (node # nodes) s =
        (let ((rs, ds), s') = resolve_nodes cfg cur nodes ?s in ((rs, ds_next s # ds), s'))"
      using False by (auto simp: Let_def reused_def new_connection_def split: option.splits)
    show ?thesis
      using False by (simp add: fresh IH(2) [unfolded s R Let_def with_created_Cons] Let_def upt_conv_Cons
          del: upt_Suc resolve_nodes.simps)
  qed
qed

lemma final_lists_none:
  "final_lists env None R fin h =
     (([c. (u, c) \<leftarrow> de_range env 2 fin, u \<in> R \<and> deadSinceIsZero (h c)],
       [c. (u, c) \<leftarrow> de_range env 2 fin, \<not> (u \<in> R \<and> deadSinceIsZero (h c))]), h)"
proof -
  have "fold (final_step None R) xs ((fr, fd), h) =
      ((fr @ [c. (u, c) \<leftarrow> xs, u \<in> R \<and> deadSinceIsZero (h c)],
        fd @ [c. (u, c) \<leftarrow> xs, \<not> (u \<in> R \<and> deadSinceIsZero (h c))]), h)" for xs fr fd
    by (induction xs arbitrary: fr fd)
      (auto simp: final_step_def Let_def loadDeadSince_def nanoToTime_def deadSinceIsZero_def)
  from this [of "de_range env 2 fin" "[]" "[]"] show ?thesis by (simp add: final_lists_def)
qed

lemma mset_shuffle_conns [simp]: "mset (shuffle_conns cfg env conns) = mset conns"
  by (simp add: shuffle_conns_def mset_rand_shuffle)

lemma set_shuffle_conns [simp]: "set (shuffle_conns cfg env conns) = set conns"
  using mset_eq_setD [OF mset_shuffle_conns] .

text \<open>The pool that replaces a multi-server pool: its lists, and what happens to each connection.\<close>

lemma recalculate_fields [simp]:
  "ready (recalculateWarmupParams n p) = ready p" "dead (recalculateWarmupParams n p) = dead p"
  "members (recalculateWarmupParams n p) = members p" "activeCount (recalculateWarmupParams n p) = activeCount p"
  by (simp_all add: recalculateWarmupParams_def Let_def)

lemma multi_update:
  assumes "distinct fr" "distinct fd" "set fr \<inter> set fd = {}"
    and "createOrUpdateMultiNodePool cfg env fr fd (Some (multiPool p)) h = w"
  obtains params where "mset (ready (pool w)) = mset fr" "dead (pool w) = fd" "members (pool w) = set fr \<union> set fd"
    and "activeCount (pool w) \<le> length (ready (pool w))"
    and "\<And>c. heap w c = (if c \<in> set fr then activated params (h c) else if c \<in> set fd then buried_as (de_now env) (h c) else h c)"
    and "\<And>j. j < length (ready (pool w)) \<Longrightarrow> lc_has (lc_of (heap w (ready (pool w) ! j))) lcActive \<longleftrightarrow> j < activeCount (pool w)"
proof -
  let ?rd = "shuffle_conns cfg env fr"
  let ?w0 = "\<lparr>heap = h, pool = p\<lparr>ready := ?rd, dead := [], members := set ?rd\<rparr>\<rparr>"
  let ?h = "\<lambda>c. if c \<in> set fd then buried_as (de_now env) (h c) else h c"
  let ?p = "recalculateWarmupParams (int (length ?rd + length fd))
    (p\<lparr>ready := ?rd, members := set fd \<union> set ?rd, dead := fd\<rparr>)"
  let ?params = "getWarmupParams ?p"
  obtain ac rd h' where P: "partition_states ?params 0 (length ?rd) 0 ?rd ?h = (ac, rd, h')"
    using prod_cases3 by blast
  have "fold (\<lambda>c w. appendToDead (de_now env) c (upd_pool (\<lambda>p. p\<lparr>members := insert c (members p)\<rparr>) w)) fd ?w0
      = \<lparr>heap = ?h, pool = p\<lparr>ready := ?rd, members := set fd \<union> set ?rd, dead := fd\<rparr>\<rparr>"
    unfolding fold_dead [OF assms(2)] by (simp cong: if_cong)
  then have w: "w = \<lparr>heap = h', pool = ?p\<lparr>ready := rd, activeCount := ac\<rparr>\<rparr>"
    using assms(4) P unfolding createOrUpdateMultiNodePool_def Let_def
    by (simp only: upd_pool_def option.case connection_pool.case world.simps prod.case)
  have d: "distinct ?rd" using assms(1) mset_eq_imp_distinct_iff [OF mset_shuffle_conns, of cfg env fr] by simp
  have m: "mset rd = mset ?rd" "ac \<le> length ?rd" using partition_states_lists [OF P] by simp_all
  have l: "length rd = length ?rd" using m(1) by (rule mset_eq_length)
  have h': "h' c = (if c \<in> set fr then activated ?params (h c) else if c \<in> set fd then buried_as (de_now env) (h c) else h c)" for c
    using partition_states_heap [OF P _ _ d, of c] assms(3) by auto
  have act: "lc_has (lc_of (h' (rd ! j))) lcActive \<longleftrightarrow> j < ac" if "j < length rd" for j
    using partition_states_split [OF P _ _ d] that l by (metis (no_types, lifting) le0 add_0 less_nat_zero_code not_le)
  have f: "heap w = h'" "ready (pool w) = rd" "activeCount (pool w) = ac" "dead (pool w) = fd"
      "members (pool w) = set fr \<union> set fd"
    unfolding w by (simp_all add: Un_commute)
  show ?thesis
  proof (rule that [of ?params])
    show "heap w c = (if c \<in> set fr then activated ?params (h c) else if c \<in> set fd then buried_as (de_now env) (h c) else h c)" for c
      unfolding f by (rule h')
    show "lc_has (lc_of (heap w (ready (pool w) ! j))) lcActive \<longleftrightarrow> j < activeCount (pool w)" if "j < length (ready (pool w))" for j
      using that unfolding f by (rule act)
  qed (use m l in \<open>simp_all add: f\<close>)
qed

lemma schedule_fold:
  fixes now :: int
  assumes "distinct ds"
  shows "heap (fold (scheduleResurrect now) ds w) = (\<lambda>c. if c \<in> set ds \<and> checkStartedAt (heap w c) = None
        then upd_lc lcHealthChecking 0 ((heap w c)\<lparr>checkStartedAt := Some now\<rparr>) else heap w c)"
    and "pool (fold (scheduleResurrect now) ds w) = (pool w)\<lparr>spawned := spawned (pool w)
        @ [resurrectLoop c. c \<leftarrow> ds, checkStartedAt (heap w c) = None]\<rparr>"
  using assms
proof (induction ds arbitrary: w)
  case (Cons d ds)
  {
    case 1
    then show ?case using Cons(1) [of "scheduleResurrect now d w"]
      by (auto simp: scheduleResurrect_def Let_def pool_simps fun_eq_iff)
  next
    case 2
    have "heap (scheduleResurrect now d w) c = heap w c" if "c \<in> set ds" for c
      using that 2 by (auto simp: scheduleResurrect_def Let_def pool_simps)
    then have "[resurrectLoop c. c \<leftarrow> ds, checkStartedAt (heap (scheduleResurrect now d w) c) = None]
        = [resurrectLoop c. c \<leftarrow> ds, checkStartedAt (heap w c) = None]" by (auto intro!: arg_cong [of _ _ concat] map_cong)
    then show ?case using 2 Cons(2) [of "scheduleResurrect now d w"]
      by (auto simp: scheduleResurrect_def Let_def pool_simps spawn_def)
  }
qed simp_all

lemma probe_fold:
  "\<exists>ts. fold (\<lambda>c w. if needs_rtt_probe w c then upd_pool (spawn (rttProbe c)) w else w) cs w
     = w\<lparr>pool := (pool w)\<lparr>spawned := spawned (pool w) @ ts\<rparr>\<rparr>"
proof (induction cs arbitrary: w)
  case (Cons c cs)
  obtain ts where "fold (\<lambda>c w. if needs_rtt_probe w c then upd_pool (spawn (rttProbe c)) w else w) cs
      (if needs_rtt_probe w c then upd_pool (spawn (rttProbe c)) w else w) =
    (if needs_rtt_probe w c then upd_pool (spawn (rttProbe c)) w else w)\<lparr>pool :=
      (pool (if needs_rtt_probe w c then upd_pool (spawn (rttProbe c)) w else w))
        \<lparr>spawned := spawned (pool (if needs_rtt_probe w c then upd_pool (spawn (rttProbe c)) w else w)) @ ts\<rparr>\<rparr>"
    using Cons.IH by blast
  then show ?case by (auto simp: upd_pool_def spawn_def)
qed (auto intro: exI [of _ "[]"])

lemma weighed_heap [simp]:
  "node_of (computeWeights cs h c) = node_of (h c)" "lc_of (computeWeights cs h c) = lc_of (h c)"
  "conn_up (computeWeights cs h c) = conn_up (h c)" "conn_down (computeWeights cs h c) = conn_down (h c)"
  "checkStartedAt (computeWeights cs h c) = checkStartedAt (h c)"
  by (simp_all add: computeWeights_eq)

lemma buried_checkStarted [simp]: "checkStartedAt (buried_as now x) = checkStartedAt x"
  by (simp add: buried_as_def Let_def upd_lc_def storeDeadSince_def)

lemma distinct_by_url: "distinct (map snd (connections_by_url h cs))"
proof -
  have "inj_on snd (set (connections_by_url h cs))"
    using connections_by_url(1,2) by (intro inj_onI) (metis map_of_is_SomeI prod.collapse)
  then show ?thesis using connections_by_url(1) [of h cs] by (simp add: distinct_map)
qed

lemma capacity_fields [simp]:
  "ds_pool (recalculateCapacityModel cs s) = ds_pool s" "ds_sys (recalculateCapacityModel cs s) = ds_sys s"
  "ds_next (recalculateCapacityModel cs s) = ds_next s"
  by (simp_all add: recalculateCapacityModel_def Let_def)

text \<open>The lists of the exchange: the connections handed over, without those that are dead.\<close>

lemma final_sets:
  assumes "range_ok env" "inj_on (\<lambda>c. URL (h c)) (set (rs @ ds))" "set rs \<inter> set ds = {}"
    and "final_lists env None ((\<lambda>c. URL (h c)) ` set rs) (df_final (connection_diff env cur (connections_by_url h (rs @ ds)))) h = ((fr, fd), h')"
  shows "h' = h" "distinct fr" "distinct fd" "set fr = {c \<in> set rs. deadSinceIsZero (h c)}"
    and "set fd = set ds \<union> {c \<in> set rs. \<not> deadSinceIsZero (h c)}"
proof -
  let ?new = "connections_by_url h (rs @ ds)"
  let ?xs = "de_range env 2 (de_range env 0 ?new)"
  note r = range_okD(1) [OF assms(1)]
  note fin = diff_fields(4) [OF assms(1) connections_by_url(1), of cur h "rs @ ds"]
  have F: "h' = h" "fr = map snd (filter (\<lambda>(u, c). u \<in> (\<lambda>c. URL (h c)) ` set rs \<and> deadSinceIsZero (h c)) ?xs)"
      "fd = map snd (filter (\<lambda>(u, c). \<not> (u \<in> (\<lambda>c. URL (h c)) ` set rs \<and> deadSinceIsZero (h c))) ?xs)"
    using assms(4) unfolding fin final_lists_none comprehension_filter prod.inject by blast+
  show "h' = h" by (rule F(1))
  have "mset ?xs = mset ?new" using assms(1) by (simp add: range_ok_def)
  then have d: "distinct (map snd ?xs)" using distinct_by_url [of h "rs @ ds"] by (metis mset_eq_imp_distinct_iff mset_map)
  then show "distinct fr" "distinct fd" unfolding F by (simp_all add: distinct_map_filter)
  have E: "set ?xs = (\<lambda>c. (URL (h c), c)) ` set (rs @ ds)"
  proof (intro equalityI subsetI)
    fix x assume "x \<in> set ?xs"
    then have "map_of ?new (fst x) = Some (snd x)" using connections_by_url(1) by (simp add: r)
    then have "snd x \<in> set (rs @ ds)" "x = (URL (h (snd x)), snd x)" using connections_by_url(2) by (metis, metis prod.collapse)
    then show "x \<in> (\<lambda>c. (URL (h c), c)) ` set (rs @ ds)" by blast
  next
    fix x assume "x \<in> (\<lambda>c. (URL (h c), c)) ` set (rs @ ds)"
    then obtain c where c: "c \<in> set (rs @ ds)" "x = (URL (h c), c)" by blast
    then show "x \<in> set ?xs" using map_of_SomeD [OF connections_by_url_some [OF assms(2) c(1)]] by (simp add: r)
  qed
  have sel: "snd ` {x \<in> (\<lambda>c. (URL (h c), c)) ` S. case x of (u, c) \<Rightarrow> P u c} = {c \<in> S. P (URL (h c)) c}" for S P
    by force
  have url: "URL (h c) \<in> (\<lambda>c. URL (h c)) ` set rs \<longleftrightarrow> c \<in> set rs" if "c \<in> set (rs @ ds)" for c
    using inj_on_image_mem_iff [OF assms(2) that, of "set rs"] by simp
  have "set fr = {c \<in> set (rs @ ds). URL (h c) \<in> (\<lambda>c. URL (h c)) ` set rs \<and> deadSinceIsZero (h c)}"
    unfolding F set_map set_filter E by (rule sel)
  then show "set fr = {c \<in> set rs. deadSinceIsZero (h c)}" using url by auto
  have "set fd = {c \<in> set (rs @ ds). \<not> (URL (h c) \<in> (\<lambda>c. URL (h c)) ` set rs \<and> deadSinceIsZero (h c))}"
    unfolding F set_map set_filter E by (rule sel)
  then show "set fd = set ds \<union> {c \<in> set rs. \<not> deadSinceIsZero (h c)}" using url assms(3) by auto
qed

lemma put_multi_simps:
  "ds_pool (put_multi w s) = Some (multiPool (pool w))" "ds_heap (put_multi w s) = heap w" "ds_next (put_multi w s) = ds_next s"
  "leaf_world (pool w) (ds_sys (put_multi w s)) = w" "put_multi w' (put_multi w s) = put_multi w' s"
  by (simp_all add: leaf_world_def put_multi_def put_heap_def ds_heap_def)

text \<open>What an update of the pool does when it leaves several servers, without a router: the exchange of the
  pool, and a goroutine for each dead connection that has none.\<close>

lemma update_exchange:
  fixes s :: discovery_state
  assumes "currentByURL (ds_pool s) (ds_heap s) = Some cur" "dc_router cfg = None" "range_ok env"
    and "inj_on (\<lambda>c. URL (ds_heap s c)) (set (rs @ ds))" "set rs \<inter> set ds = {}" "2 \<le> card (set (rs @ ds))"
  obtains fr fd w s' p' where "updateConnectionPool cfg env None rs ds s = Some s'" "ds_pool s' = Some (multiPool p')"
    and "ds_next s' = ds_next s" "distinct fr" "distinct fd" "set fr = {c \<in> set rs. deadSinceIsZero (ds_heap s c)}"
    and "set fd = set ds \<union> {c \<in> set rs. \<not> deadSinceIsZero (ds_heap s c)}"
    and "w = createOrUpdateMultiNodePool cfg env fr fd (ds_pool s) (computeWeights (fr @ fd) (ds_heap s))"
    and "ready p' = ready (pool w)" "dead p' = dead (pool w)" "members p' = members (pool w)" "activeCount p' = activeCount (pool w)"
    and "\<And>c. ds_heap s' c = (if c \<in> set fd \<and> checkStartedAt (heap w c) = None
      then upd_lc lcHealthChecking 0 ((heap w c)\<lparr>checkStartedAt := Some (de_now env)\<rparr>) else heap w c)"
    and "\<And>c. c \<in> set fd \<Longrightarrow> checkStartedAt (heap w c) = None \<Longrightarrow> resurrectLoop c \<in> set (spawned p')"
proof -
  let ?h = "ds_heap s"
  let ?R = "(\<lambda>c. URL (?h c)) ` set rs" and ?d = "connection_diff env cur (connections_by_url ?h (rs @ ds))"
  obtain fr fd h' where L: "final_lists env None ?R (df_final ?d) ?h = ((fr, fd), h')"
    using prod.exhaust by (metis (no_types))
  note F = final_sets [OF assms(3,4,5) L]
  have disj: "set fr \<inter> set fd = {}" and all: "set fr \<union> set fd = set (rs @ ds)" using F(4,5) assms(5) by auto
  have "card (set fr \<union> set fd) = length fr + length fd"
    using F(2,3) disj by (simp add: card_Un_disjoint distinct_card)
  then have n: "length fr + length fd \<noteq> 1" using assms(6) all by simp
  define h1 where "h1 = computeWeights (fr @ fd) ?h"
  define s1 where "s1 = recalculateCapacityModel (fr @ fd) (put_heap h1 s)"
  have s1: "ds_pool s1 = ds_pool s" "ds_heap s1 = h1" "ds_next s1 = ds_next s"
    by (simp_all add: s1_def) (simp add: ds_heap_def put_heap_def)
  define w where "w = createOrUpdateMultiNodePool cfg env fr fd (ds_pool s) h1"
  define w1 where "w1 = upd_pool (\<lambda>p. p\<lparr>hasHealthCheck := True\<rparr>) w"
  define w2 where "w2 = fold (scheduleResurrect (de_now env)) fd w1"
  obtain ts where ts: "fold (\<lambda>c w. if needs_rtt_probe w c then upd_pool (spawn (rttProbe c)) w else w) fr w2
      = w2\<lparr>pool := (pool w2)\<lparr>spawned := spawned (pool w2) @ ts\<rparr>\<rparr>" using probe_fold by blast
  define w3 where "w3 = w2\<lparr>pool := (pool w2)\<lparr>spawned := spawned (pool w2) @ ts\<rparr>\<rparr>"
  have ex: "exchange_pool cfg env fr fd s1 = put_multi w1 s1"
    unfolding exchange_pool_def s1 w1_def w_def using n by simp
  have "schedule_checks env fr fd (put_multi w1 s1) = put_multi w3 s1"
    unfolding schedule_checks_def put_multi_simps option.case connection_pool.case Let_def w2_def [symmetric] ts w3_def [symmetric]
    by (rule refl)
  then have upd: "updateConnectionPool cfg env None rs ds s = Some (put_multi w3 s1)"
    unfolding updateConnectionPool_def assms(1) option.case Let_def L prod.case F(1) h1_def [symmetric] s1_def [symmetric] ex
    by (simp add: notify_router_def assms(2))
  have w3: "heap w3 = heap w2" "ready (pool w3) = ready (pool w2)" "dead (pool w3) = dead (pool w2)" "members (pool w3) = members (pool w2)"
      "activeCount (pool w3) = activeCount (pool w2)" "set (spawned (pool w2)) \<subseteq> set (spawned (pool w3))"
    by (simp_all add: w3_def)
  have w1: "heap w1 = heap w" "ready (pool w1) = ready (pool w)" "dead (pool w1) = dead (pool w)" "members (pool w1) = members (pool w)"
      "activeCount (pool w1) = activeCount (pool w)" by (simp_all add: w1_def pool_simps)
  note S = schedule_fold [OF F(3), of "de_now env" w1, folded w2_def]
  show ?thesis
  proof (rule that [OF upd, of "pool w3" fr fd w])
    show "w = createOrUpdateMultiNodePool cfg env fr fd (ds_pool s) (computeWeights (fr @ fd) ?h)" by (simp add: w_def h1_def)
    show "ds_pool (put_multi w3 s1) = Some (multiPool (pool w3))" "ds_next (put_multi w3 s1) = ds_next s"
      by (simp_all add: put_multi_simps s1)
    show "ready (pool w3) = ready (pool w)" "dead (pool w3) = dead (pool w)" "members (pool w3) = members (pool w)"
        "activeCount (pool w3) = activeCount (pool w)"
      unfolding w3 S by (simp_all add: w1)
    show "ds_heap (put_multi w3 s1) c = (if c \<in> set fd \<and> checkStartedAt (heap w c) = None
        then upd_lc lcHealthChecking 0 ((heap w c)\<lparr>checkStartedAt := Some (de_now env)\<rparr>) else heap w c)" for c
      unfolding put_multi_simps w3 S w1 by (rule refl)
    show "resurrectLoop c \<in> set (spawned (pool w3))" if "c \<in> set fd" "checkStartedAt (heap w c) = None" for c
    proof -
      have "resurrectLoop c \<in> set (spawned (pool w2))" unfolding S w1 using that by auto
      then show ?thesis using w3(6) by blast
    qed
  qed (rule F)+
qed

lemma update_multi:
  fixes s :: discovery_state
  assumes "ds_pool s = Some (multiPool p)" "dc_router cfg = None" "range_ok env"
    and "inj_on (\<lambda>c. URL (ds_heap s c)) (set (rs @ ds))" "set rs \<inter> set ds = {}" "2 \<le> card (set (rs @ ds))"
  obtains s' p' where "updateConnectionPool cfg env None rs ds s = Some s'" "ds_pool s' = Some (multiPool p')" "ds_next s' = ds_next s"
    and "set (ready p') = {c \<in> set rs. deadSinceIsZero (ds_heap s c)}" "distinct (ready p')" "distinct (dead p')"
    and "set (dead p') = set ds \<union> {c \<in> set rs. \<not> deadSinceIsZero (ds_heap s c)}"
    and "members p' = set (rs @ ds)" "activeCount p' \<le> length (ready p')"
    and "\<And>j. j < length (ready p') \<Longrightarrow> lc_has (lc_of (ds_heap s' (ready p' ! j))) lcActive \<longleftrightarrow> j < activeCount p'"
    and "\<And>c. node_of (ds_heap s' c) = node_of (ds_heap s c)"
    and "\<And>c. c \<in> set (ready p') \<Longrightarrow> conn_up (ds_heap s c) \<Longrightarrow> conn_up (ds_heap s' c)"
    and "\<And>c. c \<in> set (dead p') \<Longrightarrow> de_now env \<noteq> 0 \<Longrightarrow> \<not> lc_has (lc_of (ds_heap s c)) lcActive \<Longrightarrow>
            \<not> lc_has (lc_of (ds_heap s c)) lcStandby \<Longrightarrow> conn_down (ds_heap s' c)"
    and "\<And>c. c \<in> set (dead p') \<Longrightarrow> checkStartedAt (ds_heap s c) = None \<Longrightarrow> resurrectLoop c \<in> set (spawned p')"
proof -
  let ?h = "ds_heap s"
  obtain cur where cur: "currentByURL (ds_pool s) ?h = Some cur" by (auto simp: assms(1) currentByURL_def cp_URLs_def)
  obtain fr fd w s' p' where E: "updateConnectionPool cfg env None rs ds s = Some s'" "ds_pool s' = Some (multiPool p')"
      "ds_next s' = ds_next s" "distinct fr" "distinct fd" "set fr = {c \<in> set rs. deadSinceIsZero (?h c)}"
      "set fd = set ds \<union> {c \<in> set rs. \<not> deadSinceIsZero (?h c)}"
      "w = createOrUpdateMultiNodePool cfg env fr fd (ds_pool s) (computeWeights (fr @ fd) ?h)"
      "ready p' = ready (pool w)" "dead p' = dead (pool w)" "members p' = members (pool w)" "activeCount p' = activeCount (pool w)"
      "\<And>c. ds_heap s' c = (if c \<in> set fd \<and> checkStartedAt (heap w c) = None
        then upd_lc lcHealthChecking 0 ((heap w c)\<lparr>checkStartedAt := Some (de_now env)\<rparr>) else heap w c)"
      "\<And>c. c \<in> set fd \<Longrightarrow> checkStartedAt (heap w c) = None \<Longrightarrow> resurrectLoop c \<in> set (spawned p')"
    by (rule update_exchange [OF cur assms(2-6)]) (rule that)
  have disj: "set fr \<inter> set fd = {}" and all: "set fr \<union> set fd = set (rs @ ds)" using E(6,7) assms(5) by auto
  define h1 where "h1 = computeWeights (fr @ fd) ?h"
  obtain params where W: "mset (ready (pool w)) = mset fr" "dead (pool w) = fd" "members (pool w) = set fr \<union> set fd"
      "activeCount (pool w) \<le> length (ready (pool w))"
      "\<And>c. heap w c = (if c \<in> set fr then activated params (h1 c) else if c \<in> set fd then buried_as (de_now env) (h1 c) else h1 c)"
      "\<And>j. j < length (ready (pool w)) \<Longrightarrow> lc_has (lc_of (heap w (ready (pool w) ! j))) lcActive \<longleftrightarrow> j < activeCount (pool w)"
    by (rule multi_update [OF E(4,5) disj E(8) [unfolded assms(1), folded h1_def, symmetric]]) (rule that)
  have sr: "set (ready (pool w)) = set fr" "distinct (ready (pool w))"
    using mset_eq_setD [OF W(1)] mset_eq_imp_distinct_iff [OF W(1)] E(4) by simp_all
  have r: "c \<in> set fr \<and> c \<notin> set fd" if "c \<in> set (ready p')" for c using that sr disj E(9) by auto
  have d: "c \<in> set fd \<and> c \<notin> set fr" if "c \<in> set (dead p')" for c using that disj E(10) W(2) by auto
  show ?thesis
  proof (rule that [OF E(1,2,3)])
    show "lc_has (lc_of (ds_heap s' (ready p' ! j))) lcActive \<longleftrightarrow> j < activeCount p'" if "j < length (ready p')" for j
      using W(6) [of j] that r [OF nth_mem [OF that]] unfolding E(9,12,13) by simp
    show "node_of (ds_heap s' c) = node_of (?h c)" for c unfolding E(13) by (simp add: W(5) h1_def)
    show "conn_up (ds_heap s' c)" if "c \<in> set (ready p')" "conn_up (?h c)" for c
    proof -
      have "conn_up (h1 c)" using that(2) by (simp add: h1_def)
      then show ?thesis unfolding E(13) W(5) using r [OF that(1)] by (simp add: modes)
    qed
    show "conn_down (ds_heap s' c)" if "c \<in> set (dead p')" "de_now env \<noteq> 0" "\<not> lc_has (lc_of (?h c)) lcActive"
        "\<not> lc_has (lc_of (?h c)) lcStandby" for c
    proof -
      have "conn_down (buried_as (de_now env) (h1 c))" using that(2-4) by (intro buried_down) (simp_all add: h1_def)
      then show ?thesis unfolding E(13) W(5) using d [OF that(1)] by simp
    qed
    show "resurrectLoop c \<in> set (spawned p')" if "c \<in> set (dead p')" "checkStartedAt (?h c) = None" for c
      using that(2) d [OF that(1)] by (intro E(14)) (simp_all add: W(5) h1_def)
    show "set (ready p') = {c \<in> set rs. deadSinceIsZero (?h c)}" "distinct (ready p')" "distinct (dead p')"
        "set (dead p') = set ds \<union> {c \<in> set rs. \<not> deadSinceIsZero (?h c)}" "members p' = set (rs @ ds)"
        "activeCount p' \<le> length (ready p')"
      unfolding E(9-12) W(2,3) all sr by (rule E sr W refl)+
  qed
qed

text \<open>The state between two discoveries: one connection for each address, in a pool that satisfies the pool
  invariant.\<close>

definition discovery_inv :: "multiServerPool \<Rightarrow> discovery_state \<Rightarrow> bool" where
  "discovery_inv p s \<longleftrightarrow> ds_pool s = Some (multiPool p) \<and> pool_inv (leaf_world p (ds_sys s))
     \<and> inj_on (\<lambda>c. URL (ds_heap s c)) (members p) \<and> (\<forall>c \<in> members p. c < ds_next s)"

definition node_reused :: "multiServerPool \<Rightarrow> discovery_state \<Rightarrow> nodeInfo \<Rightarrow> cid \<Rightarrow> bool" where
  "node_reused p s node c \<longleftrightarrow> c \<in> members p \<and> URL (ds_heap s c) = node_url node
     \<and> canReuseConnection (ds_heap s c) (node\<lparr>node_roleSet := newRoleSet (node_Roles node)\<rparr>)"

lemma leaf_world_simps [simp]: "pool (leaf_world p s) = p" "heap (leaf_world p s) = sys_heap s"
  by (simp_all add: leaf_world_def)

text \<open>The connections that \<open>resolve_nodes\<close> chooses for the nodes, in a state with the invariant.\<close>

lemma resolve_multi:
  fixes s :: discovery_state
  assumes "discovery_inv p s" "distinct (map node_url nodes)"
  obtains cur rs ds s1 where "currentByURL (ds_pool s) (ds_heap s) = Some cur" "resolve_nodes cfg cur nodes s = ((rs, ds), s1)"
    and "ds_pool s1 = Some (multiPool p)" "ds_next s1 = ds_next s + length ds" "ds = [ds_next s..<ds_next s1]"
    and "set rs \<subseteq> members p" "\<And>c. c < ds_next s \<Longrightarrow> ds_heap s1 c = ds_heap s c"
    and "distinct (map (\<lambda>c. URL (ds_heap s1 c)) (rs @ ds))" "length (rs @ ds) = length nodes"
    and "\<And>node. node \<in> set nodes \<Longrightarrow> (\<exists>c \<in> set rs. node_reused p s node c)
           \<or> (\<nexists>c. node_reused p s node c) \<and> (\<exists>c \<in> set ds. ds_heap s1 c = createConnection cfg node)"
    and "\<And>c. c \<in> set ds \<Longrightarrow> \<exists>node \<in> set nodes. ds_heap s1 c = createConnection cfg node"
    and "\<And>c. c \<in> set rs \<Longrightarrow> \<exists>node \<in> set nodes. node_reused p s node c"
proof -
  let ?h = "ds_heap s" and ?n = "ds_next s"
  have inv: "ds_pool s = Some (multiPool p)" "pool_inv (leaf_world p (ds_sys s))" "inj_on (\<lambda>c. URL (?h c)) (members p)"
      "\<And>c. c \<in> members p \<Longrightarrow> c < ?n" using assms(1) by (auto simp: discovery_inv_def)
  have M: "set (ready p) \<union> set (dead p) = members p" using inv(2) by (simp add: pool_inv_def Let_def)
  obtain cur where cur: "currentByURL (Some (multiPool p)) ?h = Some cur" "distinct (map fst cur)"
      "\<And>u c. map_of cur u = Some c \<longleftrightarrow> c \<in> members p \<and> URL (?h c) = u"
    by (rule currentByURL_multi [of ?h p, unfolded M, OF inv(3)]) (rule that)
  note keys = cur(3)
  let ?R = "reused cur ?h" let ?old = "filter ?R nodes" and ?fresh = "filter (\<lambda>n. \<not> ?R n) nodes"
  define rs where "rs = map (\<lambda>n. the (map_of cur (node_url n))) ?old"
  define H where "H = with_created cfg ?fresh ?n ?h"
  define s1 where "s1 = (put_heap H s)\<lparr>ds_next := ?n + length ?fresh\<rparr>"
  have res: "resolve_nodes cfg cur nodes s = ((rs, [?n..<?n + length ?fresh]), s1)"
    using resolve_nodes_eq [of cur s cfg nodes] inv(4) by (simp add: keys rs_def H_def s1_def Let_def)
  have s1: "ds_pool s1 = Some (multiPool p)" "ds_next s1 = ?n + length ?fresh" "ds_heap s1 = H" by (simp_all add: s1_def inv(1))
  have R: "?R node \<longleftrightarrow> (\<exists>c. node_reused p s node c)" for node
  proof (cases "map_of cur (node_url node)")
    case None
    then show ?thesis using keys by (auto simp: reused_def node_reused_def) (metis option.distinct(1))
  next
    case (Some c)
    then have "c \<in> members p \<and> URL (?h c) = node_url node" using keys by blast
    moreover have "c' = c" if "c' \<in> members p" "URL (?h c') = node_url node" for c' using that keys Some by (metis option.inject)
    ultimately show ?thesis using Some by (auto simp: reused_def node_reused_def)
  qed
  have the: "the (map_of cur (node_url node)) = c" if "node_reused p s node c" for node c
    using that keys by (metis node_reused_def option.sel)
  have set_rs: "c \<in> set rs \<longleftrightarrow> (\<exists>node \<in> set nodes. node_reused p s node c)" for c
    unfolding rs_def using R the by (auto simp: image_iff)
  have old: "H c = ?h c" if "c < ?n" for c using that by (simp add: H_def with_created_def)
  have new: "H (?n + i) = createConnection cfg (?fresh ! i)" if "i < length ?fresh" for i
    using that by (simp add: H_def with_created_def)
  have urls_old: "map (\<lambda>c. URL (H c)) rs = map node_url ?old"
    unfolding rs_def map_map
  proof (rule map_cong [OF refl])
    fix node assume "node \<in> set ?old"
    then obtain c where c: "node_reused p s node c" using R by auto
    then have "map_of cur (node_url node) = Some c" "c \<in> members p" "URL (?h c) = node_url node"
      by (simp_all add: keys node_reused_def)
    then show "((\<lambda>c. URL (H c)) \<circ> (\<lambda>n. the (map_of cur (node_url n)))) node = node_url node" using old inv(4) by simp
  qed
  have "URL (createConnection cfg node) = node_url node" for node using created_node(1) [of cfg node] by (simp add: node_of_def)
  then have urls_new: "map (\<lambda>c. URL (H c)) [?n..<?n + length ?fresh] = map node_url ?fresh"
    by (intro nth_equalityI) (simp_all add: new)
  have ms: "mset (map node_url ?old @ map node_url ?fresh) = mset (map node_url nodes)"
    by (metis map_append mset_append mset_filter mset_map multiset_partition)
  have "distinct (map node_url ?old @ map node_url ?fresh)" using mset_eq_imp_distinct_iff [OF ms] assms(2) by blast
  then have "distinct (map (\<lambda>c. URL (ds_heap s1 c)) (rs @ [?n..<?n + length ?fresh]))" by (simp only: map_append s1 urls_old urls_new)
  moreover have "length (rs @ [?n..<?n + length ?fresh]) = length nodes" using mset_eq_length [OF ms] by (simp add: rs_def)
  moreover have "\<exists>node \<in> set nodes. H c = createConnection cfg node" if "c \<in> set [?n..<?n + length ?fresh]" for c
    using that new [of "c - ?n"] nth_mem [of "c - ?n" ?fresh] by auto
  moreover have "(\<exists>c \<in> set rs. node_reused p s node c)
      \<or> (\<nexists>c. node_reused p s node c) \<and> (\<exists>c \<in> set [?n..<?n + length ?fresh]. H c = createConnection cfg node)" if "node \<in> set nodes" for node
  proof (cases "?R node")
    case True
    then show ?thesis using that R set_rs by blast
  next
    case False
    then have "node \<in> set ?fresh" using that by simp
    then obtain i where "i < length ?fresh" "?fresh ! i = node" unfolding in_set_conv_nth by blast
    then have "\<exists>c \<in> set [?n..<?n + length ?fresh]. H c = createConnection cfg node" using new [of i] by (intro bexI [of _ "?n + i"]) auto
    then show ?thesis using False R by blast
  qed
  moreover have "set rs \<subseteq> members p" using set_rs by (auto simp: node_reused_def)
  ultimately show ?thesis
    using cur(1) res s1 old inv(1) set_rs by (intro that [of cur rs "[?n..<?n + length ?fresh]" s1]) simp_all
qed

lemma pool_inv_parts:
  assumes "pool_inv (leaf_world p s)" "c \<in> members p"
  shows "deadSinceIsZero (sys_heap s c) \<Longrightarrow> conn_up (sys_heap s c)"
    and "\<not> deadSinceIsZero (sys_heap s c) \<Longrightarrow> conn_down (sys_heap s c)"
    and "c \<in> set (ready p) \<longleftrightarrow> deadSinceIsZero (sys_heap s c)"
  using pool_invD(3,5) [OF assms(1)] assms(2) by (auto simp: conn_up_def conn_down_def deadSinceIsZero_def)

text \<open>C15. Discovery converges on the cluster it was told of. In a client without a router whose pool satisfies
  the invariant, with one connection for each address, a discovery of two or more nodes with different
  addresses returns, keeps the invariant, and leaves exactly one connection for each reported address and none for any
  other. A node whose identifier, name and roles are those of the connection with its address keeps this
  connection, on the ready list exactly when it was there before; any other node gets a new connection, which
  starts on the dead list with a goroutine that checks its health. The ready connections marked active are
  those before the active count.\<close>
theorem nodeDiscovery_converges:
  assumes "discovery_inv p s" "dc_router cfg = None" "range_ok env" "de_now env \<noteq> 0"
    and "distinct (map node_url nodes)" "2 \<le> length nodes"
  shows "\<exists>s' p'. nodeDiscovery cfg env nodes s = Some s' \<and> discovery_inv p' s'
    \<and> (\<lambda>c. URL (ds_heap s' c)) ` members p' = node_url ` set nodes
    \<and> (\<forall>j < length (ready p'). lc_has (lc_of (ds_heap s' (ready p' ! j))) lcActive \<longleftrightarrow> j < activeCount p')
    \<and> (\<forall>node \<in> set nodes. \<exists>c \<in> members p'. URL (ds_heap s' c) = node_url node \<and>
         (if \<exists>e. node_reused p s node e
          then node_reused p s node c \<and> (c \<in> set (ready p') \<longleftrightarrow> c \<in> set (ready p))
          else ds_next s \<le> c \<and> c \<in> set (dead p') \<and> resurrectLoop c \<in> set (spawned p')
            \<and> node_of (ds_heap s' c) = (node_url node, node_ID node, node_Name node, newRoleSet (node_Roles node))))"
proof -
  have inv: "pool_inv (leaf_world p (ds_sys s))" "\<And>c. c \<in> members p \<Longrightarrow> c < ds_next s"
    using assms(1) by (auto simp: discovery_inv_def)
  obtain cur rs ds s1 where R: "currentByURL (ds_pool s) (ds_heap s) = Some cur" "resolve_nodes cfg cur nodes s = ((rs, ds), s1)"
      "ds_pool s1 = Some (multiPool p)" "ds_next s1 = ds_next s + length ds" "ds = [ds_next s..<ds_next s1]"
      "set rs \<subseteq> members p" "\<And>c. c < ds_next s \<Longrightarrow> ds_heap s1 c = ds_heap s c"
      "distinct (map (\<lambda>c. URL (ds_heap s1 c)) (rs @ ds))" "length (rs @ ds) = length nodes"
      "\<And>node. node \<in> set nodes \<Longrightarrow> (\<exists>c \<in> set rs. node_reused p s node c)
           \<or> (\<nexists>c. node_reused p s node c) \<and> (\<exists>c \<in> set ds. ds_heap s1 c = createConnection cfg node)"
      "\<And>c. c \<in> set ds \<Longrightarrow> \<exists>node \<in> set nodes. ds_heap s1 c = createConnection cfg node"
      "\<And>c. c \<in> set rs \<Longrightarrow> \<exists>node \<in> set nodes. node_reused p s node c"
    by (rule resolve_multi [OF assms(1,5)]) (rule that)
  have inj: "inj_on (\<lambda>c. URL (ds_heap s1 c)) (set (rs @ ds))" and dd: "distinct (rs @ ds)"
    using R(8) by (simp_all only: distinct_map)
  have rs: "c \<in> members p \<and> ds_heap s1 c = sys_heap (ds_sys s) c" if "c \<in> set rs" for c
    using that R(6,7) inv(2) by (auto simp: ds_heap_def)
  have card: "2 \<le> card (set (rs @ ds))" using distinct_card [OF dd] R(9) assms(6) by simp
  have disj: "set rs \<inter> set ds = {}" using dd by simp
  obtain s' p' where U: "updateConnectionPool cfg env None rs ds s1 = Some s'" "ds_pool s' = Some (multiPool p')" "ds_next s' = ds_next s1"
      "set (ready p') = {c \<in> set rs. deadSinceIsZero (ds_heap s1 c)}" "distinct (ready p')" "distinct (dead p')"
      "set (dead p') = set ds \<union> {c \<in> set rs. \<not> deadSinceIsZero (ds_heap s1 c)}"
      "members p' = set (rs @ ds)" "activeCount p' \<le> length (ready p')"
      "\<And>j. j < length (ready p') \<Longrightarrow> lc_has (lc_of (ds_heap s' (ready p' ! j))) lcActive \<longleftrightarrow> j < activeCount p'"
      "\<And>c. node_of (ds_heap s' c) = node_of (ds_heap s1 c)"
      "\<And>c. c \<in> set (ready p') \<Longrightarrow> conn_up (ds_heap s1 c) \<Longrightarrow> conn_up (ds_heap s' c)"
      "\<And>c. c \<in> set (dead p') \<Longrightarrow> de_now env \<noteq> 0 \<Longrightarrow> \<not> lc_has (lc_of (ds_heap s1 c)) lcActive \<Longrightarrow>
            \<not> lc_has (lc_of (ds_heap s1 c)) lcStandby \<Longrightarrow> conn_down (ds_heap s' c)"
      "\<And>c. c \<in> set (dead p') \<Longrightarrow> checkStartedAt (ds_heap s1 c) = None \<Longrightarrow> resurrectLoop c \<in> set (spawned p')"
    by (rule update_multi [OF R(3) assms(2,3) inj disj card]) (rule that)
  have url: "URL (ds_heap s' c) = URL (ds_heap s1 c)" for c by (rule node_of_URL [OF U(11)])
  have up: "conn_up (ds_heap s' c)" if "c \<in> set (ready p')" for c
    using that U(4,12) rs pool_inv_parts(1) [OF inv(1)] by auto
  have down: "conn_down (ds_heap s' c)" if c: "c \<in> set (dead p')" for c
  proof (rule U(13) [OF c assms(4)])
    consider "c \<in> set ds" | "c \<in> set rs" "\<not> deadSinceIsZero (ds_heap s1 c)" using c U(7) by auto
    then have "\<not> lc_has (lc_of (ds_heap s1 c)) lcActive \<and> \<not> lc_has (lc_of (ds_heap s1 c)) lcStandby"
    proof cases
      case 1
      then show ?thesis using R(11) created_modes by metis
    next
      case 2
      then show ?thesis using rs [OF 2(1)] pool_inv_parts(2) [OF inv(1)] by (simp add: conn_down_def)
    qed
    then show "\<not> lc_has (lc_of (ds_heap s1 c)) lcActive" "\<not> lc_has (lc_of (ds_heap s1 c)) lcStandby" by simp_all
  qed
  have "pool_inv (leaf_world p' (ds_sys s'))"
    using U(4,6,7,8,9) up down disj unfolding pool_inv_def Let_def leaf_world_simps ds_heap_def by auto
  moreover have "inj_on (\<lambda>c. URL (ds_heap s' c)) (members p')" unfolding U(8) url by (rule inj)
  moreover have "c < ds_next s'" if "c \<in> members p'" for c
    using that U(3,8) R(4,5,6) inv(2) by force
  ultimately have di: "discovery_inv p' s'" using U(2) by (simp add: discovery_inv_def)
  have made: "URL (createConnection cfg node) = node_url node" for node
    using created_node(1) [of cfg node] by (simp add: node_of_def)
  have reu: "node_reused p s node c \<Longrightarrow> URL (ds_heap s' c) = node_url node" if "c \<in> set rs" for node c
    using that rs [OF that] unfolding url by (simp add: node_reused_def ds_heap_def)
  have each: "\<exists>c \<in> members p'. URL (ds_heap s' c) = node_url node \<and>
         (if \<exists>e. node_reused p s node e
          then node_reused p s node c \<and> (c \<in> set (ready p') \<longleftrightarrow> c \<in> set (ready p))
          else ds_next s \<le> c \<and> c \<in> set (dead p') \<and> resurrectLoop c \<in> set (spawned p')
            \<and> node_of (ds_heap s' c) = (node_url node, node_ID node, node_Name node, newRoleSet (node_Roles node)))"
    if node: "node \<in> set nodes" for node
    using R(10) [OF node]
  proof (elim disjE conjE bexE)
    fix c assume c: "c \<in> set rs" "node_reused p s node c"
    moreover have "c \<in> set (ready p') \<longleftrightarrow> c \<in> set (ready p)"
      using rs [OF c(1)] pool_inv_parts(3) [OF inv(1), of c] c(1) by (simp add: U(4))
    ultimately show ?thesis using reu by (intro bexI [of _ c]) (auto simp: U(8))
  next
    fix c assume c: "\<nexists>c. node_reused p s node c" "c \<in> set ds" "ds_heap s1 c = createConnection cfg node"
    then have "c \<in> set (dead p')" "ds_next s \<le> c" using U(7) R(5) by auto
    then show ?thesis using c U(14) [of c] by (intro bexI [of _ c]) (simp_all add: U(8,11) url made created_node)
  qed
  have "(\<lambda>c. URL (ds_heap s' c)) ` members p' \<subseteq> node_url ` set nodes"
  proof (rule image_subsetI)
    fix c assume "c \<in> members p'"
    then consider "c \<in> set rs" | "c \<in> set ds" using U(8) by auto
    then show "URL (ds_heap s' c) \<in> node_url ` set nodes"
    proof cases
      case 1
      then show ?thesis using R(12) reu by force
    next
      case 2
      then show ?thesis using R(11) made unfolding url by force
    qed
  qed
  moreover have "node_url ` set nodes \<subseteq> (\<lambda>c. URL (ds_heap s' c)) ` members p'" using each by (force simp: image_iff)
  ultimately have "(\<lambda>c. URL (ds_heap s' c)) ` members p' = node_url ` set nodes" by blast
  moreover have "nodeDiscovery cfg env nodes s = Some s'" by (simp add: nodeDiscovery_def R(1,2) U(1))
  ultimately show ?thesis using di each U(10) by blast
qed

section \<open>Between one server and several\<close>

lemma zombie_none:
  assumes "\<forall>c \<in> set (dead (pool w)). \<not> availableForRouting (heap w c)" "n \<le> length (dead (pool w))"
  shows "fst (zombie_loop n w) = None"
  using assms
proof (induction n arbitrary: w)
  case (Suc n)
  let ?w = "upd_pool (\<lambda>p. p\<lparr>dead := tl (dead p) @ [hd (dead (pool w))]\<rparr>) w"
  obtain c cs where d: "dead (pool w) = c # cs" using Suc.prems(2) by (cases "dead (pool w)") auto
  then have "fst (zombie_loop n ?w) = None" using Suc.prems by (intro Suc.IH) (auto simp: pool_simps)
  then show ?case using Suc.prems(1) d by (simp add: Let_def pool_simps)
qed simp

lemma Next_none:
  assumes "ready (pool w) = []" "activeCount (pool w) = 0" "\<forall>c \<in> set (dead (pool w)). \<not> availableForRouting (heap w c)"
  shows "fst (Next id rnd now lockFree w) = Inl ErrNoConnections"
proof -
  have z: "fst (tryZombie w) = None" unfolding tryZombie_def by (rule zombie_none [OF assms(3)]) simp
  have "tryStandby w = (None, w)" using assms(1,2) by (simp add: tryStandby_def)
  then have "fst (nextFallbackWithLock w) = Inl ErrNoConnections"
    using z by (simp add: nextFallbackWithLock_def case_prod_unfold Let_def)
  then show ?thesis using assms(1,2) by (simp add: Next_def nextFallback_def)
qed

lemma currentByURL_single:
  "currentByURL (Some (singleServerPool (Some c0))) h = Some [(URL (h c0), c0)]"
  "currentByURL (Some (singleServerPool None)) h = None"
  by (simp_all add: currentByURL_def cp_URLs_def findConnectionByURL_def)

text \<open>The nodes of a discovery none of which can keep the connection of a single-server pool.\<close>

definition all_new :: "connection \<Rightarrow> nodeInfo list \<Rightarrow> bool" where
  "all_new x nodes \<longleftrightarrow> (\<forall>node \<in> set nodes. node_url node = URL x \<longrightarrow>
     \<not> canReuseConnection x (node\<lparr>node_roleSet := newRoleSet (node_Roles node)\<rparr>))"

lemma resolve_single:
  fixes s :: discovery_state
  assumes "c0 < ds_next s" "all_new (ds_heap s c0) nodes"
  shows "resolve_nodes cfg [(URL (ds_heap s c0), c0)] nodes s =
    (([], [ds_next s..<ds_next s + length nodes]),
     (put_heap (with_created cfg nodes (ds_next s) (ds_heap s)) s)\<lparr>ds_next := ds_next s + length nodes\<rparr>)"
proof -
  have R: "\<not> reused [(URL (ds_heap s c0), c0)] (ds_heap s) node" if "node \<in> set nodes" for node
    using assms(2) that by (auto simp: reused_def all_new_def)
  then have "filter (reused [(URL (ds_heap s c0), c0)] (ds_heap s)) nodes = []"
      "filter (\<lambda>n. \<not> reused [(URL (ds_heap s c0), c0)] (ds_heap s) n) nodes = nodes"
    by (simp_all add: filter_empty_conv filter_id_conv)
  moreover have "c < ds_next s" if "map_of [(URL (ds_heap s c0), c0)] u = Some c" for u c
    using that assms(1) by (simp split: if_splits)
  ultimately show ?thesis by (simp only: resolve_nodes_eq Let_def list.map)
qed

lemma with_created_nth:
  "c \<in> set [n..<n + length nodes] \<Longrightarrow> with_created cfg nodes n h c = createConnection cfg (nodes ! (c - n))"
  by (simp add: with_created_def)

lemma distinct_created_urls:
  assumes "distinct (map node_url nodes)"
  shows "inj_on (\<lambda>c. URL (with_created cfg nodes n h c)) (set [n..<n + length nodes])"
proof -
  have "map (\<lambda>c. URL (with_created cfg nodes n h c)) [n..<n + length nodes] = map node_url nodes"
    using created_node(1) by (intro nth_equalityI) (simp_all add: with_created_def node_of_def)
  then show ?thesis using assms by (metis distinct_map)
qed

lemma seed_weights [simp]: "seed (computeWeights cs h c) = seed (h c)"
  by (simp add: computeWeights_eq weighed_def)

lemma availableForRouting_checking:
  "availableForRouting (upd_lc lcHealthChecking 0 (x\<lparr>checkStartedAt := t\<rparr>)) = availableForRouting x"
  "deadSinceIsZero (upd_lc lcHealthChecking 0 (x\<lparr>checkStartedAt := t\<rparr>)) = deadSinceIsZero x"
  by (simp_all add: availableForRouting_def deadSinceIsZero_def bit_upd_lc bit_flags) (simp_all add: upd_lc_def lc_of_def)

lemma created_unavailable:
  "\<not> availableForRouting (weighed d (createConnection cfg node))" "\<not> availableForRouting (createConnection cfg node)"
  "deadSinceIsZero (weighed d (createConnection cfg node))" "deadSinceIsZero (createConnection cfg node)"
  using created_modes(4) [of cfg node] created_node [of cfg node]
  by (simp_all add: availableForRouting_def deadSinceIsZero_def) (simp add: weighed_def)

text \<open>C21. A client that starts with one address and no router strands the nodes of its first discovery. When
  the pool has a single server and two or more nodes are discovered, none of which is the one it has a connection
  for (the connection of a configured address has no identifier, so it never is), the promoted pool has no ready
  connection: every node is on the dead list without the time since which it is dead. The goroutine started for it ends at its
  first attempt without a health check, because that time is zero; a reported success changes nothing, for the same
  reason; and the pool has no connection to give to a request.\<close>
theorem promotion_strands_nodes:
  assumes "ds_pool s = Some (singleServerPool (Some c0))" "c0 < ds_next s" "all_new (ds_heap s c0) nodes"
    and "dc_router cfg = None" "range_ok env" "distinct (map node_url nodes)" "2 \<le> length nodes"
  shows "\<exists>s' p'. nodeDiscovery cfg env nodes s = Some s' \<and> ds_pool s' = Some (multiPool p')
    \<and> ready p' = [] \<and> set (dead p') = {ds_next s..<ds_next s + length nodes}
    \<and> (\<forall>c \<in> set (dead p'). deadSinceIsZero (ds_heap s' c)
         \<and> resurrect_begin rnd c (leaf_world p' (ds_sys s')) = (Some True, leaf_world p' (ds_sys s'))
         \<and> OnSuccess rnd c (leaf_world p' (ds_sys s')) = leaf_world p' (ds_sys s'))
    \<and> fst (Next id rnd now lockFree (leaf_world p' (ds_sys s'))) = Inl ErrNoConnections"
proof -
  let ?n = "ds_next s" let ?ds = "[?n..<?n + length nodes]"
  define s1 where "s1 = (put_heap (with_created cfg nodes ?n (ds_heap s)) s)\<lparr>ds_next := ?n + length nodes\<rparr>"
  have s1: "ds_pool s1 = Some (singleServerPool (Some c0))" "ds_heap s1 = with_created cfg nodes ?n (ds_heap s)"
    by (simp_all add: s1_def assms(1))
  obtain cur where cur: "currentByURL (ds_pool s1) (ds_heap s1) = Some cur" by (simp add: s1(1) currentByURL_single)
  have inj: "inj_on (\<lambda>c. URL (ds_heap s1 c)) (set ([] @ ?ds))"
    using distinct_created_urls [OF assms(6)] by (simp add: s1)
  have disj: "set [] \<inter> set ?ds = {}" and card: "2 \<le> card (set ([] @ ?ds))" using assms(7) by simp_all
  obtain fr fd w s' p' where E: "updateConnectionPool cfg env None [] ?ds s1 = Some s'" "ds_pool s' = Some (multiPool p')"
      "ds_next s' = ds_next s1" "distinct fr" "distinct fd" "set fr = {c \<in> set []. deadSinceIsZero (ds_heap s1 c)}"
      "set fd = set ?ds \<union> {c \<in> set []. \<not> deadSinceIsZero (ds_heap s1 c)}"
      "w = createOrUpdateMultiNodePool cfg env fr fd (ds_pool s1) (computeWeights (fr @ fd) (ds_heap s1))"
      "ready p' = ready (pool w)" "dead p' = dead (pool w)" "members p' = members (pool w)" "activeCount p' = activeCount (pool w)"
      "\<And>c. ds_heap s' c = (if c \<in> set fd \<and> checkStartedAt (heap w c) = None
        then upd_lc lcHealthChecking 0 ((heap w c)\<lparr>checkStartedAt := Some (de_now env)\<rparr>) else heap w c)"
      "\<And>c. c \<in> set fd \<Longrightarrow> checkStartedAt (heap w c) = None \<Longrightarrow> resurrectLoop c \<in> set (spawned p')"
    by (rule update_exchange [OF cur assms(4,5) inj disj card]) (rule that)
  have fr: "fr = []" using E(6) by simp
  have w: "heap w = computeWeights fd (ds_heap s1)" "ready (pool w) = []" "dead (pool w) = fd" "activeCount (pool w) = 0"
    by (simp_all add: E(8) s1(1) fr createOrUpdateMultiNodePool_def promoteConnectionPool_def shuffle_conns_def enforceActiveCap_def Let_def)
  have gone: "deadSinceIsZero (ds_heap s' c) \<and> \<not> availableForRouting (ds_heap s' c)" if "c \<in> set fd" for c
  proof -
    have "ds_heap s1 c = createConnection cfg (nodes ! (c - ?n))" using that E(7) by (simp add: s1 with_created_nth)
    then have "deadSinceIsZero (heap w c) \<and> \<not> availableForRouting (heap w c)"
      using created_unavailable by (simp add: w computeWeights_eq)
    then show ?thesis unfolding E(13) by (simp add: availableForRouting_checking)
  qed
  have "nodeDiscovery cfg env nodes s = Some s'"
    by (simp add: nodeDiscovery_def assms(1) currentByURL_single resolve_single [OF assms(2,3)] s1_def [symmetric] E(1))
  moreover have "fst (Next id rnd now lockFree (leaf_world p' (ds_sys s'))) = Inl ErrNoConnections"
    using gone by (intro Next_none) (simp_all add: E(9,10,12) w ds_heap_def)
  ultimately show ?thesis
    using E(2,7,9,10) w gone by (intro exI [of _ s'] exI [of _ p']) (auto simp: resurrect_begin_def OnSuccess_def ds_heap_def)
qed

lemma single_pool_kind: "\<exists>c. snd (createOrUpdateSingleNodePool fr fd cpo h) = singleServerPool c"
  by (auto simp: createOrUpdateSingleNodePool_def demoteConnectionPool_def newSingleServerPool_def
      split: option.splits connection_pool.splits)

text \<open>What an update of the pool does when it leaves one server, without a router.\<close>

lemma update_one:
  fixes s :: discovery_state
  assumes "currentByURL (ds_pool s) (ds_heap s) = Some cur" "dc_router cfg = None" "range_ok env"
    and "inj_on (\<lambda>c. URL (ds_heap s c)) (set (rs @ ds))" "set rs \<inter> set ds = {}" "card (set (rs @ ds)) = 1"
  obtains fr fd s' where "updateConnectionPool cfg env None rs ds s = Some s'" "ds_next s' = ds_next s"
    and "distinct fr" "distinct fd" "set fr = {c \<in> set rs. deadSinceIsZero (ds_heap s c)}"
    and "set fd = set ds \<union> {c \<in> set rs. \<not> deadSinceIsZero (ds_heap s c)}"
    and "(ds_heap s', the (ds_pool s')) = createOrUpdateSingleNodePool fr fd (ds_pool s) (computeWeights (fr @ fd) (ds_heap s))"
    and "ds_pool s' \<noteq> None"
proof -
  let ?h = "ds_heap s"
  let ?R = "(\<lambda>c. URL (?h c)) ` set rs" and ?d = "connection_diff env cur (connections_by_url ?h (rs @ ds))"
  obtain fr fd h' where L: "final_lists env None ?R (df_final ?d) ?h = ((fr, fd), h')"
    using prod.exhaust by (metis (no_types))
  note F = final_sets [OF assms(3,4,5) L]
  have disj: "set fr \<inter> set fd = {}" and all: "set fr \<union> set fd = set (rs @ ds)" using F(4,5) assms(5) by auto
  have "card (set fr \<union> set fd) = length fr + length fd"
    using F(2,3) disj by (simp add: card_Un_disjoint distinct_card)
  then have n: "length fr + length fd = 1" using assms(6) all by simp
  define h1 where "h1 = computeWeights (fr @ fd) ?h"
  define s1 where "s1 = recalculateCapacityModel (fr @ fd) (put_heap h1 s)"
  have s1: "ds_pool s1 = ds_pool s" "ds_heap s1 = h1" "ds_next s1 = ds_next s"
    by (simp_all add: s1_def) (simp add: ds_heap_def put_heap_def)
  obtain h2 c where X: "createOrUpdateSingleNodePool fr fd (ds_pool s) h1 = (h2, singleServerPool c)"
    using single_pool_kind [of fr fd "ds_pool s" h1] by (metis prod.collapse)
  define s2 where "s2 = (put_heap h2 s1)\<lparr>ds_pool := Some (singleServerPool c)\<rparr>"
  have ex: "exchange_pool cfg env fr fd s1 = s2" unfolding exchange_pool_def s1 s2_def using n X by simp
  have "schedule_checks env fr fd s2 = s2" by (simp add: schedule_checks_def s2_def)
  then have upd: "updateConnectionPool cfg env None rs ds s = Some s2"
    unfolding updateConnectionPool_def assms(1) option.case Let_def L prod.case F(1) h1_def [symmetric] s1_def [symmetric] ex
    by (simp add: notify_router_def assms(2))
  show ?thesis by (intro that [OF upd _ F(2-5)]) (simp_all add: s2_def s1 X h1_def [symmetric])
qed

text \<open>C23. A cluster that shrinks to one node keeps the client on a connection of the old pool. When there is no router, the
  pool is a non-empty multi-server pool that satisfies its invariant and one node is discovered, the new single-server pool holds the first ready connection of the
  old pool, or the first dead one, whatever the discovered node is: it may be the connection of a node that left the
  cluster, and the connection of the discovered node is not used.\<close>
theorem demotion_ignores_discovery:
  assumes "discovery_inv p s" "dc_router cfg = None" "range_ok env" "members p \<noteq> {}"
  shows "\<exists>s'. nodeDiscovery cfg env [node] s = Some s'
    \<and> ds_pool s' = Some (singleServerPool (Some (if ready p \<noteq> [] then hd (ready p) else hd (dead p))))"
proof -
  have inv: "pool_inv (leaf_world p (ds_sys s))" using assms(1) by (auto simp: discovery_inv_def)
  have one: "distinct (map node_url [node])" by simp
  obtain cur rs ds s1 where
    R: "currentByURL (ds_pool s) (ds_heap s) = Some cur" "resolve_nodes cfg cur [node] s = ((rs, ds), s1)"
      "ds_pool s1 = Some (multiPool p)" "distinct (map (\<lambda>c. URL (ds_heap s1 c)) (rs @ ds))" "length (rs @ ds) = length [node]"
    by (rule resolve_multi [where cfg = cfg, OF assms(1) one]) (rule that)
  have inj: "inj_on (\<lambda>c. URL (ds_heap s1 c)) (set (rs @ ds))" and dd: "distinct (rs @ ds)"
    using R(4) by (simp_all only: distinct_map)
  have disj: "set rs \<inter> set ds = {}" and card: "card (set (rs @ ds)) = 1" using dd distinct_card [OF dd] R(5) by simp_all
  obtain cur1 where cur1: "currentByURL (ds_pool s1) (ds_heap s1) = Some cur1" by (auto simp: R(3) currentByURL_def cp_URLs_def)
  obtain fr fd s' where U: "updateConnectionPool cfg env None rs ds s1 = Some s'" "ds_pool s' \<noteq> None"
      "(ds_heap s', the (ds_pool s')) = createOrUpdateSingleNodePool fr fd (ds_pool s1) (computeWeights (fr @ fd) (ds_heap s1))"
    by (rule update_one [OF cur1 assms(2,3) inj disj card]) (rule that)
  have "ready p \<noteq> [] \<or> dead p \<noteq> []" using inv assms(4) by (auto simp: pool_inv_def Let_def)
  then have "the (ds_pool s') = singleServerPool (Some (if ready p \<noteq> [] then hd (ready p) else hd (dead p)))"
    using U(3) by (auto simp: R(3) createOrUpdateSingleNodePool_def demoteConnectionPool_def newSingleServerPool_def hd_conv_nth)
  then show ?thesis using U(2) by (auto simp: nodeDiscovery_def R(1,2) U(1) simp del: resolve_nodes.simps)
qed

lemma distinct_one: "distinct xs \<Longrightarrow> set xs = {c} \<Longrightarrow> xs = [c]"
proof (cases xs)
  case (Cons x ys)
  assume "distinct xs" "set xs = {c}"
  then have "x = c" "set ys \<subseteq> {c}" "c \<notin> set ys" using Cons by auto
  then show ?thesis using Cons by (cases ys) auto
qed simp

text \<open>One discovery of one node by a single-server pool: the connection is kept, or replaced by a new one.\<close>

lemma single_step:
  fixes s :: discovery_state
  assumes "ds_pool s = Some (singleServerPool (Some c0))" "c0 < ds_next s" "dc_router cfg = None" "range_ok env"
    and "r = reused [(URL (ds_heap s c0), c0)] (ds_heap s) node" "c = (if r then c0 else ds_next s)"
    and "x = (if r then ds_heap s c0 else createConnection cfg node)"
  obtains s' where "nodeDiscovery cfg env [node] s = Some s'" "ds_pool s' = Some (singleServerPool (Some c))"
    and "c < ds_next s'" "node_of (ds_heap s' c) = node_of x" "checkStartedAt (ds_heap s' c) = checkStartedAt x"
    and "availableForRouting (ds_heap s' c) = availableForRouting x"
proof -
  let ?cur = "[(URL (ds_heap s c0), c0)]"
  obtain rs ds s1 where R: "resolve_nodes cfg ?cur [node] s = ((rs, ds), s1)" "rs @ ds = [c]" "ds_heap s1 c = x"
      "ds_pool s1 = Some (singleServerPool (Some c0))" "c < ds_next s1"
  proof (cases r)
    case True
    then have "URL (ds_heap s c0) = node_url node" "canReuseConnection (ds_heap s c0) (node\<lparr>node_roleSet := newRoleSet (node_Roles node)\<rparr>)"
      unfolding assms(5) by (auto simp: reused_def split: if_splits)
    then show ?thesis using True assms(1,2,6,7) by (intro that [of "[c]" "[]" s]) simp_all
  next
    case False
    then have "resolve_nodes cfg ?cur [node] s = (([], [ds_next s]), snd (new_connection cfg (node\<lparr>node_roleSet := newRoleSet (node_Roles node)\<rparr>) s))"
      unfolding assms(5) by (auto simp: reused_def Let_def new_connection_def split: if_splits)
    then show ?thesis using False assms(1,6,7)
      by (intro that [of "[]" "[c]" "snd (new_connection cfg (node\<lparr>node_roleSet := newRoleSet (node_Roles node)\<rparr>) s)"])
        (simp_all add: new_connection_def createConnection_roleSet del: resolve_nodes.simps)
  qed
  have inj: "inj_on (\<lambda>c. URL (ds_heap s1 c)) (set (rs @ ds))" "card (set (rs @ ds)) = 1" by (simp_all add: R(2))
  have disj: "set rs \<inter> set ds = {}" using R(2) by (cases rs) auto
  obtain cur1 where cur1: "currentByURL (ds_pool s1) (ds_heap s1) = Some cur1" by (simp add: R(4) currentByURL_single)
  obtain fr fd s' where U: "updateConnectionPool cfg env None rs ds s1 = Some s'" "ds_next s' = ds_next s1" "distinct fr" "distinct fd"
      "set fr = {c \<in> set rs. deadSinceIsZero (ds_heap s1 c)}" "set fd = set ds \<union> {c \<in> set rs. \<not> deadSinceIsZero (ds_heap s1 c)}"
      "(ds_heap s', the (ds_pool s')) = createOrUpdateSingleNodePool fr fd (ds_pool s1) (computeWeights (fr @ fd) (ds_heap s1))"
      "ds_pool s' \<noteq> None"
    by (rule update_one [OF cur1 assms(3,4) inj(1) disj inj(2)]) (rule that)
  have one: "fr = [c] \<and> fd = [] \<or> fr = [] \<and> fd = [c]"
  proof -
    have "set fr \<union> set fd = {c}" "set fr \<inter> set fd = {}" using U(5,6) R(2) disj by (auto simp: append_eq_Cons_conv)
    then have "set fr = {c} \<and> set fd = {} \<or> set fr = {} \<and> set fd = {c}"
      using subset_singletonD [of "set fr" c] subset_singletonD [of "set fd" c] by blast
    then show ?thesis using distinct_one [OF U(3)] distinct_one [OF U(4)] by auto
  qed
  let ?y = "computeWeights (fr @ fd) (ds_heap s1) c"
  have N: "the (ds_pool s') = singleServerPool (Some c)" "ds_heap s' c = upd_lc lcActive (lcUnknown OR lcStandby) ?y"
    using U(7) one by (auto simp: R(4) createOrUpdateSingleNodePool_def newSingleServerPool_def)
  have "availableForRouting (ds_heap s' c) = availableForRouting x"
    unfolding N(2) by (simp add: availableForRouting_def bit_upd_lc bit_flags bit_or_iff R(3) seed_weights) (simp add: upd_lc_def seed_weights R(3))
  moreover have "node_of (ds_heap s' c) = node_of x" by (simp add: N(2) R(3))
  moreover have "checkStartedAt (ds_heap s' c) = checkStartedAt x" unfolding N(2) by (simp add: upd_lc_def R(3))
  moreover have "nodeDiscovery cfg env [node] s = Some s'"
    by (simp add: nodeDiscovery_def assms(1) currentByURL_single R(1) U(1) del: resolve_nodes.simps)
  ultimately show ?thesis using N(1) U(2,8) R(5) by (intro that [of s']) auto
qed

text \<open>A series of discoveries that all find the same node.\<close>

fun discoveries :: "discovery_config \<Rightarrow> nodeInfo \<Rightarrow> discovery_env list \<Rightarrow> discovery_state \<Rightarrow> discovery_state option" where
  "discoveries cfg node [] s = Some s"
| "discoveries cfg node (env # envs) s =
     (case nodeDiscovery cfg env [node] s of None \<Rightarrow> None | Some s' \<Rightarrow> discoveries cfg node envs s')"

definition unserved :: "discovery_config \<Rightarrow> nodeInfo \<Rightarrow> cid \<Rightarrow> discovery_state \<Rightarrow> bool" where
  "unserved cfg node c s \<longleftrightarrow> ds_pool s = Some (singleServerPool (Some c)) \<and> c < ds_next s
     \<and> node_of (ds_heap s c) = node_of (createConnection cfg node) \<and> \<not> availableForRouting (ds_heap s c)
     \<and> checkStartedAt (ds_heap s c) = None"

lemma unserved_start:
  assumes "ds_pool s = Some (singleServerPool (Some c0))" "c0 < ds_next s" "all_new (ds_heap s c0) [node]"
    and "dc_router cfg = None" "range_ok env"
  shows "\<exists>s'. nodeDiscovery cfg env [node] s = Some s' \<and> unserved cfg node (ds_next s) s'"
proof -
  let ?c = "ds_next s"
  have new: "\<not> reused [(URL (ds_heap s c0), c0)] (ds_heap s) node" using assms(3) by (auto simp: reused_def all_new_def)
  obtain s' where S: "nodeDiscovery cfg env [node] s = Some s'" "ds_pool s' = Some (singleServerPool (Some ?c))" "?c < ds_next s'"
      "node_of (ds_heap s' ?c) = node_of (createConnection cfg node)" "checkStartedAt (ds_heap s' ?c) = checkStartedAt (createConnection cfg node)"
      "availableForRouting (ds_heap s' ?c) = availableForRouting (createConnection cfg node)"
    by (rule single_step [OF assms(1,2,4,5) refl refl refl, where node = node]) (use new that in simp)
  then show ?thesis using created_unavailable(2) [of cfg node] by (simp add: unserved_def created_node(3))
qed

lemma unserved_again:
  assumes "unserved cfg node c s" "dc_router cfg = None" "range_ok env"
  shows "\<exists>s'. nodeDiscovery cfg env [node] s = Some s' \<and> unserved cfg node c s'"
proof -
  have u: "ds_pool s = Some (singleServerPool (Some c))" "c < ds_next s" using assms(1) by (simp_all add: unserved_def)
  have again: "reused [(URL (ds_heap s c), c)] (ds_heap s) node"
    using assms(1) unfolding unserved_def created_node by (auto simp: reused_def node_of_def canReuseConnection_def)
  obtain s' where T: "nodeDiscovery cfg env [node] s = Some s'" "ds_pool s' = Some (singleServerPool (Some c))" "c < ds_next s'"
      "node_of (ds_heap s' c) = node_of (ds_heap s c)" "checkStartedAt (ds_heap s' c) = checkStartedAt (ds_heap s c)"
      "availableForRouting (ds_heap s' c) = availableForRouting (ds_heap s c)"
    by (rule single_step [OF u assms(2,3) refl refl refl, where node = node]) (use again that in simp)
  then show ?thesis using assms(1) by (simp add: unserved_def)
qed

lemma unserved_discoveries:
  assumes "unserved cfg node c s" "dc_router cfg = None" "\<And>env. env \<in> set envs \<Longrightarrow> range_ok env"
  shows "\<exists>s'. discoveries cfg node envs s = Some s' \<and> unserved cfg node c s'"
  using assms(1,3)
proof (induction envs arbitrary: s)
  case (Cons env envs)
  obtain s1 where "nodeDiscovery cfg env [node] s = Some s1" "unserved cfg node c s1"
    using unserved_again [OF Cons.prems(1) assms(2)] Cons.prems(2) by force
  with Cons show ?case by simp
qed simp

text \<open>C22. The only node of a cluster is never used through its own connection. When the pool has a single server, there is
  no router and the one discovered node is not the one it has a connection for, then after that discovery and any number
  of further discoveries of the same node the pool holds the one connection that was created for the node, does not give it to any
  request, since it was never found reachable, and no health check has been started for it, so
  requests are served by the seed addresses, or not at all.\<close>
theorem single_node_never_served:
  assumes "ds_pool s = Some (singleServerPool (Some c0))" "c0 < ds_next s" "all_new (ds_heap s c0) [node]"
    and "dc_router cfg = None" "\<forall>env \<in> set envs. range_ok env" "envs \<noteq> []"
  shows "\<exists>s'. discoveries cfg node envs s = Some s'
    \<and> ds_pool s' = Some (singleServerPool (Some (ds_next s)))
    \<and> node_of (ds_heap s' (ds_next s)) = node_of (createConnection cfg node)
    \<and> single_Next (ds_heap s') (Some (ds_next s)) = Inl ErrNoConnections
    \<and> checkStartedAt (ds_heap s' (ds_next s)) = None"
proof -
  obtain env rest where e: "envs = env # rest" using assms(6) by (cases envs) auto
  obtain s1 where s1: "nodeDiscovery cfg env [node] s = Some s1" "unserved cfg node (ds_next s) s1"
    using unserved_start [OF assms(1-4), of env] assms(5) e by auto
  obtain s' where "discoveries cfg node rest s1 = Some s'" "unserved cfg node (ds_next s) s'"
    using unserved_discoveries [OF s1(2) assms(4), of rest] assms(5) e by auto
  then show ?thesis using s1(1) by (auto simp: e unserved_def single_Next_def)
qed

definition expire :: "int \<Rightarrow> connection \<Rightarrow> connection" where
  "expire t x = (if seed x \<or> deadSinceIsZero x \<or> \<not> lc_has (lc_of x) lcViable \<or> t < deadSinceNano x then x else upd_lc 0 lcViable x)"

lemma expire_simps [simp]: "expire t (expire t x) = expire t x"
  by (simp add: expire_def bit_upd_lc bit_flags)

lemma expire_available:
  "availableForRouting (expire t x) \<longleftrightarrow> availableForRouting x \<and> (seed x \<or> deadSinceIsZero x \<or> t < deadSinceNano x)"
  by (auto simp: expire_def availableForRouting_def bit_upd_lc bit_flags) (auto simp: upd_lc_def)

text \<open>A connection that stays dead loses its claim to be tried as a last resort: after the reset, a
  connection of the dead list is available for routing exactly when it was so before and is a seed, is not marked dead, or
  has been dead for less than the configured time; nothing else changes, and nothing at all when the time is not
  positive or the pool has a single server.\<close>
theorem resetDeadConnViability_expires:
  assumes "ds_pool s = Some (multiPool p)" "0 < dc_verifyDeadAfter cfg"
  shows "ds_pool (resetDeadConnViability cfg env s) = ds_pool s
    \<and> (availableForRouting (ds_heap (resetDeadConnViability cfg env s) c) \<longleftrightarrow> availableForRouting (ds_heap s c)
      \<and> (c \<in> set (dead p) \<longrightarrow> seed (ds_heap s c) \<or> deadSinceIsZero (ds_heap s c)
           \<or> de_now env - dc_verifyDeadAfter cfg < deadSinceNano (ds_heap s c)))"
proof -
  let ?t = "de_now env - dc_verifyDeadAfter cfg"
  have step: "(if seed (h c) then h else if deadSinceIsZero (h c) \<or> \<not> lc_has (lc_of (h c)) lcViable then h
      else if time_after (loadDeadSince (h c)) (Some ?t) then h else h(c := upd_lc 0 lcViable (h c)))
    = h(c := expire ?t (h c))" for h :: conn_heap and c
    by (auto simp: expire_def deadSinceIsZero_def loadDeadSince_def nanoToTime_def time_after_def)
  have "fold (\<lambda>c h. h(c := expire ?t (h c))) cs h c = (if c \<in> set cs then expire ?t (h c) else h c)" for cs h
    by (induction cs arbitrary: h) auto
  then have "ds_heap (resetDeadConnViability cfg env s) c = (if c \<in> set (dead p) then expire ?t (ds_heap s c) else ds_heap s c)"
    using assms unfolding resetDeadConnViability_def Let_def step by (simp add: connectionsByState_def)
  then show ?thesis using assms by (auto simp: expire_available resetDeadConnViability_def)
qed

section \<open>Concrete discoveries\<close>

definition sample_discovery_config :: discovery_config where
  "sample_discovery_config = \<lparr>dc_router = None, dc_skipConnectionShuffle = False, dc_rttRingSize = 3, dc_activeListCap = 0,
     dc_activeListCapConfig = None, dc_standbyPromotionChecks = 1, dc_healthCheck = True, dc_verifyDeadAfter = 60\<rparr>"

definition discovered_node :: "string \<Rightarrow> nodeInfo" where
  "discovered_node n = \<lparr>node_ID = n, node_Name = n, node_url = ''http://'' @ n, node_Roles = [RoleData], node_OS = None,
     node_ThreadPool = [], node_roleSet = {}\<rparr>"

definition known_node :: "string \<Rightarrow> connection" where
  "known_node n = blank_connection\<lparr>URL := ''http://'' @ n, conn_ID := n, Name := n, Roles := newRoleSet [RoleData]\<rparr>"

definition two_nodes :: multiServerPool where
  "two_nodes = empty_pool\<lparr>ready := [2, 3], activeCount := 2, members := {2, 3}\<rparr>"

definition two_node_client :: discovery_state where
  "two_node_client = \<lparr>ds_sys = sample_sys\<lparr>sys_heap := (\<lambda>c. known_node (if c = 2 then ''a'' else ''b''))\<rparr>,
     ds_pool = Some (multiPool two_nodes), ds_next = 4, ds_checks = [], ds_serverMaxNewConnsPerSec = 32,
     ds_clientsPerServer = 8, ds_healthCheckRate = 1\<rparr>"

definition one_seed_client :: discovery_state where
  "one_seed_client = two_node_client\<lparr>ds_pool := Some (singleServerPool (Some 2)),
     ds_sys := sample_sys\<lparr>sys_heap := (\<lambda>c. (known_node ''a'')\<lparr>conn_ID := [], Name := [], seed := True\<rparr>)\<rparr>\<rparr>"

lemma known_node_up: "conn_up (known_node n)"
  by (simp add: known_node_def conn_up_def blank_connection_def lc_of_def lifecycle_newConnState bit_mask_iff bit_flags bit_and_iff)

lemma two_node_inv: "discovery_inv two_nodes two_node_client"
  using known_node_up
  by (auto simp: discovery_inv_def two_node_client_def two_nodes_def pool_inv_def ds_heap_def empty_pool_def inj_on_def)
    (simp_all add: known_node_def)

lemma seed_all_new: "all_new (ds_heap one_seed_client 2) [discovered_node ''a'']"
  "all_new (ds_heap one_seed_client 2) [discovered_node ''a'', discovered_node ''b'']"
  by (simp_all add: all_new_def one_seed_client_def ds_heap_def canReuseConnection_def discovered_node_def)

lemma seed_client: "ds_pool one_seed_client = Some (singleServerPool (Some 2))" "2 < ds_next one_seed_client" "ds_next one_seed_client = 4"
  by (simp_all add: one_seed_client_def two_node_client_def)

lemma sample_no_router: "dc_router sample_discovery_config = None" "0 < dc_verifyDeadAfter sample_discovery_config"
  by (simp_all add: sample_discovery_config_def)

theorem nodeDiscovery_converges_witness:
  "\<exists>s' p'. nodeDiscovery sample_discovery_config sample_discovery_env [discovered_node ''b'', discovered_node ''c''] two_node_client = Some s'
     \<and> discovery_inv p' s' \<and> (\<lambda>c. URL (ds_heap s' c)) ` members p' = {''http://b'', ''http://c''}"
proof -
  have "de_now sample_discovery_env \<noteq> 0" "distinct (map node_url [discovered_node ''b'', discovered_node ''c''])"
      "2 \<le> length [discovered_node ''b'', discovered_node ''c'']"
      "node_url ` set [discovered_node ''b'', discovered_node ''c''] = {''http://b'', ''http://c''}"
    by (simp_all add: sample_discovery_env_def discovered_node_def)
  then show ?thesis
    using nodeDiscovery_converges [OF two_node_inv sample_no_router(1) sample_range_ok, of "[discovered_node ''b'', discovered_node ''c'']"]
    by (metis (no_types, lifting))
qed

theorem promotion_strands_nodes_witness:
  "\<exists>s' p'. nodeDiscovery sample_discovery_config sample_discovery_env [discovered_node ''a'', discovered_node ''b''] one_seed_client = Some s'
     \<and> ds_pool s' = Some (multiPool p') \<and> ready p' = [] \<and> set (dead p') = {4, 5}
     \<and> fst (Next id (\<lambda>i. 0) 2000 True (leaf_world p' (ds_sys s'))) = Inl ErrNoConnections"
proof -
  have d: "distinct (map node_url [discovered_node ''a'', discovered_node ''b''])" "2 \<le> length [discovered_node ''a'', discovered_node ''b'']"
    by (simp_all add: discovered_node_def)
  have "{4..<4 + length [discovered_node ''a'', discovered_node ''b'']} = {4, 5}" by auto
  then show ?thesis
    using promotion_strands_nodes [OF seed_client(1,2) seed_all_new(2) sample_no_router(1) sample_range_ok d, of "\<lambda>i. 0" 2000 True]
    unfolding seed_client(3) by auto
qed

theorem demotion_ignores_discovery_witness:
  "\<exists>s'. nodeDiscovery sample_discovery_config sample_discovery_env [discovered_node ''b''] two_node_client = Some s'
     \<and> ds_pool s' = Some (singleServerPool (Some 2))"
proof -
  have "members two_nodes \<noteq> {}" "ready two_nodes = [2, 3]" by (simp_all add: two_nodes_def)
  then show ?thesis
    using demotion_ignores_discovery [OF two_node_inv sample_no_router(1) sample_range_ok, of "discovered_node ''b''"] by simp
qed

theorem single_node_never_served_witness:
  "\<exists>s'. discoveries sample_discovery_config (discovered_node ''a'') [sample_discovery_env, sample_discovery_env, sample_discovery_env]
       one_seed_client = Some s'
     \<and> ds_pool s' = Some (singleServerPool (Some 4)) \<and> single_Next (ds_heap s') (Some 4) = Inl ErrNoConnections
     \<and> checkStartedAt (ds_heap s' 4) = None"
  using single_node_never_served [OF seed_client(1,2) seed_all_new(1) sample_no_router(1),
      of "[sample_discovery_env, sample_discovery_env, sample_discovery_env]"] sample_range_ok
  unfolding seed_client(3) by auto

theorem resetDeadConnViability_expires_witness:
  "\<not> availableForRouting (ds_heap (resetDeadConnViability sample_discovery_config sample_discovery_env
       (two_node_client\<lparr>ds_pool := Some (multiPool (two_nodes\<lparr>ready := [2], dead := [3]\<rparr>)),
          ds_sys := sample_sys\<lparr>sys_heap := (\<lambda>c. (known_node ''b'')\<lparr>state := newConnState (lcUnknown OR lcViable), deadSinceNano := 5\<rparr>)\<rparr>\<rparr>)) 3)"
  using resetDeadConnViability_expires [OF _ sample_no_router(2), of "two_node_client\<lparr>ds_pool := Some (multiPool (two_nodes\<lparr>ready := [2], dead := [3]\<rparr>)),
          ds_sys := sample_sys\<lparr>sys_heap := (\<lambda>c. (known_node ''b'')\<lparr>state := newConnState (lcUnknown OR lcViable), deadSinceNano := 5\<rparr>)\<rparr>\<rparr>"
      "two_nodes\<lparr>ready := [2], dead := [3]\<rparr>" sample_discovery_env 3]
  by (simp add: ds_heap_def known_node_def blank_connection_def deadSinceIsZero_def sample_discovery_env_def sample_discovery_config_def)

end
