(* ===== verification/Spec2Isabelle.thy ===== *)
theory Spec2Isabelle
  imports Pool_Theorems Pool_Status Rendezvous Shard_Hash Policy_State Operation Route_Classify Leaf_Policy Http_Request Shard_Placement Scoring Pool_Router Policy_Tree Node_Stats Policy_Override Discovery
begin

text \<open>
  This development models the transport layer of the OpenSearch client for Go (\<^verbatim>\<open>opensearchtransport\<close>)
  and proves what its parts promise: the connections to the nodes of a cluster and the word that holds
  their state, the pools that hand connections to requests, the congestion control that watches the
  thread pools of the nodes, and the hashing that routes a request to the nodes that hold its data.

  \<^bold>\<open>The program.\<close> A client keeps one \<^verbatim>\<open>Connection\<close> per node. Its lifecycle flags and warmup counters are
  packed into one 64-bit word that goroutines update by compare-and-swap. Pools (\<^verbatim>\<open>multiServerPool\<close>) hold
  pointers to shared connections in a ready list, whose prefix is the active partition and whose rest is
  standby, and in a dead list. A request asks a pool for its next connection and reports success or
  failure; background goroutines check dead connections, rotate standby ones and enforce a cap. Routing
  chooses among the active connections by shard placement, round trip time, hash weight and congestion.

  \<^bold>\<open>Theories.\<close>
  \<^item> \<open>Prelude\<close>: lemmas on words and lists, shuffles, and the collections of rewrite rules.
  \<^item> \<open>Atomic_Cell\<close>: a compare-and-swap retry loop under interference, and the locale \<open>cas_loop\<close> of loops whose
    body keeps an invariant of the cell.
  \<^item> \<open>Conn_State\<close> (\<^verbatim>\<open>connection_lifecycle.go\<close>): flags, packing, \<^verbatim>\<open>casLifecycle\<close>. \<open>Warmup\<close>
    (\<^verbatim>\<open>connection_warmup.go\<close>): the warmup schedule. \<open>Rtt\<close> (\<^verbatim>\<open>duration.go\<close>, \<^verbatim>\<open>connection_rtt.go\<close>): buckets and the
    ring of measurements. \<open>Congestion\<close> (\<^verbatim>\<open>pool_congestion.go\<close>): windows per thread pool. \<open>Connection\<close>
    (\<^verbatim>\<open>connection.go\<close>): the connection record over these, and role sets.
  \<^item> \<open>Pool\<close>, \<open>Pool_Inv\<close>, \<open>Pool_Select\<close>, \<open>Pool_Standby\<close>, \<open>Pool_Status\<close> (\<^verbatim>\<open>pool_*.go\<close>): the operations of a pool on
    a world of one heap of connections and one pool; its invariant; selection; overload, standby rotation
    and resurrection; counts, warmup parameters and timeouts. \<open>Pool_Theorems\<close>: every interleaving of the locked
    sections that \<open>pool_step\<close> lists (selection, reports, overload, cap, rotation, promotion, resurrection, the
    fast path of \<^verbatim>\<open>checkDead\<close>) keeps the invariant, and what each report and the cap enforcement do. The health
    checks of \<^verbatim>\<open>checkDeadOne\<close> and writes to a shared connection by another pool are modelled but not among
    the steps: \<open>quiescing_loses_deadSince\<close> and the theorems after it show that they do not keep it.
  \<^item> \<open>Shard_Hash\<close> (\<^verbatim>\<open>shardhash\<close>, \<^verbatim>\<open>murmur3.go\<close>): Murmur3 over UTF-16 and shard numbers. \<open>Rendezvous\<close>
    (\<^verbatim>\<open>rendezvous_hash.go\<close>): slot selection as one sort. The references of the hash (\<open>utf8\<close>, \<open>utf16le\<close>,
    \<open>murmur3_ref\<close>) are written from the standards, apart from the code's own encoding.
  \<^item> \<open>Operation\<close> (\<^verbatim>\<open>operation.go\<close>): operation identifiers, their packing and their names. \<open>Route_Trie\<close>
    (\<^verbatim>\<open>policy_mux_trie.go\<close>): the trie of route patterns and its lookup, against a route list as the specification.
    \<open>Mux\<close> (\<^verbatim>\<open>policy_mux.go\<close>): patterns, routes and the construction of the multiplexer and the classifier.
    \<open>Route_Table\<close>, \<open>Route_Classify\<close> (\<^verbatim>\<open>router.go\<close>, \<^verbatim>\<open>classify.go\<close>): the default table row by row, and that each
    request of the shape of a row reaches the policy and gets the operation of that row.
  \<^item> \<open>Policy_State\<close> (\<^verbatim>\<open>policy_override_env.go\<close>): the state word that discovery and an operator's override share.
    \<open>Policy_Override\<close>: the variables that override policies, the paths of a tree, and what an override changes.
    \<open>Leaf_Policy\<close> (\<^verbatim>\<open>policy_role.go\<close>, \<^verbatim>\<open>policy_roundrobin.go\<close>, \<^verbatim>\<open>policy_cluster_coordinator.go\<close>): what a discovery
    cycle does to the pool of a policy; the locale \<open>settling\<close> is the contract of the step after an admission.
  \<^item> \<open>Go_Strings\<close>: the string functions of the Go library that the code calls. \<open>Http_Request\<close>
    (\<^verbatim>\<open>opensearchtransport.go\<close>): how a request is rewritten for a node, and the routing values in its query.
  \<^item> \<open>Shard_Placement\<close> (\<^verbatim>\<open>discovery.go\<close>, \<^verbatim>\<open>index_routing_cache.go\<close>): where the shards of an index are, and the cache of
    index slots. \<open>Scoring\<close> (\<^verbatim>\<open>shard_cost_config.go\<close>, \<^verbatim>\<open>shard_routing.go\<close>, \<^verbatim>\<open>policy_index_router.go\<close>): costs, scores and the
    selection of a connection. \<open>Pool_Router\<close> (\<^verbatim>\<open>policy_pool_router.go\<close>, \<^verbatim>\<open>policy_doc_router.go\<close>): the routers.
  \<^item> \<open>Policy_Tree\<close> (\<^verbatim>\<open>policy_chain.go\<close>, \<^verbatim>\<open>policy_ifenabled.go\<close>, \<^verbatim>\<open>policy_null.go\<close>, \<^verbatim>\<open>router.go\<close>): the tree of policies, what a
    request and a discovery cycle do to it, and the default policy.
  \<^item> \<open>Transport\<close> (\<^verbatim>\<open>opensearchtransport.go\<close>): a call from the first attempt to the seed fallback, with the answers of the
    network, what other goroutines do meanwhile and the end of the context as arguments; what a caller gets, how often and
    what is sent. \<open>Health_Check\<close> (\<^verbatim>\<open>opensearchtransport.go\<close>): the health checks, what they may write and the data they
    keep, and the retries. \<open>Node_Stats\<close> (\<^verbatim>\<open>cluster_health.go\<close>): the polls of statistics and of cluster health, composed
    with the pool and the congestion windows.
  \<^item> \<open>Discovery\<close> (\<^verbatim>\<open>discovery.go\<close>, \<^verbatim>\<open>opensearchtransport.go\<close>): from the reported nodes to the new pool. With several nodes
    before and after, a discovery keeps the pool invariant and leaves one connection for each address; the changes
    between one server and several do not, which \<open>promotion_strands_nodes\<close>, \<open>single_node_never_served\<close> and
    \<open>demotion_ignores_discovery\<close> state.
  \<^bold>\<open>Correspondence.\<close> A Go struct is a record with the fields the modelled code reads or writes; a pointer to
  a connection is a number (\<open>cid\<close>) and the heap maps numbers to records. A method under a lock is a function
  on the world; a method that releases its lock for network I/O is split there, and what other goroutines do
  meanwhile is a function argument (\<open>env\<close>). Atomic loops take the list of updates other goroutines make
  between the steps, and \<^verbatim>\<open>casLifecycle\<close> returns those still to come, so that a lost update is visible. Time, randomness, outcomes of network calls and \<^verbatim>\<open>slices.SortFunc\<close> are arguments, the
  last one with the locale \<open>sort_func\<close> as its contract. Goroutines that an operation starts are recorded in
  the pool (\<open>spawned\<close>) and appear as steps of their own in \<open>pool_step\<close>. Integers keep their width where they
  can wrap (\<open>64 word\<close>, \<open>32 word\<close>); counters that only grow by one per request or failure are unbounded.

  \<^bold>\<open>Loops.\<close> Loops over a list are structural recursion or bounded by its length, as in the code. The retry
  loops end because the interference they meet is a finite list. No definition uses fuel that can run out.

  \<^bold>\<open>Not modelled.\<close> Observer callbacks, metrics export, logging and string rendering; the network, the encoding of
  HTTP and JSON, whose results are arguments; the request for the node list, the resolution of addresses, the timer loop of discovery, the
  cache of name lookups, the parsing of the feature and cost settings; the floating point load counters; buffer pooling, which changes allocation only; the wrapper that cancels the timer of an attempt when the body of its response is closed; the generated API surface,
  the plugins, the signers and the code generator. Resurrection timeouts are exact real arithmetic instead
  of \<^verbatim>\<open>float64\<close>.
\<close>

end
